(* ===== verification/Fibr_Prelude.thy ===== *)
theory Fibr_Prelude
  imports Complex_Main "HOL-Library.AList" "HOL-Library.Word"
begin

text \<open>
  Shared vocabulary of the development: names for Go's types, the Go map as an association
  list with its lookup, store, delete and length, the joining of errors, functional options,
  truncated integer division and 64-bit wrap-around, and the collections of facts that the
  component theories extend.

  \<^item> A point in time and a duration are integers counting nanoseconds, as in \<open>time.Duration\<close>;
    a \<open>time.Time\<close> that may be the zero value is an option, \<open>None\<close> for zero.
  \<^item> A Go string is a sequence of bytes, here a \<open>char list\<close>.
  \<^item> A fallible call returns a sum, \<open>Inl\<close> the error and \<open>Inr\<close> the value.
\<close>

named_theorems go_defs \<open>unfolding equations of small Go helpers\<close>
named_theorems inv_intros \<open>operations that keep a component invariant\<close>

type_synonym time = int
type_synonym duration = int

definition millisecond :: duration where "millisecond = 1000000"
definition second :: duration where "second = 1000 * millisecond"
definition minute :: duration where "minute = 60 * second"
definition hour :: duration where "hour = 60 * minute"

lemmas duration_units [go_defs] = hour_def minute_def second_def millisecond_def

section \<open>Go maps\<close>

text \<open>
  A Go map is an association list with distinct keys; the list order stands for the
  unspecified iteration order of \<open>range\<close>, so no statement may depend on it.
\<close>

type_synonym ('k, 'v) gomap = "('k \<times> 'v) list"

definition gm_get :: "('k, 'v) gomap \<Rightarrow> 'k \<Rightarrow> 'v option" where
  "gm_get m k = map_of m k"

definition gm_put :: "('k, 'v) gomap \<Rightarrow> 'k \<Rightarrow> 'v \<Rightarrow> ('k, 'v) gomap" where
  "gm_put m k v = AList.update k v m"

definition gm_del :: "('k, 'v) gomap \<Rightarrow> 'k \<Rightarrow> ('k, 'v) gomap" where
  "gm_del m k = AList.delete k m"

definition gm_len :: "('k, 'v) gomap \<Rightarrow> nat" where
  "gm_len m = length m"

definition gm_keys :: "('k, 'v) gomap \<Rightarrow> 'k list" where
  "gm_keys m = map fst m"

definition gm_ok :: "('k, 'v) gomap \<Rightarrow> bool" where
  "gm_ok m \<longleftrightarrow> distinct (map fst m)"

lemma gm_get_Nil [simp]: "gm_get [] k = None"
  by (simp add: gm_get_def)

lemma gm_get_Cons [simp]: "gm_get ((k', v) # m) k = (if k = k' then Some v else gm_get m k)"
  by (simp add: gm_get_def)

lemma gm_get_put [simp]: "gm_get (gm_put m k v) k' = (if k' = k then Some v else gm_get m k')"
  by (simp add: gm_get_def gm_put_def update_conv')

lemma gm_get_del [simp]: "gm_get (gm_del m k) k' = (if k' = k then None else gm_get m k')"
  by (simp add: gm_get_def gm_del_def delete_conv')

lemma gm_ok_Nil [simp]: "gm_ok []"
  by (simp add: gm_ok_def)

lemma gm_ok_put [simp, intro]: "gm_ok m \<Longrightarrow> gm_ok (gm_put m k v)"
  by (simp add: gm_ok_def gm_put_def distinct_update)

lemma gm_ok_del [simp, intro]: "gm_ok m \<Longrightarrow> gm_ok (gm_del m k)"
  by (simp add: gm_ok_def gm_del_def distinct_delete)

lemma gm_get_keys: "gm_get m k = None \<longleftrightarrow> k \<notin> set (gm_keys m)"
  by (simp add: gm_get_def gm_keys_def map_of_eq_None_iff)

lemma gm_keys_get: "k \<in> set (gm_keys m) \<longleftrightarrow> (\<exists>v. gm_get m k = Some v)"
  using gm_get_keys [of m k] by auto

lemma gm_len_keys: "gm_ok m \<Longrightarrow> gm_len m = card (set (gm_keys m))"
  using distinct_card [of "map fst m"] by (simp add: gm_len_def gm_ok_def gm_keys_def)

lemma gm_keys_put [simp]: "set (gm_keys (gm_put m k v)) = insert k (set (gm_keys m))"
  by (simp add: gm_keys_def gm_put_def dom_update)

lemma gm_keys_del [simp]: "set (gm_keys (gm_del m k)) = set (gm_keys m) - {k}"
  by (simp add: gm_keys_def gm_del_def delete_keys)

lemma gm_distinct_keys: "gm_ok m \<Longrightarrow> distinct (gm_keys m)"
  by (simp add: gm_ok_def gm_keys_def)

lemma gm_len_0: "gm_len m = 0 \<longleftrightarrow> m = []"
  by (simp add: gm_len_def)

section \<open>Errors\<close>

text \<open>\<open>errors.Join\<close>: nil when every argument is nil, otherwise the list of the errors.\<close>

definition errors_Join :: "'e list \<Rightarrow> 'e list option" where
  "errors_Join es = (if es = [] then None else Some es)"

lemma errors_Join_None [simp]: "errors_Join es = None \<longleftrightarrow> es = []"
  by (simp add: errors_Join_def)

lemma errors_Join_Some [simp]: "errors_Join es = Some fs \<longleftrightarrow> es \<noteq> [] \<and> fs = es"
  by (auto simp: errors_Join_def)

fun collect_errs :: "('a \<Rightarrow> 'e option) \<Rightarrow> 'a list \<Rightarrow> 'e list" where
  "collect_errs f [] = []"
| "collect_errs f (x # xs) = (case f x of None \<Rightarrow> [] | Some e \<Rightarrow> [e]) @ collect_errs f xs"

lemma collect_errs_Nil: "collect_errs f xs = [] \<longleftrightarrow> (\<forall>x\<in>set xs. f x = None)"
  by (induction xs) (auto split: option.splits)

lemma collect_errs_append [simp]: "collect_errs f (xs @ ys) = collect_errs f xs @ collect_errs f ys"
  by (induction xs) auto

lemma set_collect_errs: "set (collect_errs f xs) = {e. \<exists>x\<in>set xs. f x = Some e}"
  by (induction xs) (auto split: option.splits)

section \<open>Functional options\<close>

text \<open>The loop \<open>for _, o := range opts { o(&cfg) }\<close> that every constructor runs.\<close>

definition apply_opts :: "('o \<Rightarrow> 'c \<Rightarrow> 'c) \<Rightarrow> 'o list \<Rightarrow> 'c \<Rightarrow> 'c" where
  "apply_opts f opts c = fold f opts c"

lemma apply_opts_Nil [simp]: "apply_opts f [] c = c"
  by (simp add: apply_opts_def)

lemma apply_opts_Cons [simp]: "apply_opts f (p # ps) c = apply_opts f ps (f p c)"
  by (simp add: apply_opts_def)

lemma apply_opts_inv:
  "P c \<Longrightarrow> (\<And>x c. x \<in> set ps \<Longrightarrow> P c \<Longrightarrow> P (f x c)) \<Longrightarrow> P (apply_opts f ps c)"
  by (induction ps arbitrary: c) auto

section \<open>Integers\<close>

text \<open>Go's \<open>/\<close> and \<open>%\<close> on signed integers truncate towards zero.\<close>

definition go_div :: "int \<Rightarrow> int \<Rightarrow> int" where
  "go_div a b = sgn a * sgn b * (\<bar>a\<bar> div \<bar>b\<bar>)"

definition go_mod :: "int \<Rightarrow> int \<Rightarrow> int" where
  "go_mod a b = a - b * go_div a b"

lemma go_div_nonneg: "0 \<le> a \<Longrightarrow> 0 < b \<Longrightarrow> go_div a b = a div b"
  by (cases "a = 0") (simp_all add: go_div_def)

lemma go_mod_nonneg: "0 \<le> a \<Longrightarrow> 0 < b \<Longrightarrow> go_mod a b = a mod b"
  by (simp add: go_mod_def go_div_nonneg minus_mult_div_eq_mod)

definition int64_min :: int where "int64_min = - (2 ^ 63)"
definition int64_max :: int where "int64_max = 2 ^ 63 - 1"

definition wrap64 :: "int \<Rightarrow> int" where
  "wrap64 x = (x + 2 ^ 63) mod 2 ^ 64 - 2 ^ 63"

lemma wrap64_range: "int64_min \<le> wrap64 x" "wrap64 x \<le> int64_max"
  by (simp_all add: wrap64_def int64_min_def int64_max_def)

lemma wrap64_id: "int64_min \<le> x \<Longrightarrow> x \<le> int64_max \<Longrightarrow> wrap64 x = x"
  by (simp add: wrap64_def int64_min_def int64_max_def)

text \<open>
  The conversion of a floating-point value to an integer truncates towards zero. Floating-point
  values are exact rationals in this development.
\<close>

definition trunc_rat :: "rat \<Rightarrow> int" where
  "trunc_rat r = (if r \<ge> 0 then \<lfloor>r\<rfloor> else \<lceil>r\<rceil>)"

lemma trunc_rat_mono: "a \<le> b \<Longrightarrow> trunc_rat a \<le> trunc_rat b"
proof -
  assume ab: "a \<le> b"
  have "\<lceil>a\<rceil> \<le> \<lfloor>b\<rfloor>" if "a < 0" "0 \<le> b"
  proof -
    have "\<lceil>a\<rceil> \<le> 0" using that by (simp add: ceiling_le_zero)
    also have "0 \<le> \<lfloor>b\<rfloor>" using that by simp
    finally show ?thesis .
  qed
  then show ?thesis
    using ab floor_mono [OF ab] ceiling_mono [OF ab] by (auto simp: trunc_rat_def)
qed

lemma trunc_rat_of_int [simp]: "trunc_rat (of_int n) = n"
  by (simp add: trunc_rat_def)

end
