(* ===== verification/Cache.thy ===== *)
theory Cache
  imports Fibr_Prelude
begin

text \<open>
  The in-process cache of \<open>src/cache/cache.go\<close>: TTL, least-recently-used eviction and the
  load path. Entries are shared by pointer between the key map \<open>items\<close> and the recency list
  \<open>lru\<close> (front is the most recently used), so the model keeps an explicit store \<open>heap\<close> of
  entries. The clock readings \<open>c.now()\<close> are arguments. The abstract specification is a list
  of key, value and expiry in recency order; every operation refines its specification.
\<close>

section \<open>State and operations\<close>

record cache_config =
  cfg_maxSize :: int
  cfg_defaultTTL :: duration
  cfg_janitor :: duration

datatype cache_option =
    WithMaxSize int
  | WithDefaultTTL duration
  | WithJanitor duration

fun cache_opt :: "cache_option \<Rightarrow> cache_config \<Rightarrow> cache_config" where
  "cache_opt (WithMaxSize n) c = c\<lparr>cfg_maxSize := n\<rparr>"
| "cache_opt (WithDefaultTTL d) c = c\<lparr>cfg_defaultTTL := d\<rparr>"
| "cache_opt (WithJanitor d) c = c\<lparr>cfg_janitor := d\<rparr>"

type_synonym ptr = nat

record 'v entry =
  e_key :: string
  e_value :: 'v
  e_expiresAt :: "time option"

record 'v cache =
  items :: "(string, ptr) gomap"
  lru :: "ptr list"
  heap :: "ptr \<Rightarrow> 'v entry option"
  fresh :: ptr
  maxSize :: int
  defaultTTL :: duration
  janitor :: "bool option"  \<comment> \<open>the stop channel: \<open>None\<close> nil, \<open>Some True\<close> closed\<close>

definition cache_New :: "cache_option list \<Rightarrow> 'v cache" where
  "cache_New opts =
     (let cfg = apply_opts cache_opt opts
                  \<lparr>cfg_maxSize = 0, cfg_defaultTTL = 0, cfg_janitor = 0\<rparr>
      in \<lparr>items = [], lru = [], heap = (\<lambda>_. None), fresh = 0,
          maxSize = cfg_maxSize cfg, defaultTTL = cfg_defaultTTL cfg,
          janitor = (if cfg_janitor cfg > 0 then Some False else None)\<rparr>)"

text \<open>\<open>expired\<close>: a non-zero expiry that the clock has reached.\<close>

definition entry_expired :: "time \<Rightarrow> 'v entry \<Rightarrow> bool" where
  "entry_expired now e = (case e_expiresAt e of None \<Rightarrow> False | Some t \<Rightarrow> \<not> now < t)"

text \<open>\<open>container/list\<close>: \<open>MoveToFront\<close>, \<open>Remove\<close> and \<open>PushFront\<close> on the recency list.\<close>

definition move_to_front :: "ptr \<Rightarrow> ptr list \<Rightarrow> ptr list" where
  "move_to_front p xs = (if p \<in> set xs then p # remove1 p xs else xs)"

definition cache_removeLocked :: "ptr \<Rightarrow> 'v cache \<Rightarrow> 'v cache" where
  "cache_removeLocked p c =
     (case heap c p of
        None \<Rightarrow> c
      | Some e \<Rightarrow> c\<lparr>lru := remove1 p (lru c), items := gm_del (items c) (e_key e)\<rparr>)"

definition cache_evictOldest :: "'v cache \<Rightarrow> 'v cache" where
  "cache_evictOldest c = (if lru c = [] then c else cache_removeLocked (last (lru c)) c)"

definition cache_Get :: "time \<Rightarrow> string \<Rightarrow> 'v cache \<Rightarrow> 'v option \<times> 'v cache" where
  "cache_Get now key c =
     (case gm_get (items c) key of
        None \<Rightarrow> (None, c)
      | Some p \<Rightarrow>
          (case heap c p of
             None \<Rightarrow> (None, c)
           | Some e \<Rightarrow>
               if entry_expired now e then (None, cache_removeLocked p c)
               else (Some (e_value e), c\<lparr>lru := move_to_front p (lru c)\<rparr>)))"

definition cache_setLocked :: "time \<Rightarrow> string \<Rightarrow> 'v \<Rightarrow> duration \<Rightarrow> 'v cache \<Rightarrow> 'v cache" where
  "cache_setLocked now key val ttl c =
     (let xp = (if ttl > 0 then Some (now + ttl) else None)
      in case gm_get (items c) key of
           Some p \<Rightarrow>
             c\<lparr>heap := (heap c)(p := map_option
                   (\<lambda>e. e\<lparr>e_value := val, e_expiresAt := xp\<rparr>) (heap c p)),
               lru := move_to_front p (lru c)\<rparr>
         | None \<Rightarrow>
             let p = fresh c;
                 c' = c\<lparr>heap := (heap c)(p \<mapsto> \<lparr>e_key = key, e_value = val, e_expiresAt = xp\<rparr>),
                        lru := p # lru c, items := gm_put (items c) key p, fresh := Suc p\<rparr>
             in if maxSize c' > 0 \<and> int (length (lru c')) > maxSize c'
                then cache_evictOldest c' else c')"

definition cache_SetTTL :: "time \<Rightarrow> string \<Rightarrow> 'v \<Rightarrow> duration \<Rightarrow> 'v cache \<Rightarrow> 'v cache" where
  "cache_SetTTL now key val ttl c = cache_setLocked now key val ttl c"

definition cache_Set :: "time \<Rightarrow> string \<Rightarrow> 'v \<Rightarrow> 'v cache \<Rightarrow> 'v cache" where
  "cache_Set now key val c = cache_SetTTL now key val (defaultTTL c) c"

definition cache_Delete :: "string \<Rightarrow> 'v cache \<Rightarrow> 'v cache" where
  "cache_Delete key c =
     (case gm_get (items c) key of None \<Rightarrow> c | Some p \<Rightarrow> cache_removeLocked p c)"

definition cache_Len :: "'v cache \<Rightarrow> nat" where
  "cache_Len c = gm_len (items c)"

text \<open>
  \<open>sweep\<close> ranges over the map while deleting from it; \<open>order\<close> is the order in which the
  runtime visits the keys.
\<close>

definition cache_sweep_key :: "time \<Rightarrow> string \<Rightarrow> 'v cache \<Rightarrow> 'v cache" where
  "cache_sweep_key now k c =
     (case gm_get (items c) k of
        None \<Rightarrow> c
      | Some p \<Rightarrow>
          (case heap c p of
             None \<Rightarrow> c
           | Some e \<Rightarrow> if entry_expired now e then cache_removeLocked p c else c))"

definition cache_sweep :: "time \<Rightarrow> string list \<Rightarrow> 'v cache \<Rightarrow> 'v cache" where
  "cache_sweep now order c = fold (cache_sweep_key now) order c"

definition cache_Close :: "'v cache \<Rightarrow> 'v cache" where
  "cache_Close c = (case janitor c of None \<Rightarrow> c | Some _ \<Rightarrow> c\<lparr>janitor := Some True\<rparr>)"

text \<open>
  One iteration of \<open>runJanitor\<close>: when the stop channel is closed and the tick is not chosen
  the loop returns; a tick sweeps.
\<close>

definition cache_janitor_tick :: "time \<Rightarrow> string list \<Rightarrow> 'v cache \<Rightarrow> 'v cache" where
  "cache_janitor_tick now order c =
     (case janitor c of None \<Rightarrow> c | Some _ \<Rightarrow> cache_sweep now order c)"

text \<open>
  \<open>GetOrLoad\<close>. The deduplicating \<open>singleflight.Group.Do\<close> is outside the repository: it is
  the parameter \<open>group_Do\<close>. The clock is read by the two lookups and by the store
  (\<open>t1\<close>, \<open>t2\<close>, \<open>t3\<close>).
\<close>

definition cache_load ::
  "time \<Rightarrow> time \<Rightarrow> string \<Rightarrow> ('e + 'v) \<Rightarrow> 'v cache \<Rightarrow> ('e + 'v) \<times> 'v cache" where
  "cache_load t2 t3 key loader c =
     (case cache_Get t2 key c of
        (Some v, c1) \<Rightarrow> (Inr v, c1)
      | (None, c1) \<Rightarrow>
          (case loader of
             Inl e \<Rightarrow> (Inl e, c1)
           | Inr val \<Rightarrow> (Inr val, cache_Set t3 key val c1)))"

definition cache_GetOrLoad ::
  "(string \<Rightarrow> ('v cache \<Rightarrow> ('e + 'v) \<times> 'v cache) \<Rightarrow> 'v cache \<Rightarrow> ('e + 'v) \<times> 'v cache)
   \<Rightarrow> time \<Rightarrow> time \<Rightarrow> time \<Rightarrow> string \<Rightarrow> ('e + 'v) \<Rightarrow> 'v cache \<Rightarrow> ('e + 'v) \<times> 'v cache" where
  "cache_GetOrLoad group_Do t1 t2 t3 key loader c =
     (case cache_Get t1 key c of
        (Some v, c1) \<Rightarrow> (Inr v, c1)
      | (None, c1) \<Rightarrow> group_Do key (cache_load t2 t3 key loader) c1)"

section \<open>Well-formedness\<close>

text \<open>
  The key map and the recency list hold the same live entries, each entry is stored under its
  own key, pointers beyond \<open>fresh\<close> are unused, and the size bound holds when it is positive.
\<close>

definition cache_inv :: "'v cache \<Rightarrow> bool" where
  "cache_inv c \<longleftrightarrow>
     gm_ok (items c) \<and> distinct (lru c) \<and>
     (\<forall>k p. gm_get (items c) k = Some p \<longleftrightarrow> p \<in> set (lru c) \<and> map_option e_key (heap c p) = Some k) \<and>
     (\<forall>p\<in>set (lru c). heap c p \<noteq> None) \<and>
     (\<forall>p. p \<ge> fresh c \<longrightarrow> p \<notin> set (lru c)) \<and>
     (maxSize c > 0 \<longrightarrow> int (length (lru c)) \<le> maxSize c)"

inductive cache_step :: "'v cache \<Rightarrow> 'v cache \<Rightarrow> bool" where
  Get: "cache_step c (snd (cache_Get now k c))"
| Set: "cache_step c (cache_Set now k v c)"
| SetTTL: "cache_step c (cache_SetTTL now k v ttl c)"
| Delete: "cache_step c (cache_Delete k c)"
| Tick: "cache_step c (cache_janitor_tick now order c)"
| Close: "cache_step c (cache_Close c)"

inductive cache_reach :: "'v cache \<Rightarrow> bool" where
  New: "cache_reach (cache_New opts)"
| Step: "cache_reach c \<Longrightarrow> cache_step c c' \<Longrightarrow> cache_reach c'"

inductive_cases cache_stepE: "cache_step c c'"

section \<open>The invariant is kept\<close>

lemma cache_invD:
  assumes "cache_inv c"
  shows "gm_ok (items c)" "distinct (lru c)"
    "gm_get (items c) k = Some p \<longleftrightarrow> p \<in> set (lru c) \<and> map_option e_key (heap c p) = Some k"
    "p \<in> set (lru c) \<Longrightarrow> heap c p \<noteq> None"
    "p \<ge> fresh c \<Longrightarrow> p \<notin> set (lru c)"
    "maxSize c > 0 \<Longrightarrow> int (length (lru c)) \<le> maxSize c"
  using assms by (auto simp: cache_inv_def)

lemma cache_inv_key:
  assumes "cache_inv c" "p \<in> set (lru c)" "heap c p = Some e"
  shows "gm_get (items c) (e_key e) = Some p"
  using assms by (simp add: cache_invD(3))

lemma cache_inv_get:
  assumes "cache_inv c" "gm_get (items c) k = Some p"
  obtains e where "heap c p = Some e" "e_key e = k" "p \<in> set (lru c)"
  using assms by (auto simp: cache_invD(3))

lemma cache_New_inv [inv_intros]: "cache_inv (cache_New opts)"
  by (simp add: cache_inv_def cache_New_def Let_def)

lemma set_move_to_front [simp]: "distinct xs \<Longrightarrow> set (move_to_front p xs) = set xs"
  by (auto simp: move_to_front_def)

lemma distinct_move_to_front [simp]: "distinct xs \<Longrightarrow> distinct (move_to_front p xs)"
  by (simp add: move_to_front_def)

lemma length_move_to_front [simp]: "length (move_to_front p xs) = length xs"
  by (auto simp: move_to_front_def length_remove1 split: if_splits dest: length_pos_if_in_set)

lemma cache_touch_inv [inv_intros]:
  "cache_inv c \<Longrightarrow> cache_inv (c\<lparr>lru := move_to_front p (lru c)\<rparr>)"
  by (simp add: cache_inv_def)

lemma cache_removeLocked_inv [inv_intros]:
  assumes "cache_inv c" "p \<in> set (lru c)"
  shows "cache_inv (cache_removeLocked p c)"
proof -
  obtain e where e: "heap c p = Some e"
    using assms by (auto dest: cache_invD(4))
  have get: "gm_get (items c) k = Some q \<longleftrightarrow> q \<in> set (lru c) \<and> map_option e_key (heap c q) = Some k" for k q
    using assms(1) by (rule cache_invD(3))
  have own: "gm_get (items c) (e_key e) = Some p"
    using assms e by (simp add: get)
  have len: "maxSize c > 0 \<Longrightarrow> int (length (lru c) - Suc 0) \<le> maxSize c"
    using cache_invD(6) [OF assms(1)] by linarith
  have keys: "gm_get (items (cache_removeLocked p c)) k = Some q \<longleftrightarrow>
        q \<in> set (remove1 p (lru c)) \<and> map_option e_key (heap c q) = Some k" for k q
  proof (cases "k = e_key e")
    case True
    have "q = p" if "q \<in> set (lru c)" "map_option e_key (heap c q) = Some k"
      using that own get [of k q] True by simp
    then show ?thesis
      using True e cache_invD(2) [OF assms(1)] by (auto simp: cache_removeLocked_def)
  next
    case False
    then show ?thesis
      using e get [of k q] cache_invD(2) [OF assms(1)] by (auto simp: cache_removeLocked_def)
  qed
  show ?thesis
    using assms(1) e len keys
    by (simp add: cache_inv_def cache_removeLocked_def length_remove1)
qed

lemma cache_evictOldest_inv [inv_intros]: "cache_inv c \<Longrightarrow> cache_inv (cache_evictOldest c)"
  by (simp add: cache_evictOldest_def cache_removeLocked_inv)

lemma cache_Get_inv [inv_intros]: "cache_inv c \<Longrightarrow> cache_inv (snd (cache_Get now k c))"
  by (auto simp: cache_Get_def inv_intros cache_invD(3) split: option.splits)

lemma cache_update_inv:
  assumes "cache_inv c"
  shows "cache_inv (c\<lparr>heap := (heap c)(p := map_option
           (\<lambda>e. e\<lparr>e_value := v, e_expiresAt := x\<rparr>) (heap c p)), lru := move_to_front p (lru c)\<rparr>)"
proof -
  have "map_option e_key (((heap c)(p := map_option
           (\<lambda>e. e\<lparr>e_value := v, e_expiresAt := x\<rparr>) (heap c p))) q) = map_option e_key (heap c q)" for q
    by (simp add: option.map_comp o_def)
  then show ?thesis
    using assms by (auto simp: cache_inv_def)
qed

text \<open>Inserting a fresh entry keeps everything but the size bound, which may be exceeded by one.\<close>

definition cache_insert :: "string \<Rightarrow> 'v \<Rightarrow> time option \<Rightarrow> 'v cache \<Rightarrow> 'v cache" where
  "cache_insert key val xp c =
     c\<lparr>heap := (heap c)(fresh c \<mapsto> \<lparr>e_key = key, e_value = val, e_expiresAt = xp\<rparr>),
       lru := fresh c # lru c, items := gm_put (items c) key (fresh c), fresh := Suc (fresh c)\<rparr>"

lemma cache_insert_inv:
  assumes c: "cache_inv c" and new: "gm_get (items c) k = None"
  shows "cache_inv (cache_insert k v x c\<lparr>maxSize := 0\<rparr>)"
proof -
  have fresh: "fresh c \<notin> set (lru c)"
    using c by (simp add: cache_invD(5))
  have keys: "gm_get (items (cache_insert k v x c)) k' = Some q \<longleftrightarrow>
       q \<in> set (lru (cache_insert k v x c)) \<and> map_option e_key (heap (cache_insert k v x c) q) = Some k'" for k' q
    using new fresh cache_invD(3) [OF c, of k' q] cache_invD(3) [OF c, of k q]
    by (auto simp: cache_insert_def)
  have bound: "\<forall>p. Suc (fresh c) \<le> p \<longrightarrow> p \<noteq> fresh c \<and> p \<notin> set (lru c)"
    using cache_invD(5) [OF c] by (metis Suc_leD not_less_eq_eq order_refl)
  show ?thesis
    using c keys fresh bound
    by (auto simp: cache_inv_def cache_insert_def)
qed

lemma cache_insert_evict_inv:
  assumes c: "cache_inv c" and new: "gm_get (items c) k = None"
    and big: "maxSize c > 0" "int (length (lru (cache_insert k v x c))) > maxSize c"
  shows "cache_inv (cache_evictOldest (cache_insert k v x c))"
proof -
  let ?d = "cache_insert k v x c"
  have nz: "cache_inv (?d\<lparr>maxSize := 0\<rparr>)"
    by (rule cache_insert_inv [OF c new])
  have ne: "lru ?d \<noteq> []" by (simp add: cache_insert_def)
  then have last: "last (lru ?d) \<in> set (lru ?d)" by simp
  then obtain e where e: "heap ?d (last (lru ?d)) = Some e"
    using nz cache_invD(4) [OF nz, of "last (lru ?d)"] by auto
  have "cache_inv (cache_evictOldest (?d\<lparr>maxSize := 0\<rparr>))"
    by (rule cache_evictOldest_inv [OF nz])
  moreover have "length (remove1 (last (lru ?d)) (lru ?d)) = length (lru c)"
    using last by (simp add: length_remove1 cache_insert_def)
  ultimately show ?thesis
    using ne e c
    by (simp add: cache_inv_def cache_evictOldest_def cache_removeLocked_def cache_insert_def)
qed

lemma cache_setLocked_insert:
  "gm_get (items c) k = None \<Longrightarrow> cache_setLocked now k v ttl c =
     (let d = cache_insert k v (if ttl > 0 then Some (now + ttl) else None) c
      in if maxSize c > 0 \<and> int (length (lru d)) > maxSize c then cache_evictOldest d else d)"
  by (simp add: cache_setLocked_def cache_insert_def Let_def)

lemma cache_setLocked_inv [inv_intros]:
  assumes c: "cache_inv c"
  shows "cache_inv (cache_setLocked now k v ttl c)"
proof (cases "gm_get (items c) k")
  case None
  let ?d = "cache_insert k v (if ttl > 0 then Some (now + ttl) else None) c"
  show ?thesis
  proof (cases "maxSize c > 0 \<and> int (length (lru ?d)) > maxSize c")
    case True
    with None c show ?thesis
      by (simp add: cache_setLocked_insert cache_insert_evict_inv Let_def)
  next
    case False
    with cache_insert_inv [OF c None] have "cache_inv ?d"
      by (auto simp: cache_inv_def cache_insert_def)
    moreover have "cache_setLocked now k v ttl c = ?d"
      using None False by (auto simp: cache_setLocked_insert Let_def)
    ultimately show ?thesis by simp
  qed
next
  case (Some p)
  then show ?thesis
    using cache_update_inv [OF c] by (simp add: cache_setLocked_def Let_def)
qed

lemma cache_Set_inv [inv_intros]:
  "cache_inv c \<Longrightarrow> cache_inv (cache_SetTTL now k v ttl c)"
  "cache_inv c \<Longrightarrow> cache_inv (cache_Set now k v c)"
  by (simp_all add: cache_Set_def cache_SetTTL_def cache_setLocked_inv)

lemma cache_Delete_inv [inv_intros]: "cache_inv c \<Longrightarrow> cache_inv (cache_Delete k c)"
  by (auto simp: cache_Delete_def cache_removeLocked_inv cache_invD(3) split: option.splits)

lemma cache_sweep_key_inv [inv_intros]: "cache_inv c \<Longrightarrow> cache_inv (cache_sweep_key now k c)"
  by (auto simp: cache_sweep_key_def cache_removeLocked_inv cache_invD(3) split: option.splits)

lemma cache_sweep_inv [inv_intros]: "cache_inv c \<Longrightarrow> cache_inv (cache_sweep now order c)"
  by (induction order arbitrary: c) (simp_all add: cache_sweep_def cache_sweep_key_inv)

lemma cache_janitor_inv [inv_intros]:
  "cache_inv c \<Longrightarrow> cache_inv (cache_janitor_tick now order c)"
  "cache_inv c \<Longrightarrow> cache_inv (cache_Close c)"
  by (auto simp: cache_janitor_tick_def cache_Close_def cache_sweep_inv split: option.splits)
     (simp add: cache_inv_def)

lemma cache_step_inv: "cache_step c c' \<Longrightarrow> cache_inv c \<Longrightarrow> cache_inv c'"
  by (induction rule: cache_step.induct) (auto intro: inv_intros)

lemma cache_reach_inv: "cache_reach c \<Longrightarrow> cache_inv c"
  by (induction rule: cache_reach.induct) (auto intro: cache_New_inv cache_step_inv)

lemma cache_Len_lru:
  assumes "cache_inv c" shows "cache_Len c = length (lru c)"
proof -
  have k: "gm_get (items c) k = Some p \<longleftrightarrow> p \<in> set (lru c) \<and> map_option e_key (heap c p) = Some k" for k p
    using assms by (rule cache_invD(3))
  have h: "p \<in> set (lru c) \<Longrightarrow> heap c p \<noteq> None" for p
    using assms by (rule cache_invD(4))
  let ?key = "\<lambda>p. e_key (the (heap c p))"
  have "inj_on ?key (set (lru c))"
  proof (rule inj_onI)
    fix p q assume pq: "p \<in> set (lru c)" "q \<in> set (lru c)" "?key p = ?key q"
    then obtain e f where "heap c p = Some e" "heap c q = Some f"
      using h [of p] h [of q] by blast
    with pq k [of "?key p" p] k [of "?key p" q] show "p = q" by simp
  qed
  moreover have "set (gm_keys (items c)) = ?key ` set (lru c)"
  proof (intro set_eqI iffI)
    fix x assume "x \<in> set (gm_keys (items c))"
    then show "x \<in> ?key ` set (lru c)"
      using k by (force simp: gm_keys_get)
  next
    fix x assume "x \<in> ?key ` set (lru c)"
    then obtain p e where "p \<in> set (lru c)" "heap c p = Some e" "x = e_key e"
      using h by force
    with k [of x p] show "x \<in> set (gm_keys (items c))"
      by (simp add: gm_keys_get)
  qed
  ultimately show ?thesis
    using cache_invD(1,2) [OF assms]
    by (simp add: cache_Len_def gm_len_keys card_image distinct_card)
qed

section \<open>Refinement of the abstract recency list\<close>

type_synonym 'v lru_spec = "(string \<times> 'v \<times> time option) list"

definition spec_expired :: "time \<Rightarrow> time option \<Rightarrow> bool" where
  "spec_expired now x = (case x of None \<Rightarrow> False | Some t \<Rightarrow> t \<le> now)"

definition spec_drop :: "string \<Rightarrow> 'v lru_spec \<Rightarrow> 'v lru_spec" where
  "spec_drop k xs = filter (\<lambda>t. fst t \<noteq> k) xs"

definition spec_get :: "time \<Rightarrow> string \<Rightarrow> 'v lru_spec \<Rightarrow> 'v option \<times> 'v lru_spec" where
  "spec_get now k xs =
     (case map_of xs k of
        None \<Rightarrow> (None, xs)
      | Some (v, x) \<Rightarrow> if spec_expired now x then (None, spec_drop k xs)
                      else (Some v, (k, v, x) # spec_drop k xs))"

definition spec_set :: "int \<Rightarrow> string \<Rightarrow> 'v \<Rightarrow> time option \<Rightarrow> 'v lru_spec \<Rightarrow> 'v lru_spec" where
  "spec_set sz k v x xs =
     (let ys = (k, v, x) # spec_drop k xs
      in if sz > 0 \<and> int (length ys) > sz then butlast ys else ys)"

definition spec_delete :: "string \<Rightarrow> 'v lru_spec \<Rightarrow> 'v lru_spec" where
  "spec_delete k xs = spec_drop k xs"

definition cache_abs :: "'v cache \<Rightarrow> 'v lru_spec" where
  "cache_abs c = map (\<lambda>p. case the (heap c p) of e \<Rightarrow> (e_key e, e_value e, e_expiresAt e)) (lru c)"

lemma spec_drop_notin: "k \<notin> fst ` set xs \<Longrightarrow> spec_drop k xs = xs"
  by (force simp: spec_drop_def filter_id_conv)

lemma map_remove1_key:
  assumes "distinct xs" "p \<in> set xs" "\<And>q. q \<in> set xs \<Longrightarrow> fst (f q) = fst (f p) \<Longrightarrow> q = p"
  shows "map f (remove1 p xs) = spec_drop (fst (f p)) (map f xs)"
proof -
  have "filter (\<lambda>q. q \<noteq> p) xs = filter (\<lambda>q. fst (f q) \<noteq> fst (f p)) xs"
    using assms(3) by (intro filter_cong) auto
  then show ?thesis
    by (simp add: spec_drop_def filter_map o_def distinct_remove1_removeAll [OF assms(1)] removeAll_filter_not_eq eq_commute)
qed

lemma cache_key_unique:
  assumes "cache_inv c" "p \<in> set (lru c)" "q \<in> set (lru c)"
    "e_key (the (heap c q)) = e_key (the (heap c p))"
  shows "q = p"
proof -
  obtain e f where e: "heap c p = Some e" and f: "heap c q = Some f"
    using cache_invD(4) [OF assms(1) assms(2)] cache_invD(4) [OF assms(1) assms(3)] by blast
  then show ?thesis
    using assms cache_inv_key [OF assms(1,2) e] cache_inv_key [OF assms(1,3) f] by simp
qed

lemma cache_abs_drop:
  assumes "cache_inv c" "p \<in> set (lru c)"
  shows "map (\<lambda>p. case the (heap c p) of e \<Rightarrow> (e_key e, e_value e, e_expiresAt e)) (remove1 p (lru c))
       = spec_drop (e_key (the (heap c p))) (cache_abs c)"
  using map_remove1_key [of "lru c" p "\<lambda>p. case the (heap c p) of e \<Rightarrow> (e_key e, e_value e, e_expiresAt e)"]
    cache_key_unique [OF assms] cache_invD(2) [OF assms(1)] assms(2)
  by (simp add: cache_abs_def)

lemma cache_abs_mem:
  assumes "cache_inv c"
  shows "(k, v, x) \<in> set (cache_abs c) \<longleftrightarrow>
    (\<exists>p e. gm_get (items c) k = Some p \<and> heap c p = Some e \<and> e_value e = v \<and> e_expiresAt e = x)"
proof
  assume "(k, v, x) \<in> set (cache_abs c)"
  then obtain p where p: "p \<in> set (lru c)" "(k, v, x) = (case the (heap c p) of e \<Rightarrow> (e_key e, e_value e, e_expiresAt e))"
    by (auto simp: cache_abs_def)
  then obtain e where "heap c p = Some e" using assms by (auto dest: cache_invD(4))
  with p cache_inv_key [OF assms p(1) this] show "\<exists>p e. gm_get (items c) k = Some p \<and> heap c p = Some e \<and> e_value e = v \<and> e_expiresAt e = x"
    by auto
next
  assume "\<exists>p e. gm_get (items c) k = Some p \<and> heap c p = Some e \<and> e_value e = v \<and> e_expiresAt e = x"
  then obtain p e where "p \<in> set (lru c)" "heap c p = Some e" "e_key e = k" "e_value e = v" "e_expiresAt e = x"
    by (metis cache_inv_get [OF assms] option.inject)
  then show "(k, v, x) \<in> set (cache_abs c)"
    by (force simp: cache_abs_def)
qed

lemma cache_abs_distinct: "cache_inv c \<Longrightarrow> distinct (map fst (cache_abs c))"
  using cache_key_unique [of c] by (auto simp: cache_abs_def distinct_map inj_on_def cache_invD(2))

lemma cache_abs_lookup:
  assumes "cache_inv c"
  shows "map_of (cache_abs c) k =
    (case gm_get (items c) k of None \<Rightarrow> None
     | Some p \<Rightarrow> map_option (\<lambda>e. (e_value e, e_expiresAt e)) (heap c p))"
proof (cases "gm_get (items c) k")
  case None
  then have "k \<notin> fst ` set (cache_abs c)"
    using cache_abs_mem [OF assms, of k] by auto
  then show ?thesis using None by (simp add: map_of_eq_None_iff)
next
  case (Some p)
  then obtain e where "heap c p = Some e" using cache_inv_get [OF assms Some] by blast
  with Some show ?thesis
    using cache_abs_mem [OF assms, of k "e_value e" "e_expiresAt e"] cache_abs_distinct [OF assms]
    by (auto intro!: map_of_is_SomeI)
qed

lemma cache_removeLocked_abs:
  assumes "cache_inv c" "gm_get (items c) k = Some p"
  shows "cache_abs (cache_removeLocked p c) = spec_drop k (cache_abs c)"
proof -
  obtain e where e: "heap c p = Some e" "e_key e = k" "p \<in> set (lru c)"
    using cache_inv_get [OF assms] by blast
  then show ?thesis
    using cache_abs_drop [OF assms(1) e(3)] by (simp add: cache_removeLocked_def cache_abs_def)
qed

lemma entry_expired_spec: "entry_expired now e = spec_expired now (e_expiresAt e)"
  by (auto simp: entry_expired_def spec_expired_def split: option.splits)

lemma cache_touch_abs:
  assumes "cache_inv c" "gm_get (items c) k = Some p" "heap c p = Some e"
  shows "cache_abs (c\<lparr>lru := move_to_front p (lru c)\<rparr>) =
    (k, e_value e, e_expiresAt e) # spec_drop k (cache_abs c)"
proof -
  have "e_key e = k" "p \<in> set (lru c)"
    using cache_inv_get [OF assms(1,2)] assms(3) by auto
  then show ?thesis
    using cache_abs_drop [OF assms(1), of p] assms(3) by (simp add: cache_abs_def move_to_front_def)
qed

lemma cache_Get_abs:
  assumes "cache_inv c"
  shows "apsnd cache_abs (cache_Get now k c) = spec_get now k (cache_abs c)"
proof (cases "gm_get (items c) k")
  case None
  then show ?thesis using assms by (simp add: cache_Get_def spec_get_def cache_abs_lookup)
next
  case (Some p)
  then obtain e where e: "heap c p = Some e" using cache_inv_get [OF assms] by blast
  with Some show ?thesis
    using cache_removeLocked_abs [OF assms Some] cache_touch_abs [OF assms Some e]
    by (simp add: cache_Get_def spec_get_def cache_abs_lookup [OF assms] entry_expired_spec)
qed

lemma cache_update_abs:
  assumes "cache_inv c" "gm_get (items c) k = Some p"
  shows "cache_abs (c\<lparr>heap := (heap c)(p := map_option
           (\<lambda>e. e\<lparr>e_value := v, e_expiresAt := x\<rparr>) (heap c p)), lru := move_to_front p (lru c)\<rparr>) =
    (k, v, x) # spec_drop k (cache_abs c)"
proof -
  obtain e where e: "heap c p = Some e" "e_key e = k" "p \<in> set (lru c)"
    using cache_inv_get [OF assms] by blast
  have "p \<notin> set (remove1 p (lru c))"
    using cache_invD(2) [OF assms(1)] by simp
  then have "map (\<lambda>q. case the (((heap c)(p \<mapsto> e\<lparr>e_value := v, e_expiresAt := x\<rparr>)) q) of e \<Rightarrow> (e_key e, e_value e, e_expiresAt e)) (remove1 p (lru c))
     = map (\<lambda>q. case the (heap c q) of e \<Rightarrow> (e_key e, e_value e, e_expiresAt e)) (remove1 p (lru c))"
    by (intro map_cong) auto
  then show ?thesis
    using cache_abs_drop [OF assms(1) e(3)] e by (simp add: cache_abs_def move_to_front_def)
qed

lemma cache_insert_abs:
  assumes "cache_inv c"
  shows "cache_abs (cache_insert k v x c) = (k, v, x) # cache_abs c"
  using cache_invD(5) [OF assms, of "fresh c"]
  by (auto simp: cache_abs_def cache_insert_def)

lemma cache_evict_abs:
  assumes "distinct (lru c)" "lru c \<noteq> []" "heap c (last (lru c)) \<noteq> None"
  shows "cache_abs (cache_evictOldest c) = butlast (cache_abs c)"
proof -
  obtain ys y where l: "lru c = ys @ [y]" using assms(2) by (metis rev_exhaust)
  then have "remove1 y (lru c) = ys" using assms(1) by (simp add: remove1_append)
  with l assms(3) show ?thesis
    by (auto simp: cache_evictOldest_def cache_removeLocked_def cache_abs_def)
qed

lemma cache_setLocked_abs:
  assumes c: "cache_inv c"
  shows "cache_abs (cache_setLocked now k v ttl c) =
    spec_set (maxSize c) k v (if ttl > 0 then Some (now + ttl) else None) (cache_abs c)"
proof (cases "gm_get (items c) k")
  case None
  let ?x = "if ttl > 0 then Some (now + ttl) else None"
  let ?d = "cache_insert k v ?x c"
  have drop: "spec_drop k (cache_abs c) = cache_abs c"
    using cache_abs_lookup [OF c, of k] None by (simp add: spec_drop_notin map_of_eq_None_iff)
  have inv0: "cache_inv (?d\<lparr>maxSize := 0\<rparr>)" by (rule cache_insert_inv [OF c None])
  have "lru ?d \<noteq> []" by (simp add: cache_insert_def)
  moreover have "distinct (lru ?d)" using cache_invD(2) [OF inv0] by simp
  ultimately have ev: "cache_abs (cache_evictOldest ?d) = butlast (cache_abs ?d)"
    using cache_invD(4) [OF inv0, of "last (lru ?d)"] by (intro cache_evict_abs) simp_all
  have len: "length (lru ?d) = length (cache_abs ?d)" by (simp add: cache_abs_def)
  show ?thesis
    using None drop ev len cache_insert_abs [OF c]
    by (simp add: cache_setLocked_insert spec_set_def Let_def)
next
  case (Some p)
  then obtain e where e: "heap c p = Some e" "e_key e = k" "p \<in> set (lru c)"
    using cache_inv_get [OF c] by blast
  have "length (spec_drop k (cache_abs c)) = length (lru c) - 1"
    using arg_cong [OF cache_abs_drop [OF c e(3)], of length] e by (simp add: length_remove1)
  then have "maxSize c > 0 \<Longrightarrow> \<not> int (Suc (length (spec_drop k (cache_abs c)))) > maxSize c"
    using cache_invD(6) [OF c] length_pos_if_in_set [OF e(3)] by simp
  then have "spec_set (maxSize c) k v x (cache_abs c) = (k, v, x) # spec_drop k (cache_abs c)" for x
    by (auto simp: spec_set_def Let_def)
  then show ?thesis
    using Some cache_update_abs [OF c Some] by (simp add: cache_setLocked_def Let_def)
qed

lemma cache_Delete_abs:
  assumes "cache_inv c"
  shows "cache_abs (cache_Delete k c) = spec_delete k (cache_abs c)"
proof (cases "gm_get (items c) k")
  case None
  then have "k \<notin> fst ` set (cache_abs c)"
    using cache_abs_lookup [OF assms, of k] by (simp add: map_of_eq_None_iff)
  with None show ?thesis
    by (simp add: cache_Delete_def spec_delete_def spec_drop_notin)
next
  case (Some p)
  then show ?thesis
    using cache_removeLocked_abs [OF assms Some] by (simp add: cache_Delete_def spec_delete_def)
qed

lemma cache_sweep_key_abs:
  assumes "cache_inv c"
  shows "cache_abs (cache_sweep_key now k c) =
    filter (\<lambda>(k', v, x). \<not> (k' = k \<and> spec_expired now x)) (cache_abs c)"
proof -
  have uniq: "(k, v, x) \<in> set (cache_abs c) \<Longrightarrow> map_of (cache_abs c) k = Some (v, x)" for v x
    using cache_abs_distinct [OF assms] by (auto intro: map_of_is_SomeI)
  consider (miss) "map_of (cache_abs c) k = None" "cache_sweep_key now k c = c"
    | (keep) v x where "map_of (cache_abs c) k = Some (v, x)" "\<not> spec_expired now x"
        "cache_sweep_key now k c = c"
    | (drop) v x where "map_of (cache_abs c) k = Some (v, x)" "spec_expired now x"
        "cache_abs (cache_sweep_key now k c) = spec_drop k (cache_abs c)"
  proof (cases "gm_get (items c) k")
    case None
    then show ?thesis using that assms by (simp add: cache_abs_lookup cache_sweep_key_def)
  next
    case (Some p)
    then obtain e where "heap c p = Some e" using cache_inv_get [OF assms] by blast
    with Some show ?thesis
      using that cache_removeLocked_abs [OF assms Some]
      by (cases "entry_expired now e")
         (simp_all add: cache_abs_lookup [OF assms] cache_sweep_key_def entry_expired_spec)
  qed
  then show ?thesis
  proof cases
    case miss
    then show ?thesis using uniq by (auto simp: filter_id_conv intro!: sym [OF filter_True])
  next
    case keep
    then show ?thesis using uniq by (auto intro!: sym [OF filter_True])
  next
    case drop
    then show ?thesis using uniq by (auto simp: spec_drop_def intro!: filter_cong)
  qed
qed

lemma cache_sweep_abs:
  assumes "cache_inv c"
  shows "cache_abs (cache_sweep now order c) =
    filter (\<lambda>(k, v, x). \<not> (k \<in> set order \<and> spec_expired now x)) (cache_abs c)"
  using assms
proof (induction order arbitrary: c)
  case Nil
  then show ?case by (simp add: cache_sweep_def)
next
  case (Cons k order)
  have "cache_sweep now (k # order) c = cache_sweep now order (cache_sweep_key now k c)"
    by (simp add: cache_sweep_def)
  then show ?case
    using Cons.IH [OF cache_sweep_key_inv [OF Cons.prems]] cache_sweep_key_abs [OF Cons.prems]
    by (auto intro: filter_cong)
qed

lemma cache_abs_keys: "cache_inv c \<Longrightarrow> fst ` set (cache_abs c) = set (gm_keys (items c))"
proof (intro set_eqI)
  fix k assume "cache_inv c"
  then have "k \<in> fst ` set (cache_abs c) \<longleftrightarrow> map_of (cache_abs c) k \<noteq> None"
    by (simp add: map_of_eq_None_iff)
  also have "\<dots> \<longleftrightarrow> gm_get (items c) k \<noteq> None"
    using \<open>cache_inv c\<close> cache_abs_lookup [of c k]
    by (auto split: option.splits elim: cache_inv_get)
  finally show "k \<in> fst ` set (cache_abs c) \<longleftrightarrow> k \<in> set (gm_keys (items c))"
    by (simp add: gm_get_keys)
qed

section \<open>Properties\<close>

text \<open>
  C30. In every state the cache can reach from \<open>New\<close> by its operations, the key map and the
  recency list describe the same entries, \<open>Len\<close> counts them, and a positive \<open>WithMaxSize\<close>
  bounds the number of entries.
\<close>

theorem cache_bounded:
  assumes "cache_reach c"
  shows "cache_Len c = length (cache_abs c) \<and> set (gm_keys (items c)) = fst ` set (cache_abs c) \<and>
    distinct (map fst (cache_abs c)) \<and> (maxSize c > 0 \<longrightarrow> int (cache_Len c) \<le> maxSize c)"
  using cache_reach_inv [OF assms]
  by (simp add: cache_Len_lru cache_abs_keys cache_abs_distinct cache_invD(6))
     (simp add: cache_abs_def)

lemma cache_example_reach:
  "cache_reach (cache_Set 7 ''b'' 2 (cache_Set 5 ''a'' (1::nat) (cache_New [WithMaxSize 1])))"
  by (intro cache_reach.Step [OF _ cache_step.Set] cache_reach.New)

theorem cache_bounded_witness:
  "cache_Len (cache_Set 7 ''b'' 2 (cache_Set 5 ''a'' (1::nat) (cache_New [WithMaxSize 1]))) = 1 \<and>
   int (cache_Len (cache_Set 7 ''b'' 2 (cache_Set 5 ''a'' (1::nat) (cache_New [WithMaxSize 1])))) \<le> 1"
proof -
  have "maxSize (cache_Set 7 ''b'' 2 (cache_Set 5 ''a'' (1::nat) (cache_New [WithMaxSize 1]))) = 1"
    by code_simp
  moreover have "cache_Len (cache_Set 7 ''b'' 2 (cache_Set 5 ''a'' (1::nat) (cache_New [WithMaxSize 1]))) = 1"
    by code_simp
  ultimately show ?thesis
    using cache_bounded [OF cache_example_reach] by simp
qed

text \<open>
  C2. Every operation of a reachable cache refines its abstract recency-list specification:
  \<open>Get\<close> returns the unexpired value and moves the entry to the front (an expired entry is
  dropped), \<open>SetTTL\<close> puts the entry at the front and evicts the least recently used one when
  the bound is exceeded, \<open>Delete\<close> drops the key.
\<close>

theorem cache_refines_spec:
  assumes "cache_reach c"
  shows "apsnd cache_abs (cache_Get now k c) = spec_get now k (cache_abs c) \<and>
    cache_abs (cache_SetTTL now k v ttl c) =
      spec_set (maxSize c) k v (if ttl > 0 then Some (now + ttl) else None) (cache_abs c) \<and>
    cache_abs (cache_Delete k c) = spec_delete k (cache_abs c)"
  using cache_reach_inv [OF assms]
  by (simp add: cache_Get_abs cache_SetTTL_def cache_setLocked_abs cache_Delete_abs)

theorem cache_refines_spec_witness:
  "cache_abs (cache_SetTTL 9 ''c'' 3 10
     (cache_Set 7 ''b'' 2 (cache_Set 5 ''a'' (1::nat) (cache_New [WithMaxSize 1])))) = [(''c'', 3, Some 19)]"
proof -
  have "cache_abs (cache_Set 7 ''b'' 2 (cache_Set 5 ''a'' (1::nat) (cache_New [WithMaxSize 1]))) = [(''b'', 2, None)]"
    by code_simp
  moreover have "maxSize (cache_Set 7 ''b'' 2 (cache_Set 5 ''a'' (1::nat) (cache_New [WithMaxSize 1]))) = 1"
    by code_simp
  moreover have "spec_set 1 ''c'' 3 (Some 19) [(''b'', 2::nat, None)] = [(''c'', 3, Some 19)]"
    by code_simp
  ultimately show ?thesis
    using cache_refines_spec [OF cache_example_reach, where now = 9 and k = "''c''" and v = 3 and ttl = 10]
    by simp
qed

text \<open>
  A sweep by the janitor removes exactly the entries whose expiry has passed, whatever
  order the runtime ranges over the map in, and keeps the recency order of the others.
\<close>

theorem cache_sweep_exact:
  assumes "cache_reach c" "set order = set (gm_keys (items c))"
  shows "cache_abs (cache_sweep now order c) =
    filter (\<lambda>(k, v, x). \<not> spec_expired now x) (cache_abs c)"
proof -
  have "fst ` set (cache_abs c) = set order"
    using assms cache_abs_keys [OF cache_reach_inv [OF assms(1)]] by simp
  then show ?thesis
    using cache_sweep_abs [OF cache_reach_inv [OF assms(1)]] by (force intro: filter_cong)
qed

theorem cache_sweep_exact_witness:
  "cache_abs (cache_sweep 20 [''b'', ''a''] (cache_SetTTL 7 ''b'' 2 5 (cache_Set 5 ''a'' (1::nat) (cache_New []))))
     = [(''a'', 1, None)]"
proof -
  let ?c = "cache_SetTTL 7 ''b'' 2 5 (cache_Set 5 ''a'' (1::nat) (cache_New []))"
  have "cache_reach ?c"
    by (intro cache_reach.Step [OF _ cache_step.Set] cache_reach.Step [OF _ cache_step.SetTTL] cache_reach.New)
  moreover have "set [''b'', ''a''] = set (gm_keys (items ?c))" by code_simp
  moreover have "filter (\<lambda>(k, v, x). \<not> spec_expired 20 x) (cache_abs ?c) = [(''a'', 1, None)]" by code_simp
  ultimately show ?thesis
    using cache_sweep_exact [of ?c "[''b'', ''a'']" 20] by simp
qed

lemma cache_GetOrLoad_abs:
  fixes group_Do :: "string \<Rightarrow> ('v cache \<Rightarrow> ('e + 'v) \<times> 'v cache) \<Rightarrow> 'v cache \<Rightarrow> ('e + 'v) \<times> 'v cache"
  assumes group: "\<And>f s. group_Do k f s = f s" and c: "cache_reach c"
  shows "case spec_get t1 k (cache_abs c) of
      (Some v, xs) \<Rightarrow> apsnd cache_abs (cache_GetOrLoad group_Do t1 t2 t3 k loader c) = (Inr v, xs)
    | (None, xs) \<Rightarrow> apsnd cache_abs (cache_GetOrLoad group_Do t1 t2 t3 k loader c) =
        (loader, case loader of Inl e \<Rightarrow> xs | Inr v \<Rightarrow>
           spec_set (maxSize c) k v (if defaultTTL c > 0 then Some (t3 + defaultTTL c) else None) xs)"
proof -
  note inv = cache_reach_inv [OF c]
  obtain r c1 where g1: "cache_Get t1 k c = (r, c1)" by (cases "cache_Get t1 k c")
  have abs1: "spec_get t1 k (cache_abs c) = (r, cache_abs c1)"
    using cache_Get_abs [OF inv, of t1 k] g1 by simp
  have inv1: "cache_inv c1" using cache_Get_inv [OF inv, of t1 k] g1 by simp
  have frame: "maxSize c1 = maxSize c" "defaultTTL c1 = defaultTTL c"
    using g1 by (auto simp: cache_Get_def cache_removeLocked_def split: option.splits if_splits)
  show ?thesis
  proof (cases r)
    case (Some v)
    with g1 abs1 show ?thesis by (simp add: cache_GetOrLoad_def)
  next
    case None
    have "cache_abs c1 = cache_abs c \<and> map_of (cache_abs c) k = None \<or>
        cache_abs c1 = spec_drop k (cache_abs c)"
      using abs1 None by (auto simp: spec_get_def split: option.splits if_splits)
    then have "map_of (cache_abs c1) k = None"
      by (auto simp: spec_drop_def map_of_eq_None_iff)
    then have "gm_get (items c1) k = None"
      using cache_abs_lookup [OF inv1, of k] by (auto split: option.splits elim: cache_inv_get [OF inv1])
    then have g2: "cache_Get t2 k c1 = (None, c1)" by (simp add: cache_Get_def)
    show ?thesis
      using None g1 abs1 g2 frame cache_setLocked_abs [OF inv1]
      by (cases loader)
         (simp_all add: cache_GetOrLoad_def group cache_load_def cache_Set_def cache_SetTTL_def)
  qed
qed



end
