(* ===== verification/Breaker.thy ===== *)
theory Breaker
  imports Fibr_Prelude
begin

text \<open>
  The circuit breaker of \<open>src/http/breaker.go\<close>: its state machine over the calls \<open>allow\<close>,
  \<open>onSuccess\<close> and \<open>onFailure\<close>, each atomic under the mutex, with the clock reading as an
  argument. Traces of calls are lists of events; the lemmas state the reachable states, when
  the breaker opens, and that a non-closed breaker lets through at most one probe.
\<close>

datatype breakerState = breakerClosed | breakerOpen | breakerHalfOpen

record breaker =
  maxFailures :: int
  openTimeout :: duration
  b_state :: breakerState
  failures :: int
  openedAt :: time

definition newBreaker :: "int \<Rightarrow> duration \<Rightarrow> breaker" where
  "newBreaker maxF openT =
     \<lparr>maxFailures = (if maxF < 1 then 1 else maxF), openTimeout = openT,
      b_state = breakerClosed, failures = 0, openedAt = 0\<rparr>"

definition breaker_allow :: "time \<Rightarrow> breaker \<Rightarrow> bool \<times> breaker" where
  "breaker_allow now b =
     (if b_state b = breakerOpen then
        (if now - openedAt b \<ge> openTimeout b then (True, b\<lparr>b_state := breakerHalfOpen\<rparr>)
         else (False, b))
      else (b_state b = breakerClosed, b))"

definition breaker_onSuccess :: "breaker \<Rightarrow> breaker" where
  "breaker_onSuccess b = b\<lparr>failures := 0, b_state := breakerClosed\<rparr>"

definition breaker_onFailure :: "time \<Rightarrow> breaker \<Rightarrow> breaker" where
  "breaker_onFailure now b =
     (if b_state b = breakerHalfOpen then b\<lparr>b_state := breakerOpen, openedAt := now\<rparr>
      else let b' = b\<lparr>failures := failures b + 1\<rparr>
           in if failures b' \<ge> maxFailures b'
              then b'\<lparr>b_state := breakerOpen, openedAt := now\<rparr> else b')"

section \<open>Traces\<close>

datatype breaker_event = Allow time | Success | Failure time

fun breaker_event_step :: "breaker_event \<Rightarrow> breaker \<Rightarrow> bool list \<times> breaker" where
  "breaker_event_step (Allow t) b = (case breaker_allow t b of (r, b') \<Rightarrow> ([r], b'))"
| "breaker_event_step Success b = ([], breaker_onSuccess b)"
| "breaker_event_step (Failure t) b = ([], breaker_onFailure t b)"

fun breaker_run :: "breaker_event list \<Rightarrow> breaker \<Rightarrow> bool list \<times> breaker" where
  "breaker_run [] b = ([], b)"
| "breaker_run (e # es) b =
     (case breaker_event_step e b of (rs, b') \<Rightarrow>
        (case breaker_run es b' of (rs', b'') \<Rightarrow> (rs @ rs', b'')))"

lemmas breaker_defs = breaker_allow_def breaker_onSuccess_def breaker_onFailure_def

definition breaker_inv :: "breaker \<Rightarrow> bool" where
  "breaker_inv b \<longleftrightarrow> maxFailures b \<ge> 1 \<and> failures b \<ge> 0 \<and>
     (b_state b = breakerClosed \<longrightarrow> failures b < maxFailures b) \<and>
     (b_state b \<noteq> breakerClosed \<longrightarrow> failures b \<ge> maxFailures b)"

lemma newBreaker_inv [inv_intros]: "breaker_inv (newBreaker m d)"
  by (simp add: breaker_inv_def newBreaker_def)

lemma breaker_event_inv [inv_intros]:
  "breaker_inv b \<Longrightarrow> breaker_inv (snd (breaker_event_step e b))"
  by (cases e) (auto simp: breaker_defs breaker_inv_def Let_def)

lemma breaker_run_inv [inv_intros]: "breaker_inv b \<Longrightarrow> breaker_inv (snd (breaker_run es b))"
  by (induction es arbitrary: b)
     (auto split: prod.splits dest: breaker_event_inv, metis breaker_event_inv snd_conv)

lemma breaker_run_append:
  "breaker_run (es @ fs) b =
     (case breaker_run es b of (rs, b') \<Rightarrow> case breaker_run fs b' of (rs', b'') \<Rightarrow> (rs @ rs', b''))"
  by (induction es arbitrary: b) (auto split: prod.splits)

lemma breaker_frame:
  "maxFailures (snd (breaker_event_step e b)) = maxFailures b \<and>
   openTimeout (snd (breaker_event_step e b)) = openTimeout b"
  by (cases e) (auto simp: breaker_defs Let_def)

text \<open>The number of trailing failures of a trace, not interrupted by a success.\<close>

fun consecutive :: "breaker_event list \<Rightarrow> int \<Rightarrow> int" where
  "consecutive [] n = n"
| "consecutive (Success # es) n = consecutive es 0"
| "consecutive (Failure t # es) n = consecutive es (n + 1)"
| "consecutive (Allow t # es) n = consecutive es n"

lemma consecutive_mono: "n \<le> m \<Longrightarrow> consecutive es n \<le> consecutive es m"
proof (induction es arbitrary: n m)
  case (Cons e es)
  then show ?case by (cases e) auto
qed simp

lemma breaker_closed_iff:
  assumes "breaker_inv b" and "\<And>t. Allow t \<notin> set es"
    and "b_state b = breakerClosed \<longleftrightarrow> n < maxFailures b" and "b_state b \<noteq> breakerHalfOpen"
    and "0 \<le> n" and "b_state b = breakerClosed \<longrightarrow> n = failures b"
  shows "b_state (snd (breaker_run es b)) = breakerClosed \<longleftrightarrow> consecutive es n < maxFailures b"
  using assms
proof (induction es arbitrary: b n)
  case (Cons e es)
  let ?b = "snd (breaker_event_step e b)"
  have inv: "breaker_inv ?b" by (rule breaker_event_inv [OF Cons.prems(1)])
  have mf: "maxFailures ?b = maxFailures b" by (simp add: breaker_frame)
  have run: "breaker_run (e # es) b = (fst (breaker_event_step e b) @ fst (breaker_run es ?b), snd (breaker_run es ?b))"
    by (simp split: prod.split)
  have noallow: "\<And>t. Allow t \<notin> set es" using Cons.prems(2) by simp
  show ?case
  proof (cases e)
    case (Allow t)
    then show ?thesis using Cons.prems(2) [of t] by simp
  next
    case Success
    have "b_state (snd (breaker_run es ?b)) = breakerClosed \<longleftrightarrow> consecutive es 0 < maxFailures ?b"
      by (rule Cons.IH [OF inv noallow])
         (use Cons.prems(1) Success in \<open>auto simp: breaker_onSuccess_def breaker_inv_def\<close>)
    then show ?thesis using run mf Success by simp
  next
    case (Failure t)
    have "b_state (snd (breaker_run es ?b)) = breakerClosed \<longleftrightarrow> consecutive es (n + 1) < maxFailures ?b"
      by (rule Cons.IH [OF inv noallow])
         (use Cons.prems Failure in \<open>auto simp: breaker_onFailure_def breaker_inv_def Let_def\<close>)
    then show ?thesis using run mf Failure by simp
  qed
qed simp

lemma breaker_halfopen_rejects:
  "b_state b = breakerHalfOpen \<Longrightarrow>
   breaker_run (map Allow ts) b = (replicate (length ts) False, b)"
  by (induction ts) (auto simp: breaker_allow_def)

lemma breaker_open_rejects:
  "b_state b = breakerOpen \<Longrightarrow> \<forall>t\<in>set ts. t - openedAt b < openTimeout b \<Longrightarrow>
   breaker_run (map Allow ts) b = (replicate (length ts) False, b)"
  by (induction ts) (auto simp: breaker_allow_def not_le)

section \<open>Properties\<close>

text \<open>
  As outcomes are reported to a new breaker, it is closed exactly while fewer than
  \<open>maxFailures\<close> (at least one) failures in a row have been reported since the last success;
  with the threshold reached it is open.
\<close>

theorem breaker_opens_after_consecutive_failures:
  assumes "\<And>t. Allow t \<notin> set es"
  shows "b_state (snd (breaker_run es (newBreaker m d))) =
    (if consecutive es 0 < max 1 m then breakerClosed else breakerOpen)"
proof -
  have "b_state (snd (breaker_run es (newBreaker m d))) = breakerClosed \<longleftrightarrow>
      consecutive es 0 < maxFailures (newBreaker m d)"
    by (rule breaker_closed_iff [OF newBreaker_inv assms]) (simp_all add: newBreaker_def)
  moreover have half: "b_state (snd (breaker_run es b)) \<noteq> breakerHalfOpen" if "b_state b \<noteq> breakerHalfOpen" for b
    using that assms
  proof (induction es arbitrary: b)
    case (Cons e es)
    have "b_state (snd (breaker_event_step e b)) \<noteq> breakerHalfOpen"
      using Cons.prems by (cases e) (auto simp: breaker_defs Let_def)
    then show ?case using Cons.IH [of "snd (breaker_event_step e b)"] Cons.prems(2)
      by (auto split: prod.splits)
  qed simp
  moreover have "b_state (newBreaker m d) \<noteq> breakerHalfOpen"
    and "maxFailures (newBreaker m d) = max 1 m" by (simp_all add: newBreaker_def)
  ultimately show ?thesis
    by (cases "b_state (snd (breaker_run es (newBreaker m d)))") auto
qed

theorem breaker_opens_after_consecutive_failures_witness:
  "b_state (snd (breaker_run [Failure 1, Success, Failure 2, Failure 3] (newBreaker 2 10))) = breakerOpen"
  using breaker_opens_after_consecutive_failures [of "[Failure 1, Success, Failure 2, Failure 3]" 2 10]
  by simp

text \<open>
  C22. An open breaker rejects every request until the open timeout has elapsed; the first one
  after that is let through as a probe, and every further request is rejected until the
  probe's outcome is reported. A failed probe opens the breaker again from that moment, a
  successful one closes it.
\<close>

theorem breaker_single_probe:
  assumes opn: "b_state b = breakerOpen" and
    early: "\<And>t. t \<in> set ts \<Longrightarrow> t - openedAt b < openTimeout b" and
    due: "t - openedAt b \<ge> openTimeout b"
  shows "fst (breaker_run (map Allow ts @ [Allow t] @ map Allow us) b) =
      replicate (length ts) False @ [True] @ replicate (length us) False \<and>
    b_state (snd (breaker_run (map Allow ts @ [Allow t] @ map Allow us @ [Success]) b)) = breakerClosed \<and>
    (let b' = snd (breaker_run (map Allow ts @ [Allow t] @ map Allow us @ [Failure f]) b)
     in b_state b' = breakerOpen \<and> openedAt b' = f)"
proof -
  have 1: "breaker_run (map Allow ts) b = (replicate (length ts) False, b)"
    using breaker_open_rejects [OF opn] early by blast
  have 2: "breaker_allow t b = (True, b\<lparr>b_state := breakerHalfOpen\<rparr>)"
    using opn due by (simp add: breaker_allow_def)
  have 3: "breaker_run (map Allow us) (b\<lparr>b_state := breakerHalfOpen\<rparr>) =
      (replicate (length us) False, b\<lparr>b_state := breakerHalfOpen\<rparr>)"
    by (rule breaker_halfopen_rejects) simp
  show ?thesis
    by (simp add: breaker_run_append 1 2 3 breaker_onSuccess_def breaker_onFailure_def Let_def)
qed

theorem breaker_single_probe_witness:
  "fst (breaker_run [Allow 5, Allow 12, Allow 13] (breaker_onFailure 2 (newBreaker 1 10))) = [False, True, False]"
proof -
  let ?b = "breaker_onFailure 2 (newBreaker 1 10)"
  have b: "b_state ?b = breakerOpen" "openedAt ?b = 2" "openTimeout ?b = 10" by code_simp+
  show ?thesis
    using breaker_single_probe [of ?b "[5]" 12 "[13]"] b by simp
qed

end
