(* ===== verification/Http_Client.thy ===== *)
theory Http_Client
  imports Breaker
begin

text \<open>
  The JSON HTTP client of \<open>src/http/http.go\<close>: options, header assembly, the single attempt,
  the retry loop and the circuit-breaker wrapper. The transport (\<open>fasthttp\<close>) is outside the
  repository: \<open>net\<close> maps the number of the attempt and the assembled request to a transport
  error or a status with a body. The environment also gives what the context reports before
  each attempt and how each back-off wait ends. Decoding the response body into \<open>out\<close> is a
  parameter that may fail.
\<close>

section \<open>Client, options and requests\<close>

datatype http_err =
    CtxErr string
  | TransportErr string
  | EncodeErr string
  | DecodeErr string
  | StatusErr int string    \<comment> \<open>\<open>*Error\<close>: status code and body\<close>
  | ErrCircuitOpen

record 'ctx http =
  BaseURL :: string
  h_Client :: nat    \<comment> \<open>which \<open>fasthttp.Client\<close>: \<open>0\<close> is the one \<open>New\<close> allocates\<close>
  headers :: "(string, string) gomap"
  h_timeout :: duration
  retries :: int
  backoff :: duration
  h_breaker :: "breaker option"
  ctxHeaders :: "(string \<times> ('ctx \<Rightarrow> string)) list"
  has_logger :: bool

datatype 'ctx http_option =
    WithTimeout duration
  | WithRetry int duration
  | WithCircuitBreaker int duration
  | WithHeader string string
  | WithContextHeader string "'ctx \<Rightarrow> string"
  | WithClient nat
  | WithLogger

fun http_opt :: "'ctx http_option \<Rightarrow> 'ctx http \<Rightarrow> 'ctx http" where
  "http_opt (WithTimeout d) h = h\<lparr>h_timeout := d\<rparr>"
| "http_opt (WithRetry n b) h = h\<lparr>retries := n, backoff := b\<rparr>"
| "http_opt (WithCircuitBreaker n d) h = h\<lparr>h_breaker := Some (newBreaker n d)\<rparr>"
| "http_opt (WithHeader k v) h = h\<lparr>headers := gm_put (headers h) k v\<rparr>"
| "http_opt (WithContextHeader k f) h = h\<lparr>ctxHeaders := ctxHeaders h @ [(k, f)]\<rparr>"
| "http_opt (WithClient c) h = h\<lparr>h_Client := c\<rparr>"
| "http_opt WithLogger h = h\<lparr>has_logger := True\<rparr>"

definition http_New :: "string \<Rightarrow> 'ctx http_option list \<Rightarrow> 'ctx http" where
  "http_New baseURL opts =
     apply_opts http_opt opts
       \<lparr>BaseURL = baseURL, h_Client = 0, headers = [], h_timeout = 0, retries = 0, backoff = 0,
        h_breaker = None, ctxHeaders = [], has_logger = False\<rparr>"

definition http_SetHeader :: "string \<Rightarrow> string \<Rightarrow> 'ctx http \<Rightarrow> 'ctx http" where
  "http_SetHeader k v h = h\<lparr>headers := gm_put (headers h) k v\<rparr>"

definition http_snapshotHeaders :: "'ctx http \<Rightarrow> (string, string) gomap" where
  "http_snapshotHeaders h = headers h"

text \<open>How the transport is called: with the context's deadline, with the client timeout, or bare.\<close>

datatype call_mode = DoDeadline time | DoTimeout duration | DoPlain

record http_req =
  r_client :: nat
  r_uri :: string
  r_method :: string
  r_headers :: "(string, string) gomap"
  r_body :: "string option"
  r_contentType :: "string option"
  r_mode :: call_mode

type_synonym response = "string + int \<times> string"

definition http_doOnce ::
  "(http_req \<Rightarrow> response) \<Rightarrow> 'ctx http \<Rightarrow> time option \<Rightarrow> string \<Rightarrow> string \<Rightarrow> string option \<Rightarrow> string
   \<Rightarrow> (string, string) gomap \<Rightarrow> response" where
  "http_doOnce net h deadline meth path payload contentType hdrs =
     net \<lparr>r_client = h_Client h, r_uri = BaseURL h @ path, r_method = meth, r_headers = hdrs, r_body = payload,
          r_contentType = (case payload of None \<Rightarrow> None
             | Some _ \<Rightarrow> Some (if contentType = [] then ''application/json'' else contentType)),
          r_mode = (case deadline of Some dl \<Rightarrow> DoDeadline dl
             | None \<Rightarrow> if h_timeout h > 0 then DoTimeout (h_timeout h) else DoPlain)\<rparr>"

section \<open>The retry loop\<close>

text \<open>
  What the environment does to one logical request: \<open>ctx_err i\<close> is \<open>ctx.Err()\<close> before
  attempt \<open>i\<close>, \<open>net i\<close> the transport at attempt \<open>i\<close>, \<open>wait_err i\<close> the context error that
  ends the wait after attempt \<open>i\<close>, if it does.
\<close>

record http_env =
  ctx_err :: "nat \<Rightarrow> string option"
  net :: "nat \<Rightarrow> http_req \<Rightarrow> response"
  wait_err :: "nat \<Rightarrow> string option"

definition sleepWithContext :: "duration \<Rightarrow> string option \<Rightarrow> string option" where
  "sleepWithContext d waited = (if d \<le> 0 then None else waited)"

type_synonym outcome = "int \<times> http_err option"

text \<open>
  The loop from attempt \<open>i\<close> with the last error so far. \<open>once i\<close> is the attempt, \<open>dec\<close> the
  decoding of a 2xx body. The result is the outcome and the number of attempts sent.
\<close>

function http_attempts ::
  "http_env \<Rightarrow> (nat \<Rightarrow> response) \<Rightarrow> (string \<Rightarrow> http_err option) \<Rightarrow> duration \<Rightarrow> nat \<Rightarrow> nat
   \<Rightarrow> outcome \<Rightarrow> nat \<Rightarrow> outcome \<times> nat" where
  "http_attempts env once dec d n i prev sent =
     (if i < n then
        (case ctx_err env i of
           Some e \<Rightarrow> ((0, Some (CtxErr e)), sent)
         | None \<Rightarrow>
            (case once i of
               Inl e \<Rightarrow>
                 (if i < n - 1 then
                    (case sleepWithContext d (wait_err env i) of
                       Some e' \<Rightarrow> ((0, Some (CtxErr e')), Suc sent)
                     | None \<Rightarrow> http_attempts env once dec d n (Suc i) (0, Some (TransportErr e)) (Suc sent))
                  else http_attempts env once dec d n (Suc i) (0, Some (TransportErr e)) (Suc sent))
             | Inr (code, body) \<Rightarrow>
                 (if code < 200 \<or> code \<ge> 300 then
                    (if code \<ge> 500 \<and> i < n - 1 then
                       (case sleepWithContext d (wait_err env i) of
                          Some e' \<Rightarrow> ((0, Some (CtxErr e')), Suc sent)
                        | None \<Rightarrow> http_attempts env once dec d n (Suc i) (code, Some (StatusErr code body)) (Suc sent))
                     else ((code, Some (StatusErr code body)), Suc sent))
                  else ((code, dec body), Suc sent))))
      else (case snd prev of
              Some (StatusErr c b) \<Rightarrow> (c, Some (StatusErr c b))
            | _ \<Rightarrow> prev, sent))"
  by pat_completeness auto
termination
  by (relation "measure (\<lambda>(env, once, dec, d, n, i, prev, sent). n - i)") auto

declare http_attempts.simps [simp del]

definition http_all_headers :: "'ctx http \<Rightarrow> 'ctx \<Rightarrow> (string, string) gomap" where
  "http_all_headers h ctx =
     fold (\<lambda>(name, f) m. if f ctx \<noteq> [] then gm_put m name (f ctx) else m)
       (ctxHeaders h) (http_snapshotHeaders h)"

definition http_attempt_count :: "'ctx http \<Rightarrow> nat" where
  "http_attempt_count h = (let attempts = retries h + 1 in nat (if attempts < 1 then 1 else attempts))"

definition http_requestRawAttempts ::
  "http_env \<Rightarrow> 'ctx http \<Rightarrow> 'ctx \<Rightarrow> time option \<Rightarrow> string \<Rightarrow> string \<Rightarrow> string option \<Rightarrow> string
   \<Rightarrow> (string \<Rightarrow> http_err option) \<Rightarrow> outcome \<times> nat" where
  "http_requestRawAttempts env h ctx deadline meth path payload contentType dec =
     (let hdrs = http_all_headers h ctx
      in http_attempts env
           (\<lambda>i. http_doOnce (net env i) h deadline meth path payload contentType hdrs)
           dec (backoff h) (http_attempt_count h) 0 (0, None) 0)"

definition breakerFailure :: "outcome \<Rightarrow> bool" where
  "breakerFailure oc = (if snd oc \<noteq> None \<and> fst oc = 0 then True else fst oc \<ge> 500)"

text \<open>
  The breaker wrapper. \<open>t1\<close> is the clock at \<open>allow\<close>, \<open>t2\<close> at \<open>onFailure\<close>; the result also
  gives the client with its breaker after the call and the number of attempts sent.
\<close>

definition http_requestRaw ::
  "http_env \<Rightarrow> time \<Rightarrow> time \<Rightarrow> 'ctx http \<Rightarrow> 'ctx \<Rightarrow> time option \<Rightarrow> string \<Rightarrow> string \<Rightarrow> string option
   \<Rightarrow> string \<Rightarrow> (string \<Rightarrow> http_err option) \<Rightarrow> outcome \<times> nat \<times> 'ctx http" where
  "http_requestRaw env t1 t2 h ctx deadline meth path payload contentType dec =
     (case h_breaker h of
        Some b \<Rightarrow>
          (case breaker_allow t1 b of
             (False, b1) \<Rightarrow> ((0, Some ErrCircuitOpen), 0, h\<lparr>h_breaker := Some b1\<rparr>)
           | (True, b1) \<Rightarrow>
               (case http_requestRawAttempts env h ctx deadline meth path payload contentType dec of
                  (oc, sent) \<Rightarrow>
                    (oc, sent, h\<lparr>h_breaker := Some (if breakerFailure oc then breaker_onFailure t2 b1
                                                      else breaker_onSuccess b1)\<rparr>)))
      | None \<Rightarrow>
          (case http_requestRawAttempts env h ctx deadline meth path payload contentType dec of
             (oc, sent) \<Rightarrow> (oc, sent, h)))"

text \<open>\<open>request\<close> JSON-encodes the body first; \<open>body\<close> is the encoded body, an encoding error, or nil.\<close>

definition http_request ::
  "http_env \<Rightarrow> time \<Rightarrow> time \<Rightarrow> 'ctx http \<Rightarrow> 'ctx \<Rightarrow> time option \<Rightarrow> string \<Rightarrow> string
   \<Rightarrow> (http_err + string) option \<Rightarrow> (string \<Rightarrow> http_err option) \<Rightarrow> outcome \<times> nat \<times> 'ctx http" where
  "http_request env t1 t2 h ctx deadline meth path body dec =
     (case body of
        Some (Inl e) \<Rightarrow> ((0, Some e), 0, h)
      | Some (Inr b) \<Rightarrow> http_requestRaw env t1 t2 h ctx deadline meth path (Some b) ''application/json'' dec
      | None \<Rightarrow> http_requestRaw env t1 t2 h ctx deadline meth path None ''application/json'' dec)"

definition http_Get where
  "http_Get env t1 t2 h ctx deadline path dec = http_request env t1 t2 h ctx deadline ''GET'' path None dec"

definition http_Post where
  "http_Post env t1 t2 h ctx deadline path body dec = http_request env t1 t2 h ctx deadline ''POST'' path body dec"

definition http_Put where
  "http_Put env t1 t2 h ctx deadline path body dec = http_request env t1 t2 h ctx deadline ''PUT'' path body dec"

definition http_Patch where
  "http_Patch env t1 t2 h ctx deadline path body dec = http_request env t1 t2 h ctx deadline ''PATCH'' path body dec"

definition http_Delete where
  "http_Delete env t1 t2 h ctx deadline path dec = http_request env t1 t2 h ctx deadline ''DELETE'' path None dec"

definition http_PostForm where
  "http_PostForm env t1 t2 h ctx deadline path encoded dec =
     http_requestRaw env t1 t2 h ctx deadline ''POST'' path (Some encoded) ''application/x-www-form-urlencoded'' dec"

text \<open>
  A multipart body is written part by part to a writer of the standard library, whose operations
  are \<open>put\<close> (a field, the head of a file, its content), \<open>close\<close> and \<open>contentType\<close>; a field
  map is given in the order it is iterated, a file with what reading its content gives.
\<close>

datatype multipart_step = WriteField string string | CreateFormFile string string | CopyContent "http_err + string"

record file_field =
  ff_Field :: string
  ff_Filename :: string
  ff_Content :: "http_err + string"

definition multipart_steps :: "(string \<times> string) list \<Rightarrow> file_field list \<Rightarrow> multipart_step list" where
  "multipart_steps flds files =
     map (\<lambda>(k, v). WriteField k v) flds @
     concat (map (\<lambda>f. [CreateFormFile (ff_Field f) (ff_Filename f), CopyContent (ff_Content f)]) files)"

fun multipart_write :: "('w \<Rightarrow> multipart_step \<Rightarrow> http_err + 'w) \<Rightarrow> multipart_step list \<Rightarrow> 'w \<Rightarrow> http_err + 'w" where
  "multipart_write put [] w = Inr w"
| "multipart_write put (p # ps) w = (case put w p of Inl e \<Rightarrow> Inl e | Inr w' \<Rightarrow> multipart_write put ps w')"

definition http_PostMultipart where
  "http_PostMultipart env t1 t2 h ctx deadline put close contentType w0 path flds files dec =
     (case multipart_write put (multipart_steps flds files) w0 of
        Inl e \<Rightarrow> ((0, Some e), 0, h)
      | Inr w \<Rightarrow>
          (case close w of
             Inl e \<Rightarrow> ((0, Some e), 0, h)
           | Inr body \<Rightarrow> http_requestRaw env t1 t2 h ctx deadline ''POST'' path (Some body) (contentType w) dec))"

text \<open>
  The background request keeps the values of the context but not its deadline; its response is not
  decoded. The result is the error that is logged, if any, and the client after the request.
\<close>

definition http_FireAndForget ::
  "http_env \<Rightarrow> time \<Rightarrow> time \<Rightarrow> 'ctx http \<Rightarrow> 'ctx \<Rightarrow> string \<Rightarrow> string \<Rightarrow> (http_err + string) option \<Rightarrow> http_err option \<times> 'ctx http" where
  "http_FireAndForget env t1 t2 h ctx meth path body =
     (case http_request env t1 t2 h ctx None meth path body (\<lambda>_. None) of
        ((code, e), sent, h') \<Rightarrow> (if e \<noteq> None \<and> has_logger h then e else None, h'))"

section \<open>The retry policy\<close>

definition retryable :: "response \<Rightarrow> bool" where
  "retryable r = (case r of Inl _ \<Rightarrow> True | Inr (code, _) \<Rightarrow> code \<ge> 500)"

definition final_outcome :: "(string \<Rightarrow> http_err option) \<Rightarrow> response \<Rightarrow> outcome" where
  "final_outcome dec r =
     (case r of
        Inl e \<Rightarrow> (0, Some (TransportErr e))
      | Inr (code, body) \<Rightarrow>
          if 200 \<le> code \<and> code < 300 then (code, dec body) else (code, Some (StatusErr code body)))"

definition undisturbed :: "http_env \<Rightarrow> duration \<Rightarrow> nat \<Rightarrow> bool" where
  "undisturbed env d n \<longleftrightarrow>
     (\<forall>i<n. ctx_err env i = None \<and> sleepWithContext d (wait_err env i) = None)"

lemma http_attempts_done:
  "i \<ge> n \<Longrightarrow> http_attempts env once dec d n i prev sent =
     (case snd prev of Some (StatusErr c b) \<Rightarrow> (c, Some (StatusErr c b)) | _ \<Rightarrow> prev, sent)"
  by (simp add: http_attempts.simps)

lemma http_attempts_last:
  assumes "undisturbed env d n" "i < n" "i = n - 1 \<or> \<not> retryable (once i)"
  shows "http_attempts env once dec d n i prev sent = (final_outcome dec (once i), Suc sent)"
proof (cases "once i")
  case (Inl e)
  with assms have n: "n = Suc i" by (auto simp: retryable_def)
  with assms Inl show ?thesis
    by (simp add: http_attempts.simps [of env once dec d "Suc i" i] http_attempts_done
        undisturbed_def final_outcome_def)
next
  case (Inr r)
  obtain code body where "r = (code, body)" by (cases r)
  with assms Inr show ?thesis
    by (auto simp: http_attempts.simps [of env once dec d n i] undisturbed_def final_outcome_def
        retryable_def)
qed

lemma http_attempts_retry:
  assumes "undisturbed env d n" "Suc i < n" "retryable (once i)"
  shows "http_attempts env once dec d n i prev sent =
    http_attempts env once dec d n (Suc i) (final_outcome dec (once i)) (Suc sent)"
proof (cases "once i")
  case (Inl e)
  with assms show ?thesis
    by (simp add: http_attempts.simps [of env once dec d n i] undisturbed_def final_outcome_def)
next
  case (Inr r)
  obtain code body where "r = (code, body)" by (cases r)
  moreover have "i < n - 1" using assms(2) by simp
  ultimately show ?thesis
    using assms Inr
    by (simp add: http_attempts.simps [of env once dec d n i] undisturbed_def final_outcome_def
        retryable_def)
qed

lemma http_attempts_decided:
  assumes "undisturbed env d n" "k < n" "k = n - 1 \<or> \<not> retryable (once k)"
    "i \<le> k" "\<forall>j. i \<le> j \<and> j < k \<longrightarrow> retryable (once j)"
  shows "http_attempts env once dec d n i prev sent = (final_outcome dec (once k), sent + (Suc k - i))"
  using assms(4,5)
proof (induction "k - i" arbitrary: i prev sent)
  case 0
  then have "i = k" by simp
  with http_attempts_last [of env d n k once, OF assms(1-3)] show ?case by simp
next
  case (Suc m)
  then have i: "i < k" "retryable (once i)" by auto
  have "http_attempts env once dec d n i prev sent =
      http_attempts env once dec d n (Suc i) (final_outcome dec (once i)) (Suc sent)"
    using i assms(2) by (intro http_attempts_retry [OF assms(1)]) auto
  also have "\<dots> = (final_outcome dec (once k), Suc sent + (Suc k - Suc i))"
    using Suc i by (intro Suc.hyps(1)) auto
  finally show ?case using i by simp
qed

lemma http_attempts_bound: "snd (http_attempts env once dec d n i prev sent) \<le> sent + (n - i)"
proof (induction env once dec d n i prev sent rule: http_attempts.induct)
  case (1 env once dec d n i prev sent)
  show ?case
  proof (cases "i < n \<and> ctx_err env i = None")
    case False
    then show ?thesis
      by (cases "i < n") (auto simp: http_attempts.simps [of env once dec d n i])
  next
    case go: True
    show ?thesis
    proof (cases "once i")
      case (Inl e)
      with go 1(1,2) [OF _ _ Inl] show ?thesis
        by (cases "i < n - 1") (auto simp: http_attempts.simps [of env once dec d n i] split: option.splits)
    next
      case (Inr r)
      obtain code body where r: "r = (code, body)" by (cases r)
      with go Inr 1(3) [OF _ _ Inr sym [OF r]] show ?thesis
        by (auto simp: http_attempts.simps [of env once dec d n i] split: option.splits)
    qed
  qed
qed

section \<open>Properties\<close>

text \<open>
  C14. When the context does not end, the request is decided by the first attempt that is not
  retryable (a transport error or a 5xx answer is), or by the last of the \<open>max 1 (retries + 1)\<close>
  attempts: its outcome is returned and exactly the attempts up to it are sent. In particular
  a 4xx answer is returned at once and a 2xx answer is decoded.
\<close>

theorem http_retry_policy:
  assumes "undisturbed env (backoff h) n" "n = http_attempt_count h"
    "\<And>i. once i = http_doOnce (net env i) h deadline meth path payload ct (http_all_headers h ctx)"
    "k < n" "k = n - 1 \<or> \<not> retryable (once k)" "\<And>j. j < k \<Longrightarrow> retryable (once j)"
  shows "http_requestRawAttempts env h ctx deadline meth path payload ct dec =
    (final_outcome dec (once k), Suc k) \<and> n = max 1 (nat (retries h + 1))"
proof -
  have "once = (\<lambda>i. http_doOnce (net env i) h deadline meth path payload ct (http_all_headers h ctx))"
    using assms(3) by blast
  then have "http_requestRawAttempts env h ctx deadline meth path payload ct dec =
      http_attempts env once dec (backoff h) n 0 (0, None) 0"
    by (simp add: http_requestRawAttempts_def assms(2))
  moreover have "http_attempts env once dec (backoff h) n 0 (0, None) 0 = (final_outcome dec (once k), 0 + (Suc k - 0))"
    using assms by (intro http_attempts_decided) auto
  ultimately show ?thesis
    using assms(2) by (auto simp: http_attempt_count_def Let_def)
qed

definition http_demo_env :: http_env where
  "http_demo_env = \<lparr>ctx_err = (\<lambda>_. None),
     net = (\<lambda>i r. if i = 0 then Inl ''refused'' else Inr (503, ''busy'')), wait_err = (\<lambda>_. None)\<rparr>"

theorem http_retry_policy_witness:
  "http_requestRawAttempts http_demo_env (http_New ''u'' [WithRetry 1 0] :: unit http) () None ''GET'' ''/'' None []
     (\<lambda>_. None) = ((503, Some (StatusErr 503 ''busy'')), 2)"
proof -
  let ?h = "http_New ''u'' [WithRetry 1 0] :: unit http"
  let ?once = "\<lambda>i. http_doOnce (net http_demo_env i) ?h None ''GET'' ''/'' None [] (http_all_headers ?h ())"
  have n: "http_attempt_count ?h = 2" by (simp add: http_New_def http_attempt_count_def)
  have r: "?once 0 = Inl ''refused''" "?once 1 = Inr (503, ''busy'')"
    by (simp_all add: http_doOnce_def http_demo_env_def)
  have "http_requestRawAttempts http_demo_env ?h () None ''GET'' ''/'' None [] (\<lambda>_. None) =
      (final_outcome (\<lambda>_. None) (?once 1), Suc 1) \<and> (2::nat) = max 1 (nat (retries ?h + 1))"
    by (rule http_retry_policy [where n = 2])
       (auto simp: n r undisturbed_def http_demo_env_def sleepWithContext_def retryable_def http_doOnce_def)
  then show ?thesis using r by (simp add: final_outcome_def)
qed

text \<open>
  A request never sends more than \<open>max 1 (retries + 1)\<close> attempts, whatever the context and
  the transport do. With a breaker that does not allow it, it sends none, returns
  \<open>ErrCircuitOpen\<close> and leaves the client unchanged; an allowed one reports its outcome to the
  breaker: a failure for an outcome with no status or a 5xx status, a success otherwise.
\<close>

theorem http_request_breaker:
  assumes "h_breaker h = Some b"
  shows "fst (snd (http_requestRaw env t1 t2 h ctx deadline meth path p ct dec)) \<le> max 1 (nat (retries h + 1)) \<and>
   (if fst (breaker_allow t1 b)
    then (case http_requestRaw env t1 t2 h ctx deadline meth path p ct dec of ((code, err), sent, h') \<Rightarrow>
            h_breaker h' = Some (if (code = 0 \<and> err \<noteq> None) \<or> code \<ge> 500
              then breaker_onFailure t2 (snd (breaker_allow t1 b))
              else breaker_onSuccess (snd (breaker_allow t1 b))))
    else http_requestRaw env t1 t2 h ctx deadline meth path p ct dec = ((0, Some ErrCircuitOpen), 0, h))"
proof -
  have b: "snd (http_requestRawAttempts env h ctx deadline meth path p ct dec) \<le> max 1 (nat (retries h + 1))"
    unfolding http_requestRawAttempts_def Let_def
    using http_attempts_bound [of env "\<lambda>i. http_doOnce (net env i) h deadline meth path p ct (http_all_headers h ctx)"
        dec "backoff h" "http_attempt_count h" 0 "(0, None)" 0]
    by (auto simp: http_attempt_count_def Let_def)
  obtain r b1 where a: "breaker_allow t1 b = (r, b1)" by (cases "breaker_allow t1 b")
  then have rej: "\<not> r \<Longrightarrow> b1 = b" by (auto simp: breaker_allow_def split: if_splits)
  show ?thesis
    using assms a rej b
    by (cases r) (auto simp: http_requestRaw_def breakerFailure_def split: prod.splits)
qed

theorem http_request_breaker_witness:
  "http_requestRaw http_demo_env 3 4 (http_New ''u'' []\<lparr>h_breaker := Some (breaker_onFailure 2 (newBreaker 1 10))\<rparr> :: unit http)
     () None ''GET'' ''/'' None [] (\<lambda>_. None) =
   ((0, Some ErrCircuitOpen), 0, http_New ''u'' []\<lparr>h_breaker := Some (breaker_onFailure 2 (newBreaker 1 10))\<rparr>)"
proof -
  let ?h = "http_New ''u'' []\<lparr>h_breaker := Some (breaker_onFailure 2 (newBreaker 1 10))\<rparr> :: unit http"
  have "h_breaker ?h = Some (breaker_onFailure 2 (newBreaker 1 10))" by simp
  moreover have "\<not> fst (breaker_allow 3 (breaker_onFailure 2 (newBreaker 1 10)))" by code_simp
  ultimately show ?thesis
    using http_request_breaker [of ?h "breaker_onFailure 2 (newBreaker 1 10)" http_demo_env 3 4] by simp
qed

text \<open>
  A request whose context has already ended sends nothing and still counts as a failure of
  the remote side: with a threshold of one, the caller's own cancellation opens the circuit.
\<close>

theorem http_cancelled_request_trips_breaker:
  assumes "h_breaker h = Some (newBreaker 1 d)" "ctx_err env 0 = Some e"
  shows "case http_requestRaw env t1 t2 h ctx deadline meth path p ct dec of (oc, sent, h') \<Rightarrow>
    oc = (0, Some (CtxErr e)) \<and> sent = 0 \<and> map_option b_state (h_breaker h') = Some breakerOpen"
proof -
  have "http_attempt_count h > 0" by (simp add: http_attempt_count_def Let_def)
  then have "http_requestRawAttempts env h ctx deadline meth path p ct dec = ((0, Some (CtxErr e)), 0)"
    using assms(2) by (simp add: http_requestRawAttempts_def http_attempts.simps Let_def)
  moreover have "breaker_allow t1 (newBreaker 1 d) = (True, newBreaker 1 d)"
    by (simp add: breaker_allow_def newBreaker_def)
  ultimately show ?thesis
    using assms(1) by (simp add: http_requestRaw_def breakerFailure_def breaker_onFailure_def newBreaker_def)
qed

theorem http_cancelled_request_trips_breaker_witness:
  "case http_requestRaw (http_demo_env\<lparr>ctx_err := (\<lambda>_. Some ''context canceled'')\<rparr>) 3 4
     (http_New ''u'' [WithCircuitBreaker 1 10] :: unit http) () None ''GET'' ''/'' None [] (\<lambda>_. None) of (oc, sent, h') \<Rightarrow>
    oc = (0, Some (CtxErr ''context canceled'')) \<and> sent = 0 \<and> map_option b_state (h_breaker h') = Some breakerOpen"
  by (rule http_cancelled_request_trips_breaker [where d = 10]) (simp_all add: http_New_def)

end
