(* ===== verification/Retry.thy ===== *)
theory Retry
  imports Fibr_Prelude
begin

text \<open>
  The retry helper of \<open>src/retry/retry.go\<close>: options with their defaults, the attempt loop of
  \<open>Do\<close>, \<open>DoValue\<close>, and the exponential back-off. Floating-point values (multiplier, jitter and
  the intermediate delay) are exact rationals here; rounding is not modelled. The random
  factor \<open>rand.Float64()\<close> is an argument in \<open>[0,1)\<close>.
\<close>

section \<open>Options and back-off\<close>

record 'e retry_config =
  attempts :: int
  delay :: duration
  maxDelay :: duration
  multiplier :: rat
  jitter :: rat
  retryIf :: "'e \<Rightarrow> bool"

datatype 'e retry_option =
    WithAttempts int
  | WithDelay duration
  | WithMaxDelay duration
  | WithMultiplier rat
  | WithJitter rat
  | WithRetryIf "'e \<Rightarrow> bool"

fun retry_opt :: "'e retry_option \<Rightarrow> 'e retry_config \<Rightarrow> 'e retry_config" where
  "retry_opt (WithAttempts n) c = c\<lparr>attempts := n\<rparr>"
| "retry_opt (WithDelay d) c = c\<lparr>delay := d\<rparr>"
| "retry_opt (WithMaxDelay d) c = c\<lparr>maxDelay := d\<rparr>"
| "retry_opt (WithMultiplier m) c = c\<lparr>multiplier := m\<rparr>"
| "retry_opt (WithJitter f) c = c\<lparr>jitter := f\<rparr>"
| "retry_opt (WithRetryIf p) c = c\<lparr>retryIf := p\<rparr>"

definition retry_newConfig :: "'e retry_option list \<Rightarrow> 'e retry_config" where
  "retry_newConfig opts =
     (let c = apply_opts retry_opt opts
                \<lparr>attempts = 3, delay = 100 * millisecond, maxDelay = 0, multiplier = 2, jitter = 0,
                 retryIf = (\<lambda>_. True)\<rparr>
      in if attempts c < 1 then c\<lparr>attempts := 1\<rparr> else c)"

fun retry_scaled :: "rat \<Rightarrow> rat \<Rightarrow> nat \<Rightarrow> rat" where
  "retry_scaled d m 0 = d"
| "retry_scaled d m (Suc i) = retry_scaled (d * m) m i"

definition retry_backoff :: "'e retry_config \<Rightarrow> rat \<Rightarrow> nat \<Rightarrow> duration" where
  "retry_backoff c rnd i =
     (let d0 = retry_scaled (of_int (delay c)) (multiplier c) i;
          d1 = (if maxDelay c > 0 \<and> d0 > of_int (maxDelay c) then of_int (maxDelay c) else d0);
          d2 = (if jitter c > 0 then d1 * (1 - jitter c + 2 * jitter c * rnd) else d1)
      in trunc_rat d2)"

section \<open>The loop\<close>

text \<open>
  The environment of one call: \<open>ctx_err i\<close> is \<open>ctx.Err()\<close> before attempt \<open>i\<close>, \<open>call i\<close> the
  result of the function at attempt \<open>i\<close> (\<open>None\<close> is nil), \<open>rnd i\<close> the random draw and \<open>wait i\<close>
  the context error that ends the wait after attempt \<open>i\<close>, if it does.
\<close>

record 'e retry_env =
  ctx_err :: "nat \<Rightarrow> 'e option"
  call :: "nat \<Rightarrow> 'e option"
  rnd :: "nat \<Rightarrow> rat"
  wait :: "nat \<Rightarrow> duration \<Rightarrow> 'e option"

definition retry_sleep :: "duration \<Rightarrow> (duration \<Rightarrow> 'e option) \<Rightarrow> 'e option" where
  "retry_sleep d w = (if d \<le> 0 then None else w d)"

function retry_loop :: "'e retry_config \<Rightarrow> 'e retry_env \<Rightarrow> nat \<Rightarrow> 'e option \<Rightarrow> nat \<Rightarrow> 'e option \<times> nat" where
  "retry_loop c env i lastErr calls =
     (if int i < attempts c then
        (case ctx_err env i of
           Some e \<Rightarrow> (Some e, calls)
         | None \<Rightarrow>
            (case call env i of
               None \<Rightarrow> (None, Suc calls)
             | Some e \<Rightarrow>
                 if int i = attempts c - 1 \<or> \<not> retryIf c e then (Some e, Suc calls)
                 else case retry_sleep (retry_backoff c (rnd env i) i) (wait env i) of
                        Some e' \<Rightarrow> (Some e', Suc calls)
                      | None \<Rightarrow> retry_loop c env (Suc i) (Some e) (Suc calls)))
      else (lastErr, calls))"
  by pat_completeness auto
termination
  by (relation "measure (\<lambda>(c, env, i, l, k). nat (attempts c - int i))") auto

declare retry_loop.simps [simp del]

definition retry_Do :: "'e retry_env \<Rightarrow> 'e retry_option list \<Rightarrow> 'e option \<times> nat" where
  "retry_Do env opts = retry_loop (retry_newConfig opts) env 0 None 0"

text \<open>
  \<open>DoValue\<close>: the function returns a value with each success; the value kept is the one of the
  call that ended the loop.
\<close>

definition retry_DoValue :: "'e retry_env \<Rightarrow> (nat \<Rightarrow> 'e + 'v) \<Rightarrow> 'e retry_option list \<Rightarrow> 'e + 'v" where
  "retry_DoValue env fn opts =
     (case retry_Do (env\<lparr>call := (\<lambda>i. case fn i of Inl e \<Rightarrow> Some e | Inr _ \<Rightarrow> None)\<rparr>) opts of
        (Some e, _) \<Rightarrow> Inl e
      | (None, n) \<Rightarrow> fn (n - 1))"

section \<open>Lemmas\<close>

lemma retry_newConfig_attempts: "attempts (retry_newConfig opts) \<ge> 1"
  by (simp add: retry_newConfig_def Let_def)

lemma retry_scaled_eq: "retry_scaled d m i = d * m ^ i"
  by (induction i arbitrary: d) (simp_all add: algebra_simps)

lemma retry_loop_calls: "snd (retry_loop c env i l k) \<le> k + nat (attempts c - int i)"
proof (induction c env i l k rule: retry_loop.induct)
  case (1 c env i l k)
  show ?case
  proof (cases "int i < attempts c \<and> ctx_err env i = None \<and> call env i \<noteq> None")
    case False
    then show ?thesis
      by (auto simp: retry_loop.simps [of c env i] split: option.splits)
  next
    case True
    then obtain e where e: "call env i = Some e" by auto
    show ?thesis
      using True e 1 [OF _ _ e]
      by (auto simp: retry_loop.simps [of c env i] split: option.splits)
  qed
qed

definition retry_undisturbed :: "'e retry_config \<Rightarrow> 'e retry_env \<Rightarrow> bool" where
  "retry_undisturbed c env \<longleftrightarrow>
     (\<forall>i. ctx_err env i = None \<and> retry_sleep (retry_backoff c (rnd env i) i) (wait env i) = None)"

definition retry_again :: "'e retry_config \<Rightarrow> 'e option \<Rightarrow> bool" where
  "retry_again c r = (case r of None \<Rightarrow> False | Some e \<Rightarrow> retryIf c e)"

lemma retry_loop_decided:
  assumes "retry_undisturbed c env" "int k < attempts c"
    "int k = attempts c - 1 \<or> \<not> retry_again c (call env k)"
    "i \<le> k" "\<forall>j. i \<le> j \<and> j < k \<longrightarrow> retry_again c (call env j)"
  shows "retry_loop c env i l n = (call env k, n + (Suc k - i))"
  using assms(4,5)
proof (induction "k - i" arbitrary: i l n)
  case 0
  then have "i = k" by simp
  with assms(1-3) show ?case
    by (auto simp: retry_loop.simps [of c env k] retry_undisturbed_def retry_again_def split: option.splits)
next
  case (Suc m)
  then have i: "i < k" "retry_again c (call env i)" by auto
  then obtain e where "call env i = Some e" "retryIf c e"
    by (auto simp: retry_again_def split: option.splits)
  then have "retry_loop c env i l n = retry_loop c env (Suc i) (Some e) (Suc n)"
    using i assms(1,2) by (simp add: retry_loop.simps [of c env i] retry_undisturbed_def)
  also have "\<dots> = (call env k, Suc n + (Suc k - Suc i))"
    using Suc i by (intro Suc.hyps(1)) auto
  finally show ?case using i by simp
qed

section \<open>Properties\<close>

text \<open>
  C34. While the context lasts, \<open>Do\<close> stops at the first attempt that succeeds or whose error the
  predicate refuses, or at the last allowed attempt, and returns that attempt's result after
  exactly that many calls; in any case the function runs at most \<open>max 1 attempts\<close> times.
\<close>

theorem retry_Do_decided:
  assumes "c = retry_newConfig opts" "retry_undisturbed c env" "int k < attempts c"
    "int k = attempts c - 1 \<or> \<not> retry_again c (call env k)"
    "\<And>j. j < k \<Longrightarrow> retry_again c (call env j)"
  shows "retry_Do env opts = (call env k, Suc k) \<and> int (snd (retry_Do env' opts)) \<le> attempts c"
proof -
  have "retry_Do env opts = (call env k, Suc k)"
    using retry_loop_decided [of c env k 0 None 0] assms by (simp add: retry_Do_def)
  moreover have "int (snd (retry_Do env' opts)) \<le> attempts c"
    using retry_loop_calls [of c env' 0 None 0] retry_newConfig_attempts [of opts] assms(1)
    by (simp add: retry_Do_def)
  ultimately show ?thesis by simp
qed

definition retry_demo_env :: "string retry_env" where
  "retry_demo_env = \<lparr>ctx_err = (\<lambda>_. None), call = (\<lambda>i. if i < 2 then Some ''busy'' else None),
     rnd = (\<lambda>_. 0), wait = (\<lambda>_ _. None)\<rparr>"

theorem retry_Do_decided_witness:
  "retry_Do retry_demo_env [] = (None, 3)"
proof -
  have "retry_Do retry_demo_env [] = (call retry_demo_env 2, Suc 2) \<and>
     int (snd (retry_Do retry_demo_env [])) \<le> attempts (retry_newConfig [] :: string retry_config)"
    by (rule retry_Do_decided [where c = "retry_newConfig []"])
       (auto simp: retry_newConfig_def retry_undisturbed_def retry_demo_env_def retry_sleep_def retry_again_def)
  then show ?thesis by (simp add: retry_demo_env_def)
qed

text \<open>
  Without jitter, with a non-negative delay and a multiplier of at least one, the back-off
  is the delay times the multiplier to the power of the attempt, cut at the cap when one is
  set, so it never decreases from one attempt to the next; with jitter \<open>j\<close> at most one it stays
  between \<open>1 - j\<close> and \<open>1 + j\<close> times that value.
\<close>

theorem retry_backoff_bounds:
  fixes c :: "'e retry_config"
  defines "base i \<equiv> (let d = of_int (delay c) * multiplier c ^ i
                     in if maxDelay c > 0 \<and> d > of_int (maxDelay c) then of_int (maxDelay c) else d) :: rat"
  assumes "delay c \<ge> 0" "multiplier c \<ge> 1" and j0: "0 \<le> jitter c" and "jitter c \<le> 1" "0 \<le> r" "r < 1"
  shows "(jitter c = 0 \<longrightarrow> retry_backoff c r i = trunc_rat (base i)) \<and>
    trunc_rat (base i) \<le> trunc_rat (base (Suc i)) \<and>
    trunc_rat ((1 - jitter c) * base i) \<le> retry_backoff c r i \<and>
    retry_backoff c r i \<le> trunc_rat ((1 + jitter c) * base i)"
proof -
  have d: "0 \<le> of_int (delay c) * multiplier c ^ k" for k
    using assms by simp
  then have b0: "0 \<le> base i" by (auto simp: base_def Let_def)
  have "of_int (delay c) * multiplier c ^ i \<le> of_int (delay c) * multiplier c ^ Suc i"
    using assms power_increasing [of i "Suc i" "multiplier c"] by (intro mult_left_mono) auto
  then have mono: "base i \<le> base (Suc i)"
    by (auto simp: base_def Let_def)
  let ?f = "1 - jitter c + 2 * jitter c * r"
  have "jitter c * r \<le> jitter c * 1" using assms by (intro mult_left_mono) auto
  then have f: "1 - jitter c \<le> ?f" "?f \<le> 1 + jitter c" using assms by simp_all
  have eq: "retry_backoff c r i = trunc_rat (if jitter c > 0 then base i * ?f else base i)"
    by (simp add: retry_backoff_def retry_scaled_eq base_def Let_def)
  have "(1 - jitter c) * base i \<le> base i * ?f" "base i * ?f \<le> (1 + jitter c) * base i"
    using f b0 by (simp_all add: mult.commute mult_left_mono)
  then show ?thesis
    using eq mono j0 by (cases "jitter c = 0") (auto intro: trunc_rat_mono)
qed

theorem retry_backoff_bounds_witness:
  "retry_backoff (retry_newConfig [WithDelay 5, WithMaxDelay 30] :: string retry_config) 0 3 = 30"
proof -
  let ?c = "retry_newConfig [WithDelay 5, WithMaxDelay 30] :: string retry_config"
  have c: "delay ?c = 5" "multiplier ?c = 2" "jitter ?c = 0" "maxDelay ?c = 30"
    by (simp_all add: retry_newConfig_def)
  have "retry_backoff ?c 0 3 = trunc_rat (of_int 30)"
    using retry_backoff_bounds [of ?c 0 3] c by (simp add: Let_def)
  then show ?thesis by (simp only: trunc_rat_of_int)
qed

end
