(* ===== verification/Redis_Iface.thy ===== *)
theory Redis_Iface
  imports Fibr_Prelude
begin

text \<open>
  Redis is a service outside the repository. The components that call it (the distributed
  lock, the token store, the rate limiter, the storage adapter) take its commands as a record
  of functions over an abstract server state; a command may fail with a transport error. The
  locale \<open>redis_server\<close> states the documented behaviour of the commands through the value of
  a key visible at a time. The locale is interpreted on a key space with expiry times.
\<close>

record 's redis =
  rd_get :: "time \<Rightarrow> string \<Rightarrow> 's \<Rightarrow> 's \<times> (string + string option)"
  rd_set :: "time \<Rightarrow> string \<Rightarrow> string \<Rightarrow> duration \<Rightarrow> 's \<Rightarrow> 's \<times> (string + unit)"
  rd_setnx :: "time \<Rightarrow> string \<Rightarrow> string \<Rightarrow> duration \<Rightarrow> 's \<Rightarrow> 's \<times> (string + bool)"
  rd_del :: "time \<Rightarrow> string \<Rightarrow> 's \<Rightarrow> 's \<times> (string + int)"
  rd_exists :: "time \<Rightarrow> string \<Rightarrow> 's \<Rightarrow> 's \<times> (string + int)"
  rd_pexpire :: "time \<Rightarrow> string \<Rightarrow> int \<Rightarrow> 's \<Rightarrow> 's \<times> (string + int)"

text \<open>
  Expiry has millisecond resolution: the client sends whole milliseconds, at least one for a
  positive duration.
\<close>

definition redis_ttl :: "duration \<Rightarrow> duration" where
  "redis_ttl d = (if 0 < d \<and> d < millisecond then millisecond else (d div millisecond) * millisecond)"

lemma redis_ttl_pos: "0 < d \<Longrightarrow> 0 < redis_ttl d"
proof -
  assume d: "0 < d"
  have "0 < d div millisecond" if "\<not> d < millisecond"
    using that by (simp add: millisecond_def pos_imp_zdiv_pos_iff)
  then show ?thesis using d by (auto simp: redis_ttl_def millisecond_def)
qed

text \<open>The visible value of every key from time \<open>now\<close> on, before and after a command.\<close>

definition same_from :: "('s \<Rightarrow> string \<Rightarrow> time \<Rightarrow> string option) \<Rightarrow> time \<Rightarrow> 's \<Rightarrow> 's \<Rightarrow> bool" where
  "same_from val now s s' \<longleftrightarrow> (\<forall>k t. now \<le> t \<longrightarrow> val s' k t = val s k t)"

definition stored_from ::
  "('s \<Rightarrow> string \<Rightarrow> time \<Rightarrow> string option) \<Rightarrow> time \<Rightarrow> string \<Rightarrow> string \<Rightarrow> time option \<Rightarrow> 's \<Rightarrow> 's \<Rightarrow> bool" where
  "stored_from val now k v x s s' \<longleftrightarrow>
     (\<forall>t. now \<le> t \<longrightarrow> val s' k t = (case x of None \<Rightarrow> Some v | Some e \<Rightarrow> if t < e then Some v else None)) \<and>
     (\<forall>k' t. k' \<noteq> k \<longrightarrow> now \<le> t \<longrightarrow> val s' k' t = val s k' t)"

definition deleted_from :: "('s \<Rightarrow> string \<Rightarrow> time \<Rightarrow> string option) \<Rightarrow> time \<Rightarrow> string \<Rightarrow> 's \<Rightarrow> 's \<Rightarrow> bool" where
  "deleted_from val now k s s' \<longleftrightarrow>
     (\<forall>t. now \<le> t \<longrightarrow> val s' k t = None) \<and> (\<forall>k' t. k' \<noteq> k \<longrightarrow> now \<le> t \<longrightarrow> val s' k' t = val s k' t)"

definition set_expiry :: "time \<Rightarrow> duration \<Rightarrow> time option" where
  "set_expiry now ttl = (if ttl > 0 then Some (now + redis_ttl ttl) else None)"

locale redis_server =
  fixes r :: "'s redis" and val :: "'s \<Rightarrow> string \<Rightarrow> time \<Rightarrow> string option"
  assumes get_ok: "rd_get r now k s = (s', Inr w) \<Longrightarrow> w = val s k now \<and> same_from val now s s'"
    and get_err: "rd_get r now k s = (s', Inl e) \<Longrightarrow> same_from val now s s'"
    and set_ok: "ttl \<ge> 0 \<Longrightarrow> rd_set r now k v ttl s = (s', Inr u) \<Longrightarrow>
       stored_from val now k v (set_expiry now ttl) s s'"
    and set_err: "ttl \<ge> 0 \<Longrightarrow> rd_set r now k v ttl s = (s', Inl e) \<Longrightarrow>
       same_from val now s s' \<or> stored_from val now k v (set_expiry now ttl) s s'"
    and setnx_ok: "ttl \<ge> 0 \<Longrightarrow> rd_setnx r now k v ttl s = (s', Inr b) \<Longrightarrow>
       (if b then val s k now = None \<and> stored_from val now k v (set_expiry now ttl) s s'
        else val s k now \<noteq> None \<and> same_from val now s s')"
    and setnx_err: "ttl \<ge> 0 \<Longrightarrow> rd_setnx r now k v ttl s = (s', Inl e) \<Longrightarrow>
       same_from val now s s' \<or> val s k now = None \<and> stored_from val now k v (set_expiry now ttl) s s'"
    and del_ok: "rd_del r now k s = (s', Inr n) \<Longrightarrow>
       deleted_from val now k s s' \<and> n = (if val s k now = None then 0 else 1)"
    and del_err: "rd_del r now k s = (s', Inl e) \<Longrightarrow> same_from val now s s' \<or> deleted_from val now k s s'"
    and exists_ok: "rd_exists r now k s = (s', Inr n) \<Longrightarrow>
       same_from val now s s' \<and> n = (if val s k now = None then 0 else 1)"
    and exists_err: "rd_exists r now k s = (s', Inl e) \<Longrightarrow> same_from val now s s'"
    and pexpire_ok: "rd_pexpire r now k ms s = (s', Inr n) \<Longrightarrow>
       (case val s k now of
          None \<Rightarrow> n = 0 \<and> same_from val now s s'
        | Some v \<Rightarrow> n = 1 \<and> (if ms > 0 then stored_from val now k v (Some (now + ms * millisecond)) s s'
                              else deleted_from val now k s s'))"
    and pexpire_err: "rd_pexpire r now k ms s = (s', Inl e) \<Longrightarrow>
       same_from val now s s' \<or>
       (case val s k now of
          None \<Rightarrow> same_from val now s s'
        | Some v \<Rightarrow> (if ms > 0 then stored_from val now k v (Some (now + ms * millisecond)) s s'
                     else deleted_from val now k s s'))"

section \<open>The key space\<close>

type_synonym keyspace = "string \<Rightarrow> (string \<times> time option) option"

definition ks_val :: "keyspace \<Rightarrow> string \<Rightarrow> time \<Rightarrow> string option" where
  "ks_val s k t =
     (case s k of
        None \<Rightarrow> None
      | Some (v, x) \<Rightarrow> (case x of None \<Rightarrow> Some v | Some e \<Rightarrow> if t < e then Some v else None))"

definition ks_redis :: "keyspace redis" where
  "ks_redis =
     \<lparr>rd_get = (\<lambda>now k s. (s, Inr (ks_val s k now))),
      rd_set = (\<lambda>now k v ttl s. (s(k \<mapsto> (v, set_expiry now ttl)), Inr ())),
      rd_setnx = (\<lambda>now k v ttl s. if ks_val s k now = None
         then (s(k \<mapsto> (v, set_expiry now ttl)), Inr True) else (s, Inr False)),
      rd_del = (\<lambda>now k s. (s(k := None), Inr (if ks_val s k now = None then 0 else 1))),
      rd_exists = (\<lambda>now k s. (s, Inr (if ks_val s k now = None then 0 else 1))),
      rd_pexpire = (\<lambda>now k ms s. case ks_val s k now of
          None \<Rightarrow> (s, Inr 0)
        | Some v \<Rightarrow> (if ms > 0 then s(k \<mapsto> (v, Some (now + ms * millisecond))) else s(k := None), Inr 1))\<rparr>"

lemmas redis_effects = same_from_def stored_from_def deleted_from_def

interpretation ks: redis_server ks_redis ks_val
  by unfold_locales
     (auto simp: ks_redis_def ks_val_def redis_effects split: option.splits if_splits)

end
