(* ===== verification/Go_Strings.thy ===== *)
theory Go_Strings
  imports Fibr_Prelude
begin

text \<open>
  The parts of Go's \<open>strings\<close>, \<open>strconv\<close> and \<open>encoding/hex\<close> that the components call, on byte
  strings: splitting and joining, cutting, trimming, case, decimal printing and parsing,
  hexadecimal. Case and white space are those of ASCII.
\<close>

section \<open>Characters\<close>

definition chr_code :: "char \<Rightarrow> nat" where "chr_code c = of_char c"

definition is_digit :: "char \<Rightarrow> bool" where
  "is_digit c \<longleftrightarrow> 48 \<le> chr_code c \<and> chr_code c \<le> 57"

definition is_lower :: "char \<Rightarrow> bool" where
  "is_lower c \<longleftrightarrow> 97 \<le> chr_code c \<and> chr_code c \<le> 122"

definition is_upper :: "char \<Rightarrow> bool" where
  "is_upper c \<longleftrightarrow> 65 \<le> chr_code c \<and> chr_code c \<le> 90"

definition to_lower :: "char \<Rightarrow> char" where
  "to_lower c = (if is_upper c then char_of (chr_code c + 32) else c)"

definition is_space :: "char \<Rightarrow> bool" where
  "is_space c \<longleftrightarrow> c = CHR '' '' \<or> 9 \<le> chr_code c \<and> chr_code c \<le> 13"

definition ToLower :: "string \<Rightarrow> string" where
  "ToLower s = map to_lower s"

definition to_upper :: "char \<Rightarrow> char" where
  "to_upper c = (if is_lower c then char_of (chr_code c - 32) else c)"

definition ToUpper :: "string \<Rightarrow> string" where
  "ToUpper s = map to_upper s"

definition digit_char :: "nat \<Rightarrow> char" where
  "digit_char d = char_of (48 + d)"

definition digit_val :: "char \<Rightarrow> nat" where
  "digit_val c = chr_code c - 48"

lemma chr_code_char_of [simp]: "n < 256 \<Longrightarrow> chr_code (char_of n) = n"
  by (simp add: chr_code_def of_char_of)

lemma digit_char_ok [simp]: "d < 10 \<Longrightarrow> is_digit (digit_char d)" "d < 10 \<Longrightarrow> digit_val (digit_char d) = d"
  by (simp_all add: digit_char_def is_digit_def digit_val_def)

lemma digit_val_less: "is_digit c \<Longrightarrow> digit_val c < 10"
  by (auto simp: is_digit_def digit_val_def)

section \<open>Splitting, joining, trimming\<close>

text \<open>\<open>strings.Split\<close> with a one-byte separator.\<close>

fun Split :: "char \<Rightarrow> string \<Rightarrow> string list" where
  "Split sep [] = [[]]"
| "Split sep (c # cs) =
     (if c = sep then [] # Split sep cs
      else case Split sep cs of [] \<Rightarrow> [[c]] | w # ws \<Rightarrow> (c # w) # ws)"

fun Join :: "string \<Rightarrow> string list \<Rightarrow> string" where
  "Join sep [] = []"
| "Join sep [w] = w"
| "Join sep (w # ws) = w @ sep @ Join sep ws"

lemma Split_not_Nil [simp]: "Split sep s \<noteq> []"
  by (cases s) (auto split: list.splits)

lemma Join_Cons: "ws \<noteq> [] \<Longrightarrow> Join sep (w # ws) = w @ sep @ Join sep ws"
  by (cases ws) auto

lemma Join_Split: "Join [sep] (Split sep s) = s"
proof (induction s)
  case (Cons c cs)
  obtain w ws where w: "Split sep cs = w # ws" by (cases "Split sep cs") auto
  show ?case
  proof (cases "c = sep")
    case True
    then show ?thesis using Cons w by (simp add: Join_Cons)
  next
    case False
    then show ?thesis using Cons w by (cases ws) auto
  qed
qed simp

lemma Split_inject: "Split sep s = Split sep s' \<longleftrightarrow> s = s'"
  by (metis Join_Split)

lemma Split_no_sep: "sep \<notin> set w \<Longrightarrow> Split sep w = [w]"
  by (induction w) auto

lemma Split_append: "sep \<notin> set w \<Longrightarrow> Split sep (w @ sep # s) = w # Split sep s"
  by (induction w) auto

lemma Split_Join: "ws \<noteq> [] \<Longrightarrow> \<forall>w\<in>set ws. sep \<notin> set w \<Longrightarrow> Split sep (Join [sep] ws) = ws"
proof (induction ws)
  case (Cons w ws)
  then show ?case by (cases ws) (auto simp: Split_no_sep Split_append)
qed simp

text \<open>\<open>strings.Cut\<close> at the first occurrence of a byte.\<close>

fun Cut :: "char \<Rightarrow> string \<Rightarrow> (string \<times> string) option" where
  "Cut sep [] = None"
| "Cut sep (c # cs) =
     (if c = sep then Some ([], cs)
      else case Cut sep cs of None \<Rightarrow> None | Some (a, b) \<Rightarrow> Some (c # a, b))"

lemma Cut_append: "sep \<notin> set a \<Longrightarrow> Cut sep (a @ sep # b) = Some (a, b)"
  by (induction a) auto

lemma Cut_None: "Cut sep s = None \<longleftrightarrow> sep \<notin> set s"
  by (induction s) (auto split: option.splits)

lemma Cut_Some: "Cut sep s = Some (a, b) \<longleftrightarrow> s = a @ sep # b \<and> sep \<notin> set a"
proof
  show "Cut sep s = Some (a, b) \<Longrightarrow> s = a @ sep # b \<and> sep \<notin> set a"
    by (induction s arbitrary: a) (auto split: option.splits if_splits)
  show "s = a @ sep # b \<and> sep \<notin> set a \<Longrightarrow> Cut sep s = Some (a, b)"
    using Cut_append by blast
qed

definition TrimSpace :: "string \<Rightarrow> string" where
  "TrimSpace s = rev (dropWhile is_space (rev (dropWhile is_space s)))"

lemma TrimSpace_id:
  assumes "\<forall>c\<in>set s. \<not> is_space c"
  shows "TrimSpace s = s"
proof -
  have d: "dropWhile is_space t = t" if "\<forall>c\<in>set t. \<not> is_space c" for t using that by (cases t) auto
  have "dropWhile is_space s = s" "dropWhile is_space (rev s) = rev s" using assms by (simp_all add: d)
  then show ?thesis by (simp add: TrimSpace_def)
qed

definition HasPrefix :: "string \<Rightarrow> string \<Rightarrow> bool" where
  "HasPrefix s p \<longleftrightarrow> take (length p) s = p"

definition TrimPrefix :: "string \<Rightarrow> string \<Rightarrow> string" where
  "TrimPrefix s p = (if HasPrefix s p then drop (length p) s else s)"

lemma HasPrefix_append [simp]: "HasPrefix (p @ s) p"
  by (simp add: HasPrefix_def)

section \<open>Decimal numbers\<close>

fun nat_digits :: "nat \<Rightarrow> string" where
  "nat_digits n = (if n < 10 then [digit_char n] else nat_digits (n div 10) @ [digit_char (n mod 10)])"

declare nat_digits.simps [simp del]

definition itoa :: "int \<Rightarrow> string" where
  "itoa n = (if n < 0 then CHR ''-'' # nat_digits (nat (- n)) else nat_digits (nat n))"

definition digits_val :: "string \<Rightarrow> nat" where
  "digits_val s = foldl (\<lambda>a c. 10 * a + digit_val c) 0 s"

text \<open>\<open>strconv.ParseInt(s, 10, 64)\<close>: an optional sign, at least one digit, a value in range.\<close>

definition ParseInt :: "string \<Rightarrow> int option" where
  "ParseInt s =
     (let neg = (s \<noteq> [] \<and> hd s = CHR ''-'');
          ds = (if s \<noteq> [] \<and> (hd s = CHR ''-'' \<or> hd s = CHR ''+'') then tl s else s);
          v = (if neg then - int (digits_val ds) else int (digits_val ds))
      in if ds \<noteq> [] \<and> list_all is_digit ds \<and> int64_min \<le> v \<and> v \<le> int64_max then Some v else None)"

lemma nat_digits_ok: "nat_digits n \<noteq> [] \<and> list_all is_digit (nat_digits n) \<and> digits_val (nat_digits n) = n"
proof (induction n rule: nat_digits.induct)
  case (1 n)
  show ?case
  proof (cases "n < 10")
    case True
    then show ?thesis by (simp add: nat_digits.simps [of n] digits_val_def)
  next
    case False
    then have "digits_val (nat_digits n) = 10 * digits_val (nat_digits (n div 10)) + n mod 10"
      by (simp add: nat_digits.simps [of n] digits_val_def)
    then show ?thesis using 1 False by (simp add: nat_digits.simps [of n])
  qed
qed

lemma nat_digits_digit: "c \<in> set (nat_digits n) \<Longrightarrow> is_digit c"
  using nat_digits_ok [of n] by (auto simp: list_all_iff)

lemma itoa_chars: "c \<in> set (itoa n) \<Longrightarrow> is_digit c \<or> c = CHR ''-''"
  by (auto simp: itoa_def nat_digits_digit split: if_splits)

lemma sign_not_digit: "\<not> is_digit CHR ''-''" "\<not> is_digit CHR ''+''"
  by (simp_all add: is_digit_def chr_code_def)

lemma ParseInt_itoa:
  assumes "int64_min \<le> n" "n \<le> int64_max"
  shows "ParseInt (itoa n) = Some n"
proof (cases "n < 0")
  case True
  then show ?thesis using nat_digits_ok [of "nat (- n)"] assms by (simp add: ParseInt_def itoa_def)
next
  case False
  obtain d ds where d: "nat_digits (nat n) = d # ds" using nat_digits_ok [of "nat n"] by (cases "nat_digits (nat n)") auto
  then have "is_digit d" using nat_digits_ok [of "nat n"] by simp
  then have "d \<noteq> CHR ''-''" "d \<noteq> CHR ''+''" using sign_not_digit by auto
  then show ?thesis using nat_digits_ok [of "nat n"] assms False d by (simp add: ParseInt_def itoa_def)
qed

lemma itoa_inject: "int64_min \<le> n \<Longrightarrow> n \<le> int64_max \<Longrightarrow> int64_min \<le> m \<Longrightarrow> m \<le> int64_max \<Longrightarrow> itoa n = itoa m \<longleftrightarrow> n = m"
  by (metis ParseInt_itoa option.inject)

section \<open>Hexadecimal\<close>

definition hex_char :: "nat \<Rightarrow> char" where
  "hex_char d = (if d < 10 then char_of (48 + d) else char_of (87 + d))"

definition hex_val :: "char \<Rightarrow> nat option" where
  "hex_val c =
     (if is_digit c then Some (chr_code c - 48)
      else if 97 \<le> chr_code c \<and> chr_code c \<le> 102 then Some (chr_code c - 87)
      else if 65 \<le> chr_code c \<and> chr_code c \<le> 70 then Some (chr_code c - 55)
      else None)"

fun hex_EncodeToString :: "string \<Rightarrow> string" where
  "hex_EncodeToString [] = []"
| "hex_EncodeToString (c # cs) = hex_char (chr_code c div 16) # hex_char (chr_code c mod 16) # hex_EncodeToString cs"

fun hex_DecodeString :: "string \<Rightarrow> string option" where
  "hex_DecodeString [] = Some []"
| "hex_DecodeString [c] = None"
| "hex_DecodeString (a # b # cs) =
     (case (hex_val a, hex_val b, hex_DecodeString cs) of
        (Some x, Some y, Some r) \<Rightarrow> Some (char_of (16 * x + y) # r)
      | _ \<Rightarrow> None)"

lemma hex_val_char: "d < 16 \<Longrightarrow> hex_val (hex_char d) = Some d"
  by (auto simp: hex_val_def hex_char_def is_digit_def)

lemma chr_code_less: "chr_code c < 256"
proof -
  have "chr_code c mod 256 = chr_code c" by (simp add: chr_code_def)
  then show ?thesis by (metis mod_less_divisor zero_less_numeral)
qed

lemma hex_roundtrip: "hex_DecodeString (hex_EncodeToString s) = Some s"
proof (induction s)
  case (Cons c s)
  have "chr_code c div 16 < 16" using chr_code_less [of c] by simp
  then have "hex_val (hex_char (chr_code c div 16)) = Some (chr_code c div 16)"
    "hex_val (hex_char (chr_code c mod 16)) = Some (chr_code c mod 16)"
    by (simp_all add: hex_val_char)
  then show ?case using Cons by (simp add: chr_code_def)
qed simp

lemma hex_inj: "hex_EncodeToString a = hex_EncodeToString b \<longleftrightarrow> a = b"
  by (metis hex_roundtrip option.inject)

lemma hex_chars: "x \<in> set (hex_EncodeToString s) \<Longrightarrow> is_digit x \<or> is_lower x"
proof (induction s)
  case (Cons c s)
  have "is_digit (hex_char d) \<or> is_lower (hex_char d)" if "d < 16" for d
    using that by (auto simp: hex_char_def is_digit_def is_lower_def)
  from this [of "chr_code c div 16"] this [of "chr_code c mod 16"] show ?case
    using Cons chr_code_less [of c] by auto
qed simp

end
