(* ===== verification/Lock.thy ===== *)
theory Lock
  imports Redis_Iface Go_Strings
begin

text \<open>
  The distributed mutex of \<open>src/lock\<close>: acquisition by \<open>SETNX\<close> with a random owner token,
  owner-only release and extension by Lua scripts, the blocking \<open>Acquire\<close> and the guarded
  \<open>Do\<close>. A random token is an argument (\<open>Inl\<close> when the random source fails). The protocol is a
  step relation over the server, a clock and the handles the clients hold; the invariant says
  that a handle's key carries its token until the handle's deadline.
\<close>

section \<open>Operations\<close>

datatype lock_err =
    RandErr string
  | RedisErr string
  | ErrNotAcquired "string option"   \<comment> \<open>with the wrapped context error, if any\<close>
  | ErrNotHeld
  | FnErr string

record lock =
  l_key :: string
  l_token :: string

record locker =
  retryDelay :: duration

datatype lock_option = WithRetryDelay duration

fun lock_opt :: "lock_option \<Rightarrow> locker \<Rightarrow> locker" where
  "lock_opt (WithRetryDelay d) l = l\<lparr>retryDelay := d\<rparr>"

definition lock_New :: "lock_option list \<Rightarrow> locker" where
  "lock_New opts = apply_opts lock_opt opts \<lparr>retryDelay = 50 * millisecond\<rparr>"

definition lock_TryAcquire ::
  "'s redis \<Rightarrow> time \<Rightarrow> string + string \<Rightarrow> string \<Rightarrow> duration \<Rightarrow> 's \<Rightarrow> 's \<times> (lock_err + lock option)" where
  "lock_TryAcquire r now token key ttl s =
     (case token of
        Inl e \<Rightarrow> (s, Inl (RandErr e))
      | Inr tok \<Rightarrow>
          (case rd_setnx r now key tok ttl s of
             (s', Inl e) \<Rightarrow> (s', Inl (RedisErr e))
           | (s', Inr ok) \<Rightarrow>
               if \<not> ok then (s', Inr None) else (s', Inr (Some \<lparr>l_key = key, l_token = tok\<rparr>))))"

text \<open>The owner token is the hexadecimal text of 16 random bytes, or the failure of their source.\<close>

definition lock_newToken :: "string + string \<Rightarrow> string + string" where
  "lock_newToken random =
     (case random of
        Inl e \<Rightarrow> Inl (''lock: generate token: '' @ e)
      | Inr b \<Rightarrow> Inr (hex_EncodeToString b))"

lemma lock_newToken_inj: "lock_newToken (Inr a) = lock_newToken (Inr b) \<longleftrightarrow> a = b"
  by (simp add: lock_newToken_def hex_inj)

text \<open>
  One turn of the loop of \<open>Acquire\<close>: when it runs, which token it draws, what the context says
  after a Redis error, and what ends the wait (\<open>None\<close>: the timer). \<open>others\<close> is what other
  clients do to the server while this one waits. The list may end while the lock is still
  held by someone else: then the call has not returned, which is \<open>None\<close>.
\<close>

record 's acquire_turn =
  at_now :: time
  at_token :: "string + string"
  at_ctxErr :: "string option"
  at_done :: "string option"
  at_others :: "'s \<Rightarrow> 's"

fun lock_Acquire ::
  "'s redis \<Rightarrow> string \<Rightarrow> duration \<Rightarrow> 's acquire_turn list \<Rightarrow> 's \<Rightarrow> 's \<times> (lock_err + lock) option" where
  "lock_Acquire r key ttl [] s = (s, None)"
| "lock_Acquire r key ttl (a # as) s =
     (case lock_TryAcquire r (at_now a) (at_token a) key ttl s of
        (s', Inl e) \<Rightarrow>
          (case at_ctxErr a of
             Some ce \<Rightarrow> (s', Some (Inl (ErrNotAcquired (Some ce))))
           | None \<Rightarrow> (s', Some (Inl e)))
      | (s', Inr (Some lk)) \<Rightarrow> (s', Some (Inr lk))
      | (s', Inr None) \<Rightarrow>
          (case at_done a of
             Some ce \<Rightarrow> (s', Some (Inl (ErrNotAcquired (Some ce))))
           | None \<Rightarrow> lock_Acquire r key ttl as (at_others a s')))"

text \<open>The two Lua scripts run atomically on the server.\<close>

definition releaseScript :: "'s redis \<Rightarrow> time \<Rightarrow> string \<Rightarrow> string \<Rightarrow> 's \<Rightarrow> 's \<times> (string + int)" where
  "releaseScript r now key tok s =
     (case rd_get r now key s of
        (s', Inl e) \<Rightarrow> (s', Inl e)
      | (s', Inr v) \<Rightarrow> if v = Some tok then rd_del r now key s' else (s', Inr 0))"

definition extendScript :: "'s redis \<Rightarrow> time \<Rightarrow> string \<Rightarrow> string \<Rightarrow> int \<Rightarrow> 's \<Rightarrow> 's \<times> (string + int)" where
  "extendScript r now key tok ms s =
     (case rd_get r now key s of
        (s', Inl e) \<Rightarrow> (s', Inl e)
      | (s', Inr v) \<Rightarrow> if v = Some tok then rd_pexpire r now key ms s' else (s', Inr 0))"

definition lock_Release :: "'s redis \<Rightarrow> time \<Rightarrow> lock \<Rightarrow> 's \<Rightarrow> 's \<times> lock_err option" where
  "lock_Release r now l s =
     (case releaseScript r now (l_key l) (l_token l) s of
        (s', Inl e) \<Rightarrow> (s', Some (RedisErr e))
      | (s', Inr n) \<Rightarrow> (s', if n = 0 then Some ErrNotHeld else None))"

definition lock_Extend :: "'s redis \<Rightarrow> time \<Rightarrow> duration \<Rightarrow> lock \<Rightarrow> 's \<Rightarrow> 's \<times> lock_err option" where
  "lock_Extend r now ttl l s =
     (case extendScript r now (l_key l) (l_token l) (go_div ttl millisecond) s of
        (s', Inl e) \<Rightarrow> (s', Some (RedisErr e))
      | (s', Inr n) \<Rightarrow> (s', if n = 0 then Some ErrNotHeld else None))"

text \<open>\<open>Do\<close>: \<open>fn\<close> is what the function and everyone else do to the server while it runs.\<close>

definition lock_Do ::
  "'s redis \<Rightarrow> time \<Rightarrow> time \<Rightarrow> string + string \<Rightarrow> string \<Rightarrow> duration \<Rightarrow> ('s \<Rightarrow> 's \<times> string option) \<Rightarrow> 's
   \<Rightarrow> 's \<times> lock_err option" where
  "lock_Do r t1 t2 token key ttl fn s =
     (case lock_TryAcquire r t1 token key ttl s of
        (s', Inl e) \<Rightarrow> (s', Some e)
      | (s', Inr None) \<Rightarrow> (s', Some (ErrNotAcquired None))
      | (s', Inr (Some lk)) \<Rightarrow>
          (case fn s' of (s'', res) \<Rightarrow> (fst (lock_Release r t2 lk s''), map_option FnErr res)))"

section \<open>What each operation does\<close>

context redis_server
begin

lemma TryAcquire_cases:
  assumes "lock_TryAcquire r now token key ttl s = (s', res)" "ttl > 0"
  obtains (got) tok where "token = Inr tok" "res = Inr (Some \<lparr>l_key = key, l_token = tok\<rparr>)" "val s key now = None"
      "stored_from val now key tok (Some (now + redis_ttl ttl)) s s'"
    | (busy) "res = Inr None" "val s key now \<noteq> None" "same_from val now s s'"
    | (quiet) e where "res = Inl e" "same_from val now s s'"
    | (lost) e tok where "res = Inl e" "token = Inr tok" "val s key now = None"
      "stored_from val now key tok (Some (now + redis_ttl ttl)) s s'"
proof (cases token)
  case (Inl e)
  with assms show ?thesis by (intro that(3)) (auto simp: lock_TryAcquire_def same_from_def)
next
  case (Inr tok)
  obtain s1 b where nx: "rd_setnx r now key tok ttl s = (s1, b)" by fastforce
  show ?thesis
  proof (cases b)
    case (Inl e)
    then show ?thesis
      using assms Inr nx setnx_err [of ttl now key tok s s1 e] that(3,4)
      by (auto simp: lock_TryAcquire_def set_expiry_def)
  next
    case bb: (Inr ok)
    then show ?thesis
      using assms Inr nx setnx_ok [of ttl now key tok s s1 ok] that(1,2)
      by (auto simp: lock_TryAcquire_def set_expiry_def split: if_splits)
  qed
qed

lemma Release_cases:
  assumes "lock_Release r now l s = (s', res)"
  obtains (released) "res = None" "val s (l_key l) now = Some (l_token l)" "deleted_from val now (l_key l) s s'"
    | (notheld) "res = Some ErrNotHeld" "val s (l_key l) now \<noteq> Some (l_token l)" "same_from val now s s'"
    | (error) e where "res = Some (RedisErr e)"
      "same_from val now s s' \<or> val s (l_key l) now = Some (l_token l) \<and> deleted_from val now (l_key l) s s'"
proof -
  obtain s1 g where get: "rd_get r now (l_key l) s = (s1, g)" by fastforce
  show ?thesis
  proof (cases g)
    case (Inl e)
    then show ?thesis
      using assms get get_err [of now "l_key l" s s1 e] that(3)
      by (auto simp: lock_Release_def releaseScript_def)
  next
    case (Inr v)
    have v: "v = val s (l_key l) now" and same: "same_from val now s s1"
      using get_ok [of now "l_key l" s s1 v] get Inr by auto
    show ?thesis
    proof (cases "v = Some (l_token l)")
      case False
      then show ?thesis
        using assms get Inr v same that(2) by (auto simp: lock_Release_def releaseScript_def)
    next
      case True
      obtain s2 d where del: "rd_del r now (l_key l) s1 = (s2, d)" by fastforce
      have val1: "val s1 (l_key l) now = Some (l_token l)"
        using same v True by (simp add: same_from_def)
      show ?thesis
      proof (cases d)
        case (Inl e)
        then show ?thesis
          using assms get Inr True del_err [of now "l_key l" s1 s2 e] del same v that(3)
          by (auto simp: lock_Release_def releaseScript_def redis_effects)
      next
        case dn: (Inr n)
        then show ?thesis
          using assms get Inr True del_ok [of now "l_key l" s1 s2 n] del same v val1 that(1)
          by (auto simp: lock_Release_def releaseScript_def redis_effects)
      qed
    qed
  qed
qed

lemma Extend_cases:
  assumes "lock_Extend r now ttl l s = (s', res)" "ttl \<ge> millisecond"
  obtains (extended) "res = None" "val s (l_key l) now = Some (l_token l)"
      "stored_from val now (l_key l) (l_token l) (Some (now + redis_ttl ttl)) s s'"
    | (notheld) "res = Some ErrNotHeld" "val s (l_key l) now \<noteq> Some (l_token l)" "same_from val now s s'"
    | (error) e where "res = Some (RedisErr e)"
      "same_from val now s s' \<or> val s (l_key l) now = Some (l_token l) \<and>
         stored_from val now (l_key l) (l_token l) (Some (now + redis_ttl ttl)) s s'"
proof -
  let ?ms = "go_div ttl millisecond"
  have ms: "?ms = ttl div millisecond" "?ms > 0"
    using assms(2) by (simp_all add: go_div_nonneg millisecond_def pos_imp_zdiv_pos_iff)
  then have ttl: "?ms * millisecond = redis_ttl ttl"
    using assms(2) by (simp add: redis_ttl_def)
  obtain s1 g where get: "rd_get r now (l_key l) s = (s1, g)" by fastforce
  show ?thesis
  proof (cases g)
    case (Inl e)
    then show ?thesis
      using assms get get_err [of now "l_key l" s s1 e] that(3)
      by (auto simp: lock_Extend_def extendScript_def)
  next
    case (Inr v)
    have v: "v = val s (l_key l) now" and same: "same_from val now s s1"
      using get_ok [of now "l_key l" s s1 v] get Inr by auto
    show ?thesis
    proof (cases "v = Some (l_token l)")
      case False
      then show ?thesis
        using assms get Inr v same that(2) by (auto simp: lock_Extend_def extendScript_def)
    next
      case True
      obtain s2 d where px: "rd_pexpire r now (l_key l) ?ms s1 = (s2, d)" by fastforce
      have val1: "val s1 (l_key l) now = Some (l_token l)"
        using same v True by (simp add: same_from_def)
      show ?thesis
      proof (cases d)
        case (Inl e)
        then show ?thesis
          using assms get Inr True pexpire_err [of now "l_key l" ?ms s1 s2 e] px same v val1 ms ttl that(3)
          by (auto simp: lock_Extend_def extendScript_def redis_effects)
      next
        case dn: (Inr n)
        then show ?thesis
          using assms get Inr True pexpire_ok [of now "l_key l" ?ms s1 s2 n] px same v val1 ms ttl that(1)
          by (auto simp: lock_Extend_def extendScript_def redis_effects)
      qed
    qed
  qed
qed

end

section \<open>The protocol\<close>

text \<open>
  Any number of clients share the server. \<open>handles\<close> are the locks the clients hold, each with
  the deadline its last acquisition or extension gave it; \<open>used\<close> are the tokens drawn so far
  (128 random bits: a drawn token is new). A client drops its handle when it releases it or
  when an extension does not succeed. \<open>other\<close> is any traffic that leaves the lock keys alone.
\<close>

record 's lock_sys =
  server :: 's
  clock :: time
  handles :: "(lock \<times> time) set"
  used :: "string set"

inductive lock_step :: "'s redis \<Rightarrow> ('s \<Rightarrow> string \<Rightarrow> time \<Rightarrow> string option) \<Rightarrow> 's lock_sys \<Rightarrow> 's lock_sys \<Rightarrow> bool"
  for r val where
  tick: "clock x \<le> t \<Longrightarrow> lock_step r val x (x\<lparr>clock := t\<rparr>)"
| attempt: "tok \<notin> used x \<Longrightarrow> ttl > 0 \<Longrightarrow>
    lock_TryAcquire r (clock x) (Inr tok) key ttl (server x) = (s', res) \<Longrightarrow>
    lock_step r val x (x\<lparr>server := s',
      handles := (case res of Inr (Some lk) \<Rightarrow> insert (lk, clock x + redis_ttl ttl) (handles x) | _ \<Rightarrow> handles x),
      used := insert tok (used x)\<rparr>)"
| release: "lock_Release r (clock x) lk (server x) = (s', res) \<Longrightarrow> (lk, dl) \<in> handles x \<Longrightarrow>
    lock_step r val x (x\<lparr>server := s', handles := {h \<in> handles x. fst h \<noteq> lk}\<rparr>)"
| extend: "lock_Extend r (clock x) ttl lk (server x) = (s', res) \<Longrightarrow> ttl \<ge> millisecond \<Longrightarrow> (lk, dl) \<in> handles x \<Longrightarrow>
    lock_step r val x (x\<lparr>server := s', handles := {h \<in> handles x. fst h \<noteq> lk} \<union>
      (if res = None then {(lk, clock x + redis_ttl ttl)} else {})\<rparr>)"
| other: "\<forall>h\<in>handles x. \<forall>t. clock x \<le> t \<longrightarrow> val s' (l_key (fst h)) t = val (server x) (l_key (fst h)) t \<Longrightarrow>
    lock_step r val x (x\<lparr>server := s'\<rparr>)"

inductive lock_reach :: "'s redis \<Rightarrow> ('s \<Rightarrow> string \<Rightarrow> time \<Rightarrow> string option) \<Rightarrow> 's lock_sys \<Rightarrow> bool"
  for r val where
  init: "handles x = {} \<Longrightarrow> lock_reach r val x"
| step: "lock_reach r val x \<Longrightarrow> lock_step r val x y \<Longrightarrow> lock_reach r val y"

definition lock_inv :: "('s \<Rightarrow> string \<Rightarrow> time \<Rightarrow> string option) \<Rightarrow> 's lock_sys \<Rightarrow> bool" where
  "lock_inv val x \<longleftrightarrow>
     (\<forall>lk dl. (lk, dl) \<in> handles x \<longrightarrow> l_token lk \<in> used x) \<and>
     (\<forall>lk dl t. (lk, dl) \<in> handles x \<longrightarrow> clock x \<le> t \<longrightarrow> t < dl \<longrightarrow>
        val (server x) (l_key lk) t = Some (l_token lk)) \<and>
     (\<forall>l1 d1 l2 d2. (l1, d1) \<in> handles x \<longrightarrow> (l2, d2) \<in> handles x \<longrightarrow>
        l_token l1 = l_token l2 \<longrightarrow> l1 = l2 \<and> d1 = d2)"

lemma lock_invI:
  assumes "\<And>lk dl. (lk, dl) \<in> handles x \<Longrightarrow> l_token lk \<in> used x"
    "\<And>lk dl t. (lk, dl) \<in> handles x \<Longrightarrow> clock x \<le> t \<Longrightarrow> t < dl \<Longrightarrow>
       val (server x) (l_key lk) t = Some (l_token lk)"
    "\<And>l1 d1 l2 d2. (l1, d1) \<in> handles x \<Longrightarrow> (l2, d2) \<in> handles x \<Longrightarrow>
       l_token l1 = l_token l2 \<Longrightarrow> l1 = l2 \<and> d1 = d2"
  shows "lock_inv val x"
  unfolding lock_inv_def using assms by blast

lemma lock_invD:
  assumes "lock_inv val x" "(lk, dl) \<in> handles x"
  shows "l_token lk \<in> used x" "clock x \<le> t \<Longrightarrow> t < dl \<Longrightarrow> val (server x) (l_key lk) t = Some (l_token lk)"
  using assms unfolding lock_inv_def by blast+

lemma lock_inv_unique:
  assumes "lock_inv val x" "(l1, d1) \<in> handles x" "(l2, d2) \<in> handles x" "l_token l1 = l_token l2"
  shows "l1 = l2 \<and> d1 = d2"
  using assms unfolding lock_inv_def by blast

text \<open>
  A change of the server that keeps, from now on, the values of the keys of the live handles
  keeps the invariant; so does dropping handles.
\<close>

lemma lock_inv_frame:
  assumes inv: "lock_inv val x" and H: "H \<subseteq> handles x" and U: "used x \<subseteq> U"
    and val: "\<And>lk dl t. (lk, dl) \<in> H \<Longrightarrow> clock x \<le> t \<Longrightarrow> t < dl \<Longrightarrow>
      val s' (l_key lk) t = val (server x) (l_key lk) t"
  shows "lock_inv val (x\<lparr>server := s', handles := H, used := U\<rparr>)"
proof (rule lock_invI)
  fix lk dl assume h: "(lk, dl) \<in> handles (x\<lparr>server := s', handles := H, used := U\<rparr>)"
  then have hx: "(lk, dl) \<in> handles x" using H by auto
  show "l_token lk \<in> used (x\<lparr>server := s', handles := H, used := U\<rparr>)"
    using lock_invD(1) [OF inv hx] U by auto
  fix t assume "clock (x\<lparr>server := s', handles := H, used := U\<rparr>) \<le> t" "t < dl"
  then show "val (server (x\<lparr>server := s', handles := H, used := U\<rparr>)) (l_key lk) t = Some (l_token lk)"
    using val [of lk dl t] h lock_invD(2) [OF inv hx, of t] by simp
next
  fix l1 d1 l2 d2
  assume "(l1, d1) \<in> handles (x\<lparr>server := s', handles := H, used := U\<rparr>)"
    "(l2, d2) \<in> handles (x\<lparr>server := s', handles := H, used := U\<rparr>)" "l_token l1 = l_token l2"
  then show "l1 = l2 \<and> d1 = d2"
    using lock_inv_unique [OF inv, of l1 d1 l2 d2] H by (simp add: subset_iff)
qed

lemma lock_inv_add:
  assumes inv: "lock_inv val x" and tok: "l_token lk \<in> used x"
    and new: "\<And>l d. (l, d) \<in> handles x \<Longrightarrow> l_token l \<noteq> l_token lk"
    and st: "\<And>t. clock x \<le> t \<Longrightarrow> t < dl \<Longrightarrow> val (server x) (l_key lk) t = Some (l_token lk)"
  shows "lock_inv val (x\<lparr>handles := insert (lk, dl) (handles x)\<rparr>)"
proof (rule lock_invI)
  fix l d assume "(l, d) \<in> handles (x\<lparr>handles := insert (lk, dl) (handles x)\<rparr>)"
  then have h: "(l, d) = (lk, dl) \<or> (l, d) \<in> handles x" by simp
  then show "l_token l \<in> used (x\<lparr>handles := insert (lk, dl) (handles x)\<rparr>)"
    using tok lock_invD(1) [OF inv] by auto
  fix t assume "clock (x\<lparr>handles := insert (lk, dl) (handles x)\<rparr>) \<le> t" "t < d"
  then show "val (server (x\<lparr>handles := insert (lk, dl) (handles x)\<rparr>)) (l_key l) t = Some (l_token l)"
    using h st [of t] lock_invD(2) [OF inv, of l d t] by auto
next
  fix l1 d1 l2 d2
  assume "(l1, d1) \<in> handles (x\<lparr>handles := insert (lk, dl) (handles x)\<rparr>)"
    "(l2, d2) \<in> handles (x\<lparr>handles := insert (lk, dl) (handles x)\<rparr>)" "l_token l1 = l_token l2"
  then have "(l1, d1) = (lk, dl) \<or> (l1, d1) \<in> handles x" "(l2, d2) = (lk, dl) \<or> (l2, d2) \<in> handles x"
    "l_token l1 = l_token l2" by simp_all
  then show "l1 = l2 \<and> d1 = d2"
    using lock_inv_unique [OF inv] new by (metis Pair_inject)
qed

context redis_server
begin

lemma no_live_handle:
  assumes "lock_inv val x" "val (server x) key (clock x) = None" "(lk, dl) \<in> handles x" "clock x < dl"
  shows "l_key lk \<noteq> key"
  using lock_invD(2) [OF assms(1,3), of "clock x"] assms(2,4) by auto

lemma only_live_handle:
  assumes inv: "lock_inv val x" and own: "val (server x) (l_key lk) (clock x) = Some (l_token lk)"
    and lk: "(lk, dl) \<in> handles x" and l: "(l, d) \<in> {h \<in> handles x. fst h \<noteq> lk}" "clock x < d"
  shows "l_key l \<noteq> l_key lk"
proof
  assume "l_key l = l_key lk"
  then have "l_token l = l_token lk"
    using lock_invD(2) [OF inv, of l d "clock x"] own l by auto
  then show False using lock_inv_unique [OF inv, of l d lk dl] lk l by auto
qed

lemma attempt_inv:
  assumes inv: "lock_inv val x" and new: "tok \<notin> used x" and ttl: "ttl > 0"
    and tr: "lock_TryAcquire r (clock x) (Inr tok) key ttl (server x) = (s', res)"
  shows "lock_inv val (x\<lparr>server := s', handles := (case res of Inr (Some lk) \<Rightarrow>
     insert (lk, clock x + redis_ttl ttl) (handles x) | _ \<Rightarrow> handles x), used := insert tok (used x)\<rparr>)"
proof -
  let ?y = "x\<lparr>server := s', handles := handles x, used := insert tok (used x)\<rparr>"
  have frame: "lock_inv val ?y"
    if "\<And>lk dl t. (lk, dl) \<in> handles x \<Longrightarrow> clock x \<le> t \<Longrightarrow> t < dl \<Longrightarrow> val s' (l_key lk) t = val (server x) (l_key lk) t"
    by (rule lock_inv_frame [OF inv]) (use that in auto)
  have stored: "lock_inv val ?y"
    if "val (server x) key (clock x) = None" "stored_from val (clock x) key tok e (server x) s'" for e
  proof (rule frame)
    fix lk dl t assume h: "(lk, dl) \<in> handles x" "clock x \<le> t" "t < dl"
    then have "l_key lk \<noteq> key" using no_live_handle [OF inv that(1) h(1)] by simp
    then show "val s' (l_key lk) t = val (server x) (l_key lk) t"
      using that(2) h(2) by (simp add: stored_from_def)
  qed
  from tr ttl show ?thesis
  proof (cases rule: TryAcquire_cases)
    case (got tok')
    have "lock_inv val (?y\<lparr>handles := insert (\<lparr>l_key = key, l_token = tok\<rparr>, clock x + redis_ttl ttl) (handles ?y)\<rparr>)"
      using got new lock_invD(1) [OF inv]
      by (intro lock_inv_add stored [where e = "Some (clock x + redis_ttl ttl)"]) (auto simp: stored_from_def)
    then show ?thesis using got by (cases x) simp
  next
    case busy
    then show ?thesis using frame by (simp add: same_from_def)
  next
    case (quiet e)
    then show ?thesis using frame by (simp add: same_from_def)
  next
    case (lost e tok')
    then show ?thesis using stored by simp
  qed
qed

lemma drop_inv:
  assumes inv: "lock_inv val x" and lk: "(lk, dl) \<in> handles x"
    and eff: "same_from val (clock x) (server x) s' \<or> val (server x) (l_key lk) (clock x) = Some (l_token lk) \<and>
      (deleted_from val (clock x) (l_key lk) (server x) s' \<or>
       stored_from val (clock x) (l_key lk) (l_token lk) e (server x) s')"
  shows "lock_inv val (x\<lparr>server := s', handles := {h \<in> handles x. fst h \<noteq> lk}\<rparr>)"
proof -
  have "val s' (l_key l) t = val (server x) (l_key l) t"
    if "(l, d) \<in> {h \<in> handles x. fst h \<noteq> lk}" "clock x \<le> t" "t < d" for l d t
  proof -
    have "clock x < d" using that by simp
    then show ?thesis
      using eff only_live_handle [OF inv _ lk that(1)] that(2) by (auto simp: redis_effects)
  qed
  then have "lock_inv val (x\<lparr>server := s', handles := {h \<in> handles x. fst h \<noteq> lk}, used := used x\<rparr>)"
    by (intro lock_inv_frame [OF inv]) auto
  then show ?thesis by simp
qed

lemma release_inv:
  assumes "lock_inv val x" "lock_Release r (clock x) lk (server x) = (s', res)" "(lk, dl) \<in> handles x"
  shows "lock_inv val (x\<lparr>server := s', handles := {h \<in> handles x. fst h \<noteq> lk}\<rparr>)"
  using assms(2) by (cases rule: Release_cases) (auto intro: drop_inv [OF assms(1,3)])

lemma extend_inv:
  assumes inv: "lock_inv val x" and ex: "lock_Extend r (clock x) ttl lk (server x) = (s', res)"
    and ttl: "ttl \<ge> millisecond" and lk: "(lk, dl) \<in> handles x"
  shows "lock_inv val (x\<lparr>server := s', handles := {h \<in> handles x. fst h \<noteq> lk} \<union>
      (if res = None then {(lk, clock x + redis_ttl ttl)} else {})\<rparr>)"
  using ex ttl
proof (cases rule: Extend_cases)
  case extended
  let ?y = "x\<lparr>server := s', handles := {h \<in> handles x. fst h \<noteq> lk}\<rparr>"
  have "lock_inv val ?y"
    using extended by (intro drop_inv [OF inv lk, where e = "Some (clock x + redis_ttl ttl)"]) auto
  then have "lock_inv val (?y\<lparr>handles := insert (lk, clock x + redis_ttl ttl) (handles ?y)\<rparr>)"
    using extended lock_invD(1) [OF inv lk] lock_inv_unique [OF inv _ lk]
    by (intro lock_inv_add) (auto simp: stored_from_def)
  then show ?thesis using extended by simp
next
  case notheld
  then show ?thesis using drop_inv [OF inv lk] by auto
next
  case (error e)
  then show ?thesis
    using drop_inv [OF inv lk, of s' "Some (clock x + redis_ttl ttl)"] by auto
qed

lemma lock_step_inv: "lock_step r val x y \<Longrightarrow> lock_inv val x \<Longrightarrow> lock_inv val y"
proof (induction rule: lock_step.induct)
  case (tick x t)
  then show ?case by (auto simp: lock_inv_def)
next
  case (attempt tok x ttl key s' res)
  then show ?case by (intro attempt_inv)
next
  case (release lk x s' res dl)
  then show ?case by (intro release_inv)
next
  case (extend ttl lk x s' res dl)
  then show ?case by (intro extend_inv)
next
  case (other x s')
  then have "lock_inv val (x\<lparr>server := s', handles := handles x, used := used x\<rparr>)"
    by (intro lock_inv_frame) auto
  then show ?case by simp
qed

lemma lock_reach_inv: "lock_reach r val x \<Longrightarrow> lock_inv val x"
proof (induction rule: lock_reach.induct)
  case (init x)
  then show ?case by (simp add: lock_inv_def)
next
  case (step x y)
  then show ?case by (blast intro: lock_step_inv)
qed

lemma Do_guarded:
  assumes "ttl > 0"
  shows "case lock_TryAcquire r t1 (Inr tok) key ttl s of
      (s1, Inr (Some lk)) \<Rightarrow> val s key t1 = None \<and> val s1 key t1 = Some tok \<and>
        lock_Do r t1 t2 (Inr tok) key ttl fn s =
          (fst (lock_Release r t2 lk (fst (fn s1))), map_option FnErr (snd (fn s1)))
    | (s1, Inr None) \<Rightarrow> val s key t1 \<noteq> None \<and> same_from val t1 s s1 \<and>
        lock_Do r t1 t2 (Inr tok) key ttl fn s = (s1, Some (ErrNotAcquired None))
    | (s1, Inl e) \<Rightarrow> lock_Do r t1 t2 (Inr tok) key ttl fn s = (s1, Some e)"
proof -
  obtain s1 res where tr: "lock_TryAcquire r t1 (Inr tok) key ttl s = (s1, res)" by fastforce
  from tr assms show ?thesis
  proof (cases rule: TryAcquire_cases)
    case (got tok')
    then show ?thesis
      using tr redis_ttl_pos [OF assms]
      by (auto simp: lock_Do_def stored_from_def split: prod.splits)
  qed (use tr in \<open>auto simp: lock_Do_def\<close>)
qed

end

section \<open>Properties\<close>

text \<open>
  C1. Mutual exclusion. In every reachable state of any number of clients sharing a Redis
  server that behaves as documented, two handles on the same key that have not passed their
  deadline are the same handle, and the key carries that handle's token until the deadline.
\<close>

theorem lock_mutual_exclusion:
  assumes "redis_server r val" "lock_reach r val x"
    "(l1, d1) \<in> handles x" "clock x < d1" "(l2, d2) \<in> handles x" "clock x < d2" "l_key l1 = l_key l2"
  shows "l1 = l2 \<and> (\<forall>t. clock x \<le> t \<and> t < d1 \<longrightarrow> val (server x) (l_key l1) t = Some (l_token l1))"
proof -
  have inv: "lock_inv val x" by (rule redis_server.lock_reach_inv [OF assms(1,2)])
  have "val (server x) (l_key l1) (clock x) = Some (l_token l1)"
    "val (server x) (l_key l2) (clock x) = Some (l_token l2)"
    using lock_invD(2) [OF inv assms(3), of "clock x"] lock_invD(2) [OF inv assms(5), of "clock x"] assms by simp_all
  then have "l_token l1 = l_token l2" using assms(7) by simp
  then show ?thesis
    using lock_inv_unique [OF inv assms(3,5)] lock_invD(2) [OF inv assms(3)] by blast
qed

definition lock_demo :: "keyspace lock_sys" where
  "lock_demo = \<lparr>server = [''job'' \<mapsto> (''t1'', Some (5 * second))], clock = 0,
     handles = {(\<lparr>l_key = ''job'', l_token = ''t1''\<rparr>, 5 * second)}, used = {''t1''}\<rparr>"

lemma lock_demo_reach: "lock_reach ks_redis ks_val lock_demo"
proof -
  let ?x = "\<lparr>server = Map.empty, clock = 0, handles = {}, used = {}\<rparr> :: keyspace lock_sys"
  have "lock_TryAcquire ks_redis 0 (Inr ''t1'') ''job'' (5 * second) Map.empty =
      ([''job'' \<mapsto> (''t1'', Some (5 * second))], Inr (Some \<lparr>l_key = ''job'', l_token = ''t1''\<rparr>))"
    by (simp add: lock_TryAcquire_def ks_redis_def ks_val_def set_expiry_def redis_ttl_def go_defs)
  then have "lock_step ks_redis ks_val ?x lock_demo"
    using lock_step.attempt [of "''t1''" ?x "5 * second" ks_redis "''job''" "server lock_demo"
        "Inr (Some \<lparr>l_key = ''job'', l_token = ''t1''\<rparr>)" ks_val]
    by (simp add: lock_demo_def redis_ttl_def go_defs)
  then show ?thesis
    by (intro lock_reach.step [OF lock_reach.init]) simp_all
qed

theorem lock_mutual_exclusion_witness:
  "ks_val (server lock_demo) ''job'' (4 * second) = Some ''t1''"
proof -
  have "\<forall>t. clock lock_demo \<le> t \<and> t < 5 * second \<longrightarrow> ks_val (server lock_demo) ''job'' t = Some ''t1''"
    using lock_mutual_exclusion [OF ks.redis_server_axioms lock_demo_reach,
        of "\<lparr>l_key = ''job'', l_token = ''t1''\<rparr>" "5 * second" "\<lparr>l_key = ''job'', l_token = ''t1''\<rparr>" "5 * second"]
    by (simp add: lock_demo_def go_defs)
  then show ?thesis by (simp add: lock_demo_def go_defs)
qed

text \<open>
  Only the owner can release or extend. When the key does not carry the handle's token (it
  expired or another client took it), \<open>Release\<close> and \<open>Extend\<close> answer \<open>ErrNotHeld\<close> or a Redis
  error and leave every key as it was; a successful \<open>Release\<close> frees the key and nothing else.
\<close>

theorem lock_owner_only:
  assumes "redis_server r val"
  shows "(val s (l_key l) now \<noteq> Some (l_token l) \<longrightarrow>
       same_from val now s (fst (lock_Release r now l s)) \<and> snd (lock_Release r now l s) \<noteq> None \<and>
       (ttl \<ge> millisecond \<longrightarrow> same_from val now s (fst (lock_Extend r now ttl l s)) \<and>
          snd (lock_Extend r now ttl l s) \<noteq> None)) \<and>
    (snd (lock_Release r now l s) = None \<longrightarrow> deleted_from val now (l_key l) s (fst (lock_Release r now l s)))"
proof -
  obtain s' res where rel: "lock_Release r now l s = (s', res)" by fastforce
  obtain s2 res2 where ext: "lock_Extend r now ttl l s = (s2, res2)" by fastforce
  have 1: "val s (l_key l) now \<noteq> Some (l_token l) \<Longrightarrow> same_from val now s s' \<and> res \<noteq> None"
    using redis_server.Release_cases [OF assms rel] by auto
  have 2: "res = None \<Longrightarrow> deleted_from val now (l_key l) s s'"
    using redis_server.Release_cases [OF assms rel] by auto
  have 3: "val s (l_key l) now \<noteq> Some (l_token l) \<Longrightarrow> ttl \<ge> millisecond \<Longrightarrow> same_from val now s s2 \<and> res2 \<noteq> None"
    using redis_server.Extend_cases [OF assms ext] by auto
  show ?thesis using 1 2 3 rel ext by simp
qed

theorem lock_owner_only_witness:
  "snd (lock_Release ks_redis 1 \<lparr>l_key = ''job'', l_token = ''t2''\<rparr> [''job'' \<mapsto> (''t1'', None)]) \<noteq> None"
  using lock_owner_only [OF ks.redis_server_axioms, of "[''job'' \<mapsto> (''t1'', None)]"
      "\<lparr>l_key = ''job'', l_token = ''t2''\<rparr>" 1]
  by (simp add: ks_val_def)

text \<open>
  \<open>Do\<close> on a key that is free runs the function on a server where the key carries the new
  token, returns the function's error, and releases only what is still its own; on a key that
  is held it returns \<open>ErrNotAcquired\<close> (or an error) without running the function: the visible
  state is the one before the call.
\<close>

theorem lock_Do_guarded:
  assumes "redis_server r val" "ttl > 0"
  shows "case lock_TryAcquire r t1 (Inr tok) key ttl s of
      (s1, Inr (Some lk)) \<Rightarrow> val s key t1 = None \<and> val s1 key t1 = Some tok \<and>
        lock_Do r t1 t2 (Inr tok) key ttl fn s =
          (fst (lock_Release r t2 lk (fst (fn s1))), map_option FnErr (snd (fn s1)))
    | (s1, Inr None) \<Rightarrow> val s key t1 \<noteq> None \<and> same_from val t1 s s1 \<and>
        lock_Do r t1 t2 (Inr tok) key ttl fn s = (s1, Some (ErrNotAcquired None))
    | (s1, Inl e) \<Rightarrow> lock_Do r t1 t2 (Inr tok) key ttl fn s = (s1, Some e)"
  by (rule redis_server.Do_guarded [OF assms])

theorem lock_Do_guarded_witness:
  "snd (lock_Do ks_redis 1 2 (Inr ''t2'') ''job'' second (\<lambda>s. (s, None)) [''job'' \<mapsto> (''t1'', None)])
     = Some (ErrNotAcquired None)"
proof -
  have "lock_TryAcquire ks_redis 1 (Inr ''t2'') ''job'' second [''job'' \<mapsto> (''t1'', None)] =
      ([''job'' \<mapsto> (''t1'', None)], Inr None)"
    by (simp add: lock_TryAcquire_def ks_redis_def ks_val_def)
  then show ?thesis
    using lock_Do_guarded [OF ks.redis_server_axioms, where ttl = second and ?t1.0 = 1 and tok = "''t2''" and key = "''job''"
        and s = "[''job'' \<mapsto> (''t1'', None)]" and ?t2.0 = 2 and fn = "\<lambda>s. (s, None)"]
    by (simp add: go_defs)
qed

end
