(* ===== verification/Token_Store.thy ===== *)
theory Token_Store
  imports Redis_Iface
begin

text \<open>
  The \<open>TokenStore\<close> interface of \<open>src/auth/store.go\<close> as a locale, and its two implementations:
  \<open>MemoryStore\<close> (\<open>src/auth/store_memory.go\<close>), interpreted directly, and \<open>RedisStore\<close>
  (\<open>src/auth/store_redis.go\<close>), which satisfies the interface over any server that satisfies
  \<open>redis_server\<close>. A store operation takes the clock reading and may fail with an error.
\<close>

section \<open>The interface\<close>

record 's tstore =
  ts_Block :: "time \<Rightarrow> string \<Rightarrow> duration \<Rightarrow> 's \<Rightarrow> 's \<times> string option"
  ts_IsBlocked :: "time \<Rightarrow> string \<Rightarrow> 's \<Rightarrow> 's \<times> (string + bool)"
  ts_SetFamily :: "time \<Rightarrow> string \<Rightarrow> string \<Rightarrow> duration \<Rightarrow> 's \<Rightarrow> 's \<times> string option"
  ts_Family :: "time \<Rightarrow> string \<Rightarrow> 's \<Rightarrow> 's \<times> (string + string option)"
  ts_RevokeFamily :: "time \<Rightarrow> string \<Rightarrow> 's \<Rightarrow> 's \<times> string option"

text \<open>Two states with the same revoked ids and active refresh tokens from \<open>now\<close> on.\<close>

definition views_eq ::
  "('s \<Rightarrow> string \<Rightarrow> time \<Rightarrow> bool) \<Rightarrow> ('s \<Rightarrow> string \<Rightarrow> time \<Rightarrow> string option) \<Rightarrow> time \<Rightarrow> string set \<Rightarrow> string set
   \<Rightarrow> 's \<Rightarrow> 's \<Rightarrow> bool" where
  "views_eq blocked fam now B F s s' \<longleftrightarrow>
     (\<forall>j t. j \<notin> B \<longrightarrow> now \<le> t \<longrightarrow> blocked s' j t = blocked s j t) \<and>
     (\<forall>f t. f \<notin> F \<longrightarrow> now \<le> t \<longrightarrow> fam s' f t = fam s f t)"

locale token_store =
  fixes ts :: "'s tstore"
    and blocked :: "'s \<Rightarrow> string \<Rightarrow> time \<Rightarrow> bool"
    and fam :: "'s \<Rightarrow> string \<Rightarrow> time \<Rightarrow> string option"
  assumes Block_ok: "ts_Block ts now j ttl s = (s', None) \<Longrightarrow> ttl \<ge> millisecond \<Longrightarrow>
      views_eq blocked fam now {j} {} s s' \<and> (\<forall>t. now \<le> t \<and> t < now + redis_ttl ttl \<longrightarrow> blocked s' j t)"
    and Block_frame: "now \<le> t \<Longrightarrow> fam (fst (ts_Block ts now j ttl s)) f t = fam s f t"
    and IsBlocked_ok: "ts_IsBlocked ts now j s = (s', Inr b) \<Longrightarrow>
      b = blocked s j now \<and> views_eq blocked fam now {} {} s s'"
    and SetFamily_ok: "ts_SetFamily ts now f j ttl s = (s', None) \<Longrightarrow> ttl \<ge> millisecond \<Longrightarrow>
      views_eq blocked fam now {} {f} s s' \<and> (\<forall>t. now \<le> t \<and> t < now + redis_ttl ttl \<longrightarrow> fam s' f t = Some j)"
    and Family_ok: "ts_Family ts now f s = (s', Inr a) \<Longrightarrow>
      a = fam s f now \<and> views_eq blocked fam now {} {} s s'"
    and Revoke_ok: "ts_RevokeFamily ts now f s = (s', None) \<Longrightarrow>
      views_eq blocked fam now {} {f} s s' \<and> (\<forall>t. now \<le> t \<longrightarrow> fam s' f t = None)"

text \<open>A store whose operations do not fail.\<close>

locale reliable_store = token_store +
  assumes Block_total: "snd (ts_Block ts now j ttl s) = None"
    and IsBlocked_total: "\<exists>b. snd (ts_IsBlocked ts now j s) = Inr b"
    and SetFamily_total: "snd (ts_SetFamily ts now f j ttl s) = None"
    and Family_total: "\<exists>a. snd (ts_Family ts now f s) = Inr a"
    and Revoke_total: "snd (ts_RevokeFamily ts now f s) = None"

lemma redis_ttl_le: "ttl \<ge> millisecond \<Longrightarrow> redis_ttl ttl \<le> ttl"
  by (simp add: redis_ttl_def millisecond_def)

section \<open>MemoryStore\<close>

record famEntry =
  fe_jti :: string
  fe_exp :: time

record memstore =
  ms_block :: "(string, time) gomap"
  ms_family :: "(string, famEntry) gomap"

definition NewMemoryStore :: memstore where
  "NewMemoryStore = \<lparr>ms_block = [], ms_family = []\<rparr>"

definition memory_Block :: "time \<Rightarrow> string \<Rightarrow> duration \<Rightarrow> memstore \<Rightarrow> memstore \<times> string option" where
  "memory_Block now jti ttl m = (m\<lparr>ms_block := gm_put (ms_block m) jti (now + ttl)\<rparr>, None)"

definition memory_IsBlocked :: "time \<Rightarrow> string \<Rightarrow> memstore \<Rightarrow> memstore \<times> (string + bool)" where
  "memory_IsBlocked now jti m =
     (case gm_get (ms_block m) jti of
        None \<Rightarrow> (m, Inr False)
      | Some x \<Rightarrow>
          if now > x then (m\<lparr>ms_block := gm_del (ms_block m) jti\<rparr>, Inr False) else (m, Inr True))"

definition memory_SetFamily :: "time \<Rightarrow> string \<Rightarrow> string \<Rightarrow> duration \<Rightarrow> memstore \<Rightarrow> memstore \<times> string option" where
  "memory_SetFamily now fid jti ttl m =
     (m\<lparr>ms_family := gm_put (ms_family m) fid \<lparr>fe_jti = jti, fe_exp = now + ttl\<rparr>\<rparr>, None)"

definition memory_Family :: "time \<Rightarrow> string \<Rightarrow> memstore \<Rightarrow> memstore \<times> (string + string option)" where
  "memory_Family now fid m =
     (case gm_get (ms_family m) fid of
        None \<Rightarrow> (m, Inr None)
      | Some e \<Rightarrow>
          if now > fe_exp e then (m\<lparr>ms_family := gm_del (ms_family m) fid\<rparr>, Inr None)
          else (m, Inr (Some (fe_jti e))))"

definition memory_RevokeFamily :: "time \<Rightarrow> string \<Rightarrow> memstore \<Rightarrow> memstore \<times> string option" where
  "memory_RevokeFamily now fid m = (m\<lparr>ms_family := gm_del (ms_family m) fid\<rparr>, None)"

definition memory_store :: "memstore tstore" where
  "memory_store = \<lparr>ts_Block = memory_Block, ts_IsBlocked = memory_IsBlocked,
     ts_SetFamily = memory_SetFamily, ts_Family = memory_Family, ts_RevokeFamily = memory_RevokeFamily\<rparr>"

definition memory_blocked :: "memstore \<Rightarrow> string \<Rightarrow> time \<Rightarrow> bool" where
  "memory_blocked m j t = (case gm_get (ms_block m) j of None \<Rightarrow> False | Some x \<Rightarrow> t \<le> x)"

definition memory_fam :: "memstore \<Rightarrow> string \<Rightarrow> time \<Rightarrow> string option" where
  "memory_fam m f t = (case gm_get (ms_family m) f of None \<Rightarrow> None
     | Some e \<Rightarrow> if t \<le> fe_exp e then Some (fe_jti e) else None)"

lemmas memory_defs = memory_store_def memory_Block_def memory_IsBlocked_def memory_SetFamily_def
  memory_Family_def memory_RevokeFamily_def memory_blocked_def memory_fam_def views_eq_def

interpretation mem: reliable_store memory_store memory_blocked memory_fam
proof unfold_locales
  fix now j ttl s s'
  assume "ts_Block memory_store now j ttl s = (s', None)" "ttl \<ge> millisecond"
  then show "views_eq memory_blocked memory_fam now {j} {} s s' \<and>
      (\<forall>t. now \<le> t \<and> t < now + redis_ttl ttl \<longrightarrow> memory_blocked s' j t)"
    using redis_ttl_le [of ttl] by (auto simp: memory_defs)
next
  fix now f j ttl s s'
  assume "ts_SetFamily memory_store now f j ttl s = (s', None)" "ttl \<ge> millisecond"
  then show "views_eq memory_blocked memory_fam now {} {f} s s' \<and>
      (\<forall>t. now \<le> t \<and> t < now + redis_ttl ttl \<longrightarrow> memory_fam s' f t = Some j)"
    using redis_ttl_le [of ttl] by (auto simp: memory_defs)
qed (auto simp: memory_defs split: option.splits if_splits)

section \<open>RedisStore\<close>

datatype store_option = WithStorePrefix string

fun store_opt :: "store_option \<Rightarrow> string \<Rightarrow> string" where
  "store_opt (WithStorePrefix p) prefix = (if p \<noteq> [] then p else prefix)"

definition NewRedisStore :: "store_option list \<Rightarrow> string" where
  "NewRedisStore opts = apply_opts store_opt opts ''auth:''"

definition blockKey :: "string \<Rightarrow> string \<Rightarrow> string" where
  "blockKey prefix jti = prefix @ ''block:'' @ jti"

definition familyKey :: "string \<Rightarrow> string \<Rightarrow> string" where
  "familyKey prefix fid = prefix @ ''family:'' @ fid"

definition err_of :: "'s \<times> (string + 'a) \<Rightarrow> 's \<times> string option" where
  "err_of x = (case x of (s, Inl e) \<Rightarrow> (s, Some e) | (s, Inr _) \<Rightarrow> (s, None))"

definition redis_Block :: "'s redis \<Rightarrow> string \<Rightarrow> time \<Rightarrow> string \<Rightarrow> duration \<Rightarrow> 's \<Rightarrow> 's \<times> string option" where
  "redis_Block r prefix now jti ttl s =
     (if ttl \<le> 0 then (s, None) else err_of (rd_set r now (blockKey prefix jti) ''1'' ttl s))"

definition redis_IsBlocked :: "'s redis \<Rightarrow> string \<Rightarrow> time \<Rightarrow> string \<Rightarrow> 's \<Rightarrow> 's \<times> (string + bool)" where
  "redis_IsBlocked r prefix now jti s =
     (case rd_exists r now (blockKey prefix jti) s of
        (s', Inl e) \<Rightarrow> (s', Inl e)
      | (s', Inr n) \<Rightarrow> (s', Inr (n > 0)))"

definition redis_SetFamily :: "'s redis \<Rightarrow> string \<Rightarrow> time \<Rightarrow> string \<Rightarrow> string \<Rightarrow> duration \<Rightarrow> 's \<Rightarrow> 's \<times> string option" where
  "redis_SetFamily r prefix now fid jti ttl s =
     (if ttl \<le> 0 then (s, None) else err_of (rd_set r now (familyKey prefix fid) jti ttl s))"

definition redis_Family :: "'s redis \<Rightarrow> string \<Rightarrow> time \<Rightarrow> string \<Rightarrow> 's \<Rightarrow> 's \<times> (string + string option)" where
  "redis_Family r prefix now fid s = rd_get r now (familyKey prefix fid) s"

definition redis_RevokeFamily :: "'s redis \<Rightarrow> string \<Rightarrow> time \<Rightarrow> string \<Rightarrow> 's \<Rightarrow> 's \<times> string option" where
  "redis_RevokeFamily r prefix now fid s = err_of (rd_del r now (familyKey prefix fid) s)"

definition redis_store :: "'s redis \<Rightarrow> string \<Rightarrow> 's tstore" where
  "redis_store r prefix = \<lparr>ts_Block = redis_Block r prefix, ts_IsBlocked = redis_IsBlocked r prefix,
     ts_SetFamily = redis_SetFamily r prefix, ts_Family = redis_Family r prefix,
     ts_RevokeFamily = redis_RevokeFamily r prefix\<rparr>"

lemma store_keys [simp]:
  "blockKey p a = blockKey p b \<longleftrightarrow> a = b" "familyKey p a = familyKey p b \<longleftrightarrow> a = b"
  "blockKey p a \<noteq> familyKey p b" "familyKey p b \<noteq> blockKey p a"
  by (simp_all add: blockKey_def familyKey_def)

lemma err_of_None [simp]: "err_of x = (s, None) \<longleftrightarrow> (\<exists>y. x = (s, Inr y))"
  by (cases x; cases "snd x") (auto simp: err_of_def)

context redis_server
begin

definition rblocked :: "string \<Rightarrow> 's \<Rightarrow> string \<Rightarrow> time \<Rightarrow> bool" where
  "rblocked prefix s j t \<longleftrightarrow> val s (blockKey prefix j) t \<noteq> None"

definition rfam :: "string \<Rightarrow> 's \<Rightarrow> string \<Rightarrow> time \<Rightarrow> string option" where
  "rfam prefix s f t = val s (familyKey prefix f) t"

lemmas redis_store_defs = redis_store_def redis_Block_def redis_IsBlocked_def redis_SetFamily_def
  redis_Family_def redis_RevokeFamily_def rblocked_def rfam_def views_eq_def

lemma redis_store_is_token_store:
  "token_store (redis_store r prefix) (rblocked prefix) (rfam prefix)"
proof unfold_locales
  fix now j ttl s s'
  assume "ts_Block (redis_store r prefix) now j ttl s = (s', None)" "ttl \<ge> millisecond"
  then have "stored_from val now (blockKey prefix j) ''1'' (Some (now + redis_ttl ttl)) s s'"
    using set_ok [of ttl now "blockKey prefix j" "''1''" s s']
    by (auto simp: redis_store_defs set_expiry_def millisecond_def)
  then show "views_eq (rblocked prefix) (rfam prefix) now {j} {} s s' \<and>
      (\<forall>t. now \<le> t \<and> t < now + redis_ttl ttl \<longrightarrow> rblocked prefix s' j t)"
    by (auto simp: redis_store_defs stored_from_def)
next
  fix now t j ttl s f
  assume "now \<le> (t::time)"
  then show "rfam prefix (fst (ts_Block (redis_store r prefix) now j ttl s)) f t = rfam prefix s f t"
    using set_ok [of ttl now "blockKey prefix j" "''1''" s "fst (rd_set r now (blockKey prefix j) ''1'' ttl s)"]
      set_err [of ttl now "blockKey prefix j" "''1''" s "fst (rd_set r now (blockKey prefix j) ''1'' ttl s)"]
    by (cases "rd_set r now (blockKey prefix j) ''1'' ttl s"; cases "snd (rd_set r now (blockKey prefix j) ''1'' ttl s)")
       (auto simp: redis_store_defs err_of_def same_from_def stored_from_def)
next
  fix now j s s' b
  assume "ts_IsBlocked (redis_store r prefix) now j s = (s', Inr b)"
  then obtain n where "rd_exists r now (blockKey prefix j) s = (s', Inr n)" "b = (n > 0)"
    by (auto simp: redis_store_def redis_IsBlocked_def split: prod.splits sum.splits)
  with exists_ok [OF this(1)] show "b = rblocked prefix s j now \<and> views_eq (rblocked prefix) (rfam prefix) now {} {} s s'"
    by (auto simp: redis_store_defs same_from_def)
next
  fix now f j ttl s s'
  assume "ts_SetFamily (redis_store r prefix) now f j ttl s = (s', None)" "ttl \<ge> millisecond"
  then have "stored_from val now (familyKey prefix f) j (Some (now + redis_ttl ttl)) s s'"
    using set_ok [of ttl now "familyKey prefix f" j s s']
    by (auto simp: redis_store_defs set_expiry_def millisecond_def)
  then show "views_eq (rblocked prefix) (rfam prefix) now {} {f} s s' \<and>
      (\<forall>t. now \<le> t \<and> t < now + redis_ttl ttl \<longrightarrow> rfam prefix s' f t = Some j)"
    by (auto simp: redis_store_defs stored_from_def)
next
  fix now f s s' a
  assume "ts_Family (redis_store r prefix) now f s = (s', Inr a)"
  then show "a = rfam prefix s f now \<and> views_eq (rblocked prefix) (rfam prefix) now {} {} s s'"
    using get_ok [of now "familyKey prefix f" s s' a] by (auto simp: redis_store_defs same_from_def)
next
  fix now f s s'
  assume "ts_RevokeFamily (redis_store r prefix) now f s = (s', None)"
  then show "views_eq (rblocked prefix) (rfam prefix) now {} {f} s s' \<and> (\<forall>t. now \<le> t \<longrightarrow> rfam prefix s' f t = None)"
    using del_ok [of now "familyKey prefix f" s s'] by (auto simp: redis_store_defs deleted_from_def)
qed

end

interpretation rst: token_store "redis_store ks_redis prefix" "ks.rblocked prefix" "ks.rfam prefix" for prefix
  by (rule ks.redis_store_is_token_store)

section \<open>Properties\<close>



text \<open>
  The two stores differ where \<open>Block\<close> is called with a time to live that is not positive:
  the Redis store ignores the call, the memory store overwrites an existing, still running
  revocation with one that has already ended.
\<close>

theorem MemoryStore_Block_nonpositive_unblocks:
  assumes "memory_blocked m j now" "ttl < 0"
  shows "\<not> memory_blocked (fst (memory_Block now j ttl m)) j now \<and>
    redis_Block r p now j ttl s = (s, None)"
  using assms by (simp add: memory_Block_def memory_blocked_def redis_Block_def)

theorem MemoryStore_Block_nonpositive_unblocks_witness:
  "\<not> memory_blocked (fst (memory_Block 0 ''a'' (- 1) (fst (memory_Block 0 ''a'' hour NewMemoryStore)))) ''a'' 0"
  using MemoryStore_Block_nonpositive_unblocks [of "fst (memory_Block 0 ''a'' hour NewMemoryStore)" "''a''" 0 "-1"]
  by (simp add: memory_Block_def memory_blocked_def go_defs)

end
