(* ===== verification/Auth.thy ===== *)
theory Auth
  imports Token_Store Go_Strings
begin

text \<open>
  JWT issuing, rotation and revocation (\<open>src/jwt/jwt.go\<close>, \<open>src/auth/issuer.go\<close>) and the
  bearer middleware with its claim accessors and guards (\<open>src/auth/middleware.go\<close>,
  \<open>src/auth/team.go\<close>, \<open>src/auth/auth.go\<close>). The token library \<open>golang-jwt\<close> is outside the
  repository: its \<open>SignedString\<close> and \<open>Parse\<close> are the parameters of \<open>jwtlib\<close>; \<open>Parse\<close> takes
  the key function the repository passes to it. Random identifiers are arguments. A request
  is the authorization header and the locals; a handler either calls the next one or answers.
\<close>

section \<open>Claims and the token library\<close>

datatype jval =
    JStr string
  | JFloat rat             \<comment> \<open>\<open>float64\<close>, what JSON numbers decode to\<close>
  | JInt64 int
  | JNumber "int option"   \<comment> \<open>\<open>json.Number\<close>, \<open>None\<close> when \<open>Int64\<close> fails\<close>
  | JStrings "string list" \<comment> \<open>\<open>[]string\<close>\<close>
  | JArray "jval list"     \<comment> \<open>\<open>[]any\<close>\<close>
  | JOther

type_synonym claims = "(string, jval) gomap"

datatype signing_method = HMAC | OtherMethod string

record jwt_token =
  t_Valid :: bool
  t_Claims :: "claims option"   \<comment> \<open>\<open>None\<close>: the claims are not a \<open>MapClaims\<close>\<close>

record jwtlib =
  SignedString :: "claims \<Rightarrow> string \<Rightarrow> string + string"
  Parse :: "(signing_method \<Rightarrow> string + string) \<Rightarrow> time \<Rightarrow> string \<Rightarrow> string + jwt_token"

text \<open>The string of a claim, \<open>""\<close> when it is absent or not a string (\<open>v, _ := c[k].(string)\<close>).\<close>

definition claim_str :: "claims \<Rightarrow> string \<Rightarrow> string" where
  "claim_str c k = (case gm_get c k of Some (JStr s) \<Rightarrow> s | _ \<Rightarrow> [])"

definition jwt_GenerateToken :: "jwtlib \<Rightarrow> claims \<Rightarrow> string \<Rightarrow> string + string" where
  "jwt_GenerateToken lib c secret = SignedString lib c secret"

definition jwt_GenerateTokenWithExpiry :: "jwtlib \<Rightarrow> time \<Rightarrow> claims \<Rightarrow> string \<Rightarrow> duration \<Rightarrow> string + string" where
  "jwt_GenerateTokenWithExpiry lib now c secret ttl =
     SignedString lib (gm_put c ''exp'' (JInt64 ((now + ttl) div second))) secret"

definition jwt_ValidateToken :: "jwtlib \<Rightarrow> time \<Rightarrow> string \<Rightarrow> string \<Rightarrow> string + jwt_token" where
  "jwt_ValidateToken lib now tok secret =
     Parse lib (\<lambda>m. case m of HMAC \<Rightarrow> Inr secret
                   | OtherMethod alg \<Rightarrow> Inl (''unexpected signing method: '' @ alg)) now tok"

definition jwt_ExtractClaims :: "jwt_token \<Rightarrow> string + claims" where
  "jwt_ExtractClaims t = (case t_Claims t of None \<Rightarrow> Inl ''invalid claims'' | Some c \<Rightarrow> Inr c)"

section \<open>Issuer\<close>

datatype auth_err =
    ErrInvalidToken
  | ErrTokenReuse
  | ErrMissingSub
  | RandFailed string
  | SignFailed string
  | StoreFailed string

record token_pair =
  AccessToken :: string
  RefreshToken :: string
  TokenType :: string
  ExpiresIn :: int
  RefreshExpiresIn :: int

record issuer =
  i_secret :: string
  accessTTL :: duration
  refreshTTL :: duration

datatype issuer_option = WithAccessTTL duration | WithRefreshTTL duration

fun issuer_opt :: "issuer_option \<Rightarrow> issuer \<Rightarrow> issuer" where
  "issuer_opt (WithAccessTTL d) i = (if d > 0 then i\<lparr>accessTTL := d\<rparr> else i)"
| "issuer_opt (WithRefreshTTL d) i = (if d > 0 then i\<lparr>refreshTTL := d\<rparr> else i)"

definition NewIssuer :: "string \<Rightarrow> issuer_option list \<Rightarrow> issuer" where
  "NewIssuer secret opts =
     apply_opts issuer_opt opts \<lparr>i_secret = secret, accessTTL = 15 * minute, refreshTTL = 168 * hour\<rparr>"

definition issuer_parseValid :: "jwtlib \<Rightarrow> issuer \<Rightarrow> time \<Rightarrow> string \<Rightarrow> auth_err + claims" where
  "issuer_parseValid lib i now tok =
     (case jwt_ValidateToken lib now tok (i_secret i) of
        Inl _ \<Rightarrow> Inl ErrInvalidToken
      | Inr t \<Rightarrow>
          if \<not> t_Valid t then Inl ErrInvalidToken
          else case jwt_ExtractClaims t of Inl _ \<Rightarrow> Inl ErrInvalidToken | Inr c \<Rightarrow> Inr c)"

definition copy_claims :: "claims \<Rightarrow> claims \<Rightarrow> claims" where
  "copy_claims base c =
     fold (\<lambda>k c. case gm_get base k of None \<Rightarrow> c | Some v \<Rightarrow> gm_put c k v)
       [''email'', ''scopes'', ''team'', ''role''] c"

text \<open>An identifier is the hexadecimal text of 16 random bytes.\<close>

definition auth_newID :: "string + string \<Rightarrow> string + string" where
  "auth_newID random = (case random of Inl e \<Rightarrow> Inl e | Inr b \<Rightarrow> Inr (hex_EncodeToString b))"

text \<open>
  \<open>mint\<close> draws two identifiers, signs both tokens and records the refresh identifier as the
  family's active one. \<open>base["sub"]\<close> that is absent is stored as nil, which reads back as no
  string.
\<close>

definition sub_claim :: "claims \<Rightarrow> jval" where
  "sub_claim base = (case gm_get base ''sub'' of None \<Rightarrow> JOther | Some v \<Rightarrow> v)"

definition issuer_mint ::
  "jwtlib \<Rightarrow> 's tstore \<Rightarrow> issuer \<Rightarrow> time \<Rightarrow> string + string \<Rightarrow> string + string \<Rightarrow> claims \<Rightarrow> string \<Rightarrow> 's
   \<Rightarrow> 's \<times> (auth_err + token_pair)" where
  "issuer_mint lib ts i now id1 id2 base fid s =
     (case id1 of
        Inl e \<Rightarrow> (s, Inl (RandFailed e))
      | Inr accessJti \<Rightarrow>
     (case id2 of
        Inl e \<Rightarrow> (s, Inl (RandFailed e))
      | Inr refreshJti \<Rightarrow>
     (let access = copy_claims base [(''sub'', sub_claim base), (''type'', JStr ''access''), (''jti'', JStr accessJti)];
          refresh = copy_claims base [(''sub'', sub_claim base), (''type'', JStr ''refresh''), (''fid'', JStr fid),
                                      (''jti'', JStr refreshJti)]
      in case jwt_GenerateTokenWithExpiry lib now access (i_secret i) (accessTTL i) of
           Inl e \<Rightarrow> (s, Inl (SignFailed e))
         | Inr atok \<Rightarrow>
      (case jwt_GenerateTokenWithExpiry lib now refresh (i_secret i) (refreshTTL i) of
           Inl e \<Rightarrow> (s, Inl (SignFailed e))
         | Inr rt \<Rightarrow>
      (case ts_SetFamily ts now fid refreshJti (refreshTTL i) s of
           (s', Some e) \<Rightarrow> (s', Inl (StoreFailed e))
         | (s', None) \<Rightarrow>
             (s', Inr \<lparr>AccessToken = atok, RefreshToken = rt, TokenType = ''Bearer'',
                       ExpiresIn = go_div (accessTTL i) second, RefreshExpiresIn = go_div (refreshTTL i) second\<rparr>))))))"

definition issuer_Issue ::
  "jwtlib \<Rightarrow> 's tstore \<Rightarrow> issuer \<Rightarrow> time \<Rightarrow> string + string \<Rightarrow> string + string \<Rightarrow> string + string \<Rightarrow> claims \<Rightarrow> 's
   \<Rightarrow> 's \<times> (auth_err + token_pair)" where
  "issuer_Issue lib ts i now idf id1 id2 c s =
     (if claim_str c ''sub'' = [] then (s, Inl ErrMissingSub)
      else case idf of
             Inl e \<Rightarrow> (s, Inl (RandFailed e))
           | Inr fid \<Rightarrow> issuer_mint lib ts i now id1 id2 c fid s)"

definition remainingTTL :: "time \<Rightarrow> claims \<Rightarrow> duration" where
  "remainingTTL now c =
     (let d = (\<lambda>unix. if unix * second - now < 0 then 0 else unix * second - now)
      in case gm_get c ''exp'' of
           Some (JFloat v) \<Rightarrow> d (trunc_rat v)
         | Some (JInt64 v) \<Rightarrow> d v
         | Some (JNumber v) \<Rightarrow> d (case v of None \<Rightarrow> 0 | Some n \<Rightarrow> n)
         | _ \<Rightarrow> 0)"

definition issuer_Refresh ::
  "jwtlib \<Rightarrow> 's tstore \<Rightarrow> issuer \<Rightarrow> time \<Rightarrow> string + string \<Rightarrow> string + string \<Rightarrow> string \<Rightarrow> 's
   \<Rightarrow> 's \<times> (auth_err + token_pair)" where
  "issuer_Refresh lib ts i now id1 id2 refreshToken s =
     (case issuer_parseValid lib i now refreshToken of
        Inl _ \<Rightarrow> (s, Inl ErrInvalidToken)
      | Inr c \<Rightarrow>
          if claim_str c ''type'' \<noteq> ''refresh'' then (s, Inl ErrInvalidToken)
          else if claim_str c ''fid'' = [] \<or> claim_str c ''jti'' = [] then (s, Inl ErrInvalidToken)
          else
            (case ts_Family ts now (claim_str c ''fid'') s of
               (s1, Inl e) \<Rightarrow> (s1, Inl (StoreFailed e))
             | (s1, Inr None) \<Rightarrow> (s1, Inl ErrInvalidToken)
             | (s1, Inr (Some active)) \<Rightarrow>
                 if active \<noteq> claim_str c ''jti''
                 then (fst (ts_RevokeFamily ts now (claim_str c ''fid'') s1), Inl ErrTokenReuse)
                 else
                   (case issuer_mint lib ts i now id1 id2 c (claim_str c ''fid'') s1 of
                      (s2, Inl e) \<Rightarrow> (s2, Inl e)
                    | (s2, Inr pair) \<Rightarrow>
                        (if remainingTTL now c > 0
                         then fst (ts_Block ts now (claim_str c ''jti'') (remainingTTL now c) s2) else s2,
                         Inr pair))))"

definition logout_access :: "jwtlib \<Rightarrow> 's tstore \<Rightarrow> issuer \<Rightarrow> time \<Rightarrow> string \<Rightarrow> 's \<Rightarrow> 's \<times> string option" where
  "logout_access lib ts i now tok s =
     (if tok = [] then (s, None)
      else case issuer_parseValid lib i now tok of
             Inl _ \<Rightarrow> (s, None)
           | Inr c \<Rightarrow>
               if claim_str c ''jti'' \<noteq> [] \<and> remainingTTL now c > 0
               then ts_Block ts now (claim_str c ''jti'') (remainingTTL now c) s else (s, None))"

definition logout_refresh :: "jwtlib \<Rightarrow> 's tstore \<Rightarrow> issuer \<Rightarrow> time \<Rightarrow> string \<Rightarrow> 's \<Rightarrow> 's \<times> string option" where
  "logout_refresh lib ts i now tok s =
     (if tok = [] then (s, None)
      else case issuer_parseValid lib i now tok of
             Inl _ \<Rightarrow> (s, None)
           | Inr c \<Rightarrow>
               if claim_str c ''fid'' \<noteq> [] then ts_RevokeFamily ts now (claim_str c ''fid'') s else (s, None))"

definition issuer_Logout :: "jwtlib \<Rightarrow> 's tstore \<Rightarrow> issuer \<Rightarrow> time \<Rightarrow> string \<Rightarrow> string \<Rightarrow> 's \<Rightarrow> 's \<times> string option" where
  "issuer_Logout lib ts i now accessToken refreshToken s =
     (case logout_access lib ts i now accessToken s of (s1, e1) \<Rightarrow>
        (case logout_refresh lib ts i now refreshToken s1 of (s2, e2) \<Rightarrow>
           (s2, case e1 of Some e \<Rightarrow> Some e | None \<Rightarrow> e2)))"

section \<open>Middleware\<close>

datatype local_val = LClaims claims | LOther

record request =
  authorization :: string
  locals :: "string \<Rightarrow> local_val option"

datatype reply = CallNext | SendError int string

record 's auth_config =
  contextKey :: string
  store :: "'s tstore option"

datatype 's auth_option = WithContextKey string | WithBlocklist "'s tstore"

fun auth_opt :: "'s auth_option \<Rightarrow> 's auth_config \<Rightarrow> 's auth_config" where
  "auth_opt (WithContextKey k) c = (if k \<noteq> [] then c\<lparr>contextKey := k\<rparr> else c)"
| "auth_opt (WithBlocklist ts) c = c\<lparr>store := Some ts\<rparr>"

definition auth_newConfig :: "'s auth_option list \<Rightarrow> 's auth_config" where
  "auth_newConfig opts = apply_opts auth_opt opts \<lparr>contextKey = ''auth_claims'', store = None\<rparr>"

definition lower_char :: "char \<Rightarrow> char" where
  "lower_char c = (if of_char c \<ge> (65::nat) \<and> of_char c \<le> (90::nat) then char_of (of_char c + (32::nat)) else c)"

definition bearerToken :: "string \<Rightarrow> string" where
  "bearerToken h =
     (if length h > 7 \<and> map lower_char (take 7 h) = ''bearer '' then drop 7 h else [])"

definition auth_parse :: "jwtlib \<Rightarrow> time \<Rightarrow> string \<Rightarrow> request \<Rightarrow> claims option" where
  "auth_parse lib now secret q =
     (let tok = bearerToken (authorization q)
      in if tok = [] then None
         else case jwt_ValidateToken lib now tok secret of
                Inl _ \<Rightarrow> None
              | Inr t \<Rightarrow>
                  if \<not> t_Valid t then None
                  else case jwt_ExtractClaims t of
                         Inl _ \<Rightarrow> None
                       | Inr c \<Rightarrow> if claim_str c ''type'' = ''refresh'' then None else Some c)"

definition auth_blocklisted :: "time \<Rightarrow> 's tstore option \<Rightarrow> claims \<Rightarrow> 's \<Rightarrow> 's \<times> (string + bool)" where
  "auth_blocklisted now st c s =
     (case st of
        None \<Rightarrow> (s, Inr False)
      | Some ts \<Rightarrow>
          if claim_str c ''jti'' = [] then (s, Inr False) else ts_IsBlocked ts now (claim_str c ''jti'') s)"

definition set_claims :: "string \<Rightarrow> claims \<Rightarrow> request \<Rightarrow> request" where
  "set_claims k c q = q\<lparr>locals := (locals q)(k \<mapsto> LClaims c)\<rparr>"

text \<open>The helper of the jwt package: setting claims in the locals, or reading them.\<close>

definition jwt_Claims :: "string \<Rightarrow> claims list \<Rightarrow> request \<Rightarrow> request \<times> claims \<times> string option" where
  "jwt_Claims localKey cs q =
     (case cs of
        c # _ \<Rightarrow> (set_claims localKey c q, c, None)
      | [] \<Rightarrow>
          (case locals q localKey of
             Some (LClaims c) \<Rightarrow> (q, c, None)
           | _ \<Rightarrow> (q, [], Some ''invalid claims'')))"

definition auth_RequireAuth ::
  "jwtlib \<Rightarrow> time \<Rightarrow> string \<Rightarrow> 's auth_option list \<Rightarrow> request \<Rightarrow> 's \<Rightarrow> 's \<times> request \<times> reply" where
  "auth_RequireAuth lib now secret opts q s =
     (let cfg = auth_newConfig opts
      in case auth_parse lib now secret q of
           None \<Rightarrow> (s, q, SendError 401 ''unauthorized'')
         | Some c \<Rightarrow>
             (case auth_blocklisted now (store cfg) c s of
                (s', Inr False) \<Rightarrow> (s', set_claims (contextKey cfg) c q, CallNext)
              | (s', _) \<Rightarrow> (s', q, SendError 401 ''unauthorized'')))"

definition auth_Optional ::
  "jwtlib \<Rightarrow> time \<Rightarrow> string \<Rightarrow> 's auth_option list \<Rightarrow> request \<Rightarrow> 's \<Rightarrow> 's \<times> request \<times> reply" where
  "auth_Optional lib now secret opts q s =
     (let cfg = auth_newConfig opts
      in case auth_parse lib now secret q of
           None \<Rightarrow> (s, q, CallNext)
         | Some c \<Rightarrow>
             (case auth_blocklisted now (store cfg) c s of
                (s', Inr False) \<Rightarrow> (s', set_claims (contextKey cfg) c q, CallNext)
              | (s', _) \<Rightarrow> (s', q, CallNext)))"

definition auth_Claims :: "'s auth_option list \<Rightarrow> request \<Rightarrow> claims option" where
  "auth_Claims opts q =
     (case locals q (contextKey (auth_newConfig opts)) of Some (LClaims c) \<Rightarrow> Some c | _ \<Rightarrow> None)"

definition auth_Subject :: "'s auth_option list \<Rightarrow> request \<Rightarrow> string" where
  "auth_Subject opts q = (case auth_Claims opts q of None \<Rightarrow> [] | Some c \<Rightarrow> claim_str c ''sub'')"

definition toStringSlice :: "jval option \<Rightarrow> string list" where
  "toStringSlice v =
     (case v of
        Some (JStrings ss) \<Rightarrow> ss
      | Some (JArray vs) \<Rightarrow> List.map_filter (\<lambda>e. case e of JStr s \<Rightarrow> Some s | _ \<Rightarrow> None) vs
      | _ \<Rightarrow> [])"

definition auth_Scopes :: "'s auth_option list \<Rightarrow> request \<Rightarrow> string list" where
  "auth_Scopes opts q = (case auth_Claims opts q of None \<Rightarrow> [] | Some c \<Rightarrow> toStringSlice (gm_get c ''scopes''))"

definition auth_HasScope :: "'s auth_option list \<Rightarrow> string \<Rightarrow> request \<Rightarrow> bool" where
  "auth_HasScope opts scope q = list_ex (\<lambda>s. s = scope) (auth_Scopes opts q)"

definition auth_RequireScope :: "'s auth_option list \<Rightarrow> string \<Rightarrow> request \<Rightarrow> reply" where
  "auth_RequireScope opts scope q =
     (case auth_Claims opts q of
        None \<Rightarrow> SendError 401 ''unauthorized''
      | Some _ \<Rightarrow> if \<not> auth_HasScope opts scope q then SendError 403 ''forbidden'' else CallNext)"

definition auth_ActiveTeam :: "'s auth_option list \<Rightarrow> request \<Rightarrow> string" where
  "auth_ActiveTeam opts q = (case auth_Claims opts q of None \<Rightarrow> [] | Some c \<Rightarrow> claim_str c ''team'')"

definition auth_TeamRole :: "'s auth_option list \<Rightarrow> request \<Rightarrow> string" where
  "auth_TeamRole opts q = (case auth_Claims opts q of None \<Rightarrow> [] | Some c \<Rightarrow> claim_str c ''role'')"

definition auth_RequireTeam :: "'s auth_option list \<Rightarrow> request \<Rightarrow> reply" where
  "auth_RequireTeam opts q =
     (case auth_Claims opts q of
        None \<Rightarrow> SendError 401 ''unauthorized''
      | Some _ \<Rightarrow> if auth_ActiveTeam opts q = [] then SendError 403 ''no active team'' else CallNext)"

definition auth_RequireRole :: "string list \<Rightarrow> request \<Rightarrow> reply" where
  "auth_RequireRole roles q =
     (case auth_Claims ([] :: unit auth_option list) q of
        None \<Rightarrow> SendError 401 ''unauthorized''
      | Some _ \<Rightarrow>
          if list_ex (\<lambda>r. r = auth_TeamRole ([] :: unit auth_option list) q) roles then CallNext
          else SendError 403 ''forbidden'')"

section \<open>Rotation and revocation over the store interface\<close>

lemma mint_ok:
  assumes "issuer_mint lib ts i now id1 id2 base fid s = (s', Inr pair)"
  obtains a r where "id1 = Inr a" "id2 = Inr r" "ts_SetFamily ts now fid r (refreshTTL i) s = (s', None)"
    "TokenType pair = ''Bearer''"
  using assms by (auto simp: issuer_mint_def Let_def split: sum.splits prod.splits option.splits)

text \<open>The claims a refresh token must carry to be considered at all.\<close>

definition refresh_claims :: "claims \<Rightarrow> bool" where
  "refresh_claims c \<longleftrightarrow> claim_str c ''type'' = ''refresh'' \<and> claim_str c ''fid'' \<noteq> [] \<and> claim_str c ''jti'' \<noteq> []"

lemma Refresh_ok:
  assumes "issuer_Refresh lib ts i now id1 id2 tok s = (s', Inr pair)"
  obtains c s1 s2 where "issuer_parseValid lib i now tok = Inr c" "refresh_claims c"
    "ts_Family ts now (claim_str c ''fid'') s = (s1, Inr (Some (claim_str c ''jti'')))"
    "issuer_mint lib ts i now id1 id2 c (claim_str c ''fid'') s1 = (s2, Inr pair)"
    "s' = (if remainingTTL now c > 0 then fst (ts_Block ts now (claim_str c ''jti'') (remainingTTL now c) s2) else s2)"
  using assms
  by (auto simp: issuer_Refresh_def refresh_claims_def split: sum.splits if_splits prod.splits option.splits)

context token_store
begin

lemma refresh_rotates:
  assumes ok: "issuer_Refresh lib ts i now id1 id2 tok s = (s', Inr pair)"
    and c: "issuer_parseValid lib i now tok = Inr c" and ttl: "refreshTTL i \<ge> millisecond"
  shows "refresh_claims c \<and> fam s (claim_str c ''fid'') now = Some (claim_str c ''jti'') \<and>
    (\<exists>r. id2 = Inr r \<and>
      (\<forall>t. now \<le> t \<and> t < now + redis_ttl (refreshTTL i) \<longrightarrow> fam s' (claim_str c ''fid'') t = Some r))"
proof -
  obtain s1 s2 where rc: "refresh_claims c"
    and f: "ts_Family ts now (claim_str c ''fid'') s = (s1, Inr (Some (claim_str c ''jti'')))"
    and m: "issuer_mint lib ts i now id1 id2 c (claim_str c ''fid'') s1 = (s2, Inr pair)"
    and s': "s' = (if remainingTTL now c > 0
       then fst (ts_Block ts now (claim_str c ''jti'') (remainingTTL now c) s2) else s2)"
    by (rule Refresh_ok [OF ok], rule that) (use c in auto)
  obtain r where "id2 = Inr r" and sf: "ts_SetFamily ts now (claim_str c ''fid'') r (refreshTTL i) s1 = (s2, None)"
    by (rule mint_ok [OF m], rule that) auto
  with rc Family_ok [OF f] SetFamily_ok [OF sf ttl] show ?thesis
    by (auto simp: s' Block_frame)
qed

lemma dead_family_rejected:
  assumes "issuer_parseValid lib i now tok = Inr c" "fam s (claim_str c ''fid'') now = None"
  shows "\<exists>e. snd (issuer_Refresh lib ts i now id1 id2 tok s) = Inl e"
  using assms Family_ok [of now "claim_str c ''fid''" s]
  by (auto simp: issuer_Refresh_def split: prod.splits sum.splits option.splits)

lemma blocked_access_rejected:
  assumes "auth_parse lib now secret q = Some c" "claim_str c ''jti'' \<noteq> []" "blocked s (claim_str c ''jti'') now"
    and "store (auth_newConfig opts) = Some ts"
  shows "snd (snd (auth_RequireAuth lib now secret opts q s)) = SendError 401 ''unauthorized''"
  using assms IsBlocked_ok [of now "claim_str c ''jti''" s]
  by (auto simp: auth_RequireAuth_def auth_blocklisted_def Let_def split: prod.splits sum.splits bool.splits)

end

context reliable_store
begin

lemma family_read: "\<exists>s1. ts_Family ts now f s = (s1, Inr (fam s f now))"
  using Family_total [of now f s] Family_ok [of now f s] by (cases "ts_Family ts now f s") auto

lemma revoke_total: "\<exists>s1. ts_RevokeFamily ts now f s = (s1, None)"
  using Revoke_total [of now f s] by (cases "ts_RevokeFamily ts now f s") auto

lemma block_total: "\<exists>s1. ts_Block ts now j ttl s = (s1, None)"
  using Block_total [of now j ttl s] by (cases "ts_Block ts now j ttl s") auto

lemma reuse_revokes:
  assumes c: "issuer_parseValid lib i now tok = Inr c" and rc: "refresh_claims c"
    and a: "fam s (claim_str c ''fid'') now = Some a" "a \<noteq> claim_str c ''jti''"
  shows "\<exists>s'. issuer_Refresh lib ts i now id1 id2 tok s = (s', Inl ErrTokenReuse) \<and>
    (\<forall>t. now \<le> t \<longrightarrow> fam s' (claim_str c ''fid'') t = None)"
proof -
  obtain s1 where s1: "ts_Family ts now (claim_str c ''fid'') s = (s1, Inr (Some a))"
    using family_read [of now "claim_str c ''fid''" s] a(1) by auto
  obtain s2 where s2: "ts_RevokeFamily ts now (claim_str c ''fid'') s1 = (s2, None)"
    using revoke_total by blast
  show ?thesis using c rc s1 s2 a(2) Revoke_ok [OF s2] by (auto simp: issuer_Refresh_def refresh_claims_def)
qed

lemma revoked_family_rejected:
  assumes "issuer_parseValid lib i now tok = Inr c" "fam s (claim_str c ''fid'') now = None"
  shows "snd (issuer_Refresh lib ts i now id1 id2 tok s) = Inl ErrInvalidToken"
proof -
  obtain s1 where "ts_Family ts now (claim_str c ''fid'') s = (s1, Inr None)"
    using family_read [of now "claim_str c ''fid''" s] assms(2) by auto
  with assms(1) show ?thesis by (simp add: issuer_Refresh_def)
qed

lemma logout_blocks_access:
  assumes "issuer_parseValid lib i now tok = Inr c" "tok \<noteq> []" "claim_str c ''jti'' \<noteq> []"
    and "remainingTTL now c \<ge> millisecond" "now \<le> t" "t < now + redis_ttl (remainingTTL now c)"
  shows "snd (logout_access lib ts i now tok s) = None \<and>
    blocked (fst (logout_access lib ts i now tok s)) (claim_str c ''jti'') t"
proof -
  have pos: "remainingTTL now c > 0" using assms(4) by (simp add: millisecond_def)
  obtain s1 where s1: "ts_Block ts now (claim_str c ''jti'') (remainingTTL now c) s = (s1, None)"
    using block_total by blast
  show ?thesis using assms pos s1 Block_ok [OF s1 assms(4)] by (simp add: logout_access_def)
qed

lemma logout_refresh_frame:
  "snd (logout_refresh lib ts i now tok s) = None \<and>
   (now \<le> t \<longrightarrow> blocked (fst (logout_refresh lib ts i now tok s)) j t = blocked s j t)"
proof -
  have "\<exists>s1. ts_RevokeFamily ts now f s = (s1, None) \<and> (now \<le> t \<longrightarrow> blocked s1 j t = blocked s j t)" for f
    using revoke_total [of now f s] Revoke_ok [of now f s] by (auto simp: views_eq_def)
  then have "snd (ts_RevokeFamily ts now f s) = None \<and>
      (now \<le> t \<longrightarrow> blocked (fst (ts_RevokeFamily ts now f s)) j t = blocked s j t)" for f
    by (metis fst_conv snd_conv)
  then show ?thesis by (simp add: logout_refresh_def split: sum.split)
qed

lemma logout_revokes_family:
  assumes "issuer_parseValid lib i now tok = Inr c" "tok \<noteq> []" "claim_str c ''fid'' \<noteq> []" "now \<le> t"
  shows "fam (fst (logout_refresh lib ts i now tok s)) (claim_str c ''fid'') t = None"
proof -
  obtain s1 where s1: "ts_RevokeFamily ts now (claim_str c ''fid'') s = (s1, None)" using revoke_total by blast
  show ?thesis using assms s1 Revoke_ok [OF s1] by (simp add: logout_refresh_def)
qed

end

section \<open>Properties\<close>

text \<open>
  A token library that knows the tokens of a table: each entry is valid until its time under
  the key \<open>k\<close>.
\<close>

definition table_lib :: "(string \<times> time \<times> claims) list \<Rightarrow> jwtlib" where
  "table_lib tbl =
     \<lparr>SignedString = (\<lambda>c k. Inr (claim_str c ''jti'')),
      Parse = (\<lambda>kf now tok. case kf HMAC of
          Inl e \<Rightarrow> Inl e
        | Inr k \<Rightarrow> (case map_of tbl tok of
              Some (x, c) \<Rightarrow> if k = ''k'' \<and> now < x then Inr \<lparr>t_Valid = True, t_Claims = Some c\<rparr> else Inl ''expired''
            | None \<Rightarrow> Inl ''malformed''))\<rparr>"

text \<open>
  C3. Refresh token rotation detects reuse. When a refresh token has been exchanged once, under
  a new identifier, presenting the same token again within the lifetime of its successor is
  reported as reuse and revokes the family: from then on no refresh token of that family is
  accepted, the successor included.
\<close>

theorem refresh_reuse_revokes_family:
  assumes "issuer_Refresh lib memory_store i now id1 (Inr r) tok s = (s1, Inr pair)"
    and "issuer_parseValid lib i now tok = Inr c" and "issuer_parseValid lib i now2 tok = Inr c"
    and "r \<noteq> claim_str c ''jti''" and "refreshTTL i \<ge> millisecond"
    and "now \<le> now2" and "now2 < now + redis_ttl (refreshTTL i)"
  shows "\<exists>s2. issuer_Refresh lib memory_store i now2 id3 id4 tok s1 = (s2, Inl ErrTokenReuse) \<and>
    (\<forall>tok' c' t id5 id6. now2 \<le> t \<and> issuer_parseValid lib i t tok' = Inr c' \<and>
        claim_str c' ''fid'' = claim_str c ''fid'' \<longrightarrow>
      snd (issuer_Refresh lib memory_store i t id5 id6 tok' s2) = Inl ErrInvalidToken)"
proof -
  note rot = mem.refresh_rotates [OF assms(1,2,5)]
  then have "memory_fam s1 (claim_str c ''fid'') now2 = Some r" using assms(6,7) by auto
  from mem.reuse_revokes [OF assms(3) _ this assms(4), of id3 id4] rot
  obtain s2 where "issuer_Refresh lib memory_store i now2 id3 id4 tok s1 = (s2, Inl ErrTokenReuse)"
    and dead: "\<forall>t. now2 \<le> t \<longrightarrow> memory_fam s2 (claim_str c ''fid'') t = None"
    by auto
  moreover have "snd (issuer_Refresh lib memory_store i t id5 id6 tok' s2) = Inl ErrInvalidToken"
    if "now2 \<le> t" "issuer_parseValid lib i t tok' = Inr c'" "claim_str c' ''fid'' = claim_str c ''fid''"
    for tok' c' t id5 id6
    using mem.revoked_family_rejected [OF that(2)] dead that by simp
  ultimately show ?thesis by blast
qed

definition sample_refresh :: claims where
  "sample_refresh = [(''sub'', JStr ''u1''), (''type'', JStr ''refresh''), (''fid'', JStr ''f''), (''jti'', JStr ''R''),
     (''exp'', JFloat 100)]"

definition sample_access :: claims where
  "sample_access = [(''sub'', JStr ''u1''), (''type'', JStr ''access''), (''jti'', JStr ''A''),
     (''scopes'', JArray [JStr ''read'']), (''exp'', JFloat 100)]"

definition sample_lib :: jwtlib where
  "sample_lib = table_lib [(''R'', 100 * second, sample_refresh), (''A'', 100 * second, sample_access)]"

definition sample_store :: memstore where
  "sample_store = fst (memory_SetFamily 0 ''f'' ''R'' hour NewMemoryStore)"

lemmas sample_defs = sample_lib_def table_lib_def sample_refresh_def sample_access_def sample_store_def
  issuer_parseValid_def jwt_ValidateToken_def jwt_ExtractClaims_def NewIssuer_def claim_str_def

lemma sample_parse:
  "t < 100 * second \<Longrightarrow> issuer_parseValid sample_lib (NewIssuer ''k'' []) t ''R'' = Inr sample_refresh"
  "t < 100 * second \<Longrightarrow> issuer_parseValid sample_lib (NewIssuer ''k'' []) t ''A'' = Inr sample_access"
  by (simp_all add: sample_defs)

lemma sample_ttl:
  "millisecond \<le> refreshTTL (NewIssuer ''k'' [])" "(1::int) \<le> 2" "2 < 1 + redis_ttl (refreshTTL (NewIssuer ''k'' []))"
  by (simp_all add: NewIssuer_def redis_ttl_def go_defs)

lemma sample_ids:
  "''R2'' \<noteq> claim_str sample_refresh ''jti''" "claim_str sample_access ''jti'' \<noteq> []" "claim_str sample_refresh ''fid'' \<noteq> []"
  by (simp_all add: claim_str_def sample_refresh_def sample_access_def)

lemma sample_rotation:
  "\<exists>s1 p. issuer_Refresh sample_lib memory_store (NewIssuer ''k'' []) 1 (Inr ''A2'') (Inr ''R2'') ''R'' sample_store = (s1, Inr p)"
  by (simp add: issuer_Refresh_def sample_defs memory_store_def memory_Family_def memory_SetFamily_def
      NewMemoryStore_def go_defs issuer_mint_def copy_claims_def jwt_GenerateTokenWithExpiry_def)

theorem refresh_reuse_revokes_family_witness:
  "\<exists>s1. \<exists>s2. issuer_Refresh sample_lib memory_store (NewIssuer ''k'' []) 2 (Inr ''A3'') (Inr ''R3'') ''R'' s1 = (s2, Inl ErrTokenReuse)"
proof -
  obtain s1 p where "issuer_Refresh sample_lib memory_store (NewIssuer ''k'' []) 1 (Inr ''A2'') (Inr ''R2'') ''R'' sample_store = (s1, Inr p)"
    using sample_rotation by auto
  from refresh_reuse_revokes_family [OF this sample_parse(1) sample_parse(1) sample_ids(1) sample_ttl, of "Inr ''A3''" "Inr ''R3''"]
  show ?thesis by (simp add: go_defs) blast
qed

text \<open>
  C17. Logout ends a session. Afterwards the revocation check of \<open>RequireAuth\<close> answers 401 to
  the access token until the last whole millisecond of its life, and the refresh token, like
  any other of its family, is not accepted again.
\<close>

theorem logout_ends_session:
  assumes "issuer_parseValid lib i now atok = Inr ca" "atok \<noteq> []" "claim_str ca ''jti'' \<noteq> []"
    and "issuer_parseValid lib i now rtok = Inr cr" "rtok \<noteq> []" "claim_str cr ''fid'' \<noteq> []"
    and "remainingTTL now ca \<ge> millisecond" and "now \<le> t"
  shows "\<exists>s'. issuer_Logout lib memory_store i now atok rtok s = (s', None) \<and>
    (t < now + redis_ttl (remainingTTL now ca) \<and> auth_parse lib t secret q = Some ca \<longrightarrow>
       snd (snd (auth_RequireAuth lib t secret [WithBlocklist memory_store] q s')) = SendError 401 ''unauthorized'') \<and>
    (issuer_parseValid lib i t tok' = Inr c' \<and> claim_str c' ''fid'' = claim_str cr ''fid'' \<longrightarrow>
       snd (issuer_Refresh lib memory_store i t id1 id2 tok' s') = Inl ErrInvalidToken)"
proof -
  obtain s1 e1 where s1: "logout_access lib memory_store i now atok s = (s1, e1)" by fastforce
  obtain s2 e2 where s2: "logout_refresh lib memory_store i now rtok s1 = (s2, e2)" by fastforce
  note ttl = assms(7) and acc = mem.logout_blocks_access [OF assms(1-3,7), where s = s]
  have "now < now + redis_ttl (remainingTTL now ca)"
    using ttl redis_ttl_pos [of "remainingTTL now ca"] by (simp add: millisecond_def)
  then have e1: "e1 = None" using acc [of now] s1 by simp
  have e2: "e2 = None" using mem.logout_refresh_frame [of lib i now rtok s1 t] s2 by simp
  have blk: "memory_blocked s2 (claim_str ca ''jti'') t" if "t < now + redis_ttl (remainingTTL now ca)"
    using acc [OF assms(8) that] mem.logout_refresh_frame [of lib i now rtok s1 t "claim_str ca ''jti''"] s1 s2 assms(8)
    by simp
  have dead: "memory_fam s2 (claim_str cr ''fid'') t = None"
    using mem.logout_revokes_family [OF assms(4-6,8), of s1] s2 by simp
  have "issuer_Logout lib memory_store i now atok rtok s = (s2, None)"
    by (simp add: issuer_Logout_def s1 s2 e1 e2)
  moreover have "snd (snd (auth_RequireAuth lib t secret [WithBlocklist memory_store] q s2)) = SendError 401 ''unauthorized''"
    if "t < now + redis_ttl (remainingTTL now ca)" "auth_parse lib t secret q = Some ca"
    using mem.blocked_access_rejected [OF that(2) assms(3) blk [OF that(1)]] by (simp add: auth_newConfig_def)
  moreover have "snd (issuer_Refresh lib memory_store i t id1 id2 tok' s2) = Inl ErrInvalidToken"
    if "issuer_parseValid lib i t tok' = Inr c'" "claim_str c' ''fid'' = claim_str cr ''fid''"
    using mem.revoked_family_rejected [OF that(1)] dead that(2) by simp
  ultimately show ?thesis by blast
qed

theorem logout_ends_session_witness:
  "\<exists>s'. issuer_Logout sample_lib memory_store (NewIssuer ''k'' []) 1 ''A'' ''R'' sample_store = (s', None) \<and>
     snd (snd (auth_RequireAuth sample_lib 5 ''k'' [WithBlocklist memory_store]
        \<lparr>authorization = ''bearer A'', locals = (\<lambda>_. None)\<rparr> s')) = SendError 401 ''unauthorized''"
proof -
  have "remainingTTL 1 sample_access = 100 * second - 1"
    by (simp add: remainingTTL_def sample_access_def trunc_rat_def go_defs)
  moreover have "auth_parse sample_lib 5 ''k'' \<lparr>authorization = ''bearer A'', locals = (\<lambda>_. None)\<rparr> = Some sample_access"
    by (simp add: auth_parse_def bearerToken_def lower_char_def sample_defs go_defs)
  moreover have a: "issuer_parseValid sample_lib (NewIssuer ''k'' []) 1 ''A'' = Inr sample_access"
    "issuer_parseValid sample_lib (NewIssuer ''k'' []) 1 ''R'' = Inr sample_refresh"
    by (simp_all add: sample_parse go_defs)
  moreover have "millisecond \<le> 100 * second - 1" "5 < 1 + redis_ttl (100 * second - 1)"
    by (simp_all add: redis_ttl_def go_defs)
  moreover note logout_ends_session [OF a(1) _ sample_ids(2) a(2) _ sample_ids(3), of 5 sample_store "''k''"
        "\<lparr>authorization = ''bearer A'', locals = (\<lambda>_. None)\<rparr>"]
  ultimately show ?thesis by simp blast
qed

lemma claims_after_set: "auth_Claims opts (set_claims (contextKey (auth_newConfig opts)) c q) = Some c"
  by (simp add: auth_Claims_def set_claims_def)

lemma auth_parse_Some:
  "auth_parse lib now secret q = Some c \<longleftrightarrow>
     bearerToken (authorization q) \<noteq> [] \<and> claim_str c ''type'' \<noteq> ''refresh'' \<and>
     (\<exists>t. jwt_ValidateToken lib now (bearerToken (authorization q)) secret = Inr t \<and> t_Valid t \<and> t_Claims t = Some c)"
  by (auto simp: auth_parse_def jwt_ExtractClaims_def Let_def split: sum.splits option.splits if_splits)

lemma RequireAuth_next:
  "auth_RequireAuth lib now secret opts q s = (s', q', CallNext) \<longleftrightarrow>
     (\<exists>c. auth_parse lib now secret q = Some c \<and>
          auth_blocklisted now (store (auth_newConfig opts)) c s = (s', Inr False) \<and>
          q' = set_claims (contextKey (auth_newConfig opts)) c q)"
  by (auto simp: auth_RequireAuth_def Let_def split: option.splits prod.splits sum.splits bool.splits)


text \<open>
  \<open>Optional\<close> never rejects and sets the claims exactly when \<open>RequireAuth\<close> would let the
  request through; the guards that follow answer 401 without claims and 403 when the claims do
  not grant the role or name a team.
\<close>

theorem auth_optional_and_guards:
  "(\<exists>s' q'. auth_Optional lib now secret opts q s = (s', q', CallNext) \<and>
      auth_RequireAuth lib now secret opts q s =
        (s', q', if \<exists>c. auth_parse lib now secret q = Some c \<and>
                   snd (auth_blocklisted now (store (auth_newConfig opts)) c s) = Inr False
                 then CallNext else SendError 401 ''unauthorized'')) \<and>
   auth_RequireRole roles q =
     (case locals q ''auth_claims'' of
        Some (LClaims c) \<Rightarrow> if claim_str c ''role'' \<in> set roles then CallNext else SendError 403 ''forbidden''
      | _ \<Rightarrow> SendError 401 ''unauthorized'') \<and>
   auth_RequireTeam opts q =
     (case locals q (contextKey (auth_newConfig opts)) of
        Some (LClaims c) \<Rightarrow> if claim_str c ''team'' \<noteq> [] then CallNext else SendError 403 ''no active team''
      | _ \<Rightarrow> SendError 401 ''unauthorized'')"
proof (intro conjI)
  show "\<exists>s' q'. auth_Optional lib now secret opts q s = (s', q', CallNext) \<and>
      auth_RequireAuth lib now secret opts q s =
        (s', q', if \<exists>c. auth_parse lib now secret q = Some c \<and>
                   snd (auth_blocklisted now (store (auth_newConfig opts)) c s) = Inr False
                 then CallNext else SendError 401 ''unauthorized'')"
    by (auto simp: auth_Optional_def auth_RequireAuth_def Let_def split: option.splits prod.splits sum.splits bool.splits)
  show "auth_RequireRole roles q =
     (case locals q ''auth_claims'' of
        Some (LClaims c) \<Rightarrow> if claim_str c ''role'' \<in> set roles then CallNext else SendError 403 ''forbidden''
      | _ \<Rightarrow> SendError 401 ''unauthorized'')"
    by (auto simp: auth_RequireRole_def auth_Claims_def auth_TeamRole_def auth_newConfig_def list_ex_iff
        split: option.splits local_val.splits)
  show "auth_RequireTeam opts q =
     (case locals q (contextKey (auth_newConfig opts)) of
        Some (LClaims c) \<Rightarrow> if claim_str c ''team'' \<noteq> [] then CallNext else SendError 403 ''no active team''
      | _ \<Rightarrow> SendError 401 ''unauthorized'')"
    by (auto simp: auth_RequireTeam_def auth_Claims_def auth_ActiveTeam_def split: option.splits local_val.splits)
qed

end
