(* ===== verification/Rate_Limit.thy ===== *)
theory Rate_Limit
  imports Fibr_Prelude
begin

text \<open>
  The token-bucket rate limiter (\<open>src/ratelimit/ratelimit.go\<close>, \<open>src/ratelimit/middleware.go\<close>).
  The Lua script is part of the repository and is modelled statement by statement over the
  hash keys of the Redis server, each with its tokens, its timestamp and the server time at
  which it expires. Clocks count milliseconds; \<open>srv\<close> is the server's clock and \<open>nowMs\<close> the
  caller's. Floating-point numbers are exact rationals. A call of the script may fail, before
  or after the script has run.
\<close>

record bucket =
  tokens :: rat
  ts :: int
  expires :: int

type_synonym hashes = "string \<Rightarrow> bucket option"

record rule =
  Capacity :: int
  RefillPerSec :: rat

record rl_result =
  Allowed :: bool
  Remaining :: int
  RetryAfter :: duration

definition keyPrefix :: string where "keyPrefix = ''ratelimit:''"

definition hmget :: "int \<Rightarrow> string \<Rightarrow> hashes \<Rightarrow> bucket option" where
  "hmget srv k H = (case H k of None \<Rightarrow> None | Some b \<Rightarrow> if srv < expires b then Some b else None)"

definition tokenBucket ::
  "int \<Rightarrow> string \<Rightarrow> int \<Rightarrow> rat \<Rightarrow> int \<Rightarrow> int \<Rightarrow> int \<Rightarrow> hashes \<Rightarrow> hashes \<times> int \<times> int" where
  "tokenBucket srv k cap rate now cost ttl H =
     (let d = hmget srv k H;
          tok0 = (case d of None \<Rightarrow> of_int cap | Some b \<Rightarrow> tokens b);
          ts0 = (case d of None \<Rightarrow> now | Some b \<Rightarrow> ts b);
          elapsed = (if now - ts0 < 0 then 0 else now - ts0);
          tok1 = min (of_int cap) (tok0 + of_int elapsed * rate);
          allowed = tok1 \<ge> of_int cost;
          tok2 = (if allowed then tok1 - of_int cost else tok1)
      in (H(k \<mapsto> \<lparr>tokens = tok2, ts = now, expires = srv + ttl\<rparr>),
          (if allowed then 1 else 0), \<lfloor>tok2\<rfloor>))"

definition bucketTTLMs :: "rule \<Rightarrow> int" where
  "bucketTTLMs r =
     (if RefillPerSec r \<le> 0 then 1000
      else let ms = \<lceil>of_int (Capacity r) / RefillPerSec r\<rceil> * 1000 in if ms < 1000 then 1000 else ms)"

definition retryAfter :: "int \<Rightarrow> int \<Rightarrow> rat \<Rightarrow> duration" where
  "retryAfter cost remaining refillPerSec =
     (if refillPerSec \<le> 0 then second
      else let need = cost - remaining
           in if need \<le> 0 then second
              else let secs = \<lceil>of_int need / refillPerSec\<rceil>
                   in (if secs < 1 then 1 else secs) * second)"

text \<open>How the call of the script ends: it answers, or fails with or without having run.\<close>

datatype fault = Answered | FailedBefore string | FailedAfter string

definition limiter_Allow :: "fault \<Rightarrow> int \<Rightarrow> int \<Rightarrow> string \<Rightarrow> rule \<Rightarrow> int \<Rightarrow> hashes \<Rightarrow> hashes \<times> (string + rl_result)" where
  "limiter_Allow flt srv nowMs key r cost H =
     (let cost = (if cost < 1 then 1 else cost);
          ratePerMs = RefillPerSec r / 1000;
          ttlMs = bucketTTLMs r
      in case tokenBucket srv (keyPrefix @ key) (Capacity r) ratePerMs nowMs cost ttlMs H of
           (H', res0, res1) \<Rightarrow>
             (case flt of
                FailedBefore e \<Rightarrow> (H, Inl e)
              | FailedAfter e \<Rightarrow> (H', Inl e)
              | Answered \<Rightarrow>
                  (H', Inr \<lparr>Allowed = (res0 = 1), Remaining = res1,
                     RetryAfter = (if res0 = 1 then 0 else retryAfter cost res1 (RefillPerSec r))\<rparr>)))"

text \<open>The middleware: the status, 0 when the next handler runs, and the headers it sets.\<close>

record rl_reply =
  rl_next :: bool
  rl_status :: int
  rl_headers :: "(string \<times> int) list"

definition limiter_Middleware :: "fault \<Rightarrow> int \<Rightarrow> int \<Rightarrow> rule \<Rightarrow> string \<Rightarrow> hashes \<Rightarrow> hashes \<times> rl_reply" where
  "limiter_Middleware flt srv nowMs r key H =
     (case limiter_Allow flt srv nowMs key r 1 H of
        (H', Inl _) \<Rightarrow> (H', \<lparr>rl_next = True, rl_status = 0, rl_headers = []\<rparr>)
      | (H', Inr res) \<Rightarrow>
          let hs = [(''X-RateLimit-Limit'', Capacity r), (''X-RateLimit-Remaining'', Remaining res)]
          in if \<not> Allowed res
             then (H', \<lparr>rl_next = False, rl_status = 429,
                        rl_headers = hs @ [(''Retry-After'', go_div (RetryAfter res) second)]\<rparr>)
             else (H', \<lparr>rl_next = True, rl_status = 0, rl_headers = hs\<rparr>))"

section \<open>The ideal bucket\<close>

text \<open>
  The specification keeps no expiry: the level of a bucket grows with time up to the capacity
  and a bucket that was never used is full. \<open>bucket_ok\<close> is the invariant of the stored hash:
  the tokens are between zero and the capacity and the expiry is the timestamp plus the time
  to live of the rule.
\<close>

definition growth :: "rule \<Rightarrow> int \<Rightarrow> rat" where
  "growth r d = of_int d * (RefillPerSec r / 1000)"

definition ideal_level :: "rule \<Rightarrow> int \<Rightarrow> bucket option \<Rightarrow> rat" where
  "ideal_level r t b = (case b of None \<Rightarrow> of_int (Capacity r)
     | Some b \<Rightarrow> min (of_int (Capacity r)) (tokens b + growth r (t - ts b)))"

definition bucket_ok :: "rule \<Rightarrow> int \<Rightarrow> bucket option \<Rightarrow> bool" where
  "bucket_ok r t b \<longleftrightarrow> (case b of None \<Rightarrow> True
     | Some b \<Rightarrow> 0 \<le> tokens b \<and> tokens b \<le> of_int (Capacity r) \<and> ts b \<le> t \<and> expires b = ts b + bucketTTLMs r)"

lemma bucketTTLMs_ge: "1000 \<le> bucketTTLMs r"
  by (simp add: bucketTTLMs_def Let_def)

lemma growth_mono: "RefillPerSec r > 0 \<Longrightarrow> d \<le> d' \<Longrightarrow> growth r d \<le> growth r d'"
  unfolding growth_def by (intro mult_right_mono) auto

lemma growth_0 [simp]: "growth r 0 = 0"
  by (simp add: growth_def)

lemma growth_nonneg: "RefillPerSec r > 0 \<Longrightarrow> 0 \<le> d \<Longrightarrow> 0 \<le> growth r d"
  by (simp add: growth_def)

lemma growth_split: "growth r (c - a) = growth r (b - a) + growth r (c - b)"
proof -
  have "rat_of_int (c - a) = of_int (b - a) + of_int (c - b)" by simp
  then show ?thesis unfolding growth_def by (simp only: distrib_right)
qed

lemma ttl_refills:
  assumes "RefillPerSec r > 0"
  shows "of_int (Capacity r) \<le> growth r (bucketTTLMs r)"
proof -
  let ?c = "\<lceil>of_int (Capacity r) / RefillPerSec r\<rceil>"
  have c: "of_int (Capacity r) \<le> of_int ?c * RefillPerSec r"
    using le_of_int_ceiling [of "of_int (Capacity r) / RefillPerSec r"] pos_divide_le_eq [OF assms] by blast
  have n: "(RefillPerSec r \<le> 0) = False" using assms by simp
  have "?c * 1000 \<le> bucketTTLMs r"
    unfolding bucketTTLMs_def Let_def n if_False by (split if_split) (intro conjI impI; linarith)
  then have g: "growth r (?c * 1000) \<le> growth r (bucketTTLMs r)"
    by (rule growth_mono [OF assms])
  have "growth r (?c * 1000) = of_int ?c * RefillPerSec r" by (simp add: growth_def)
  with c g show ?thesis by linarith
qed

text \<open>An expired bucket would have been full: forgetting it changes no level.\<close>

lemma level_hmget:
  assumes "RefillPerSec r > 0" "bucket_ok r t (H k)"
  shows "ideal_level r t (hmget t k H) = ideal_level r t (H k)"
proof (cases "H k")
  case None
  then show ?thesis by (simp add: hmget_def)
next
  case (Some b)
  show ?thesis
  proof (cases "t < expires b")
    case True
    then show ?thesis by (simp add: hmget_def Some)
  next
    case False
    then have "bucketTTLMs r \<le> t - ts b" using assms(2) by (simp add: bucket_ok_def Some)
    then have "growth r (bucketTTLMs r) \<le> growth r (t - ts b)" by (rule growth_mono [OF assms(1)])
    with ttl_refills [OF assms(1)] assms(2)
    have "of_int (Capacity r) \<le> tokens b + growth r (t - ts b)"
      by (simp add: bucket_ok_def Some)
    with False show ?thesis by (simp add: hmget_def Some ideal_level_def)
  qed
qed

lemma level_bounds:
  assumes "RefillPerSec r > 0" "0 \<le> Capacity r" "bucket_ok r t b" "t \<le> t'"
  shows "0 \<le> ideal_level r t b" "ideal_level r t b \<le> of_int (Capacity r)"
    "ideal_level r t' b \<le> ideal_level r t b + growth r (t' - t)"
    "ideal_level r t b \<le> ideal_level r t' b"
proof -
  note m = growth_mono [OF assms(1)] and z = growth_nonneg [OF assms(1), of "t' - t"]
  show "0 \<le> ideal_level r t b"
    using assms growth_nonneg [OF assms(1)] by (auto simp: ideal_level_def bucket_ok_def split: option.splits)
  show "ideal_level r t b \<le> of_int (Capacity r)" by (simp add: ideal_level_def split: option.splits)
  show "ideal_level r t' b \<le> ideal_level r t b + growth r (t' - t)"
  proof (cases b)
    case (Some c)
    have "growth r (t' - ts c) = growth r (t - ts c) + growth r (t' - t)" by (rule growth_split)
    then show ?thesis using z assms(4) by (simp add: ideal_level_def Some min_def)
  qed (use z assms(4) in \<open>simp add: ideal_level_def\<close>)
  show "ideal_level r t b \<le> ideal_level r t' b"
  proof (cases b)
    case (Some c)
    have "growth r (t - ts c) \<le> growth r (t' - ts c)" using assms(4) by (intro m) simp
    then show ?thesis by (simp add: ideal_level_def Some min_def)
  qed (simp add: ideal_level_def)
qed

section \<open>Refinement of the ideal bucket\<close>

abbreviation eff_cost :: "int \<Rightarrow> int" where "eff_cost c \<equiv> if c < 1 then 1 else c"

text \<open>One answered call takes its cost from the ideal level exactly when the level covers it.\<close>

lemma script_step:
  assumes "RefillPerSec r > 0" "0 \<le> Capacity r" "bucket_ok r t (H k)" "0 \<le> cost"
    and "tokenBucket t k (Capacity r) (RefillPerSec r / 1000) t cost (bucketTTLMs r) H = (H', a, n)"
  shows "a = (if of_int cost \<le> ideal_level r t (H k) then 1 else 0) \<and>
    ideal_level r t (H' k) = ideal_level r t (H k) - (if a = 1 then of_int cost else 0) \<and>
    n = \<lfloor>ideal_level r t (H' k)\<rfloor> \<and> bucket_ok r t (H' k) \<and> (\<forall>k'. k' \<noteq> k \<longrightarrow> H' k' = H k')"
proof -
  let ?L = "ideal_level r t (H k)"
  define tok1 where "tok1 = min (of_int (Capacity r)) ((case hmget t k H of None \<Rightarrow> of_int (Capacity r) | Some b \<Rightarrow> tokens b)
      + of_int (if t - (case hmget t k H of None \<Rightarrow> t | Some b \<Rightarrow> ts b) < 0 then 0
                else t - (case hmget t k H of None \<Rightarrow> t | Some b \<Rightarrow> ts b)) * (RefillPerSec r / 1000))"
  have ok: "bucket_ok r t (hmget t k H)" using assms(3) by (auto simp: hmget_def bucket_ok_def split: option.splits)
  have "tok1 = ideal_level r t (hmget t k H)"
    using ok unfolding tok1_def ideal_level_def growth_def by (auto simp: bucket_ok_def split: option.splits)
  then have L: "tok1 = ?L" using level_hmget [OF assms(1), of t H k] assms(3) by simp
  have b: "0 \<le> ?L" "?L \<le> of_int (Capacity r)" using level_bounds [OF assms(1-3) order_refl] by simp_all
  have H': "H' = H(k \<mapsto> \<lparr>tokens = (if of_int cost \<le> ?L then ?L - of_int cost else ?L), ts = t,
        expires = t + bucketTTLMs r\<rparr>)"
    and a: "a = (if of_int cost \<le> ?L then 1 else 0)"
    and n: "n = \<lfloor>if of_int cost \<le> ?L then ?L - of_int cost else ?L\<rfloor>"
    using assms(5) unfolding tokenBucket_def Let_def tok1_def [symmetric] L by auto
  have c: "(0::rat) \<le> of_int cost" using assms(4) by simp
  have lvl: "ideal_level r t (H' k) = (if of_int cost \<le> ?L then ?L - of_int cost else ?L)"
    using b c by (simp add: H' ideal_level_def [of r t "Some _"])
  show ?thesis unfolding lvl using a n b c by (auto simp: H' bucket_ok_def)
qed

lemma Allow_step:
  assumes "RefillPerSec r > 0" "0 \<le> Capacity r" "bucket_ok r t (H (keyPrefix @ key))"
    and "limiter_Allow Answered t t key r cost H = (H', Inr res)"
  shows "Allowed res = (of_int (eff_cost cost) \<le> ideal_level r t (H (keyPrefix @ key))) \<and>
    ideal_level r t (H' (keyPrefix @ key)) =
      ideal_level r t (H (keyPrefix @ key)) - (if Allowed res then of_int (eff_cost cost) else 0) \<and>
    Remaining res = \<lfloor>ideal_level r t (H' (keyPrefix @ key))\<rfloor> \<and>
    RetryAfter res = (if Allowed res then 0 else retryAfter (eff_cost cost) (Remaining res) (RefillPerSec r)) \<and>
    bucket_ok r t (H' (keyPrefix @ key)) \<and> (\<forall>k'. k' \<noteq> keyPrefix @ key \<longrightarrow> H' k' = H k')"
proof -
  obtain H1 a n where s: "tokenBucket t (keyPrefix @ key) (Capacity r) (RefillPerSec r / 1000) t (eff_cost cost)
      (bucketTTLMs r) H = (H1, a, n)"
    by (metis prod_cases3)
  have "0 \<le> eff_cost cost" by simp
  note step = script_step [OF assms(1-3) this s]
  have "H' = H1" "res = \<lparr>Allowed = (a = 1), Remaining = n,
      RetryAfter = (if a = 1 then 0 else retryAfter (eff_cost cost) n (RefillPerSec r))\<rparr>"
    using assms(4) s by (simp_all add: limiter_Allow_def Let_def)
  with step show ?thesis by (auto split: if_splits)
qed

lemma bucket_ok_later: "bucket_ok r t b \<Longrightarrow> t \<le> t' \<Longrightarrow> bucket_ok r t' b"
  by (auto simp: bucket_ok_def split: option.splits)

text \<open>A run of answered calls on any keys: the time, the key and the cost of each.\<close>

fun rl_run :: "rule \<Rightarrow> (int \<times> string \<times> int) list \<Rightarrow> hashes \<Rightarrow> hashes \<times> (int \<times> string \<times> int) list" where
  "rl_run r [] H = (H, [])"
| "rl_run r ((t, k, c) # qs) H =
     (case limiter_Allow Answered t t k r c H of
        (H', Inr res) \<Rightarrow>
          (case rl_run r qs H' of (H'', adm) \<Rightarrow> (H'', if Allowed res then (t, k, c) # adm else adm))
      | (H', Inl _) \<Rightarrow> rl_run r qs H')"

definition spent :: "string \<Rightarrow> (int \<times> string \<times> int) list \<Rightarrow> int" where
  "spent k adm = sum_list (map (\<lambda>(t, k', c). if k' = k then eff_cost c else 0) adm)"

lemma Allow_answers: "\<exists>H' res. limiter_Allow Answered srv t k r c H = (H', Inr res)"
  by (auto simp: limiter_Allow_def Let_def split: prod.splits)

lemma spent_Cons: "spent k ((t, k', c) # adm) = (if k' = k then eff_cost c else 0) + spent k adm"
  by (simp add: spent_def)

lemma spent_run_Cons:
  "limiter_Allow Answered t t k r c H = (H', Inr res) \<Longrightarrow>
   snd (rl_run r ((t, k, c) # qs) H) = (if Allowed res then (t, k, c) # snd (rl_run r qs H') else snd (rl_run r qs H'))"
  by (simp split: prod.splits)

lemma rl_run_spent:
  assumes "RefillPerSec r > 0" "0 \<le> Capacity r" "sorted (t0 # map fst qs)" "\<forall>q\<in>set qs. fst q \<le> t1"
    "bucket_ok r t0 (H (keyPrefix @ k))" "t0 \<le> t1"
  shows "of_int (spent k (snd (rl_run r qs H))) \<le> ideal_level r t0 (H (keyPrefix @ k)) + growth r (t1 - t0)"
  using assms(3-)
proof (induction qs arbitrary: t0 H)
  case Nil
  then show ?case
    using level_bounds(1) [OF assms(1,2) Nil.prems(3) order_refl]
      growth_nonneg [OF assms(1), of "t1 - t0"] Nil.prems(4) by (simp add: spent_def)
next
  case (Cons q qs)
  obtain t k' c where q: "q = (t, k', c)" by (cases q)
  obtain H' res where a: "limiter_Allow Answered t t k' r c H = (H', Inr res)" using Allow_answers by blast
  have t: "t0 \<le> t" "t \<le> t1" using Cons.prems q by auto
  have ok: "bucket_ok r t (H (keyPrefix @ k))" using bucket_ok_later [OF Cons.prems(3) t(1)] .
  have grow: "ideal_level r t (H (keyPrefix @ k)) \<le> ideal_level r t0 (H (keyPrefix @ k)) + growth r (t - t0)"
    using level_bounds(3) [OF assms(1,2) Cons.prems(3) t(1)] .
  note split = growth_split [of r t1 t0 t]
  have ih: "bucket_ok r t (H' (keyPrefix @ k)) \<Longrightarrow> of_int (spent k (snd (rl_run r qs H')))
      \<le> ideal_level r t (H' (keyPrefix @ k)) + growth r (t1 - t)"
    using Cons.IH [of t H'] Cons.prems t(2) q by auto
  show ?case
  proof (cases "k' = k")
    case True
    note st = Allow_step [OF assms(1,2) ok a [unfolded True]]
    then show ?thesis using ih grow split
      by (auto simp: q True spent_Cons spent_run_Cons [OF a [unfolded True]] simp del: rl_run.simps)
  next
    case False
    have "\<forall>k''. k'' \<noteq> keyPrefix @ k' \<longrightarrow> H' k'' = H k''"
      using a by (auto simp: limiter_Allow_def tokenBucket_def Let_def)
    then have "H' (keyPrefix @ k) = H (keyPrefix @ k)" using False by simp
    then show ?thesis using ih ok grow split False
      by (auto simp: q spent_Cons spent_run_Cons [OF a] simp del: rl_run.simps)
  qed
qed


lemma rl_run_ok:
  assumes "RefillPerSec r > 0" "0 \<le> Capacity r"
  shows "sorted (map fst qs) \<Longrightarrow> \<forall>q\<in>set qs. t0 \<le> fst q \<and> fst q \<le> t \<Longrightarrow> t0 \<le> t \<Longrightarrow>
    bucket_ok r t0 (H (keyPrefix @ k)) \<Longrightarrow> bucket_ok r t (fst (rl_run r qs H) (keyPrefix @ k))"
proof (induction qs arbitrary: t0 H)
  case Nil
  then show ?case using bucket_ok_later by auto
next
  case (Cons q qs)
  obtain u k' c where q: "q = (u, k', c)" by (cases q)
  obtain H' res where a: "limiter_Allow Answered u u k' r c H = (H', Inr res)" using Allow_answers by blast
  have ok: "bucket_ok r u (H (keyPrefix @ k))" using bucket_ok_later [of r t0] Cons.prems q by auto
  have "bucket_ok r u (H' (keyPrefix @ k))"
  proof (cases "k' = k")
    case True
    then show ?thesis using Allow_step [OF assms ok a [unfolded True]] by blast
  next
    case False
    then show ?thesis using a ok by (auto simp: limiter_Allow_def tokenBucket_def Let_def)
  qed
  then show ?case using Cons.IH [of u H'] Cons.prems q a by (auto split: prod.splits)
qed

section \<open>Properties\<close>


abbreviation two_per_sec :: rule where "two_per_sec \<equiv> \<lparr>Capacity = 2, RefillPerSec = 2\<rparr>"




lemma demo_denied:
  "\<exists>H' res. limiter_Allow Answered 1 1 ''a'' two_per_sec 1 [keyPrefix @ ''a'' \<mapsto> \<lparr>tokens = 0, ts = 1, expires = 1001\<rparr>] = (H', Inr res)
     \<and> \<not> Allowed res \<and> RetryAfter res = second"
  by (simp add: limiter_Allow_def tokenBucket_def hmget_def Let_def retryAfter_def ceiling_eq_iff)


lemma retryAfter_ge: "second \<le> retryAfter cost remaining rate"
  by (auto simp: retryAfter_def Let_def go_defs)

text \<open>
  The middleware. A failed call of the script lets the request through without headers; an
  answered one sets the limit and the remaining tokens, and a denied request gets status 429
  and a \<open>Retry-After\<close> of at least one second, is not passed on, and leaves the level of the
  bucket as it was.
\<close>

theorem ratelimit_middleware_decision:
  assumes "RefillPerSec r > 0" "0 \<le> Capacity r" "bucket_ok r t (H (keyPrefix @ key))"
  shows "rl_next (snd (limiter_Middleware (FailedBefore e) t t r key H)) \<and>
    rl_next (snd (limiter_Middleware (FailedAfter e) t t r key H)) \<and>
    (\<exists>H' rep. limiter_Middleware Answered t t r key H = (H', rep) \<and>
      rl_next rep = (1 \<le> ideal_level r t (H (keyPrefix @ key))) \<and>
      map_of (rl_headers rep) ''X-RateLimit-Remaining'' = Some \<lfloor>ideal_level r t (H' (keyPrefix @ key))\<rfloor> \<and>
      (if rl_next rep
       then ideal_level r t (H' (keyPrefix @ key)) = ideal_level r t (H (keyPrefix @ key)) - 1
       else rl_status rep = 429 \<and> (\<exists>n\<ge>1. map_of (rl_headers rep) ''Retry-After'' = Some n) \<and>
            ideal_level r t (H' (keyPrefix @ key)) = ideal_level r t (H (keyPrefix @ key))))"
proof -
  obtain H' res where a: "limiter_Allow Answered t t key r 1 H = (H', Inr res)" using Allow_answers by blast
  note st = Allow_step [OF assms a]
  have "1 \<le> go_div (retryAfter c m q) second" for c m q
    using retryAfter_ge [of c m q] by (simp add: go_div_nonneg go_defs zdiv_mono1 [of _ _ 1000000000, simplified])
  then show ?thesis using st a
    by (cases "Allowed res")
       (auto simp: limiter_Middleware_def limiter_Allow_def [of "FailedBefore e"] limiter_Allow_def [of "FailedAfter e"] Let_def
         split: prod.splits)
qed

theorem ratelimit_middleware_decision_witness:
  "\<exists>H' rep. limiter_Middleware Answered 1 1 two_per_sec ''a'' (\<lambda>_. None) = (H', rep) \<and> rl_next rep"
  using ratelimit_middleware_decision [of two_per_sec 1 "\<lambda>_. None" "''a''" "''e''"]
  by (auto simp: bucket_ok_def ideal_level_def [of _ _ None])

text \<open>
  A rule that never refills is not a hard limit: its bucket lives for one second, so a
  caller that was denied is served again, from a full bucket, when it comes back a second
  later.
\<close>

theorem ratelimit_zero_refill_resets:
  assumes "RefillPerSec r \<le> 0" "1 \<le> Capacity r" "limiter_Allow Answered t t key r 1 H = (H', Inr res)" "t + 1000 \<le> t'"
  shows "\<exists>H'' res'. limiter_Allow Answered t' t' key r 1 H' = (H'', Inr res') \<and> Allowed res' \<and>
    Remaining res' = Capacity r - 1"
proof -
  have "H' (keyPrefix @ key) \<noteq> None \<and> expires (the (H' (keyPrefix @ key))) = t + 1000"
    using assms(1,3) by (auto simp: limiter_Allow_def tokenBucket_def Let_def bucketTTLMs_def)
  then have "hmget t' (keyPrefix @ key) H' = None" using assms(4) by (auto simp: hmget_def)
  then show ?thesis using assms(2) by (simp add: limiter_Allow_def tokenBucket_def Let_def)
qed

theorem ratelimit_zero_refill_resets_witness:
  "\<exists>H' H'' res'. limiter_Allow Answered 2000 2000 ''a'' \<lparr>Capacity = 1, RefillPerSec = 0\<rparr> 1 H' = (H'', Inr res') \<and> Allowed res'"
proof -
  obtain H' res where "limiter_Allow Answered 1 1 ''a'' \<lparr>Capacity = 1, RefillPerSec = 0\<rparr> 1 (\<lambda>_. None) = (H', Inr res)"
    using Allow_answers by blast
  from ratelimit_zero_refill_resets [OF _ _ this, of 2000] show ?thesis by auto
qed

end
