(* ===== verification/Ws_Hub.thy ===== *)
theory Ws_Hub
  imports Fibr_Prelude
begin

text \<open>
  The WebSocket hub with rooms and its Redis backplane (\<open>src/ws/hub.go\<close>, \<open>src/ws/conn.go\<close>,
  \<open>src/ws/backplane.go\<close>). Connections are objects at addresses; a set of connections is a
  list without repetition, whose order stands for the map's iteration order. The hub state and
  the store of connections are passed explicitly, one definition per method; the critical
  sections of the two mutexes are atomic steps. The JSON encoder \<open>mar\<close> and what another
  replica decodes from a published envelope, \<open>wire\<close>, are parameters. The frames a connection
  has written to the network are kept in \<open>c_written\<close>.
\<close>

section \<open>State\<close>

type_synonym addr = nat
type_synonym bytes = string

datatype ws_err = ErrClosed | ErrSlowClient | MarshalErr string

record conn =
  c_send :: "bytes list"        \<comment> \<open>the buffered channel\<close>
  c_cap :: nat
  c_rooms :: "string list"
  c_closed :: bool              \<comment> \<open>\<open>closed\<close>, and the channel is closed\<close>
  c_closing :: bool             \<comment> \<open>a goroutine that will call \<open>Close\<close> has been started\<close>
  c_written :: "bytes list"
  c_done :: bool                \<comment> \<open>the write pump has stopped\<close>

datatype bp = Subscribed string | SubscribeFailed string string | Stopped string

record hub =
  h_ping :: duration
  h_sendBuf :: nat
  h_conns :: "addr list"
  h_rooms :: "(string, addr list) gomap"
  h_bp :: "bp option"

record ws =
  w_hub :: hub
  w_conn :: "addr \<Rightarrow> conn"

definition set_add :: "'a \<Rightarrow> 'a list \<Rightarrow> 'a list" where
  "set_add x xs = (if x \<in> set xs then xs else xs @ [x])"

lemma set_set_add [simp]: "set (set_add x xs) = insert x (set xs)"
  by (auto simp: set_add_def)

lemma distinct_set_add [simp]: "distinct xs \<Longrightarrow> distinct (set_add x xs)"
  by (auto simp: set_add_def)

datatype ws_option = WithRedis string | WithPingInterval duration | WithSendBuffer int

record hubConfig =
  channel :: "string option"
  ping :: duration
  sendBuf :: int

fun ws_opt :: "ws_option \<Rightarrow> hubConfig \<Rightarrow> hubConfig" where
  "ws_opt (WithRedis ch) c = c\<lparr>channel := Some ch\<rparr>"
| "ws_opt (WithPingInterval d) c = c\<lparr>ping := d\<rparr>"
| "ws_opt (WithSendBuffer n) c = (if n > 0 then c\<lparr>sendBuf := n\<rparr> else c)"

text \<open>\<open>sub_err\<close> is the outcome of the subscription the backplane starts with.\<close>

definition newBackplane :: "string option \<Rightarrow> string \<Rightarrow> bp" where
  "newBackplane sub_err ch = (case sub_err of Some e \<Rightarrow> SubscribeFailed ch e | None \<Rightarrow> Subscribed ch)"

definition NewHub :: "string option \<Rightarrow> ws_option list \<Rightarrow> hub" where
  "NewHub sub_err opts =
     (let cfg = apply_opts ws_opt opts \<lparr>channel = None, ping = 30 * second, sendBuf = 16\<rparr>
      in \<lparr>h_ping = ping cfg, h_sendBuf = nat (sendBuf cfg), h_conns = [], h_rooms = [],
          h_bp = map_option (newBackplane sub_err) (channel cfg)\<rparr>)"

definition new_conn :: "hub \<Rightarrow> conn" where
  "new_conn h = \<lparr>c_send = [], c_cap = h_sendBuf h, c_rooms = [], c_closed = False, c_closing = False,
     c_written = [], c_done = False\<rparr>"

abbreviation upd_hub :: "(hub \<Rightarrow> hub) \<Rightarrow> ws \<Rightarrow> ws" where
  "upd_hub f s \<equiv> s\<lparr>w_hub := f (w_hub s)\<rparr>"

abbreviation upd_conn :: "addr \<Rightarrow> (conn \<Rightarrow> conn) \<Rightarrow> ws \<Rightarrow> ws" where
  "upd_conn c f s \<equiv> s\<lparr>w_conn := (w_conn s)(c := f (w_conn s c))\<rparr>"

section \<open>Registration and rooms\<close>

definition hub_register :: "addr \<Rightarrow> hub \<Rightarrow> hub" where
  "hub_register c h = h\<lparr>h_conns := set_add c (h_conns h)\<rparr>"

definition prune :: "addr \<Rightarrow> (string, addr list) gomap \<Rightarrow> (string, addr list) gomap" where
  "prune c rs = filter (\<lambda>(room, xs). xs \<noteq> []) (map (\<lambda>(room, xs). (room, removeAll c xs)) rs)"

definition hub_unregister :: "addr \<Rightarrow> hub \<Rightarrow> hub" where
  "hub_unregister c h = h\<lparr>h_conns := removeAll c (h_conns h), h_rooms := prune c (h_rooms h)\<rparr>"

definition hub_addToRoom :: "string \<Rightarrow> addr \<Rightarrow> hub \<Rightarrow> hub" where
  "hub_addToRoom room c h =
     h\<lparr>h_rooms := gm_put (h_rooms h) room
         (set_add c (case gm_get (h_rooms h) room of None \<Rightarrow> [] | Some xs \<Rightarrow> xs))\<rparr>"

definition hub_removeFromRoom :: "string \<Rightarrow> addr \<Rightarrow> hub \<Rightarrow> hub" where
  "hub_removeFromRoom room c h =
     (case gm_get (h_rooms h) room of
        None \<Rightarrow> h
      | Some xs \<Rightarrow>
          if removeAll c xs = [] then h\<lparr>h_rooms := gm_del (h_rooms h) room\<rparr>
          else h\<lparr>h_rooms := gm_put (h_rooms h) room (removeAll c xs)\<rparr>)"

definition conn_Join :: "addr \<Rightarrow> string \<Rightarrow> ws \<Rightarrow> ws" where
  "conn_Join c room s =
     upd_hub (hub_addToRoom room c) (upd_conn c (\<lambda>k. k\<lparr>c_rooms := set_add room (c_rooms k)\<rparr>) s)"

definition conn_Leave :: "addr \<Rightarrow> string \<Rightarrow> ws \<Rightarrow> ws" where
  "conn_Leave c room s =
     upd_hub (hub_removeFromRoom room c) (upd_conn c (\<lambda>k. k\<lparr>c_rooms := removeAll room (c_rooms k)\<rparr>) s)"

definition conn_Rooms :: "addr \<Rightarrow> ws \<Rightarrow> string list" where
  "conn_Rooms c s = c_rooms (w_conn s c)"

section \<open>Sending\<close>

definition conn_enqueue :: "bytes \<Rightarrow> conn \<Rightarrow> conn \<times> ws_err option" where
  "conn_enqueue b k =
     (if c_closed k then (k, Some ErrClosed)
      else if length (c_send k) < c_cap k then (k\<lparr>c_send := c_send k @ [b]\<rparr>, None)
      else (k\<lparr>c_closing := True\<rparr>, Some ErrSlowClient))"

definition conn_Send :: "('m \<Rightarrow> string + bytes) \<Rightarrow> 'm \<Rightarrow> conn \<Rightarrow> conn \<times> ws_err option" where
  "conn_Send mar msg k = (case mar msg of Inl e \<Rightarrow> (k, Some (MarshalErr e)) | Inr b \<Rightarrow> conn_enqueue b k)"

definition conn_Close :: "conn \<Rightarrow> conn" where
  "conn_Close k = k\<lparr>c_closed := True\<rparr>"

definition enqueue_all :: "addr list \<Rightarrow> bytes \<Rightarrow> ws \<Rightarrow> ws" where
  "enqueue_all targets b s = fold (\<lambda>c. upd_conn c (\<lambda>k. fst (conn_enqueue b k))) targets s"

definition hub_localBroadcast :: "('m \<Rightarrow> string + bytes) \<Rightarrow> 'm \<Rightarrow> ws \<Rightarrow> ws" where
  "hub_localBroadcast mar msg s =
     (case mar msg of Inl _ \<Rightarrow> s | Inr b \<Rightarrow> enqueue_all (h_conns (w_hub s)) b s)"

definition hub_localToRoom :: "('m \<Rightarrow> string + bytes) \<Rightarrow> string \<Rightarrow> 'm \<Rightarrow> ws \<Rightarrow> ws" where
  "hub_localToRoom mar room msg s =
     (case mar msg of
        Inl _ \<Rightarrow> s
      | Inr b \<Rightarrow> enqueue_all (case gm_get (h_rooms (w_hub s)) room of None \<Rightarrow> [] | Some xs \<Rightarrow> xs) b s)"

definition hub_Count :: "ws \<Rightarrow> nat" where
  "hub_Count s = length (h_conns (w_hub s))"

definition backplane_close :: "bp \<Rightarrow> bp" where
  "backplane_close b = (case b of Subscribed ch \<Rightarrow> Stopped ch | SubscribeFailed ch e \<Rightarrow> SubscribeFailed ch e | Stopped ch \<Rightarrow> Stopped ch)"

definition hub_Close :: "ws \<Rightarrow> ws" where
  "hub_Close s =
     (let s = upd_hub (\<lambda>h. h\<lparr>h_bp := map_option backplane_close (h_bp h)\<rparr>) s
      in fold (\<lambda>c. upd_conn c conn_Close) (h_conns (w_hub s)) s)"

definition hub_BackplaneErr :: "ws \<Rightarrow> string option" where
  "hub_BackplaneErr s = (case h_bp (w_hub s) of Some (SubscribeFailed ch e) \<Rightarrow> Some e | _ \<Rightarrow> None)"

section \<open>The pumps and the connection lifecycle\<close>

text \<open>
  One iteration of the write pump: the channel or the ticker is ready and the write succeeds
  or fails. Receiving from a closed channel yields what is buffered first.
\<close>

datatype pump_event = RecvReady bool | TickReady bool

definition writePump_step :: "pump_event \<Rightarrow> conn \<Rightarrow> conn" where
  "writePump_step e k =
     (if c_done k then k
      else case e of
        RecvReady ok \<Rightarrow>
          (case c_send k of
             [] \<Rightarrow> if c_closed k then k\<lparr>c_done := True\<rparr> else k
           | b # bs \<Rightarrow>
               if ok then k\<lparr>c_send := bs, c_written := c_written k @ [b]\<rparr>
               else k\<lparr>c_send := bs, c_done := True\<rparr>)
      | TickReady ok \<Rightarrow> if ok then k else k\<lparr>c_done := True\<rparr>)"

text \<open>The read pump consumes frames until a read fails; a frame that does not decode is skipped.\<close>

fun readPump :: "(bytes \<Rightarrow> 'm option) \<Rightarrow> ('m \<Rightarrow> ws \<Rightarrow> ws) option \<Rightarrow> bytes list \<Rightarrow> ws \<Rightarrow> ws" where
  "readPump dec onMessage [] s = s"
| "readPump dec onMessage (d # ds) s =
     (case dec d of
        None \<Rightarrow> readPump dec onMessage ds s
      | Some msg \<Rightarrow> readPump dec onMessage ds (case onMessage of None \<Rightarrow> s | Some f \<Rightarrow> f msg s))"

record 'm handler =
  OnConnect :: "(addr \<Rightarrow> ws \<Rightarrow> ws \<times> bool) option"   \<comment> \<open>\<open>True\<close>: it returned an error\<close>
  OnMessage :: "(addr \<Rightarrow> 'm \<Rightarrow> ws \<Rightarrow> ws) option"
  OnDisconnect :: "(addr \<Rightarrow> ws \<Rightarrow> ws) option"

definition hub_accept :: "'m handler \<Rightarrow> addr \<Rightarrow> ws \<Rightarrow> ws \<times> bool" where
  "hub_accept cb c s =
     (let s = upd_conn c (\<lambda>_. new_conn (w_hub s)) s
      in case OnConnect cb of
           None \<Rightarrow> (upd_hub (hub_register c) s, True)
         | Some f \<Rightarrow>
             (case f c s of (s', err) \<Rightarrow> if err then (s', False) else (upd_hub (hub_register c) s', True)))"

definition hub_drop :: "'m handler \<Rightarrow> addr \<Rightarrow> ws \<Rightarrow> ws" where
  "hub_drop cb c s =
     upd_conn c conn_Close (upd_hub (hub_unregister c)
       (case OnDisconnect cb of None \<Rightarrow> s | Some f \<Rightarrow> f c s))"

definition hub_Handle :: "(bytes \<Rightarrow> 'm option) \<Rightarrow> 'm handler \<Rightarrow> bool \<Rightarrow> addr \<Rightarrow> bytes list \<Rightarrow> ws \<Rightarrow> ws \<times> int" where
  "hub_Handle dec cb upgrade c frames s =
     (if \<not> upgrade then (s, 426)
      else case hub_accept cb c s of
             (s', False) \<Rightarrow> (s', 101)
           | (s', True) \<Rightarrow>
               (hub_drop cb c (readPump dec (map_option (\<lambda>f. f c) (OnMessage cb)) frames s'), 101))"

section \<open>Replicas\<close>

text \<open>
  Each replica is a hub. A hub with a backplane publishes an envelope; every replica that is
  subscribed to the channel, the publisher included, hands what it decodes to its own
  connections. \<open>pub_ok\<close> is whether the server accepted the message.
\<close>

definition bp_receive :: "('m \<Rightarrow> string + bytes) \<Rightarrow> ('m \<Rightarrow> 'm option) \<Rightarrow> string \<Rightarrow> string \<Rightarrow> 'm \<Rightarrow> ws \<Rightarrow> ws" where
  "bp_receive mar wire ch room msg s =
     (case h_bp (w_hub s) of
        Some (Subscribed ch') \<Rightarrow>
          if ch' = ch then
            (case wire msg of
               None \<Rightarrow> s
             | Some m \<Rightarrow> if room = [] then hub_localBroadcast mar m s else hub_localToRoom mar room m s)
          else s
      | _ \<Rightarrow> s)"

fun bp_channel :: "bp \<Rightarrow> string" where
  "bp_channel (Subscribed ch) = ch"
| "bp_channel (SubscribeFailed ch e) = ch"
| "bp_channel (Stopped ch) = ch"

text \<open>After \<open>close\<close> the context is cancelled and publishing fails.\<close>

definition bp_publish ::
  "('m \<Rightarrow> string + bytes) \<Rightarrow> ('m \<Rightarrow> 'm option) \<Rightarrow> bool \<Rightarrow> bp \<Rightarrow> string \<Rightarrow> 'm \<Rightarrow> ws list \<Rightarrow> ws list" where
  "bp_publish mar wire pub_ok b room msg cl =
     (case b of
        Stopped _ \<Rightarrow> cl
      | _ \<Rightarrow> if pub_ok then map (bp_receive mar wire (bp_channel b) room msg) cl else cl)"

definition hub_Broadcast ::
  "('m \<Rightarrow> string + bytes) \<Rightarrow> ('m \<Rightarrow> 'm option) \<Rightarrow> bool \<Rightarrow> nat \<Rightarrow> 'm \<Rightarrow> ws list \<Rightarrow> ws list" where
  "hub_Broadcast mar wire pub_ok i msg cl =
     (case h_bp (w_hub (cl ! i)) of
        Some b \<Rightarrow> bp_publish mar wire pub_ok b [] msg cl
      | None \<Rightarrow> cl[i := hub_localBroadcast mar msg (cl ! i)])"

definition hub_ToRoom ::
  "('m \<Rightarrow> string + bytes) \<Rightarrow> ('m \<Rightarrow> 'm option) \<Rightarrow> bool \<Rightarrow> nat \<Rightarrow> string \<Rightarrow> 'm \<Rightarrow> ws list \<Rightarrow> ws list" where
  "hub_ToRoom mar wire pub_ok i room msg cl =
     (case h_bp (w_hub (cl ! i)) of
        Some b \<Rightarrow> bp_publish mar wire pub_ok b room msg cl
      | None \<Rightarrow> cl[i := hub_localToRoom mar room msg (cl ! i)])"


section \<open>Interleaved runs\<close>

text \<open>
  The atomic steps of the goroutines that share a hub, in any order: creating a connection at a
  fresh address, the critical sections of registration and rooms, one attempt to enqueue, the
  closing of a connection and one iteration of its write pump. A step carries the message that
  a connection accepted, if any.
\<close>

definition no_conn :: conn where
  "no_conn = \<lparr>c_send = [], c_cap = 0, c_rooms = [], c_closed = True, c_closing = False, c_written = [], c_done = False\<rparr>"

inductive ws_step :: "ws \<Rightarrow> (addr \<times> bytes) list \<Rightarrow> ws \<Rightarrow> bool" where
  fresh: "w_conn s c = no_conn \<Longrightarrow> ws_step s [] (upd_conn c (\<lambda>_. new_conn (w_hub s)) s)"
| register: "ws_step s [] (upd_hub (hub_register c) s)"
| unregister: "ws_step s [] (upd_hub (hub_unregister c) s)"
| join: "ws_step s [] (conn_Join c room s)"
| leave: "ws_step s [] (conn_Leave c room s)"
| accept: "conn_enqueue b (w_conn s c) = (k, None) \<Longrightarrow> ws_step s [(c, b)] (upd_conn c (\<lambda>_. k) s)"
| refuse: "conn_enqueue b (w_conn s c) = (k, Some e) \<Longrightarrow> ws_step s [] (upd_conn c (\<lambda>_. k) s)"
| close: "ws_step s [] (upd_conn c conn_Close s)"
| pump: "ws_step s [] (upd_conn c (writePump_step ev) s)"

inductive ws_run :: "ws \<Rightarrow> (addr \<times> bytes) list \<Rightarrow> ws \<Rightarrow> bool" where
  stop: "ws_run s [] s"
| more: "ws_run s xs s' \<Longrightarrow> ws_step s' ys s'' \<Longrightarrow> ws_run s (xs @ ys) s''"

definition ws_init :: "hub \<Rightarrow> ws" where
  "ws_init h = \<lparr>w_hub = h, w_conn = (\<lambda>_. no_conn)\<rparr>"

definition accepted :: "addr \<Rightarrow> (addr \<times> bytes) list \<Rightarrow> bytes list" where
  "accepted c xs = map snd (filter (\<lambda>x. fst x = c) xs)"

lemma accepted_simps [simp]:
  "accepted c [] = []" "accepted c (xs @ ys) = accepted c xs @ accepted c ys"
  "accepted c ((c', b) # xs) = (if c' = c then b # accepted c xs else accepted c xs)"
  by (simp_all add: accepted_def)

definition in_room :: "hub \<Rightarrow> string \<Rightarrow> addr \<Rightarrow> bool" where
  "in_room h room c \<longleftrightarrow> (case gm_get (h_rooms h) room of None \<Rightarrow> False | Some xs \<Rightarrow> c \<in> set xs)"

text \<open>The invariant of a connection against the messages it accepted, and that of the hub.\<close>

definition conn_inv :: "bytes list \<Rightarrow> conn \<Rightarrow> bool" where
  "conn_inv acc k \<longleftrightarrow> length (c_send k) \<le> c_cap k \<and>
     (if c_done k then \<exists>rest. acc = c_written k @ rest else acc = c_written k @ c_send k)"

definition hub_inv :: "hub \<Rightarrow> bool" where
  "hub_inv h \<longleftrightarrow> distinct (h_conns h) \<and> gm_ok (h_rooms h) \<and>
     (\<forall>(room, xs)\<in>set (h_rooms h). distinct xs \<and> xs \<noteq> [])"

definition ws_inv :: "(addr \<times> bytes) list \<Rightarrow> ws \<Rightarrow> bool" where
  "ws_inv acc s \<longleftrightarrow> hub_inv (w_hub s) \<and> (\<forall>c. conn_inv (accepted c acc) (w_conn s c)) \<and>
     (\<forall>c room. in_room (w_hub s) room c \<longrightarrow> room \<in> set (c_rooms (w_conn s c)))"

lemma gm_ok_get_iff: "gm_ok m \<Longrightarrow> gm_get m k = Some v \<longleftrightarrow> (k, v) \<in> set m"
  by (simp add: gm_ok_def gm_get_def)

lemma hub_inv_room: "hub_inv h \<Longrightarrow> gm_get (h_rooms h) room = Some xs \<Longrightarrow> distinct xs \<and> xs \<noteq> []"
  by (auto simp: hub_inv_def gm_ok_get_iff)

lemma hub_inv_alt:
  "hub_inv h \<longleftrightarrow> distinct (h_conns h) \<and> gm_ok (h_rooms h) \<and>
     (\<forall>room xs. gm_get (h_rooms h) room = Some xs \<longrightarrow> distinct xs \<and> xs \<noteq> [])"
  by (fastforce simp: hub_inv_def gm_ok_get_iff)

lemma prune_ok: "gm_ok rs \<Longrightarrow> gm_ok (prune c rs)"
proof -
  have "map fst (prune c rs) = map fst (filter (\<lambda>(room, xs). removeAll c xs \<noteq> []) rs)"
    by (induction rs) (auto simp: prune_def)
  then show "gm_ok rs \<Longrightarrow> gm_ok (prune c rs)"
    by (simp add: gm_ok_def distinct_map_filter)
qed

lemma prune_get:
  assumes "gm_ok rs"
  shows "gm_get (prune c rs) room = Some ys \<longleftrightarrow> (\<exists>xs. gm_get rs room = Some xs \<and> ys = removeAll c xs \<and> ys \<noteq> [])"
  unfolding gm_ok_get_iff [OF prune_ok [OF assms]] gm_ok_get_iff [OF assms]
  by (induction rs) (auto simp: prune_def)

lemma hub_inv_ops [inv_intros]:
  assumes "hub_inv h"
  shows "hub_inv (hub_register c h)" "hub_inv (hub_unregister c h)" "hub_inv (hub_addToRoom room c h)"
    "hub_inv (hub_removeFromRoom room c h)"
proof -
  note i = assms [unfolded hub_inv_alt]
  show "hub_inv (hub_register c h)" using i by (auto simp: hub_inv_alt hub_register_def)
  show "hub_inv (hub_unregister c h)"
    using i by (auto simp: hub_inv_alt hub_unregister_def prune_ok prune_get distinct_removeAll)
  show "hub_inv (hub_addToRoom room c h)"
    using i by (auto simp: hub_inv_alt hub_addToRoom_def set_add_def split: option.splits if_splits)
  show "hub_inv (hub_removeFromRoom room c h)"
    using i by (auto simp: hub_inv_alt hub_removeFromRoom_def distinct_removeAll split: option.splits if_splits)
qed

lemma in_room_ops [simp]:
  "in_room (hub_register d h) room c = in_room h room c"
  "in_room (hub_addToRoom r d h) room c \<longleftrightarrow> in_room h room c \<or> room = r \<and> c = d"
  "hub_inv h \<Longrightarrow> in_room (hub_removeFromRoom r d h) room c \<longleftrightarrow> in_room h room c \<and> \<not> (room = r \<and> c = d)"
  by (auto simp: in_room_def hub_register_def hub_addToRoom_def hub_removeFromRoom_def removeAll_filter_not_eq
      filter_empty_conv split: option.splits)

lemma in_room_unregister:
  assumes "hub_inv h"
  shows "in_room (hub_unregister d h) room c \<longleftrightarrow> in_room h room c \<and> c \<noteq> d"
proof -
  have g: "gm_ok (h_rooms h)" using assms by (simp add: hub_inv_def)
  have "in_room (hub_unregister d h) room c \<longleftrightarrow>
      (\<exists>xs. gm_get (h_rooms h) room = Some xs \<and> removeAll d xs \<noteq> [] \<and> c \<in> set (removeAll d xs))"
    by (auto simp: in_room_def hub_unregister_def prune_get [OF g] split: option.splits)
       (metis prune_get [OF g] option.distinct(1) option.inject)+
  then show ?thesis by (auto simp: in_room_def removeAll_filter_not_eq filter_empty_conv split: option.splits)
qed


lemma conn_inv_steps:
  "conn_enqueue b k = (k', None) \<Longrightarrow> conn_inv acc k \<Longrightarrow> conn_inv (acc @ [b]) k'"
  "conn_enqueue b k = (k', Some e) \<Longrightarrow> conn_inv acc k \<Longrightarrow> conn_inv acc k'"
  "conn_inv acc k \<Longrightarrow> conn_inv acc (conn_Close k)"
  "conn_inv acc k \<Longrightarrow> conn_inv acc (k\<lparr>c_rooms := rs\<rparr>)"
  by (auto simp: conn_inv_def conn_enqueue_def conn_Close_def split: if_splits)

lemma conn_inv_pump: "conn_inv acc k \<Longrightarrow> conn_inv acc (writePump_step ev k)"
  by (auto simp: conn_inv_def writePump_step_def split: pump_event.splits list.splits if_splits)

lemma c_rooms_steps [simp]:
  "c_rooms (fst (conn_enqueue b k)) = c_rooms k" "c_rooms (conn_Close k) = c_rooms k"
  "c_rooms (writePump_step ev k) = c_rooms k"
  by (auto simp: conn_enqueue_def conn_Close_def writePump_step_def split: pump_event.splits list.splits)

lemma ws_step_inv:
  assumes "ws_step s ys s'" "ws_inv xs s"
  shows "ws_inv (xs @ ys) s'"
  using assms
proof (cases rule: ws_step.cases)
  case (fresh c)
  have no: "\<not> in_room (w_hub s) room c" for room using assms(2) fresh by (fastforce simp: ws_inv_def no_conn_def)
  have "accepted c xs = []" using assms(2) fresh by (fastforce simp: ws_inv_def conn_inv_def no_conn_def)
  then show ?thesis using assms(2) fresh no by (auto simp: ws_inv_def conn_inv_def new_conn_def)
next
  case (register c)
  then show ?thesis using assms(2) by (auto simp: ws_inv_def intro: inv_intros)
next
  case (unregister c)
  then show ?thesis using assms(2) by (auto simp: ws_inv_def in_room_unregister intro: inv_intros)
next
  case (join c room)
  then show ?thesis using assms(2) by (auto simp: ws_inv_def conn_Join_def conn_inv_steps intro: inv_intros)
next
  case (leave c room)
  then show ?thesis using assms(2) by (auto simp: ws_inv_def conn_Leave_def conn_inv_steps intro: inv_intros)
next
  case (accept b c k)
  then have "c_rooms k = c_rooms (w_conn s c)" using c_rooms_steps(1) [of b "w_conn s c"] by simp
  then show ?thesis using assms(2) accept conn_inv_steps(1) [OF accept(3)] by (auto simp: ws_inv_def)
next
  case (refuse b c k e)
  then have "c_rooms k = c_rooms (w_conn s c)" using c_rooms_steps(1) [of b "w_conn s c"] by simp
  then show ?thesis using assms(2) refuse conn_inv_steps(2) [OF refuse(3)] by (auto simp: ws_inv_def)
next
  case (close c)
  then show ?thesis using assms(2) by (auto simp: ws_inv_def conn_inv_steps)
next
  case (pump c ev)
  then show ?thesis using assms(2) by (auto simp: ws_inv_def conn_inv_pump)
qed

lemma ws_run_inv: "ws_run s xs s' \<Longrightarrow> ws_inv [] s \<Longrightarrow> ws_inv xs s'"
  by (induction rule: ws_run.induct) (auto intro: ws_step_inv)

lemma ws_inv_init: "ws_inv [] (ws_init (NewHub e opts))"
  by (simp add: ws_inv_def ws_init_def NewHub_def hub_inv_def conn_inv_def no_conn_def in_room_def Let_def)

text \<open>A closed connection stays closed and accepts nothing.\<close>

lemma closed_stays:
  assumes "ws_step s ys s'" "c_closed (w_conn s c)" "c_cap (w_conn s c) > 0"
  shows "c_closed (w_conn s' c) \<and> c_cap (w_conn s' c) > 0 \<and> accepted c ys = []"
  using assms
  by (cases rule: ws_step.cases)
     (auto simp: conn_Join_def conn_Leave_def conn_enqueue_def conn_Close_def writePump_step_def no_conn_def
       split: if_splits pump_event.splits list.splits)

lemma closed_run:
  "ws_run s xs s' \<Longrightarrow> c_closed (w_conn s c) \<Longrightarrow> c_cap (w_conn s c) > 0 \<Longrightarrow>
     c_closed (w_conn s' c) \<and> c_cap (w_conn s' c) > 0 \<and> accepted c xs = []"
  by (induction rule: ws_run.induct) (auto dest: closed_stays)


section \<open>Delivery\<close>

lemma enqueue_all_hub [simp]: "w_hub (enqueue_all cs b s) = w_hub s"
  unfolding enqueue_all_def by (induction cs arbitrary: s) auto

lemma enqueue_all_conn:
  "distinct cs \<Longrightarrow> w_conn (enqueue_all cs b s) c = (if c \<in> set cs then fst (conn_enqueue b (w_conn s c)) else w_conn s c)"
proof (induction cs arbitrary: s)
  case (Cons d cs)
  have "enqueue_all (d # cs) b s = enqueue_all cs b (upd_conn d (\<lambda>k. fst (conn_enqueue b k)) s)"
    by (simp add: enqueue_all_def)
  with Cons show ?case by auto
qed (simp add: enqueue_all_def)

lemma localToRoom_conn:
  assumes "hub_inv (w_hub s)" "mar msg = Inr b"
  shows "w_conn (hub_localToRoom mar room msg s) c =
    (if in_room (w_hub s) room c then fst (conn_enqueue b (w_conn s c)) else w_conn s c)"
  using assms(2) hub_inv_room [OF assms(1), of room]
  by (auto simp: hub_localToRoom_def in_room_def enqueue_all_conn split: option.splits)

lemma localBroadcast_conn:
  assumes "hub_inv (w_hub s)" "mar msg = Inr b"
  shows "w_conn (hub_localBroadcast mar msg s) c =
    (if c \<in> set (h_conns (w_hub s)) then fst (conn_enqueue b (w_conn s c)) else w_conn s c)"
  using assms by (simp add: hub_localBroadcast_def enqueue_all_conn hub_inv_def)

section \<open>Properties\<close>


lemma sample_run:
  "\<exists>s. ws_run (ws_init (NewHub None [])) [(7, ''hi'')] s"
proof -
  let ?s0 = "ws_init (NewHub None [])"
  let ?s1 = "upd_conn 7 (\<lambda>_. new_conn (w_hub ?s0)) ?s0"
  have 1: "ws_step ?s0 [] ?s1" by (rule ws_step.fresh) (simp add: ws_init_def)
  have "\<exists>k. conn_enqueue ''hi'' (w_conn ?s1 7) = (k, None)"
    by (simp add: conn_enqueue_def new_conn_def ws_init_def NewHub_def Let_def)
  then obtain s2 where 2: "ws_step ?s1 [(7, ''hi'')] s2" using ws_step.accept by blast
  show ?thesis using ws_run.more [OF ws_run.more [OF ws_run.stop 1] 2] by auto
qed


text \<open>
  C23. A message to a room is offered exactly once to each member on every replica that is
  subscribed to the channel and to no other connection; a broadcast likewise to every
  registered connection. An open connection with space in its buffer accepts the message at
  the end of its queue, a full one is marked for closing.
\<close>

theorem ws_delivery:
  assumes "i < length cl" "j < length cl" "\<forall>s\<in>set cl. hub_inv (w_hub s) \<and> h_bp (w_hub s) = Some (Subscribed ch)"
    and "wire msg = Some m" "mar m = Inr b" "room \<noteq> []"
  shows "w_conn (hub_ToRoom mar wire True i room msg cl ! j) c =
      (if in_room (w_hub (cl ! j)) room c then fst (conn_enqueue b (w_conn (cl ! j) c)) else w_conn (cl ! j) c) \<and>
    w_conn (hub_Broadcast mar wire True i msg cl ! j) c =
      (if c \<in> set (h_conns (w_hub (cl ! j))) then fst (conn_enqueue b (w_conn (cl ! j) c)) else w_conn (cl ! j) c)"
proof -
  have bp: "h_bp (w_hub (cl ! i)) = Some (Subscribed ch)" "h_bp (w_hub (cl ! j)) = Some (Subscribed ch)"
    and inv: "hub_inv (w_hub (cl ! j))"
    using assms(1-3) by auto
  have "hub_ToRoom mar wire True i room msg cl ! j = hub_localToRoom mar room m (cl ! j)"
    "hub_Broadcast mar wire True i msg cl ! j = hub_localBroadcast mar m (cl ! j)"
    using assms(2,4,6) bp
    by (simp_all add: hub_ToRoom_def hub_Broadcast_def bp_publish_def bp_receive_def)
  then show ?thesis using localToRoom_conn [of "cl ! j" mar m b, OF inv assms(5)]
      localBroadcast_conn [of "cl ! j" mar m b, OF inv assms(5)] by simp
qed

definition demo_replica :: ws where
  "demo_replica = conn_Join 1 ''lobby'' (upd_conn 1 (\<lambda>_. new_conn (NewHub None [WithRedis ''ch'']))
     (ws_init (NewHub None [WithRedis ''ch''])))"

theorem ws_delivery_witness:
  "c_send (w_conn (hub_ToRoom (\<lambda>m. Inr m) Some True 0 ''lobby'' ''hey'' [demo_replica, demo_replica] ! 1) 1) = [''hey'']"
proof -
  note defs = demo_replica_def conn_Join_def hub_addToRoom_def ws_init_def NewHub_def newBackplane_def set_add_def Let_def
    new_conn_def
  have "hub_inv (w_hub demo_replica)" "h_bp (w_hub demo_replica) = Some (Subscribed ''ch'')"
    "in_room (w_hub demo_replica) ''lobby'' 1"
    "c_send (w_conn demo_replica 1) = []" "c_cap (w_conn demo_replica 1) = 16" "\<not> c_closed (w_conn demo_replica 1)"
    by (simp_all add: defs hub_inv_alt in_room_def)
  then show ?thesis
    using ws_delivery [of 0 "[demo_replica, demo_replica]" 1 "''ch''" Some "''hey''" "''hey''" "\<lambda>m. Inr m" "''hey''" "''lobby''" 1]
    by (simp add: conn_enqueue_def)
qed

text \<open>
  When the lifecycle of a connection ends it is in no room and not registered, and from
  then on it accepts no message, whatever the other goroutines do.
\<close>

theorem ws_disconnected_gets_nothing:
  assumes "hub_inv (w_hub s)" "OnDisconnect cb = None" "c_cap (w_conn s c) > 0" "ws_run (hub_drop cb c s) acc s'"
  shows "accepted c acc = [] \<and> \<not> in_room (w_hub (hub_drop cb c s)) room c \<and> c \<notin> set (h_conns (w_hub (hub_drop cb c s)))"
proof -
  let ?d = "hub_drop cb c s"
  have "c_closed (w_conn ?d c)" "c_cap (w_conn ?d c) > 0"
    using assms(2,3) by (simp_all add: hub_drop_def conn_Close_def)
  from closed_run [OF assms(4) this] have "accepted c acc = []" by simp
  then show ?thesis using assms(1,2) by (simp add: hub_drop_def in_room_unregister) (simp add: hub_unregister_def)
qed

theorem ws_disconnected_gets_nothing_witness:
  "\<not> in_room (w_hub (hub_drop (\<lparr>OnConnect = None, OnMessage = None, OnDisconnect = None\<rparr> :: string handler) 1 demo_replica)) ''lobby'' 1"
proof -
  have "hub_inv (w_hub demo_replica)" "c_cap (w_conn demo_replica 1) > 0"
    by (simp_all add: demo_replica_def conn_Join_def hub_addToRoom_def ws_init_def NewHub_def set_add_def Let_def
        new_conn_def hub_inv_alt)
  from ws_disconnected_gets_nothing [OF this(1) _ this(2) ws_run.stop,
      of "\<lparr>OnConnect = None, OnMessage = None, OnDisconnect = None\<rparr> :: string handler" "''lobby''"]
  show ?thesis by simp
qed

section \<open>Deviations from the documentation\<close>

text \<open>
  The documentation of \<open>BackplaneErr\<close> says that a hub with a failed backplane still delivers
  to its local connections. It delivers to none of them: the message is only published.
\<close>

lemma ws_failed_backplane_delivers_nowhere:
  assumes "h_bp (w_hub s) = Some (SubscribeFailed ch e)"
  shows "hub_BackplaneErr s = Some e \<and> hub_Broadcast mar wire ok 0 msg [s] = [s] \<and> hub_ToRoom mar wire ok 0 room msg [s] = [s]"
  using assms
  by (simp add: hub_BackplaneErr_def hub_Broadcast_def hub_ToRoom_def bp_publish_def bp_receive_def)

text \<open>
  With a backplane a message to the room named by the empty string goes to every connection;
  without one it goes to the members of that room.
\<close>

lemma ws_empty_room_is_broadcast:
  assumes "h_bp (w_hub s) = Some (Subscribed ch)" "h_bp (w_hub s') = None"
  shows "hub_ToRoom mar wire ok 0 [] msg [s] = hub_Broadcast mar wire ok 0 msg [s] \<and>
    hub_ToRoom mar wire ok 0 [] msg [s'] = [hub_localToRoom mar [] msg s']"
  using assms by (simp add: hub_ToRoom_def hub_Broadcast_def)

text \<open>
  A connection that \<open>OnConnect\<close> puts in a room before rejecting it stays in that room for
  good: nothing unregisters it.
\<close>

lemma ws_rejected_connection_stays_in_room:
  assumes "OnConnect cb = Some (\<lambda>c s. (conn_Join c room s, True))"
  shows "in_room (w_hub (fst (hub_Handle dec cb True c frames s))) room c \<and>
    \<not> c_closed (w_conn (fst (hub_Handle dec cb True c frames s)) c)"
  using assms by (simp add: hub_Handle_def hub_accept_def conn_Join_def new_conn_def Let_def)

end
