(* ===== verification/Outbox.thy ===== *)
theory Outbox
  imports Lock Go_Strings
begin

text \<open>
  The transactional outbox and its relay (\<open>src/outbox/outbox.go\<close>, \<open>src/outbox/relay.go\<close>,
  \<open>src/outbox/redis.go\<close>) and the idempotent consumer (\<open>src/inbox/inbox.go\<close>). The database
  (through \<open>bun\<close>) and the message broker are outside the repository: the statements the code
  runs are functions over an abstract state, their documented behaviour is stated by the
  locales \<open>outbox_table\<close>, \<open>broker\<close> and \<open>inbox_table\<close>. The relay with a lock composes with the
  model of \<open>lock.Do\<close>.
\<close>

section \<open>Outbox\<close>

record event =
  ev_ID :: int
  ev_Topic :: string
  ev_Payload :: string
  ev_CreatedAt :: time
  ev_PublishedAt :: "time option"

record 'd outbox_db =
  db_insert :: "event \<Rightarrow> 'd \<Rightarrow> 'd \<times> (string + unit)"
  db_pending :: "int \<Rightarrow> 'd \<Rightarrow> 'd \<times> (string + event list)"
  db_mark :: "int \<Rightarrow> time \<Rightarrow> 'd \<Rightarrow> 'd \<times> (string + unit)"

type_synonym 'p publisher = "string \<Rightarrow> string \<Rightarrow> 'p \<Rightarrow> 'p \<times> string option"

definition outbox_Enqueue ::
  "'d outbox_db \<Rightarrow> ('a \<Rightarrow> string + string) \<Rightarrow> time \<Rightarrow> string \<Rightarrow> 'a \<Rightarrow> 'd \<Rightarrow> 'd \<times> string option" where
  "outbox_Enqueue D mar now topic payload d =
     (case mar payload of
        Inl e \<Rightarrow> (d, Some (''outbox: encode payload: '' @ e))
      | Inr b \<Rightarrow>
          (case db_insert D \<lparr>ev_ID = 0, ev_Topic = topic, ev_Payload = b, ev_CreatedAt = now, ev_PublishedAt = None\<rparr> d of
             (d', Inl e) \<Rightarrow> (d', Some (''outbox: insert event: '' @ e))
           | (d', Inr _) \<Rightarrow> (d', None)))"

record relay =
  batchSize :: int
  interval :: duration
  rl_lock :: "(string \<times> duration) option"   \<comment> \<open>key and time to live when a locker is set\<close>

datatype relay_option = WithBatchSize int | WithInterval duration | WithLock string duration

fun relay_opt :: "relay_option \<Rightarrow> relay \<Rightarrow> relay" where
  "relay_opt (WithBatchSize n) r = (if n > 0 then r\<lparr>batchSize := n\<rparr> else r)"
| "relay_opt (WithInterval d) r = (if d > 0 then r\<lparr>interval := d\<rparr> else r)"
| "relay_opt (WithLock key ttl) r = r\<lparr>rl_lock := Some (key, ttl)\<rparr>"

definition NewRelay :: "relay_option list \<Rightarrow> relay" where
  "NewRelay opts = apply_opts relay_opt opts \<lparr>batchSize = 100, interval = second, rl_lock = None\<rparr>"

text \<open>The loop over the loaded events; \<open>clk\<close> gives the clock reading after each publication.\<close>

fun relay_loop ::
  "'d outbox_db \<Rightarrow> 'p publisher \<Rightarrow> (int \<Rightarrow> time) \<Rightarrow> event list \<Rightarrow> int \<Rightarrow> 'd \<Rightarrow> 'p \<Rightarrow> 'd \<times> 'p \<times> int \<times> string option" where
  "relay_loop D pub clk [] n d p = (d, p, n, None)"
| "relay_loop D pub clk (e # es) n d p =
     (case pub (ev_Topic e) (ev_Payload e) p of
        (p', Some err) \<Rightarrow> (d, p', n, Some (''outbox: publish event '' @ itoa (ev_ID e) @ '': '' @ err))
      | (p', None) \<Rightarrow>
          (case db_mark D (ev_ID e) (clk n) d of
             (d', Inl err) \<Rightarrow> (d', p', n, Some (''outbox: mark event '' @ itoa (ev_ID e) @ '' published: '' @ err))
           | (d', Inr _) \<Rightarrow> relay_loop D pub clk es (n + 1) d' p'))"

definition relay_process ::
  "'d outbox_db \<Rightarrow> 'p publisher \<Rightarrow> relay \<Rightarrow> (int \<Rightarrow> time) \<Rightarrow> 'd \<Rightarrow> 'p \<Rightarrow> 'd \<times> 'p \<times> int \<times> string option" where
  "relay_process D pub r clk d p =
     (case db_pending D (batchSize r) d of
        (d', Inl e) \<Rightarrow> (d', p, 0, Some (''outbox: load pending: '' @ e))
      | (d', Inr es) \<Rightarrow> relay_loop D pub clk es 0 d' p)"

text \<open>
  The Redis commands of the lock act on the server inside a larger state; \<open>n\<close> of \<open>Process\<close> is
  the variable that the closure assigns. \<open>wraps\<close> says of an error of the closure whether it
  wraps \<open>lock.ErrNotAcquired\<close>, which \<open>errors.Is\<close> would also find.
\<close>

definition lift_op :: "('s \<Rightarrow> 's \<times> 'v) \<Rightarrow> 's \<times> 'x \<Rightarrow> ('s \<times> 'x) \<times> 'v" where
  "lift_op f sx = (case f (fst sx) of (s', v) \<Rightarrow> ((s', snd sx), v))"

definition lift_redis :: "'s redis \<Rightarrow> ('s \<times> 'x) redis" where
  "lift_redis r =
     \<lparr>rd_get = (\<lambda>now k. lift_op (rd_get r now k)), rd_set = (\<lambda>now k v ttl. lift_op (rd_set r now k v ttl)),
      rd_setnx = (\<lambda>now k v ttl. lift_op (rd_setnx r now k v ttl)), rd_del = (\<lambda>now k. lift_op (rd_del r now k)),
      rd_exists = (\<lambda>now k. lift_op (rd_exists r now k)), rd_pexpire = (\<lambda>now k ms. lift_op (rd_pexpire r now k ms))\<rparr>"

definition relay_Process ::
  "'s redis \<Rightarrow> 'd outbox_db \<Rightarrow> 'p publisher \<Rightarrow> (string \<Rightarrow> bool) \<Rightarrow> relay \<Rightarrow> time \<Rightarrow> time \<Rightarrow> string + string \<Rightarrow> (int \<Rightarrow> time)
   \<Rightarrow> 's \<Rightarrow> 'd \<Rightarrow> 'p \<Rightarrow> 's \<times> 'd \<times> 'p \<times> int \<times> lock_err option" where
  "relay_Process rc D pub wraps r t1 t2 token clk s d p =
     (case rl_lock r of
        None \<Rightarrow> (case relay_process D pub r clk d p of (d', p', n, err) \<Rightarrow> (s, d', p', n, map_option FnErr err))
      | Some (key, ttl) \<Rightarrow>
          (case lock_Do (lift_redis rc) t1 t2 token key ttl
                  (\<lambda>(s, d, p, n). case relay_process D pub r clk d p of (d', p', n', err) \<Rightarrow> ((s, d', p', n'), err))
                  (s, d, p, 0) of
             ((s', d', p', n), err) \<Rightarrow>
               (case err of
                  Some (ErrNotAcquired _) \<Rightarrow> (s', d', p', 0, None)
                | Some (FnErr e) \<Rightarrow> if wraps e then (s', d', p', 0, None) else (s', d', p', n, err)
                | _ \<Rightarrow> (s', d', p', n, err))))"

text \<open>
  \<open>Run\<close>: each tick calls \<open>Process\<close> and ignores its error; the loop ends when the context does.
  A tick is the step it performs on the state.
\<close>

fun relay_Run :: "('x \<Rightarrow> 'x \<times> 'e option) list \<Rightarrow> string \<Rightarrow> 'x \<Rightarrow> 'x \<times> string" where
  "relay_Run [] ctxErr x = (x, ctxErr)"
| "relay_Run (tick # ticks) ctxErr x = relay_Run ticks ctxErr (fst (tick x))"

section \<open>The database table and the broker\<close>

definition pending :: "event list \<Rightarrow> event list" where
  "pending es = filter (\<lambda>e. ev_PublishedAt e = None) es"

definition mark :: "int \<Rightarrow> time \<Rightarrow> event list \<Rightarrow> event list" where
  "mark i t es = map (\<lambda>e. if ev_ID e = i then e\<lparr>ev_PublishedAt := Some t\<rparr> else e) es"

locale outbox_table =
  fixes D :: "'d outbox_db" and rows :: "'d \<Rightarrow> event list"
  assumes ids: "sorted (map ev_ID (rows d))" "distinct (map ev_ID (rows d))"
    and insert_ok: "db_insert D e d = (d', Inr u) \<Longrightarrow>
       \<exists>i. i \<notin> ev_ID ` set (rows d) \<and> rows d' = insort_key ev_ID (e\<lparr>ev_ID := i\<rparr>) (rows d)"
    and insert_err: "db_insert D e d = (d', Inl err) \<Longrightarrow> rows d' = rows d"
    and pending_ok: "db_pending D n d = (d', Inr es) \<Longrightarrow> 0 < n \<Longrightarrow>
       es = take (nat n) (pending (rows d)) \<and> rows d' = rows d"
    and pending_err: "db_pending D n d = (d', Inl err) \<Longrightarrow> rows d' = rows d"
    and mark_ok: "db_mark D i t d = (d', Inr u) \<Longrightarrow> rows d' = mark i t (rows d)"
    and mark_err: "db_mark D i t d = (d', Inl err) \<Longrightarrow> rows d' = rows d \<or> rows d' = mark i t (rows d)"

text \<open>The broker keeps what was published; a publication that reports an error may have arrived.\<close>

locale broker =
  fixes pub :: "'p publisher" and mlog :: "'p \<Rightarrow> (string \<times> string) list"
  assumes publish_ok: "pub t b p = (p', None) \<Longrightarrow> mlog p' = mlog p @ [(t, b)]"
    and publish_err: "pub t b p = (p', Some e) \<Longrightarrow> mlog p' = mlog p \<or> mlog p' = mlog p @ [(t, b)]"

locale relay_env = outbox_table D rows + broker pub mlog
  for D :: "'d outbox_db" and rows and pub :: "'p publisher" and mlog
begin

abbreviation msg :: "event \<Rightarrow> string \<times> string" where
  "msg e \<equiv> (ev_Topic e, ev_Payload e)"

text \<open>Nothing is marked as published that the broker has not received.\<close>

definition sound :: "'d \<Rightarrow> 'p \<Rightarrow> bool" where
  "sound d p \<longleftrightarrow> (\<forall>e\<in>set (rows d). ev_PublishedAt e \<noteq> None \<longrightarrow> msg e \<in> set (mlog p))"

lemma rows_unique: "e \<in> set (rows d) \<Longrightarrow> e' \<in> set (rows d) \<Longrightarrow> ev_ID e = ev_ID e' \<Longrightarrow> e = e'"
  using ids(2) [of d] by (meson distinct_map inj_onD)

lemma mark_sound:
  assumes "sound d p" "rows d' = mark (ev_ID e) t (rows d)" "e \<in> set (rows d)" "msg e \<in> set (mlog p)"
  shows "sound d' p"
  using assms rows_unique [OF _ assms(3)] by (fastforce simp: sound_def mark_def)

lemma sound_log: "sound d p \<Longrightarrow> set (mlog p) \<subseteq> set (mlog p') \<Longrightarrow> sound d p'"
  by (auto simp: sound_def)

lemma pending_mark: "pending (mark i t es) = filter (\<lambda>e. ev_ID e \<noteq> i) (pending es)"
  by (induction es) (auto simp: pending_def mark_def)

text \<open>
  The loop on events that head the pending ones: it publishes a prefix in order and marks what
  it has published; at most the event it stops at has reached the broker unmarked.
\<close>

lemma loop_spec:
  assumes "pending (rows d) = es @ rest" "sound d p" "relay_loop D pub clk es n d p = (d', p', n', err)"
  shows "\<exists>done extra. es = done @ extra \<and> n' = n + int (length done) \<and> (err = None \<longleftrightarrow> extra = []) \<and>
    (\<exists>dup. mlog p' = mlog p @ map msg (done @ dup) \<and> (dup = [] \<or> dup = [hd extra] \<and> extra \<noteq> []) \<and>
       (pending (rows d') = extra @ rest \<or> dup \<noteq> [] \<and> pending (rows d') = tl extra @ rest)) \<and>
    sound d' p' \<and> map msg (rows d') = map msg (rows d) \<and> map ev_ID (rows d') = map ev_ID (rows d)"
  using assms
proof (induction es arbitrary: n d p)
  case Nil
  then show ?case by simp
next
  case (Cons e es)
  have "e \<in> set (pending (rows d))" using Cons.prems(1) by simp
  then have e: "e \<in> set (rows d)" by (simp add: pending_def)
  obtain p1 r where pb: "pub (ev_Topic e) (ev_Payload e) p = (p1, r)" by fastforce
  have key: "map msg (mark i t xs) = map msg xs" "map ev_ID (mark i t xs) = map ev_ID xs" for i t xs
    by (induction xs) (auto simp: mark_def)
  have nxt: "pending (mark (ev_ID e) t (rows d)) = es @ rest" for t
  proof -
    have "distinct (map ev_ID (pending (rows d)))" unfolding pending_def using ids(2) [of d] by (rule distinct_map_filter)
    then have "\<forall>x\<in>set (es @ rest). ev_ID x \<noteq> ev_ID e" unfolding Cons.prems(1) by (auto simp: image_iff)
    then have "filter (\<lambda>x. ev_ID x \<noteq> ev_ID e) (es @ rest) = es @ rest" by (simp only: filter_id_conv)
    then show ?thesis unfolding pending_mark Cons.prems(1) by simp
  qed
  show ?case
  proof (cases r)
    case (Some x)
    then have "d' = d" "p' = p1" "n' = n" "err \<noteq> None" using Cons.prems(3) pb by auto
    moreover obtain dup where "mlog p1 = mlog p @ map msg dup" "dup = [] \<or> dup = [e]"
      using publish_err [OF pb [unfolded Some]] that [of "[]"] that [of "[e]"] by auto
    moreover have "sound d p1" using calculation(5) sound_log [OF Cons.prems(2), of p1] by simp
    ultimately show ?thesis using Cons.prems(1)
      by (intro exI [of _ "[]"] exI [of _ "e # es"] conjI exI [of _ dup]) auto
  next
    case None
    note l1 = publish_ok [OF pb [unfolded None]]
    have s1: "sound d p1" "msg e \<in> set (mlog p1)" using sound_log [OF Cons.prems(2), of p1] l1 by auto
    obtain d1 m where mk: "db_mark D (ev_ID e) (clk n) d = (d1, m)" by fastforce
    show ?thesis
    proof (cases m)
      case (Inl x)
      then have "d' = d1" "p' = p1" "n' = n" "err \<noteq> None" using Cons.prems(3) pb None mk by auto
      moreover from mark_err [OF mk [unfolded Inl]]
      have "rows d1 = rows d \<or> rows d1 = mark (ev_ID e) (clk n) (rows d)" .
      moreover have "sound d1 p1" using calculation(5) mark_sound [OF s1(1) _ e s1(2)] s1(1) by (auto simp: sound_def)
      ultimately show ?thesis using Cons.prems(1) l1 nxt key
        by (intro exI [of _ "[]"] exI [of _ "e # es"] conjI exI [of _ "[e]"]) auto
    next
      case (Inr u)
      then have rows: "rows d1 = mark (ev_ID e) (clk n) (rows d)" using mark_ok [OF mk [unfolded Inr]] by simp
      have "relay_loop D pub clk es (n + 1) d1 p1 = (d', p', n', err)" using Cons.prems(3) pb None mk Inr by simp
      from Cons.IH [OF _ mark_sound [OF s1(1) rows e s1(2)] this] nxt rows
      obtain dn ex where "es = dn @ ex" "n' = n + 1 + int (length dn)" "(err = None) = (ex = [])"
        "\<exists>dup. mlog p' = mlog p1 @ map msg (dn @ dup) \<and> (dup = [] \<or> dup = [hd ex] \<and> ex \<noteq> []) \<and>
           (pending (rows d') = ex @ rest \<or> dup \<noteq> [] \<and> pending (rows d') = tl ex @ rest)"
        "sound d' p'" "map msg (rows d') = map msg (rows d1)" "map ev_ID (rows d') = map ev_ID (rows d1)"
        by auto
      then show ?thesis using l1 rows key by (intro exI [of _ "e # dn"] exI [of _ ex]) auto
    qed
  qed
qed

lemma process_spec:
  assumes "relay_process D pub r clk d p = (d', p', n, err)" "0 < batchSize r" "sound d p"
  shows "0 \<le> n \<and> (\<exists>dup. mlog p' = mlog p @ map msg (take (nat n) (pending (rows d)) @ dup) \<and>
      (dup = [] \<or> err \<noteq> None \<and> dup = [pending (rows d) ! nat n]) \<and>
      (err = None \<longrightarrow> dup = [] \<and> n = min (batchSize r) (int (length (pending (rows d)))) \<and>
         pending (rows d') = drop (nat n) (pending (rows d)))) \<and>
    sound d' p' \<and> map msg (rows d') = map msg (rows d) \<and> map ev_ID (rows d') = map ev_ID (rows d)"
proof -
  obtain d1 res where pd: "db_pending D (batchSize r) d = (d1, res)" by fastforce
  show ?thesis
  proof (cases res)
    case (Inl e)
    then show ?thesis using assms(1,3) pd pending_err [OF pd [unfolded Inl]]
      by (auto simp: relay_process_def sound_def)
  next
    case (Inr es)
    let ?P = "pending (rows d)" and ?b = "nat (batchSize r)"
    have es: "es = take ?b ?P" and r1: "rows d1 = rows d"
      using pending_ok [OF pd [unfolded Inr] assms(2)] by auto
    have split: "pending (rows d1) = es @ drop ?b ?P" by (simp add: es r1)
    have "sound d1 p" using assms(3) r1 by (simp add: sound_def)
    moreover have "relay_loop D pub clk es 0 d1 p = (d', p', n, err)" using assms(1) pd Inr by (simp add: relay_process_def)
    ultimately obtain dn ex dup where dn: "es = dn @ ex" "n = int (length dn)" "(err = None) = (ex = [])"
        and dup: "mlog p' = mlog p @ map msg (dn @ dup)" "dup = [] \<or> dup = [hd ex] \<and> ex \<noteq> []"
        and pend: "pending (rows d') = ex @ drop ?b ?P \<or> dup \<noteq> [] \<and> pending (rows d') = tl ex @ drop ?b ?P"
        and rest: "sound d' p'" "map msg (rows d') = map msg (rows d1)" "map ev_ID (rows d') = map ev_ID (rows d1)"
      using loop_spec [OF split, of p clk 0 d' p' n err] by auto
    have P: "?P = dn @ ex @ drop ?b ?P" using dn(1) es by (metis append.assoc append_take_drop_id)
    then have tk: "take (nat n) ?P = dn" and nth: "ex \<noteq> [] \<Longrightarrow> ?P ! nat n = hd ex"
      by (metis dn(2) nat_int append_eq_conv_conj)
         (metis P dn(2) nat_int hd_append2 hd_conv_nth hd_drop_conv_nth nth_append_length_plus add_0_right Nil_is_append_conv)
    have full: "n = min (batchSize r) (int (length ?P)) \<and> pending (rows d') = drop (nat n) ?P" if "err = None"
    proof -
      have "ex = []" "dup = []" using that dn(3) dup(2) by auto
      then have "dn = take ?b ?P" "pending (rows d') = drop ?b ?P" using dn(1) es pend by auto
      then show ?thesis using dn(2) assms(2) by (auto simp: min_def)
    qed
    have "dup = [] \<or> err \<noteq> None \<and> dup = [?P ! nat n]" using dup(2) dn(3) nth by auto
    moreover have "err = None \<longrightarrow> dup = []" using dup(2) dn(3) by auto
    moreover have "0 \<le> n" using dn(2) by simp
    ultimately show ?thesis unfolding tk using dup(1) rest full unfolding r1 by blast
  qed
qed

end

section \<open>A table and a broker\<close>

text \<open>The locales on a list of rows with an identifier counter, and on a list of messages.\<close>

typedef table = "{es :: event list. sorted (map ev_ID es) \<and> distinct (map ev_ID es)}"
  by (intro exI [of _ "[]"]) simp

setup_lifting type_definition_table

lift_definition table_rows :: "table \<Rightarrow> event list" is "\<lambda>es. es" .

lift_definition table_empty :: table is "[]" by simp

lemma table_id_bound:
  assumes "sorted (map ev_ID es)" "x \<in> set es"
  shows "ev_ID x < ev_ID (last es) + 1"
proof -
  have e: "es = butlast es @ [last es]" using assms(2) by (cases es rule: rev_cases) auto
  then have "x \<in> set (butlast es) \<or> x = last es" using assms(2) by (metis Un_iff empty_iff set_ConsD set_append set_empty2)
  moreover have "sorted (map ev_ID (butlast es @ [last es]))" using assms(1) e by simp
  ultimately show ?thesis by (auto simp: sorted_append)
qed

lift_definition table_insert :: "event \<Rightarrow> table \<Rightarrow> table" is
  "\<lambda>e es. es @ [e\<lparr>ev_ID := (if es = [] then 1 else ev_ID (last es) + 1)\<rparr>]"
proof -
  fix e and es :: "event list"
  assume a: "sorted (map ev_ID es) \<and> distinct (map ev_ID es)"
  have "ev_ID x < ev_ID (last es) + 1" if "x \<in> set es" for x using table_id_bound a that by blast
  then show "sorted (map ev_ID (es @ [e\<lparr>ev_ID := (if es = [] then 1 else ev_ID (last es) + 1)\<rparr>])) \<and>
      distinct (map ev_ID (es @ [e\<lparr>ev_ID := (if es = [] then 1 else ev_ID (last es) + 1)\<rparr>]))"
    using a by (force simp: sorted_append)
qed

lift_definition table_mark :: "int \<Rightarrow> time \<Rightarrow> table \<Rightarrow> table" is mark
proof -
  fix i t and es :: "event list"
  have "map ev_ID (mark i t es) = map ev_ID es" by (induction es) (auto simp: mark_def)
  then show "sorted (map ev_ID es) \<and> distinct (map ev_ID es) \<Longrightarrow>
      sorted (map ev_ID (mark i t es)) \<and> distinct (map ev_ID (mark i t es))" by simp
qed

definition table_db :: "table outbox_db" where
  "table_db = \<lparr>db_insert = (\<lambda>e d. (table_insert e d, Inr ())),
     db_pending = (\<lambda>n d. (d, Inr (take (nat n) (pending (table_rows d))))),
     db_mark = (\<lambda>i t d. (table_mark i t d, Inr ()))\<rparr>"


lemma insort_key_last:
  "\<forall>x\<in>set es. ev_ID x < ev_ID e \<Longrightarrow> insort_key ev_ID e es = es @ [e]"
  by (induction es) auto

lemma table_insert_rows:
  "\<exists>i. i \<notin> ev_ID ` set (table_rows d) \<and> table_rows (table_insert e d) = insort_key ev_ID (e\<lparr>ev_ID := i\<rparr>) (table_rows d)"
proof (transfer, intro exI conjI)
  fix es :: "event list" and e
  let ?i = "if es = [] then 1 else ev_ID (last es) + 1"
  assume a: "sorted (map ev_ID es) \<and> distinct (map ev_ID es)"
  have lt: "ev_ID x < ?i" if "x \<in> set es" for x using table_id_bound [OF conjunct1 [OF a] that] that by auto
  then show "?i \<notin> ev_ID ` set es" by force
  show "es @ [e\<lparr>ev_ID := ?i\<rparr>] = insort_key ev_ID (e\<lparr>ev_ID := ?i\<rparr>) es"
    using lt by (subst insort_key_last) auto
qed

interpretation tab: outbox_table table_db table_rows
proof unfold_locales
  fix d
  show "sorted (map ev_ID (table_rows d))" "distinct (map ev_ID (table_rows d))" by (transfer, simp)+
next
  fix e d d' u
  assume "db_insert table_db e d = (d', Inr u)"
  then show "\<exists>i. i \<notin> ev_ID ` set (table_rows d) \<and> table_rows d' = insort_key ev_ID (e\<lparr>ev_ID := i\<rparr>) (table_rows d)"
    using table_insert_rows by (auto simp: table_db_def)
next
  fix i t d d' u
  assume "db_mark table_db i t d = (d', Inr u)"
  then show "table_rows d' = mark i t (table_rows d)" by (auto simp: table_db_def table_mark.rep_eq table_rows.rep_eq)
qed (auto simp: table_db_def)

text \<open>
  \<open>redisPublisher\<close> hands the stored bytes to the client's \<open>Publish\<close> and returns its error. The
  channel is a list of messages, with the outcomes of the coming calls.
\<close>

definition redisPublisher_Publish :: "('p publisher) \<Rightarrow> 'p publisher" where
  "redisPublisher_Publish client topic payload p = client topic payload p"

definition channel_client :: "((string \<times> string) list \<times> string option list) publisher" where
  "channel_client topic payload p =
     (case snd p of
        Some e # os \<Rightarrow> ((fst p, os), Some e)
      | None # os \<Rightarrow> ((fst p @ [(topic, payload)], os), None)
      | [] \<Rightarrow> ((fst p @ [(topic, payload)], []), None))"

interpretation chan: broker "redisPublisher_Publish channel_client" fst
  by unfold_locales
     (auto simp: redisPublisher_Publish_def channel_client_def split: list.splits option.splits)

interpretation obx: relay_env table_db table_rows "redisPublisher_Publish channel_client" fst
  by unfold_locales


section \<open>Inbox\<close>

record 'd inbox_db =
  ib_runInTx :: "('d \<Rightarrow> 'd \<times> string option) \<Rightarrow> 'd \<Rightarrow> 'd \<times> string option"
  ib_insert :: "string \<Rightarrow> time \<Rightarrow> 'd \<Rightarrow> 'd \<times> (string + (string + int))"   \<comment> \<open>rows affected, or its error\<close>

definition inbox_Once :: "'d inbox_db \<Rightarrow> time \<Rightarrow> string \<Rightarrow> ('d \<Rightarrow> 'd \<times> string option) \<Rightarrow> 'd \<Rightarrow> 'd \<times> string option" where
  "inbox_Once I now messageID fn d =
     ib_runInTx I
       (\<lambda>d. case ib_insert I messageID now d of
           (d', Inl e) \<Rightarrow> (d', Some (''inbox: mark message: '' @ e))
         | (d', Inr (Inl e)) \<Rightarrow> (d', Some (''inbox: rows affected: '' @ e))
         | (d', Inr (Inr n)) \<Rightarrow> if n = 0 then (d', None) else fn d')
       d"

text \<open>
  A transaction that reports success has run its body to success; one that reports an error
  has been rolled back, or its body succeeded and only the answer to the commit was lost. The
  markers are the processed message ids, \<open>work\<close> is the rest of the data.
\<close>

locale inbox_table =
  fixes I :: "'d inbox_db" and marked :: "'d \<Rightarrow> string set" and work :: "'d \<Rightarrow> 'w"
  assumes tx_ok: "ib_runInTx I f d = (d', None) \<Longrightarrow> f d = (d', None)"
    and tx_err: "ib_runInTx I f d = (d', Some e) \<Longrightarrow> d' = d \<or> f d = (d', None)"
    and mark_once: "ib_insert I m t d = (d', Inr (Inr n)) \<Longrightarrow>
       work d' = work d \<and> marked d' = insert m (marked d) \<and> n = (if m \<in> marked d then 0 else 1)"
begin

text \<open>The handler of a message changes the data through the transaction and leaves the markers alone.\<close>

definition handles :: "(string \<Rightarrow> 'd \<Rightarrow> 'd \<times> string option) \<Rightarrow> (string \<Rightarrow> 'w \<Rightarrow> 'w) \<Rightarrow> bool" where
  "handles fn eff \<longleftrightarrow> (\<forall>m d d'. fn m d = (d', None) \<longrightarrow> work d' = eff m (work d) \<and> marked d' = marked d)"

lemma Once_cases:
  assumes "handles fn eff" "inbox_Once I t m (fn m) d = (d', res)"
  shows "d' = d \<or> marked d' = insert m (marked d) \<and> (if m \<in> marked d then work d' = work d else work d' = eff m (work d))"
    and "res = None \<Longrightarrow> m \<in> marked d'"
proof -
  let ?f = "\<lambda>d. case ib_insert I m t d of
           (d', Inl e) \<Rightarrow> (d', Some (''inbox: mark message: '' @ e))
         | (d', Inr (Inl e)) \<Rightarrow> (d', Some (''inbox: rows affected: '' @ e))
         | (d', Inr (Inr n)) \<Rightarrow> if n = 0 then (d', None) else fn m d'"
  have tx: "ib_runInTx I ?f d = (d', res)" using assms(2) by (simp add: inbox_Once_def)
  have body: "marked d1 = insert m (marked d) \<and> (if m \<in> marked d then work d1 = work d else work d1 = eff m (work d))"
    if f: "?f d = (d1, None)" for d1
  proof -
    obtain d2 n where n: "ib_insert I m t d = (d2, Inr (Inr n))"
      using f by (auto split: prod.splits sum.splits)
    note mk = mark_once [OF n]
    show ?thesis
    proof (cases "m \<in> marked d")
      case True
      then have "d1 = d2" using f n mk by simp
      then show ?thesis using mk True by simp
    next
      case False
      then have "fn m d2 = (d1, None)" using f n mk by simp
      then have "work d1 = eff m (work d2) \<and> marked d1 = marked d2" using assms(1) unfolding handles_def by blast
      then show ?thesis using mk False by simp
    qed
  qed
  show "d' = d \<or> marked d' = insert m (marked d) \<and> (if m \<in> marked d then work d' = work d else work d' = eff m (work d))"
  proof (cases res)
    case None
    then show ?thesis using body [OF tx_ok [OF tx [unfolded None]]] by blast
  next
    case (Some e)
    from tx_err [OF tx [unfolded Some]] show ?thesis using body [of d'] by (elim disjE) blast+
  qed
  show "res = None \<Longrightarrow> m \<in> marked d'" using body [OF tx_ok [of ?f d d']] tx by simp
qed

end

text \<open>Deliveries of messages to a consumer that runs its handler through \<open>Once\<close>, errors ignored.\<close>

fun consume :: "'d inbox_db \<Rightarrow> (string \<Rightarrow> 'd \<Rightarrow> 'd \<times> string option) \<Rightarrow> (time \<times> string) list \<Rightarrow> 'd \<Rightarrow> 'd \<times> string list" where
  "consume I fn [] d = (d, [])"
| "consume I fn ((t, m) # ms) d =
     (case inbox_Once I t m (fn m) d of
        (d', res) \<Rightarrow> (case consume I fn ms d' of (d'', acks) \<Rightarrow> (d'', if res = None then m # acks else acks)))"

context inbox_table
begin

lemma consume_exactly_once:
  assumes "handles fn eff" "consume I fn ms d = (d', acks)"
  shows "\<exists>ds. distinct ds \<and> set ds \<inter> marked d = {} \<and> set ds \<subseteq> snd ` set ms \<and>
    marked d' = marked d \<union> set ds \<and> work d' = fold eff ds (work d) \<and> set acks \<subseteq> marked d'"
  using assms(2)
proof (induction ms arbitrary: d acks)
  case Nil
  then show ?case by (intro exI [of _ "[]"]) auto
next
  case (Cons x ms)
  obtain t m where x: "x = (t, m)" by (cases x)
  obtain d1 res where o: "inbox_Once I t m (fn m) d = (d1, res)" by fastforce
  obtain acks' where c: "consume I fn ms d1 = (d', acks')" and a: "acks = (if res = None then m # acks' else acks')"
    using Cons.prems x o by (auto split: prod.splits)
  obtain ds where ds: "distinct ds" "set ds \<inter> marked d1 = {}" "set ds \<subseteq> snd ` set ms"
    "marked d' = marked d1 \<union> set ds" "work d' = fold eff ds (work d1)" "set acks' \<subseteq> marked d'"
    using Cons.IH [OF c] by auto
  have ack: "set acks \<subseteq> marked d'" using a ds(4,6) Once_cases(2) [OF assms(1) o] by auto
  consider "d1 = d" | "marked d1 = insert m (marked d)" "m \<in> marked d" "work d1 = work d"
    | "marked d1 = insert m (marked d)" "m \<notin> marked d" "work d1 = eff m (work d)"
    using Once_cases(1) [OF assms(1) o] by (auto split: if_splits)
  then show ?case
  proof cases
    case 1
    then show ?thesis using ds ack x by (intro exI [of _ ds]) auto
  next
    case 2
    then show ?thesis using ds ack x by (intro exI [of _ ds]) auto
  next
    case 3
    then show ?thesis using ds ack x by (intro exI [of _ "m # ds"]) auto
  qed
qed

end


definition list_inbox :: "(string list \<times> string list) inbox_db" where
  "list_inbox =
     \<lparr>ib_runInTx = (\<lambda>f d. case f d of (d', None) \<Rightarrow> (d', None) | (d', Some e) \<Rightarrow> (d, Some e)),
      ib_insert = (\<lambda>m t d. if m \<in> set (fst d) then (d, Inr (Inr 0)) else ((m # fst d, snd d), Inr (Inr 1)))\<rparr>"

interpretation lib: inbox_table list_inbox "\<lambda>d. set (fst d)" snd
  by unfold_locales (auto simp: list_inbox_def split: prod.splits option.splits if_splits)

section \<open>Runs of producers and relays\<close>

inductive ob_step :: "'d outbox_db \<Rightarrow> 'p publisher \<Rightarrow> 'd \<times> 'p \<Rightarrow> 'd \<times> 'p \<Rightarrow> bool" for D pub where
  enqueue: "outbox_Enqueue D mar now topic (payload :: string) d = (d', res) \<Longrightarrow> ob_step D pub (d, p) (d', p)"
| process: "0 < batchSize r \<Longrightarrow> relay_process D pub r clk d p = (d', p', n, err) \<Longrightarrow> ob_step D pub (d, p) (d', p')"

lemma NewRelay_batch: "0 < batchSize (NewRelay opts)"
proof -
  have "0 < batchSize (relay_opt x c)" if "0 < batchSize c" for x c using that by (cases x) auto
  then show ?thesis unfolding NewRelay_def by (intro apply_opts_inv [where P = "\<lambda>c. 0 < batchSize c"]) auto
qed

context relay_env
begin

lemma enqueue_rows:
  assumes "outbox_Enqueue D mar now topic payload d = (d', res)"
  shows "rows d' = rows d \<or> (\<exists>e. ev_PublishedAt e = None \<and> rows d' = insort_key ev_ID e (rows d))"
    and "res = None \<Longrightarrow> \<exists>e b. mar payload = Inr b \<and> e \<in> set (rows d') \<and> msg e = (topic, b) \<and> ev_PublishedAt e = None"
proof -
  let ?e = "\<lambda>b. \<lparr>ev_ID = 0, ev_Topic = topic, ev_Payload = b, ev_CreatedAt = now, ev_PublishedAt = None\<rparr>"
  have "rows d' = rows d \<and> res \<noteq> None \<or> (\<exists>b i. mar payload = Inr b \<and> rows d' = insort_key ev_ID ((?e b)\<lparr>ev_ID := i\<rparr>) (rows d))"
    using assms insert_ok [of "?e _" d] insert_err [of "?e _" d]
    by (fastforce simp: outbox_Enqueue_def split: sum.splits prod.splits)
  note c = this
  have "ev_PublishedAt ((?e b)\<lparr>ev_ID := i\<rparr>) = None" for b i by simp
  with c show "rows d' = rows d \<or> (\<exists>e. ev_PublishedAt e = None \<and> rows d' = insort_key ev_ID e (rows d))"
    by blast
  assume "res = None"
  with c obtain b i where "mar payload = Inr b" "rows d' = insort_key ev_ID ((?e b)\<lparr>ev_ID := i\<rparr>) (rows d)" by auto
  then show "\<exists>e b. mar payload = Inr b \<and> e \<in> set (rows d') \<and> msg e = (topic, b) \<and> ev_PublishedAt e = None"
    by (intro exI [of _ "(?e b)\<lparr>ev_ID := i\<rparr>"]) (simp add: set_insort_key)
qed

lemma step_sound:
  assumes "ob_step D pub (d, p) (d', p')" "sound d p"
  shows "sound d' p' \<and> (\<forall>e\<in>set (rows d). \<exists>e'\<in>set (rows d'). ev_ID e' = ev_ID e \<and> msg e' = msg e)"
  using assms(1)
proof (cases rule: ob_step.cases)
  case (enqueue mar now topic payload res)
  then show ?thesis using assms(2) enqueue_rows(1) [OF enqueue(2)]
    by (auto simp: sound_def set_insort_key)
next
  case (process r clk n err)
  note sp = process_spec [OF process(2,1) assms(2)]
  have "\<exists>e'\<in>set (rows d'). ev_ID e' = ev_ID e \<and> msg e' = msg e" if e: "e \<in> set (rows d)" for e
  proof -
    obtain i where i: "i < length (rows d)" "rows d ! i = e" using e by (auto simp: in_set_conv_nth)
    have l: "length (rows d') = length (rows d)" using sp by (metis length_map)
    have "map ev_ID (rows d') ! i = map ev_ID (rows d) ! i" "map msg (rows d') ! i = map msg (rows d) ! i" using sp by auto
    then show ?thesis using i l by (intro bexI [of _ "rows d' ! i"]) auto
  qed
  with sp show ?thesis by blast
qed

lemma run_sound:
  assumes "(ob_step D pub)\<^sup>*\<^sup>* (d, p) (d', p')" "sound d p"
  shows "sound d' p' \<and> (\<forall>e\<in>set (rows d). \<exists>e'\<in>set (rows d'). ev_ID e' = ev_ID e \<and> msg e' = msg e)"
  using assms(1)
proof (induction rule: rtranclp_induct2)
  case refl
  then show ?case using assms(2) by auto
next
  case (step d1 p1 d2 p2)
  then have a: "sound d1 p1" "\<forall>e\<in>set (rows d). \<exists>e'\<in>set (rows d1). ev_ID e' = ev_ID e \<and> msg e' = msg e" by auto
  have b: "sound d2 p2" "\<forall>e\<in>set (rows d1). \<exists>e'\<in>set (rows d2). ev_ID e' = ev_ID e \<and> msg e' = msg e"
    using step_sound [OF step.hyps(2) a(1)] by auto
  show ?case using a(2) b by metis
qed

end

section \<open>Properties\<close>

text \<open>
  One batch of the relay. It publishes the oldest pending events in order of their ids, as
  many as it reports, plus at most the event it stopped at when the broker or the update
  reported an error. Without an error it publishes as many as the batch size allows and leaves
  exactly the others pending.
\<close>

theorem outbox_relay_batch:
  assumes "outbox_table D rows" "broker pub mlog" "relay_env.sound rows mlog d p"
    and "relay_process D pub (NewRelay opts) clk d p = (d', p', n, err)"
  shows "\<exists>dup. mlog p' = mlog p @ map (\<lambda>e. (ev_Topic e, ev_Payload e)) (take (nat n) (pending (rows d)) @ dup) \<and>
      (dup = [] \<or> err \<noteq> None \<and> dup = [pending (rows d) ! nat n]) \<and>
      (err = None \<longrightarrow> dup = [] \<and> n = min (batchSize (NewRelay opts)) (int (length (pending (rows d)))) \<and>
         pending (rows d') = drop (nat n) (pending (rows d)))"
  using relay_env.process_spec [OF relay_env.intro [OF assms(1,2)] assms(4) NewRelay_batch assms(3)] by blast

definition outbox_demo :: table where
  "outbox_demo = table_insert \<lparr>ev_ID = 0, ev_Topic = ''t'', ev_Payload = ''b'', ev_CreatedAt = 0, ev_PublishedAt = None\<rparr> table_empty"

lemma outbox_demo_rows: "table_rows outbox_demo =
    [\<lparr>ev_ID = 1, ev_Topic = ''t'', ev_Payload = ''b'', ev_CreatedAt = 0, ev_PublishedAt = None\<rparr>]"
  unfolding outbox_demo_def by transfer simp

lemma outbox_demo_sound: "relay_env.sound table_rows fst outbox_demo (p :: (string \<times> string) list \<times> string option list)"
  by (simp add: obx.sound_def outbox_demo_rows)

theorem outbox_relay_batch_witness:
  "\<exists>d' p'. relay_process table_db (redisPublisher_Publish channel_client) (NewRelay []) (\<lambda>_. 5) outbox_demo ([], [None])
      = (d', p', 1, None) \<and> fst p' = [(''t'', ''b'')]"
proof -
  obtain d' p' where r: "relay_process table_db (redisPublisher_Publish channel_client) (NewRelay []) (\<lambda>_. 5) outbox_demo ([], [None])
      = (d', p', 1, None)"
    by (simp add: relay_process_def table_db_def outbox_demo_rows pending_def NewRelay_def redisPublisher_Publish_def channel_client_def)
  from outbox_relay_batch [OF tab.outbox_table_axioms chan.broker_axioms outbox_demo_sound r]
  have "fst p' = [(''t'', ''b'')]" by (simp add: outbox_demo_rows pending_def)
  with r show ?thesis by blast
qed

text \<open>
  C6. No event is lost. Along any sequence of producers and relays, whatever fails, every row
  stays in the table with its id, topic and payload, and a row is marked as published only
  after the broker has received its message.
\<close>

theorem outbox_at_least_once:
  assumes "outbox_table D rows" "broker pub mlog" "\<forall>e\<in>set (rows d). ev_PublishedAt e = None"
    and "(ob_step D pub)\<^sup>*\<^sup>* (d, p) (d1, p1)" "(ob_step D pub)\<^sup>*\<^sup>* (d1, p1) (d2, p2)" "e \<in> set (rows d1)"
  shows "\<exists>e'\<in>set (rows d2). ev_ID e' = ev_ID e \<and> ev_Topic e' = ev_Topic e \<and> ev_Payload e' = ev_Payload e \<and>
    (ev_PublishedAt e' = None \<or> (ev_Topic e, ev_Payload e) \<in> set (mlog p2))"
proof -
  have env: "relay_env D rows pub mlog" using assms(1,2) by (rule relay_env.intro)
  have "relay_env.sound rows mlog d p" using assms(3) by (simp add: relay_env.sound_def [OF env])
  then have s1: "relay_env.sound rows mlog d1 p1" using relay_env.run_sound [OF env assms(4)] by blast
  from relay_env.run_sound [OF env assms(5) s1] assms(6) show ?thesis
    unfolding relay_env.sound_def [OF env] by fastforce
qed

theorem outbox_at_least_once_witness:
  "\<exists>e'\<in>set (table_rows outbox_demo). ev_ID e' = 1 \<and> ev_Payload e' = ''b''"
  using outbox_at_least_once [OF tab.outbox_table_axioms chan.broker_axioms _ rtranclp.rtrancl_refl rtranclp.rtrancl_refl,
      of outbox_demo "\<lparr>ev_ID = 1, ev_Topic = ''t'', ev_Payload = ''b'', ev_CreatedAt = 0, ev_PublishedAt = None\<rparr>" "([], [])"]
  by (auto simp: outbox_demo_rows)

lemma lift_TryAcquire:
  "lock_TryAcquire (lift_redis rc) t token key ttl (s, x) =
     (case lock_TryAcquire rc t token key ttl s of (s', res) \<Rightarrow> ((s', x), res))"
  by (simp add: lock_TryAcquire_def lift_redis_def lift_op_def split: sum.splits prod.splits)

lemma lift_Release:
  "lock_Release (lift_redis rc) t lk (s, x) = (case lock_Release rc t lk s of (s', res) \<Rightarrow> ((s', x), res))"
  by (simp add: lock_Release_def releaseScript_def lift_redis_def lift_op_def split: sum.splits prod.splits)

text \<open>
  With a lock only one replica relays. While the lock's key is held by another client,
  \<open>Process\<close> touches neither the table nor the broker and reports no events; a busy lock is
  not an error.
\<close>

theorem outbox_relay_locked_out:
  assumes "redis_server rc val" "rl_lock r = Some (key, ttl)" "ttl > 0" "val s key t1 \<noteq> None"
  shows "\<exists>s' err. relay_Process rc D pub wraps r t1 t2 token clk s d p = (s', d, p, 0, err) \<and>
    (err = None \<or> (\<exists>e. err = Some (RedisErr e)) \<or> (\<exists>e. err = Some (RandErr e)))"
proof -
  obtain s1 res where tr: "lock_TryAcquire rc t1 token key ttl s = (s1, res)" by fastforce
  have errs: "\<exists>e'. e = RedisErr e' \<or> e = RandErr e'" if "res = Inl e" for e
    using tr that by (auto simp: lock_TryAcquire_def split: sum.splits prod.splits if_splits)
  have "res = Inr None \<or> (\<exists>e. res = Inl (RedisErr e)) \<or> (\<exists>e. res = Inl (RandErr e))"
    by (rule redis_server.TryAcquire_cases [OF assms(1) tr assms(3)]) (use assms(4) errs in auto)
  then show ?thesis
    using assms(2) tr by (auto simp: relay_Process_def lock_Do_def lift_TryAcquire)
qed

theorem outbox_relay_locked_out_witness:
  "\<exists>s' err. relay_Process ks_redis table_db (redisPublisher_Publish channel_client) (\<lambda>_. False) (NewRelay [WithLock ''relay'' second])
      1 2 (Inr ''me'') (\<lambda>_. 5) [''relay'' \<mapsto> (''other'', None)] outbox_demo ([], []) = (s', outbox_demo, ([], []), 0, err)"
  using outbox_relay_locked_out [OF ks.redis_server_axioms, of "NewRelay [WithLock ''relay'' second]" "''relay''" second
      "[''relay'' \<mapsto> (''other'', None)]" 1 table_db "redisPublisher_Publish channel_client" "\<lambda>_. False" 2 "Inr ''me''" "\<lambda>_. 5"
      outbox_demo "([], [])"]
  by (auto simp: NewRelay_def go_defs ks_val_def)

text \<open>
  C15. Exactly-once processing. A consumer whose handler works through the transaction applies
  the effect of a message id at most once, however often the message is delivered and
  whichever deliveries fail; the ids it has recorded are those whose effect was applied, and
  every acknowledged message is among them.
\<close>

theorem inbox_exactly_once:
  assumes "inbox_table I marked work" "inbox_table.handles marked work fn eff" "consume I fn ms d = (d', acks)"
  shows "\<exists>ds. distinct ds \<and> set ds \<inter> marked d = {} \<and> set ds \<subseteq> snd ` set ms \<and>
    marked d' = marked d \<union> set ds \<and> work d' = fold eff ds (work d) \<and> set acks \<subseteq> marked d'"
  by (rule inbox_table.consume_exactly_once [OF assms])

theorem inbox_exactly_once_witness:
  "\<exists>d' ds acks. consume list_inbox (\<lambda>m d. ((fst d, snd d @ [m]), None)) [(1, ''a''), (2, ''b''), (3, ''a'')] ([], []) = (d', acks) \<and>
     distinct ds \<and> snd d' = fold (\<lambda>m w. w @ [m]) ds [] \<and> set acks \<subseteq> set (fst d')"
proof -
  have h: "lib.handles (\<lambda>m d. ((fst d, snd d @ [m]), None)) (\<lambda>m w. w @ [m])"
    by (auto simp: lib.handles_def)
  obtain d' acks where c: "consume list_inbox (\<lambda>m d. ((fst d, snd d @ [m]), None)) [(1, ''a''), (2, ''b''), (3, ''a'')] ([], []) = (d', acks)"
    by fastforce
  from inbox_exactly_once [OF lib.inbox_table_axioms h c] c show ?thesis by auto
qed

text \<open>
  \<open>Process\<close> tells a busy lock from other failures by the error of the whole guarded call, so an error
  of the publisher that wraps \<open>ErrNotAcquired\<close>, as one that takes locks itself may return, counts as a
  busy lock: the relay reports no error although nothing pending was published.
\<close>

theorem outbox_publisher_error_hidden:
  "\<exists>s'. relay_Process ks_redis table_db (\<lambda>topic payload p. (p, Some ''lock: not acquired'')) (\<lambda>_. True)
      (NewRelay [WithLock ''relay'' second]) 1 2 (Inr ''me'') (\<lambda>_. 5) (\<lambda>_. None) outbox_demo p = (s', outbox_demo, p, 0, None)"
proof -
  obtain msg where r: "relay_process table_db (\<lambda>topic payload p. (p, Some ''lock: not acquired'')) (NewRelay [WithLock ''relay'' second])
      (\<lambda>_. 5) outbox_demo p = (outbox_demo, p, 0, Some msg)"
    by (simp add: relay_process_def table_db_def outbox_demo_rows pending_def NewRelay_def)
  have l: "rl_lock (NewRelay [WithLock ''relay'' second]) = Some (''relay'', second)" by (simp add: NewRelay_def)
  have k: "lock_TryAcquire ks_redis 1 (Inr ''me'') ''relay'' second (\<lambda>_. None) =
      ([''relay'' \<mapsto> (''me'', set_expiry 1 second)], Inr (Some \<lparr>l_key = ''relay'', l_token = ''me''\<rparr>))"
    by (simp add: lock_TryAcquire_def ks_redis_def ks_val_def)
  obtain s1 e1 where "lock_Release ks_redis 2 \<lparr>l_key = ''relay'', l_token = ''me''\<rparr> [''relay'' \<mapsto> (''me'', set_expiry 1 second)] = (s1, e1)"
    by fastforce
  then show ?thesis
    unfolding relay_Process_def l lock_Do_def by (simp add: lift_TryAcquire lift_Release k r)
qed

end
