(* ===== verification/Feature_Flag.thy ===== *)
theory Feature_Flag
  imports Redis_Iface
begin

unbundle bit_operations_syntax

text \<open>
  Feature flags (\<open>src/featureflag\<close>): the providers, the rule evaluation with its hash buckets,
  the facade and the Fiber helper. The FNV-1a hash of Go's standard library is computed on
  32-bit words. The JSON decoder of the Redis provider is a parameter. The \<open>Provider\<close> interface
  is a locale: a flag the provider does not know is off for everyone.
\<close>

section \<open>Rules\<close>

record eval =
  UserID :: string
  Groups :: "string list"
  Attrs :: "(string, string) gomap"

record flag_rule =
  r_Enabled :: bool
  Percentage :: int
  r_Users :: "string list"
  r_Groups :: "string list"

definition fnv32a :: "string \<Rightarrow> 32 word" where
  "fnv32a s = foldl (\<lambda>h c. (h XOR of_nat (of_char c)) * 16777619) 2166136261 s"

definition flag_bucket :: "string \<Rightarrow> string \<Rightarrow> int" where
  "flag_bucket flag userID = uint (fnv32a (flag @ '':'' @ userID) mod 100)"

definition rule_eval :: "flag_rule \<Rightarrow> string \<Rightarrow> eval \<Rightarrow> bool" where
  "rule_eval r flag e =
     (if UserID e \<noteq> [] \<and> UserID e \<in> set (r_Users r) then True
      else if list_ex (\<lambda>g. g \<in> set (r_Groups r)) (Groups e) then True
      else if Percentage r > 0 \<and> UserID e \<noteq> [] \<and> flag_bucket flag (UserID e) < Percentage r then True
      else r_Enabled r)"

section \<open>Providers\<close>

type_synonym provider = "string \<Rightarrow> eval \<Rightarrow> bool"

definition Static :: "(string, bool) gomap \<Rightarrow> provider" where
  "Static m flag e = (case gm_get m flag of None \<Rightarrow> False | Some b \<Rightarrow> b)"

definition Rules :: "(string, flag_rule) gomap \<Rightarrow> provider" where
  "Rules m flag e = (case gm_get m flag of None \<Rightarrow> False | Some r \<Rightarrow> rule_eval r flag e)"

definition Redis_Enabled ::
  "'s redis \<Rightarrow> (string \<Rightarrow> flag_rule option) \<Rightarrow> string \<Rightarrow> time \<Rightarrow> string \<Rightarrow> eval \<Rightarrow> 's \<Rightarrow> 's \<times> bool" where
  "Redis_Enabled r unmarshal prefix now flag e s =
     (case rd_get r now (prefix @ flag) s of
        (s', Inr (Some v)) \<Rightarrow>
          (s', if v = ''true'' then True
               else if v = ''false'' then False
               else case unmarshal v of None \<Rightarrow> False | Some ru \<Rightarrow> rule_eval ru flag e)
      | (s', _) \<Rightarrow> (s', False))"

text \<open>The facade: a nil \<open>Flags\<close> or one without a provider answers false.\<close>

definition Flags_Enabled :: "provider option option \<Rightarrow> string \<Rightarrow> eval \<Rightarrow> bool" where
  "Flags_Enabled f flag e = (case f of Some (Some p) \<Rightarrow> p flag e | _ \<Rightarrow> False)"

definition no_eval :: eval where
  "no_eval = \<lparr>UserID = [], Groups = [], Attrs = []\<rparr>"

text \<open>The middleware binds the flags and the evaluation of the request in its locals.\<close>

type_synonym bound = "provider option option \<times> eval"

definition Flags_Middleware :: "provider option option \<Rightarrow> ('req \<Rightarrow> eval) option \<Rightarrow> 'req \<Rightarrow> bound option" where
  "Flags_Middleware f extract req = Some (f, case extract of None \<Rightarrow> no_eval | Some x \<Rightarrow> x req)"

definition fiber_Enabled :: "bound option \<Rightarrow> string \<Rightarrow> bool" where
  "fiber_Enabled b flag = (case b of None \<Rightarrow> False | Some (f, e) \<Rightarrow> Flags_Enabled f flag e)"

locale flag_provider =
  fixes enabled :: provider and known :: "string \<Rightarrow> bool"
  assumes unknown_off: "\<not> known flag \<Longrightarrow> \<not> enabled flag e"
begin

lemma request_unknown_off:
  "\<not> known flag \<Longrightarrow> \<not> fiber_Enabled (Flags_Middleware (Some (Some enabled)) extract req) flag"
  by (simp add: fiber_Enabled_def Flags_Middleware_def Flags_Enabled_def unknown_off)

end

interpretation st: flag_provider "Static m" "\<lambda>f. f \<in> set (gm_keys m)" for m
  by unfold_locales (auto simp: Static_def gm_get_keys [symmetric])

interpretation ru: flag_provider "Rules m" "\<lambda>f. f \<in> set (gm_keys m)" for m
  by unfold_locales (auto simp: Rules_def gm_get_keys [symmetric])

lemma bucket_range: "0 \<le> flag_bucket flag u" "flag_bucket flag u < 100"
proof -
  have "uint (fnv32a (flag @ '':'' @ u) mod 100) = uint (fnv32a (flag @ '':'' @ u)) mod 100"
    by (simp add: uint_mod)
  then show "flag_bucket flag u < 100" by (simp add: flag_bucket_def)
qed (simp add: flag_bucket_def)

section \<open>Properties\<close>

text \<open>
  Percentage rollout. A user's flag_bucket lies in 0..99, so membership is decided by the flag
  and the user alone; raising the percentage never switches the flag off for anyone; at 100 it
  is on for every identified user, and for an anonymous request only group targeting or the
  fallback can switch it on.
\<close>

theorem featureflag_rollout:
  assumes "p \<le> q"
  shows "(rule_eval (r\<lparr>Percentage := p\<rparr>) flag e \<longrightarrow> rule_eval (r\<lparr>Percentage := q\<rparr>) flag e) \<and>
    (UserID e \<noteq> [] \<longrightarrow> rule_eval (r\<lparr>Percentage := 100\<rparr>) flag e) \<and>
    (UserID e = [] \<longrightarrow> rule_eval r flag e = (r_Enabled r \<or> set (Groups e) \<inter> set (r_Groups r) \<noteq> {})) \<and>
    0 \<le> flag_bucket flag u \<and> flag_bucket flag u < 100"
  using assms bucket_range [of flag "UserID e"] bucket_range [of flag u]
  by (auto simp: rule_eval_def list_ex_iff)

theorem featureflag_rollout_witness:
  "rule_eval \<lparr>r_Enabled = False, Percentage = 100, r_Users = [], r_Groups = []\<rparr> ''beta''
     \<lparr>UserID = ''u1'', Groups = [], Attrs = []\<rparr>"
  using featureflag_rollout [of 10 20 "\<lparr>r_Enabled = False, Percentage = 0, r_Users = [], r_Groups = []\<rparr>" "''beta''"
      "\<lparr>UserID = ''u1'', Groups = [], Attrs = []\<rparr>"]
  by simp

text \<open>
  The Redis provider agrees with the in-memory one. When the value stored under the flag's
  key decodes to the rule that the map holds, both give the same answer; a missing key, an
  error of the server and an undecodable value are off, and a bare true or false decides.
\<close>

theorem featureflag_redis_equiv:
  assumes "redis_server r val"
    and "\<And>v. val s (prefix @ flag) now = Some v \<Longrightarrow> v \<noteq> ''true'' \<and> v \<noteq> ''false''"
    and "gm_get m flag = (case val s (prefix @ flag) now of None \<Rightarrow> None | Some v \<Rightarrow> unmarshal v)"
    and "Redis_Enabled r unmarshal prefix now flag e s = (s', b)"
  shows "b = Rules m flag e \<or> (\<exists>x err. rd_get r now (prefix @ flag) s = (x, Inl err) \<and> \<not> b)"
proof -
  obtain s1 w where g: "rd_get r now (prefix @ flag) s = (s1, w)" by fastforce
  show ?thesis
  proof (cases w)
    case (Inl e)
    then show ?thesis using assms(4) g by (auto simp: Redis_Enabled_def)
  next
    case (Inr v)
    then have "v = val s (prefix @ flag) now" using redis_server.get_ok [OF assms(1), of now _ s s1 v] g by simp
    then show ?thesis using assms(2-4) g Inr
      by (cases v) (auto simp: Redis_Enabled_def Rules_def split: option.splits)
  qed
qed

theorem featureflag_redis_equiv_witness:
  "snd (Redis_Enabled ks_redis (\<lambda>_. Some \<lparr>r_Enabled = True, Percentage = 0, r_Users = [], r_Groups = []\<rparr>) ''ff:'' 0 ''beta'' no_eval
      [''ff:beta'' \<mapsto> (''json'', None)]) =
   Rules [(''beta'', \<lparr>r_Enabled = True, Percentage = 0, r_Users = [], r_Groups = []\<rparr>)] ''beta'' no_eval"
proof -
  let ?R = "\<lparr>r_Enabled = True, Percentage = 0, r_Users = [], r_Groups = []\<rparr>"
  let ?S = "[''ff:beta'' \<mapsto> (''json'', None)]"
  obtain s' b where r: "Redis_Enabled ks_redis (\<lambda>_. Some ?R) ''ff:'' 0 ''beta'' no_eval ?S = (s', b)" by fastforce
  have "b = Rules [(''beta'', ?R)] ''beta'' no_eval \<or>
      (\<exists>x err. rd_get ks_redis 0 (''ff:'' @ ''beta'') ?S = (x, Inl err) \<and> \<not> b)"
    by (rule featureflag_redis_equiv [OF ks.redis_server_axioms _ _ r]) (auto simp: ks_val_def)
  then show ?thesis by (simp add: r) (simp add: ks_redis_def)
qed

end
