(* ===== verification/Parser.thy ===== *)
theory Parser
  imports Go_Strings
begin

text \<open>
  Query building for pages (\<open>src/parser/parser.go\<close>, \<open>src/parser/keyset.go\<close>): validation of the
  paging parameters, the search, sorting and offset modifiers, and keyset seeking with opaque
  cursors. A \<open>bun\<close> query is the record of the clauses the modifiers add to it. The predicate of
  a seek is kept both as the text and arguments handed to \<open>bun\<close> and as the comparisons that the
  text expresses; its meaning on rows, together with ordering and limit, is in
  \<open>select_rows\<close>. Base64 is modelled; the JSON coder of cursor values is a parameter.
\<close>

section \<open>Queries\<close>

datatype cmp = CEq | CGt | CLt

type_synonym 'v cond = "string \<times> cmp \<times> 'v"

record 'v query =
  q_where :: "(string \<times> 'v list) list"
  q_seek :: "'v cond list list option"
  q_order :: "(string \<times> bool) list"     \<comment> \<open>column, descending\<close>
  q_orderText :: "string list"
  q_limit :: "int option"
  q_offset :: "int option"

definition select_all :: "'v query" where
  "select_all = \<lparr>q_where = [], q_seek = None, q_order = [], q_orderText = [], q_limit = None, q_offset = None\<rparr>"

definition ident_char :: "char \<Rightarrow> bool" where
  "ident_char c \<longleftrightarrow> is_lower c \<or> is_upper c \<or> is_digit c \<or> c = CHR ''_'' \<or> c = CHR ''.''"

definition isSimpleIdentifier :: "string \<Rightarrow> bool" where
  "isSimpleIdentifier s \<longleftrightarrow> s \<noteq> [] \<and> list_all ident_char s"

section \<open>Page and offset\<close>

record paginationQuery =
  pq_Page :: int
  pq_Limit :: int
  pq_Search :: string
  pq_Sort :: string
  pq_Order :: string

definition pq_Validate :: "paginationQuery \<Rightarrow> string list \<Rightarrow> string option" where
  "pq_Validate p sortOptions =
     (let errs =
        (if pq_Page p < 0 then [''page must not be negative''] else []) @
        (if pq_Limit p < 0 then [''limit must not be negative''] else []) @
        (if pq_Sort p \<noteq> [] \<and> pq_Sort p \<notin> set sortOptions
         then [''sort must be one of '' @ Join '', '' sortOptions] else []) @
        (if pq_Order p \<noteq> [] \<and> pq_Order p \<noteq> ''asc'' \<and> pq_Order p \<noteq> ''desc''
         then [''order must be one of asc or desc''] else [])
      in if length errs > 0 then Some (''validation failed: '' @ Join '', '' errs) else None)"

definition applySearch :: "string query \<Rightarrow> string \<Rightarrow> string list \<Rightarrow> string query" where
  "applySearch q search cols =
     (if search = [] \<or> cols = [] then q
      else q\<lparr>q_where := q_where q @
               [(Join '' ILIKE ? OR '' cols @ '' ILIKE ?'', map (\<lambda>_. ''%'' @ search @ ''%'') cols)]\<rparr>)"

definition applySorting :: "string query \<Rightarrow> string \<Rightarrow> string \<Rightarrow> string query" where
  "applySorting q sortCol order =
     (if sortCol = [] \<or> order = [] then q
      else let order = ToLower order
           in if order \<noteq> ''asc'' \<and> order \<noteq> ''desc'' then q
              else if \<not> isSimpleIdentifier sortCol then q
              else q\<lparr>q_order := q_order q @ [(sortCol, order = ''desc'')],
                     q_orderText := q_orderText q @ [sortCol @ '' '' @ order]\<rparr>)"

definition applyPaginationDefaults :: "string query \<Rightarrow> paginationQuery \<Rightarrow> string query \<times> paginationQuery" where
  "applyPaginationDefaults q p =
     (let p = (if pq_Page p \<le> 0 then p\<lparr>pq_Page := 1\<rparr> else p);
          p = (if pq_Limit p \<le> 0 then p\<lparr>pq_Limit := 10\<rparr> else p)
      in (q\<lparr>q_offset := Some (wrap64 ((pq_Page p - 1) * pq_Limit p)), q_limit := Some (pq_Limit p)\<rparr>, p))"

definition Paginate :: "paginationQuery \<Rightarrow> string list \<Rightarrow> string query \<Rightarrow> string query \<times> paginationQuery" where
  "Paginate p cols q =
     applyPaginationDefaults (applySorting (applySearch q (pq_Search p) cols) (pq_Sort p) (pq_Order p)) p"

definition parser_Count :: "string \<Rightarrow> string list \<Rightarrow> string query \<Rightarrow> string query" where
  "parser_Count search cols q = applySearch q search cols"

section \<open>Base64 without padding, URL alphabet\<close>

definition b64_char :: "nat \<Rightarrow> char" where
  "b64_char n =
     (if n < 26 then char_of (65 + n) else if n < 52 then char_of (71 + n)
      else if n < 62 then char_of (n - 4) else if n = 62 then CHR ''-'' else CHR ''_'')"

definition b64_val :: "char \<Rightarrow> nat option" where
  "b64_val c =
     (if is_upper c then Some (chr_code c - 65)
      else if is_lower c then Some (chr_code c - 71)
      else if is_digit c then Some (chr_code c + 4)
      else if c = CHR ''-'' then Some 62 else if c = CHR ''_'' then Some 63 else None)"

fun b64_enc :: "nat list \<Rightarrow> nat list" where
  "b64_enc [] = []"
| "b64_enc [a] = [a div 4, (a mod 4) * 16]"
| "b64_enc [a, b] = [a div 4, (a mod 4) * 16 + b div 16, (b mod 16) * 4]"
| "b64_enc (a # b # c # r) =
     a div 4 # ((a mod 4) * 16 + b div 16) # ((b mod 16) * 4 + c div 64) # (c mod 64) # b64_enc r"

fun b64_dec :: "nat list \<Rightarrow> nat list option" where
  "b64_dec [] = Some []"
| "b64_dec [x] = None"
| "b64_dec [x, y] = Some [x * 4 + y div 16]"
| "b64_dec [x, y, z] = Some [x * 4 + y div 16, (y mod 16) * 16 + z div 4]"
| "b64_dec (x # y # z # w # r) =
     (case b64_dec r of
        None \<Rightarrow> None
      | Some bs \<Rightarrow> Some ([x * 4 + y div 16, (y mod 16) * 16 + z div 4, (z mod 4) * 64 + w] @ bs))"

text \<open>The standard decoder skips carriage returns and line feeds and ignores trailing bits.\<close>

definition RawURLEncode :: "string \<Rightarrow> string" where
  "RawURLEncode s = map b64_char (b64_enc (map chr_code s))"

definition RawURLDecode :: "string \<Rightarrow> string option" where
  "RawURLDecode s =
     (let cs = filter (\<lambda>c. chr_code c \<noteq> 10 \<and> chr_code c \<noteq> 13) s
      in if list_all (\<lambda>c. b64_val c \<noteq> None) cs
         then map_option (map char_of) (b64_dec (map (\<lambda>c. the (b64_val c)) cs)) else None)"

lemma b64_val_char: "n < 64 \<Longrightarrow> b64_val (b64_char n) = Some n"
  by (auto simp: b64_val_def b64_char_def is_upper_def is_lower_def is_digit_def chr_code_def)

lemma b64_char_visible: "n < 64 \<Longrightarrow> chr_code (b64_char n) \<noteq> 10 \<and> chr_code (b64_char n) \<noteq> 13"
  by (auto simp: b64_char_def chr_code_def)

lemma digit_pair:
  fixes x y k :: nat
  assumes "y < k"
  shows "(x * k + y) div k = x" "(x * k + y) mod k = y"
  using assms by simp_all

lemma digit_range:
  fixes x y k m :: nat
  assumes "x < m" "y < k"
  shows "x * k + y < m * k"
proof -
  have "(x + 1) * k \<le> m * k" using assms(1) by (intro mult_right_mono) auto
  then show ?thesis using assms(2) by simp
qed

lemma byte_parts:
  fixes b :: nat
  assumes "b < 256"
  shows "b div 16 < 16" "b div 64 < 4" "b div 4 < 64"
  using assms by auto

lemma b64_enc_range: "\<forall>x\<in>set bs. x < 256 \<Longrightarrow> x \<in> set (b64_enc bs) \<Longrightarrow> x < 64"
proof (induction bs rule: b64_enc.induct)
  case (4 a b c r)
  have "(a mod 4) * 16 + b div 16 < 64" "(b mod 16) * 4 + c div 64 < 64" "a div 4 < 64" "c mod 64 < 64"
    using byte_parts [of a] byte_parts [of b] byte_parts [of c] digit_range [of "a mod 4" 4 "b div 16" 16]
      digit_range [of "b mod 16" 16 "c div 64" 4] 4(2) by simp_all
  then show ?case using 4 by auto
next
  case (3 a b)
  have "(a mod 4) * 16 + b div 16 < 64" "(b mod 16) * 4 < 64" "a div 4 < 64"
    using byte_parts [of a] byte_parts [of b] digit_range [of "a mod 4" 4 "b div 16" 16]
      digit_range [of "b mod 16" 16 0 4] 3(1) by simp_all
  then show ?case using 3 by auto
next
  case (2 a)
  have "(a mod 4) * 16 < 64" "a div 4 < 64" using byte_parts [of a] digit_range [of "a mod 4" 4 0 16] 2(1) by simp_all
  then show ?case using 2 by auto
qed auto

lemma b64_roundtrip: "\<forall>x\<in>set bs. x < 256 \<Longrightarrow> b64_dec (b64_enc bs) = Some bs"
proof (induction bs rule: b64_enc.induct)
  case (4 a b c r)
  have "b div 16 < 16" "c div 64 < 4" using 4(2) byte_parts by simp_all
  then show ?case using 4 by (simp add: digit_pair)
next
  case (3 a b)
  have "b div 16 < 16" using 3 byte_parts by simp
  then show ?case by (simp add: digit_pair)
qed simp_all

lemma RawURL_roundtrip: "RawURLDecode (RawURLEncode s) = Some s"
proof -
  let ?bs = "b64_enc (map chr_code s)"
  have r: "x < 64" if "x \<in> set ?bs" for x
    using b64_enc_range [of "map chr_code s" x] that chr_code_less by auto
  have "filter (\<lambda>c. chr_code c \<noteq> 10 \<and> chr_code c \<noteq> 13) (map b64_char ?bs) = map b64_char ?bs"
    using r b64_char_visible by (auto simp: filter_id_conv)
  moreover have "map (\<lambda>c. the (b64_val c)) (map b64_char ?bs) = ?bs"
    using r by (simp add: b64_val_char map_idI)
  moreover have "list_all (\<lambda>c. b64_val c \<noteq> None) (map b64_char ?bs)"
    using r by (auto simp: list_all_iff b64_val_char)
  moreover have "b64_dec ?bs = Some (map chr_code s)" using b64_roundtrip [of "map chr_code s"] chr_code_less by auto
  ultimately show ?thesis
    unfolding RawURLDecode_def RawURLEncode_def Let_def by (simp add: chr_code_def comp_def)
qed


section \<open>Keyset\<close>

record keysetColumn =
  k_Name :: string
  k_Desc :: bool

record keysetQuery =
  kq_Limit :: int
  kq_Cursor :: string
  kq_Before :: bool

definition keysetColumnsValid :: "keysetColumn list \<Rightarrow> bool" where
  "keysetColumnsValid cols = list_all (\<lambda>c. isSimpleIdentifier (k_Name c)) cols"

text \<open>The comparisons of the i-th group of a seek and their text.\<close>

definition seek_group :: "keysetColumn list \<Rightarrow> 'v list \<Rightarrow> bool \<Rightarrow> nat \<Rightarrow> 'v cond list" where
  "seek_group cols vals before i =
     map (\<lambda>j. (k_Name (cols ! j), CEq, vals ! j)) [0..<i] @
     [(k_Name (cols ! i), if k_Desc (cols ! i) \<noteq> before then CLt else CGt, vals ! i)]"

definition seek_groups :: "keysetColumn list \<Rightarrow> 'v list \<Rightarrow> bool \<Rightarrow> 'v cond list list" where
  "seek_groups cols vals before = map (seek_group cols vals before) [0..<length cols]"

fun cmp_text :: "cmp \<Rightarrow> string" where
  "cmp_text CEq = '' = ''" | "cmp_text CGt = '' > ''" | "cmp_text CLt = '' < ''"

definition cond_text :: "'v cond \<Rightarrow> string" where
  "cond_text x = (case x of (n, c, v) \<Rightarrow> n @ cmp_text c @ ''?'')"

definition buildSeek :: "keysetColumn list \<Rightarrow> 'v list \<Rightarrow> bool \<Rightarrow> string \<times> 'v list" where
  "buildSeek cols vals before =
     (let gs = seek_groups cols vals before
      in (''('' @ Join '' OR '' (map (\<lambda>g. ''('' @ Join '' AND '' (map cond_text g) @ '')'') gs) @ '')'',
          concat (map (map (\<lambda>(n, c, v). v)) gs)))"

definition EncodeCursor :: "('v list \<Rightarrow> string) \<Rightarrow> 'v list \<Rightarrow> string" where
  "EncodeCursor enc vals = RawURLEncode (enc vals)"

definition DecodeCursor :: "(string \<Rightarrow> 'v list option) \<Rightarrow> string \<Rightarrow> 'v list option" where
  "DecodeCursor dec s = (case RawURLDecode s of None \<Rightarrow> None | Some b \<Rightarrow> dec b)"

definition keyset_limit :: "keysetQuery \<Rightarrow> int" where
  "keyset_limit kq = (if kq_Limit kq \<le> 0 then 10 else kq_Limit kq)"

definition Keyset :: "(string \<Rightarrow> 'v list option) \<Rightarrow> keysetQuery \<Rightarrow> keysetColumn list \<Rightarrow> 'v query \<Rightarrow> 'v query" where
  "Keyset dec kq cols q =
     (let limit = keyset_limit kq
      in if cols = [] \<or> \<not> keysetColumnsValid cols then q\<lparr>q_limit := Some (wrap64 (limit + 1))\<rparr>
         else
           let q = (if kq_Cursor kq \<noteq> [] then
                      (case DecodeCursor dec (kq_Cursor kq) of
                         None \<Rightarrow> q
                       | Some vals \<Rightarrow>
                           if length vals = length cols
                           then q\<lparr>q_where := q_where q @ [buildSeek cols vals (kq_Before kq)],
                                  q_seek := Some (seek_groups cols vals (kq_Before kq))\<rparr>
                           else q)
                    else q);
               q = q\<lparr>q_order := q_order q @ map (\<lambda>c. (k_Name c, k_Desc c \<noteq> kq_Before kq)) cols,
                     q_orderText := q_orderText q @
                       map (\<lambda>c. k_Name c @ '' '' @ (if k_Desc c \<noteq> kq_Before kq then ''DESC'' else ''ASC'')) cols\<rparr>
           in q\<lparr>q_limit := Some (wrap64 (limit + 1))\<rparr>)"

section \<open>What a query selects\<close>

text \<open>
  A row gives each column a value of a linear order. The comparisons of a group are joined by
  AND, the groups by OR; ORDER BY compares column by column in the given directions.
\<close>

fun cond_holds :: "(string \<Rightarrow> 'v::linorder) \<Rightarrow> 'v cond \<Rightarrow> bool" where
  "cond_holds row (n, CEq, v) = (row n = v)"
| "cond_holds row (n, CGt, v) = (row n > v)"
| "cond_holds row (n, CLt, v) = (row n < v)"

definition seek_holds :: "'v::linorder cond list list \<Rightarrow> (string \<Rightarrow> 'v) \<Rightarrow> bool" where
  "seek_holds gs row = list_ex (list_all (cond_holds row)) gs"

fun lex_less :: "bool list \<Rightarrow> 'v::linorder list \<Rightarrow> 'v list \<Rightarrow> bool" where
  "lex_less (d # ds) (x # xs) (y # ys) = ((if d then y < x else x < y) \<or> x = y \<and> lex_less ds xs ys)"
| "lex_less _ _ _ = False"

definition row_less :: "(string \<times> bool) list \<Rightarrow> (string \<Rightarrow> 'v::linorder) \<Rightarrow> (string \<Rightarrow> 'v) \<Rightarrow> bool" where
  "row_less ord a b = lex_less (map snd ord) (map (\<lambda>x. a (fst x)) ord) (map (\<lambda>x. b (fst x)) ord)"

fun insert_by :: "('a \<Rightarrow> 'a \<Rightarrow> bool) \<Rightarrow> 'a \<Rightarrow> 'a list \<Rightarrow> 'a list" where
  "insert_by lt x [] = [x]"
| "insert_by lt x (y # ys) = (if lt y x then y # insert_by lt x ys else x # y # ys)"

definition sort_by :: "('a \<Rightarrow> 'a \<Rightarrow> bool) \<Rightarrow> 'a list \<Rightarrow> 'a list" where
  "sort_by lt xs = fold (insert_by lt) xs []"

definition select_rows :: "'v::linorder query \<Rightarrow> ('r \<Rightarrow> string \<Rightarrow> 'v) \<Rightarrow> 'r list \<Rightarrow> 'r list" where
  "select_rows q cols_of rows =
     (let rows = (case q_seek q of None \<Rightarrow> rows | Some gs \<Rightarrow> filter (\<lambda>r. seek_holds gs (cols_of r)) rows);
          rows = sort_by (\<lambda>a b. row_less (q_order q) (cols_of a) (cols_of b)) rows
      in case q_limit q of None \<Rightarrow> rows | Some n \<Rightarrow> take (nat n) rows)"

section \<open>The seek predicate is the lexicographic order\<close>

lemma lex_less_iff:
  assumes "length xs = length ds" "length ys = length ds"
  shows "lex_less ds xs ys \<longleftrightarrow>
    (\<exists>i<length ds. (\<forall>j<i. xs ! j = ys ! j) \<and> (if ds ! i then ys ! i < xs ! i else xs ! i < ys ! i))"
  using assms
proof (induction ds arbitrary: xs ys)
  case (Cons d ds)
  obtain x xs' y ys' where xy: "xs = x # xs'" "ys = y # ys'" using Cons.prems by (cases xs; cases ys) auto
  have ih: "lex_less ds xs' ys' \<longleftrightarrow>
    (\<exists>i<length ds. (\<forall>j<i. xs' ! j = ys' ! j) \<and> (if ds ! i then ys' ! i < xs' ! i else xs' ! i < ys' ! i))"
    using Cons xy by simp
  have "(\<exists>i<length (d # ds). (\<forall>j<i. xs ! j = ys ! j) \<and> (if (d # ds) ! i then ys ! i < xs ! i else xs ! i < ys ! i)) \<longleftrightarrow>
     (if d then y < x else x < y) \<or>
     (\<exists>i<length ds. x = y \<and> (\<forall>j<i. xs' ! j = ys' ! j) \<and> (if ds ! i then ys' ! i < xs' ! i else xs' ! i < ys' ! i))"
    unfolding xy length_Cons Ex_less_Suc2 All_less_Suc2 by (simp add: All_less_Suc2)
  then show ?case using ih xy by auto
qed simp


lemma seek_lex_order:
  assumes "length vals = length cols"
  shows "seek_holds (seek_groups cols vals before) row \<longleftrightarrow>
    lex_less (map (\<lambda>c. k_Desc c \<noteq> before) cols) vals (map (\<lambda>c. row (k_Name c)) cols)"
proof -
  have grp: "list_all (cond_holds row) (seek_group cols vals before i) \<longleftrightarrow>
      (\<forall>j<i. vals ! j = row (k_Name (cols ! j))) \<and>
      (if k_Desc (cols ! i) \<noteq> before then row (k_Name (cols ! i)) < vals ! i else vals ! i < row (k_Name (cols ! i)))" for i
    by (auto simp: seek_group_def list_all_iff)
  have "seek_holds (seek_groups cols vals before) row \<longleftrightarrow>
      (\<exists>i<length cols. list_all (cond_holds row) (seek_group cols vals before i))"
    by (auto simp: seek_holds_def seek_groups_def list_ex_iff)
  moreover have "lex_less (map (\<lambda>c. k_Desc c \<noteq> before) cols) vals (map (\<lambda>c. row (k_Name c)) cols) \<longleftrightarrow>
      (\<exists>i<length cols. (\<forall>j<i. vals ! j = row (k_Name (cols ! j))) \<and>
        (if k_Desc (cols ! i) \<noteq> before then row (k_Name (cols ! i)) < vals ! i else vals ! i < row (k_Name (cols ! i))))"
    using assms by (subst lex_less_iff) (simp_all cong: conj_cong)
  ultimately show ?thesis unfolding grp by simp
qed

lemma lex_less_irrefl: "\<not> lex_less ds xs xs"
proof (induction ds arbitrary: xs)
  case (Cons d ds)
  then show ?case by (cases xs) auto
qed simp

lemma lex_less_trans: "lex_less ds xs ys \<Longrightarrow> lex_less ds ys zs \<Longrightarrow> lex_less ds xs zs"
proof (induction ds arbitrary: xs ys zs)
  case (Cons d ds)
  obtain x xs' y ys' z zs' where "xs = x # xs'" "ys = y # ys'" "zs = z # zs'"
    using Cons.prems by (cases xs; cases ys; cases zs) auto
  then show ?case using Cons.prems Cons.IH [of xs' ys' zs'] by (cases d) auto
qed simp

lemma lex_less_total:
  "length xs = length ds \<Longrightarrow> length ys = length ds \<Longrightarrow> lex_less ds xs ys \<or> xs = ys \<or> lex_less ds ys xs"
proof (induction ds arbitrary: xs ys)
  case (Cons d ds)
  then show ?case by (cases xs; cases ys) (auto simp: not_less_iff_gr_or_eq)
qed simp

lemma lex_less_flip:
  "length xs = length ds \<Longrightarrow> length ys = length ds \<Longrightarrow> lex_less (map Not ds) xs ys = lex_less ds ys xs"
proof (induction ds arbitrary: xs ys)
  case (Cons d ds)
  then show ?case by (cases xs; cases ys) auto
qed simp

section \<open>Sorting by a strict order\<close>

text \<open>A strict order that is total on the rows at hand; sorted lists of the same rows are equal.\<close>

locale strict_total =
  fixes lt :: "'a \<Rightarrow> 'a \<Rightarrow> bool" and S :: "'a set"
  assumes irrefl: "\<not> lt x x" and trans: "lt x y \<Longrightarrow> lt y z \<Longrightarrow> lt x z"
    and total: "x \<in> S \<Longrightarrow> y \<in> S \<Longrightarrow> lt x y \<or> x = y \<or> lt y x"
begin

lemma sorted_unique:
  "sorted_wrt lt xs \<Longrightarrow> sorted_wrt lt ys \<Longrightarrow> set xs = set ys \<Longrightarrow> xs = ys"
proof (induction xs arbitrary: ys)
  case (Cons x xs)
  then obtain y ys' where y: "ys = y # ys'" by (cases ys) auto
  have "x = y"
  proof (rule ccontr)
    assume ne: "x \<noteq> y"
    then have "x \<in> set ys'" "y \<in> set xs" using Cons.prems(3) y by auto
    then have "lt y x" "lt x y" using Cons.prems y by auto
    then show False using trans irrefl by blast
  qed
  moreover have "x \<notin> set xs" "y \<notin> set ys'" using Cons.prems(1,2) y irrefl by auto
  ultimately have "set xs = set ys'" using Cons.prems(3) y by auto
  with Cons y \<open>x = y\<close> show ?case by auto
qed simp

lemma sorted_distinct: "sorted_wrt lt ys \<Longrightarrow> distinct ys"
  using irrefl by (induction ys) auto

lemma insert_by_set [simp]: "set (insert_by lt x ys) = insert x (set ys)"
  by (induction ys) auto

lemma insert_by_sorted:
  assumes "sorted_wrt lt ys" "x \<notin> set ys" "insert x (set ys) \<subseteq> S"
  shows "sorted_wrt lt (insert_by lt x ys)"
  using assms
proof (induction ys)
  case (Cons y ys)
  show ?case
  proof (cases "lt y x")
    case True
    then show ?thesis using Cons by auto
  next
    case False
    then have "lt x y" using total [of x y] Cons.prems by auto
    then show ?thesis using Cons.prems False trans by auto
  qed
qed simp

lemma fold_insert_by:
  "distinct (xs @ ys) \<Longrightarrow> set (xs @ ys) \<subseteq> S \<Longrightarrow> sorted_wrt lt ys \<Longrightarrow>
     sorted_wrt lt (fold (insert_by lt) xs ys) \<and> set (fold (insert_by lt) xs ys) = set xs \<union> set ys"
proof (induction xs arbitrary: ys)
  case (Cons x xs)
  have i: "sorted_wrt lt (insert_by lt x ys)" using Cons.prems by (intro insert_by_sorted) auto
  have "distinct (insert_by lt x ys)" using sorted_distinct [OF i] .
  with Cons.IH [of "insert_by lt x ys"] Cons.prems i show ?case by auto
qed simp

lemma sort_by_sorted: "distinct xs \<Longrightarrow> set xs \<subseteq> S \<Longrightarrow> sorted_wrt lt (sort_by lt xs)"
  and sort_by_set: "distinct xs \<Longrightarrow> set xs \<subseteq> S \<Longrightarrow> set (sort_by lt xs) = set xs"
  using fold_insert_by [of xs "[]"] by (auto simp: sort_by_def)

lemma sorted_filter: "sorted_wrt lt xs \<Longrightarrow> sorted_wrt lt (filter P xs)"
  by (rule sorted_wrt_filter)

lemma sort_by_filter:
  assumes "distinct xs" "set xs \<subseteq> S"
  shows "sort_by lt (filter P xs) = filter P (sort_by lt xs)"
proof (rule sorted_unique)
  have f: "distinct (filter P xs)" "set (filter P xs) \<subseteq> S" using assms by auto
  show "sorted_wrt lt (sort_by lt (filter P xs))" using sort_by_sorted [OF f] .
  show "sorted_wrt lt (filter P (sort_by lt xs))" using sort_by_sorted [OF assms] by (rule sorted_filter)
  show "set (sort_by lt (filter P xs)) = set (filter P (sort_by lt xs))"
    using sort_by_set [OF f] sort_by_set [OF assms] by simp
qed

lemma above_nth:
  assumes "sorted_wrt lt xs" "i < length xs"
  shows "filter (lt (xs ! i)) xs = drop (Suc i) xs"
proof -
  have "xs = take (Suc i) xs @ drop (Suc i) xs" by simp
  moreover have "filter (lt (xs ! i)) (take (Suc i) xs) = []"
  proof (rule filter_False, safe)
    fix y assume "y \<in> set (take (Suc i) xs)" "lt (xs ! i) y"
    then obtain j where "j \<le> i" "y = xs ! j" using assms(2) by (auto simp: in_set_conv_nth less_Suc_eq_le)
    then have "y = xs ! i \<or> lt y (xs ! i)" using assms by (cases "j = i") (auto intro: sorted_wrt_nth_less)
    then show False using \<open>lt (xs ! i) y\<close> trans irrefl by blast
  qed
  moreover have "filter (lt (xs ! i)) (drop (Suc i) xs) = drop (Suc i) xs"
  proof (rule filter_True, safe)
    fix y assume "y \<in> set (drop (Suc i) xs)"
    then obtain j where "j < length xs - Suc i" "y = xs ! (Suc i + j)" by (auto simp: in_set_conv_nth)
    then show "lt (xs ! i) y" using assms by (auto intro: sorted_wrt_nth_less)
  qed
  ultimately show ?thesis by (metis append_Nil filter_append)
qed

lemma below_nth:
  assumes "sorted_wrt lt xs" "i < length xs"
  shows "filter (\<lambda>y. lt y (xs ! i)) xs = take i xs"
proof -
  have "xs = take i xs @ drop i xs" by simp
  moreover have "filter (\<lambda>y. lt y (xs ! i)) (drop i xs) = []"
  proof (rule filter_False, safe)
    fix y assume "y \<in> set (drop i xs)" "lt y (xs ! i)"
    then obtain j where "j < length xs - i" "y = xs ! (i + j)" by (auto simp: in_set_conv_nth)
    then have "y = xs ! i \<or> lt (xs ! i) y" using assms by (cases "j = 0") (auto intro: sorted_wrt_nth_less)
    then show False using \<open>lt y (xs ! i)\<close> trans irrefl by blast
  qed
  moreover have "filter (\<lambda>y. lt y (xs ! i)) (take i xs) = take i xs"
  proof (rule filter_True, safe)
    fix y assume "y \<in> set (take i xs)"
    then obtain j where "j < i" "y = xs ! j" using assms(2) by (auto simp: in_set_conv_nth)
    then show "lt y (xs ! i)" using assms by (auto intro: sorted_wrt_nth_less)
  qed
  ultimately show ?thesis by (metis append_Nil2 filter_append)
qed

lemma converse: "strict_total (\<lambda>a b. lt b a) S"
  using irrefl trans total by unfold_locales blast+

lemma sort_by_converse:
  assumes "distinct xs" "set xs \<subseteq> S"
  shows "sort_by (\<lambda>a b. lt b a) xs = rev (sort_by lt xs)"
proof (rule strict_total.sorted_unique [OF converse])
  show "sorted_wrt (\<lambda>a b. lt b a) (sort_by (\<lambda>a b. lt b a) xs)"
    using strict_total.sort_by_sorted [OF converse assms] .
  show "sorted_wrt (\<lambda>a b. lt b a) (rev (sort_by lt xs))"
    using sort_by_sorted [OF assms] by (simp add: sorted_wrt_rev)
  show "set (sort_by (\<lambda>a b. lt b a) xs) = set (rev (sort_by lt xs))"
    using strict_total.sort_by_set [OF converse assms] sort_by_set [OF assms] by simp
qed

end

text \<open>The order of cursor values in any directions, on values for as many columns.\<close>

interpretation lex: strict_total "lex_less ds" "{xs. length xs = length ds}" for ds
  by unfold_locales (use lex_less_irrefl lex_less_trans lex_less_total in blast)+

end
