(* ===== verification/Json_Values.thy ===== *)
theory Json_Values
  imports Go_Strings "HOL-Library.List_Lexorder" "HOL-Library.Char_ord"
begin

text \<open>
  The values of columns, integers and texts, in the order a database compares them (bytewise for
  texts), and the coder of \<open>encoding/json\<close> for an array of them: how \<open>Marshal\<close> writes it and what
  \<open>Unmarshal\<close> into interface values makes of such an array. A number comes back as a float. Texts are
  those of ASCII, which the encoder escapes byte by byte.
\<close>

section \<open>Values\<close>

datatype db_value = DInt int | DText string

instantiation db_value :: linorder
begin

definition less_eq_db_value :: "db_value \<Rightarrow> db_value \<Rightarrow> bool" where
  "less_eq_db_value v w =
     (case (v, w) of
        (DInt a, DInt b) \<Rightarrow> a \<le> b
      | (DInt a, DText t) \<Rightarrow> True
      | (DText s, DInt b) \<Rightarrow> False
      | (DText s, DText t) \<Rightarrow> s \<le> t)"

definition less_db_value :: "db_value \<Rightarrow> db_value \<Rightarrow> bool" where
  "less_db_value v w \<longleftrightarrow> v \<le> w \<and> \<not> w \<le> v"

instance
  by intro_classes (auto simp: less_eq_db_value_def less_db_value_def split: db_value.splits)

end

lemma db_value_less [simp]:
  "DInt a < DInt b \<longleftrightarrow> a < b" "DInt a < DText t" "\<not> DText s < DInt b" "DText s < DText t \<longleftrightarrow> s < t"
  by (auto simp: less_db_value_def less_eq_db_value_def)

section \<open>Numbers\<close>

text \<open>
  A number decoded into an interface value is a \<open>float64\<close>: the nearest number with 53 significant
  bits, the even one of two that are equally near.
\<close>

function float_excess :: "nat \<Rightarrow> nat" where
  "float_excess m = (if m < 2 ^ 53 then 0 else Suc (float_excess (m div 2)))"
  by pat_completeness auto
termination by (relation "measure id") (auto simp: div_less_dividend)

declare float_excess.simps [simp del]

definition float64_nat :: "nat \<Rightarrow> nat" where
  "float64_nat m =
     (let u = 2 ^ float_excess m; q = m div u; r = m mod u
      in (if 2 * r > u \<or> (2 * r = u \<and> odd q) then q + 1 else q) * u)"

definition float64_of_int :: "int \<Rightarrow> int" where
  "float64_of_int n = (if n < 0 then - int (float64_nat (nat (- n))) else int (float64_nat (nat n)))"

lemma float64_exact: "\<bar>n\<bar> < 2 ^ 53 \<Longrightarrow> float64_of_int n = n"
  by (auto simp: float64_of_int_def float64_nat_def float_excess.simps Let_def)

section \<open>Texts\<close>

definition QUOTE :: char where "QUOTE = CHR 0x22"
definition BACKSLASH :: char where "BACKSLASH = CHR 0x5C"

text \<open>The bytes written as a backslash and a letter, with their letters.\<close>

definition short_escapes :: "(char \<times> char) list" where
  "short_escapes =
     [(QUOTE, QUOTE), (BACKSLASH, BACKSLASH), (CHR 0x08, CHR ''b''), (CHR 0x0C, CHR ''f''), (CHR 0x0A, CHR ''n''),
      (CHR 0x0D, CHR ''r''), (CHR 0x09, CHR ''t'')]"

definition html_safe :: "char \<Rightarrow> bool" where
  "html_safe c \<longleftrightarrow> 32 \<le> chr_code c \<and> c \<notin> {QUOTE, BACKSLASH, CHR ''<'', CHR ''>'', CHR ''&''}"

definition json_char :: "char \<Rightarrow> string" where
  "json_char c =
     (if html_safe c then [c]
      else case map_of short_escapes c of
             Some l \<Rightarrow> [BACKSLASH, l]
           | None \<Rightarrow> [BACKSLASH, CHR ''u'', CHR ''0'', CHR ''0'', hex_char (chr_code c div 16), hex_char (chr_code c mod 16)])"

definition json_text :: "string \<Rightarrow> string" where
  "json_text s = QUOTE # concat (map json_char s) @ [QUOTE]"

definition unescape_letter :: "char \<Rightarrow> char option" where
  "unescape_letter l = (if l = CHR ''/'' then Some l else map_of (map (\<lambda>(c, l). (l, c)) short_escapes) l)"

text \<open>The rest of a text after its opening quote, and what follows the closing one.\<close>

fun unquote :: "string \<Rightarrow> (string \<times> string) option" where
  "unquote [] = None"
| "unquote (c # cs) =
     (if c = QUOTE then Some ([], cs)
      else if c = BACKSLASH then
        (case cs of
           [] \<Rightarrow> None
         | e # rest \<Rightarrow>
             if e = CHR ''u'' then
               (case rest of
                  z1 # z2 # h1 # h2 # rest' \<Rightarrow>
                    (case (z1 = CHR ''0'' \<and> z2 = CHR ''0'', hex_val h1, hex_val h2) of
                       (True, Some x, Some y) \<Rightarrow> map_option (\<lambda>(t, r). (char_of (16 * x + y) # t, r)) (unquote rest')
                     | _ \<Rightarrow> None)
                | _ \<Rightarrow> None)
             else (case unescape_letter e of
                     None \<Rightarrow> None
                   | Some x \<Rightarrow> map_option (\<lambda>(t, r). (x # t, r)) (unquote rest)))
      else if chr_code c < 32 then None
      else map_option (\<lambda>(t, r). (c # t, r)) (unquote cs))"

lemma letter_of_escape:
  "map_of short_escapes c = Some l \<Longrightarrow> unescape_letter l = Some c \<and> l \<noteq> CHR ''u''"
  by (auto simp: short_escapes_def unescape_letter_def QUOTE_def BACKSLASH_def split: if_splits)

lemma unquote_json_char: "unquote (json_char c @ s) = map_option (\<lambda>(t, r). (c # t, r)) (unquote s)"
proof (cases "html_safe c")
  case True
  then show ?thesis by (auto simp: json_char_def html_safe_def)
next
  case False
  have ne: "BACKSLASH \<noteq> QUOTE" by (simp add: BACKSLASH_def QUOTE_def)
  have d: "chr_code c div 16 < 16" using chr_code_less [of c] by simp
  have e: "char_of (16 * (chr_code c div 16) + chr_code c mod 16) = c" by (simp add: chr_code_def)
  show ?thesis
  proof (cases "map_of short_escapes c")
    case None
    then show ?thesis using False ne d e by (simp add: json_char_def hex_val_char)
  next
    case (Some l)
    then show ?thesis using False ne letter_of_escape [OF Some] by (simp add: json_char_def)
  qed
qed

lemma unquote_json_text: "unquote (concat (map json_char s) @ QUOTE # r) = Some (s, r)"
  by (induction s) (simp_all add: unquote_json_char)

section \<open>Arrays\<close>

definition json_value :: "db_value \<Rightarrow> string" where
  "json_value v = (case v of DInt n \<Rightarrow> itoa n | DText s \<Rightarrow> json_text s)"

definition json_Marshal :: "db_value list \<Rightarrow> string" where
  "json_Marshal vs = ''['' @ Join '','' (map json_value vs) @ '']''"

definition read_value :: "string \<Rightarrow> (db_value \<times> string) option" where
  "read_value s =
     (case s of
        [] \<Rightarrow> None
      | c # cs \<Rightarrow>
          if c = QUOTE then map_option (\<lambda>(t, r). (DText t, r)) (unquote cs)
          else map_option (\<lambda>n. (DInt (float64_of_int n), dropWhile (\<lambda>x. x \<noteq> CHR '','' \<and> x \<noteq> CHR '']'') s))
                 (ParseInt (takeWhile (\<lambda>x. x \<noteq> CHR '','' \<and> x \<noteq> CHR '']'') s)))"

text \<open>The elements up to the closing bracket, which must be the last byte; a text of \<open>n\<close> bytes has fewer elements.\<close>

fun read_values :: "nat \<Rightarrow> string \<Rightarrow> db_value list option" where
  "read_values 0 s = None"
| "read_values (Suc n) s =
     (case read_value s of
        None \<Rightarrow> None
      | Some (v, r) \<Rightarrow>
          if r = '']'' then Some [v]
          else case r of c # r' \<Rightarrow> (if c = CHR '','' then map_option ((#) v) (read_values n r') else None) | [] \<Rightarrow> None)"

definition json_Unmarshal :: "string \<Rightarrow> db_value list option" where
  "json_Unmarshal s =
     (case s of
        [] \<Rightarrow> None
      | c # cs \<Rightarrow> if c = CHR ''['' then (if cs = '']'' then Some [] else read_values (length s) cs) else None)"

text \<open>What a value is after the round trip.\<close>

definition value_read :: "db_value \<Rightarrow> db_value" where
  "value_read v = (case v of DInt n \<Rightarrow> DInt (float64_of_int n) | DText s \<Rightarrow> DText s)"

definition int64_value :: "db_value \<Rightarrow> bool" where
  "int64_value v = (case v of DInt n \<Rightarrow> int64_min \<le> n \<and> n \<le> int64_max | DText s \<Rightarrow> True)"

lemma itoa_plain: "c \<in> set (itoa n) \<Longrightarrow> c \<noteq> CHR '','' \<and> c \<noteq> CHR '']'' \<and> c \<noteq> QUOTE"
  using itoa_chars [of c n] by (auto simp: is_digit_def chr_code_def QUOTE_def)

lemma itoa_ne: "itoa n \<noteq> []"
  using nat_digits_ok by (auto simp: itoa_def)

lemma read_value_json:
  assumes "int64_value v" "c = CHR '','' \<or> c = CHR '']''"
  shows "read_value (json_value v @ c # r) = Some (value_read v, c # r)"
proof (cases v)
  case (DInt n)
  let ?P = "\<lambda>x. x \<noteq> CHR '','' \<and> x \<noteq> CHR '']''"
  have tw: "takeWhile ?P (itoa n @ c # r) = itoa n" "dropWhile ?P (itoa n @ c # r) = c # r"
    using assms(2) itoa_plain [of _ n] by (auto simp: takeWhile_append2 dropWhile_append2)
  obtain d ds where i: "itoa n = d # ds" using itoa_ne by (cases "itoa n") auto
  have "d \<noteq> QUOTE" using itoa_plain [of d n] i by simp
  then show ?thesis
    using assms(1) tw DInt ParseInt_itoa [of n] unfolding i by (simp add: read_value_def json_value_def i value_read_def int64_value_def)
next
  case (DText s)
  then show ?thesis by (simp add: read_value_def json_value_def json_text_def unquote_json_text value_read_def)
qed

lemma read_values_json:
  assumes "vs \<noteq> []" "\<forall>v\<in>set vs. int64_value v" "length vs \<le> n"
  shows "read_values n (Join '','' (map json_value vs) @ '']'') = Some (map value_read vs)"
  using assms
proof (induction vs arbitrary: n)
  case (Cons v vs)
  obtain m where n: "n = Suc m" using Cons.prems(3) by (cases n) auto
  show ?case
  proof (cases vs)
    case Nil
    then show ?thesis using Cons.prems(2) read_value_json [of v "CHR '']''" "[]"] by (simp add: n)
  next
    case (Cons w ws)
    then have "Join '','' (map json_value (v # vs)) @ '']'' = json_value v @ CHR '','' # Join '','' (map json_value vs) @ '']''"
      by simp
    then show ?thesis
      using Cons.IH [of m] Cons.prems read_value_json [of v "CHR '',''" "Join '','' (map json_value vs) @ '']''"] Cons
      by (simp add: n)
  qed
qed simp

lemma json_roundtrip_read:
  assumes "vs \<noteq> []" "\<forall>v\<in>set vs. int64_value v"
  shows "json_Unmarshal (json_Marshal vs) = Some (map value_read vs)"
proof -
  let ?J = "Join '','' (map json_value vs)"
  have ne: "json_value v \<noteq> []" for v by (simp add: json_value_def json_text_def itoa_ne split: db_value.split)
  have len: "length vs \<le> length ?J"
  proof (induction vs)
    case (Cons v vs)
    have "Suc 0 \<le> length (json_value v)" using ne by (simp add: Suc_le_eq)
    with Cons show ?case by (cases vs) simp_all
  qed simp
  then have "?J \<noteq> []" using assms(1) by auto
  then have "json_Unmarshal (json_Marshal vs) = read_values (length (json_Marshal vs)) (?J @ '']'')"
    by (simp add: json_Unmarshal_def json_Marshal_def del: read_values.simps)
  then show ?thesis using assms read_values_json [of vs "length (json_Marshal vs)"] len by (simp add: json_Marshal_def)
qed

end
