(* ===== verification/Pagination.thy ===== *)
theory Pagination
  imports Parser Json_Values
begin

text \<open>
  Result pages (\<open>src/pagination/pagination.go\<close>, \<open>src/pagination/cursor.go\<close>): the numbered page
  with its metadata, the cursor page built from the rows of a keyset query, and the Link
  header. The locale \<open>keyset_table\<close> collects what the keyset documentation asks of a table and
  its columns; in it a whole walk along the cursors is shown to enumerate the table.
\<close>

section \<open>Numbered pages\<close>

record 'r page =
  pg_Data :: "'r list"
  PageSize :: int
  pg_Count :: int
  TotalCount :: int
  PageCount :: int
  PageNumber :: int
  StartNumber :: int

definition NewPagination :: "'r list \<Rightarrow> int \<Rightarrow> int \<Rightarrow> int \<Rightarrow> 'r page" where
  "NewPagination items pageSize pageNumber totalCount =
     (let pageNumber = (if pageNumber < 1 then 1 else pageNumber);
          pageCount = (if pageSize > 0
             then (if go_mod totalCount pageSize \<noteq> 0 then go_div totalCount pageSize + 1 else go_div totalCount pageSize)
             else 0);
          startNumber = (if pageSize > 0 then wrap64 (wrap64 ((pageNumber - 1) * pageSize) + 1) else 0)
      in \<lparr>pg_Data = items, PageSize = pageSize, pg_Count = int (length items), TotalCount = totalCount,
          PageCount = pageCount, PageNumber = pageNumber, StartNumber = startNumber\<rparr>)"

section \<open>Cursor pages\<close>

record 'r cursorPage =
  cp_Data :: "'r list"
  NextCursor :: string
  PrevCursor :: string

definition NewCursorPage :: "('v list \<Rightarrow> string) \<Rightarrow> 'r list \<Rightarrow> keysetQuery \<Rightarrow> ('r \<Rightarrow> 'v list) \<Rightarrow> 'r cursorPage" where
  "NewCursorPage enc rows kq extract =
     (let limit = (if kq_Limit kq \<le> 0 then 10 else kq_Limit kq);
          hasExtra = int (length rows) > limit;
          kept = (if hasExtra then take (nat limit) rows else rows);
          kept = (if kq_Before kq then rev kept else kept)
      in if kept = [] then \<lparr>cp_Data = kept, NextCursor = [], PrevCursor = []\<rparr>
         else let fst_vals = extract (hd kept); last_vals = extract (last kept)
              in if kq_Before kq
                 then \<lparr>cp_Data = kept, NextCursor = EncodeCursor enc last_vals,
                       PrevCursor = (if hasExtra then EncodeCursor enc fst_vals else [])\<rparr>
                 else \<lparr>cp_Data = kept, NextCursor = (if hasExtra then EncodeCursor enc last_vals else []),
                       PrevCursor = (if kq_Cursor kq \<noteq> [] then EncodeCursor enc fst_vals else [])\<rparr>)"

text \<open>
  The Link header. \<open>set_params\<close> stands for \<open>net/url\<close>: parsing the base URL, setting the cursor
  and setting or deleting \<open>before\<close>, and printing it again; \<open>None\<close> when the URL does not parse.
\<close>

definition cursorLink :: "(string \<Rightarrow> string \<Rightarrow> bool \<Rightarrow> string option) \<Rightarrow> string \<Rightarrow> string \<Rightarrow> bool \<Rightarrow> string \<Rightarrow> string" where
  "cursorLink set_params baseURL cursor before rel =
     (case set_params baseURL cursor before of
        None \<Rightarrow> []
      | Some u \<Rightarrow> ''<'' @ u @ ''>; rel='' @ [CHR 0x22] @ rel @ [CHR 0x22])"

definition LinkHeader :: "(string \<Rightarrow> string \<Rightarrow> bool \<Rightarrow> string option) \<Rightarrow> 'r cursorPage \<Rightarrow> string \<Rightarrow> string" where
  "LinkHeader set_params p baseURL =
     (let next = (if NextCursor p \<noteq> [] then cursorLink set_params baseURL (NextCursor p) False ''next'' else []);
          prev = (if PrevCursor p \<noteq> [] then cursorLink set_params baseURL (PrevCursor p) True ''prev'' else [])
      in Join '', '' (filter (\<lambda>l. l \<noteq> []) [next, prev]))"

section \<open>Fetching a page and walking the cursors\<close>

definition row_key :: "keysetColumn list \<Rightarrow> ('r \<Rightarrow> string \<Rightarrow> 'v) \<Rightarrow> 'r \<Rightarrow> 'v list" where
  "row_key cols cols_of r = map (\<lambda>c. cols_of r (k_Name c)) cols"

definition fetch_page ::
  "('v::linorder list \<Rightarrow> string) \<Rightarrow> (string \<Rightarrow> 'v list option) \<Rightarrow> keysetColumn list \<Rightarrow> ('r \<Rightarrow> string \<Rightarrow> 'v) \<Rightarrow> 'r list
   \<Rightarrow> keysetQuery \<Rightarrow> 'r cursorPage" where
  "fetch_page enc dec cols cols_of table kq =
     NewCursorPage enc (select_rows (Keyset dec kq cols select_all) cols_of table) kq (row_key cols cols_of)"

fun walk ::
  "('v::linorder list \<Rightarrow> string) \<Rightarrow> (string \<Rightarrow> 'v list option) \<Rightarrow> keysetColumn list \<Rightarrow> ('r \<Rightarrow> string \<Rightarrow> 'v) \<Rightarrow> 'r list
   \<Rightarrow> int \<Rightarrow> nat \<Rightarrow> string \<Rightarrow> 'r list option" where
  "walk enc dec cols cols_of table limit 0 cursor = None"
| "walk enc dec cols cols_of table limit (Suc n) cursor =
     (let p = fetch_page enc dec cols cols_of table \<lparr>kq_Limit = limit, kq_Cursor = cursor, kq_Before = False\<rparr>
      in if NextCursor p = [] then Some (cp_Data p)
         else map_option (\<lambda>rest. cp_Data p @ rest) (walk enc dec cols cols_of table limit n (NextCursor p)))"

definition key_less :: "keysetColumn list \<Rightarrow> ('r \<Rightarrow> string \<Rightarrow> 'v::linorder) \<Rightarrow> 'r \<Rightarrow> 'r \<Rightarrow> bool" where
  "key_less cols cols_of a b = lex_less (map k_Desc cols) (row_key cols cols_of a) (row_key cols cols_of b)"

locale keyset_table =
  fixes enc :: "'v::linorder list \<Rightarrow> string" and dec :: "string \<Rightarrow> 'v list option"
    and cols :: "keysetColumn list" and cols_of :: "'r \<Rightarrow> string \<Rightarrow> 'v" and table :: "'r list"
  assumes cols_ok: "cols \<noteq> []" "keysetColumnsValid cols"
    and rows: "distinct table" "inj_on (row_key cols cols_of) (set table)"
    and coder: "r \<in> set table \<Longrightarrow> dec (enc (row_key cols cols_of r)) = Some (row_key cols cols_of r)"
      "enc (row_key cols cols_of r) \<noteq> []"

lemma b64_enc_Nil: "b64_enc bs = [] \<longleftrightarrow> bs = []"
  by (cases bs rule: b64_enc.cases) auto

sublocale keyset_table \<subseteq> strict_total "key_less cols cols_of" "set table"
proof
  show "\<not> key_less cols cols_of x x" for x by (simp add: key_less_def lex_less_irrefl)
  show "key_less cols cols_of x y \<Longrightarrow> key_less cols cols_of y z \<Longrightarrow> key_less cols cols_of x z" for x y z
    unfolding key_less_def by (rule lex_less_trans)
  show "x \<in> set table \<Longrightarrow> y \<in> set table \<Longrightarrow> key_less cols cols_of x y \<or> x = y \<or> key_less cols cols_of y x" for x y
    using lex_less_total [of "row_key cols cols_of x" "map k_Desc cols" "row_key cols cols_of y"] rows(2)
    by (auto simp: key_less_def row_key_def dest: inj_onD)
qed


context keyset_table
begin

abbreviation ordered :: "'r list" where
  "ordered \<equiv> sort_by (key_less cols cols_of) table"

lemma cursor_decodes:
  "r \<in> set table \<Longrightarrow> DecodeCursor dec (EncodeCursor enc (row_key cols cols_of r)) = Some (row_key cols cols_of r)"
  by (simp add: DecodeCursor_def EncodeCursor_def RawURL_roundtrip coder(1))

lemma cursor_not_empty: "EncodeCursor enc (row_key cols cols_of r) \<noteq> []"
  using coder(2) by (simp add: EncodeCursor_def RawURLEncode_def b64_enc_Nil)

lemma row_key_length: "length (row_key cols cols_of r) = length cols"
  by (simp add: row_key_def)

lemma order_fwd:
  "(\<lambda>a b. row_less (map (\<lambda>c. (k_Name c, k_Desc c)) cols) (cols_of a) (cols_of b)) = key_less cols cols_of"
  by (intro ext) (simp add: row_less_def key_less_def row_key_def comp_def)

lemma order_bwd:
  "(\<lambda>a b. row_less (map (\<lambda>c. (k_Name c, \<not> k_Desc c)) cols) (cols_of a) (cols_of b)) = (\<lambda>a b. key_less cols cols_of b a)"
proof (intro ext)
  fix a b
  show "row_less (map (\<lambda>c. (k_Name c, \<not> k_Desc c)) cols) (cols_of a) (cols_of b) = key_less cols cols_of b a"
    using lex_less_flip [of "row_key cols cols_of a" "map k_Desc cols" "row_key cols cols_of b"]
    by (simp add: row_less_def key_less_def row_key_def comp_def)
qed

lemma seek_fwd: "seek_holds (seek_groups cols (row_key cols cols_of r) False) (cols_of x) = key_less cols cols_of r x"
  by (subst seek_lex_order) (simp_all add: key_less_def row_key_def)

lemma seek_bwd: "seek_holds (seek_groups cols (row_key cols cols_of r) True) (cols_of x) = key_less cols cols_of x r"
proof -
  have "seek_holds (seek_groups cols (row_key cols cols_of r) True) (cols_of x) =
      lex_less (map Not (map k_Desc cols)) (row_key cols cols_of r) (row_key cols cols_of x)"
    by (subst seek_lex_order) (simp_all add: row_key_def comp_def)
  then show ?thesis
    using lex_less_flip [of "row_key cols cols_of r" "map k_Desc cols" "row_key cols cols_of x"]
    by (simp add: key_less_def row_key_def)
qed

lemma keyset_query:
  "Keyset dec \<lparr>kq_Limit = l, kq_Cursor = cur, kq_Before = bf\<rparr> cols select_all =
     (let q = (case if cur = [] then None else DecodeCursor dec cur of
                 None \<Rightarrow> select_all
               | Some vals \<Rightarrow> if length vals = length cols
                   then select_all\<lparr>q_where := [buildSeek cols vals bf], q_seek := Some (seek_groups cols vals bf)\<rparr>
                   else select_all)
      in q\<lparr>q_order := map (\<lambda>c. (k_Name c, k_Desc c \<noteq> bf)) cols,
           q_orderText := map (\<lambda>c. k_Name c @ '' '' @ (if k_Desc c \<noteq> bf then ''DESC'' else ''ASC'')) cols,
           q_limit := Some (wrap64 (keyset_limit \<lparr>kq_Limit = l, kq_Cursor = cur, kq_Before = bf\<rparr> + 1))\<rparr>)"
  using cols_ok by (auto simp: Keyset_def Let_def select_all_def split: option.splits)

lemma all_rows: "set ordered = set table" "sorted_wrt (key_less cols cols_of) ordered"
  using sort_by_set [OF rows(1) order_refl] sort_by_sorted [OF rows(1) order_refl] by auto

lemma wrap_limit: "0 < l \<Longrightarrow> l < int64_max \<Longrightarrow> nat (wrap64 (l + 1)) = Suc (nat l)"
  using wrap64_id [of "l + 1"] by (simp add: int64_min_def)

lemma select_first:
  assumes "0 < l" "l < int64_max"
  shows "select_rows (Keyset dec \<lparr>kq_Limit = l, kq_Cursor = [], kq_Before = False\<rparr> cols select_all) cols_of table
    = take (Suc (nat l)) ordered"
  using assms unfolding keyset_query select_rows_def Let_def
  by (simp add: select_all_def order_fwd keyset_limit_def wrap_limit)

lemma select_after:
  assumes "0 < l" "l < int64_max" "i < length ordered"
  shows "select_rows (Keyset dec \<lparr>kq_Limit = l, kq_Cursor = EncodeCursor enc (row_key cols cols_of (ordered ! i)),
      kq_Before = False\<rparr> cols select_all) cols_of table = take (Suc (nat l)) (drop (Suc i) ordered)"
proof -
  have r: "ordered ! i \<in> set table" using assms(3) all_rows(1) nth_mem by blast
  have "sort_by (key_less cols cols_of) (filter (key_less cols cols_of (ordered ! i)) table) = drop (Suc i) ordered"
    using sort_by_filter [OF rows(1) order_refl] above_nth [OF all_rows(2) assms(3)] by simp
  then show ?thesis using assms cursor_decodes [OF r] cursor_not_empty row_key_length
    unfolding keyset_query select_rows_def Let_def
    by (simp add: select_all_def order_fwd keyset_limit_def wrap_limit seek_fwd)
qed

lemma select_before:
  assumes "0 < l" "l < int64_max" "i < length ordered"
  shows "select_rows (Keyset dec \<lparr>kq_Limit = l, kq_Cursor = EncodeCursor enc (row_key cols cols_of (ordered ! i)),
      kq_Before = True\<rparr> cols select_all) cols_of table = take (Suc (nat l)) (rev (take i ordered))"
proof -
  have r: "ordered ! i \<in> set table" using assms(3) all_rows(1) nth_mem by blast
  let ?xs = "filter (\<lambda>x. key_less cols cols_of x (ordered ! i)) table"
  have "sort_by (\<lambda>a b. key_less cols cols_of b a) ?xs = rev (sort_by (key_less cols cols_of) ?xs)"
    using rows(1) by (intro sort_by_converse) auto
  also have "sort_by (key_less cols cols_of) ?xs = take i ordered"
    using sort_by_filter [OF rows(1) order_refl] below_nth [OF all_rows(2) assms(3)] by simp
  finally show ?thesis using assms cursor_decodes [OF r] cursor_not_empty row_key_length
    unfolding keyset_query select_rows_def Let_def
    by (simp add: select_all_def order_bwd keyset_limit_def wrap_limit seek_bwd)
qed

end


lemma page_forward:
  assumes "0 < l"
  shows "NewCursorPage enc (take (Suc (nat l)) xs) \<lparr>kq_Limit = l, kq_Cursor = cur, kq_Before = False\<rparr> ex =
    \<lparr>cp_Data = take (nat l) xs,
     NextCursor = (if nat l < length xs then EncodeCursor enc (ex (xs ! (nat l - 1))) else []),
     PrevCursor = (if xs = [] \<or> cur = [] then [] else EncodeCursor enc (ex (hd xs)))\<rparr>"
proof (cases "nat l < length xs")
  case True
  have "take (nat l) xs \<noteq> []" using True assms by (cases xs) auto
  then have "xs \<noteq> []" "last (take (nat l) xs) = xs ! (nat l - 1)" "hd (take (nat l) xs) = hd xs"
    using True assms by (auto simp: last_conv_nth hd_take)
  moreover have "l < int (length xs)" using True assms by linarith
  ultimately show ?thesis using True assms by (simp add: NewCursorPage_def Let_def min_def)
next
  case False
  then have "take (Suc (nat l)) xs = xs" "take (nat l) xs = xs" by simp_all
  moreover have "\<not> l < int (length xs)" using False assms by linarith
  ultimately show ?thesis using False assms by (simp add: NewCursorPage_def Let_def)
qed

lemma page_backward:
  assumes "0 < l" "0 < i" "i \<le> length xs"
  shows "NewCursorPage enc (take (Suc (nat l)) (rev (take i xs))) \<lparr>kq_Limit = l, kq_Cursor = cur, kq_Before = True\<rparr> ex =
    \<lparr>cp_Data = drop (i - nat l) (take i xs), NextCursor = EncodeCursor enc (ex (xs ! (i - 1))),
     PrevCursor = (if nat l < i then EncodeCursor enc (ex (xs ! (i - nat l))) else [])\<rparr>"
proof -
  let ?ys = "take i xs"
  have kept: "rev (take (nat l) (rev ?ys)) = drop (i - nat l) ?ys" using assms(3) by (simp add: take_rev)
  have ne: "drop (i - nat l) ?ys \<noteq> []" using assms by simp
  have h: "hd (drop (i - nat l) ?ys) = xs ! (i - nat l)" using assms by (simp add: hd_drop_conv_nth)
  have la: "last (drop (i - nat l) ?ys) = xs ! (i - 1)" using assms by (simp add: last_conv_nth)
  show ?thesis
  proof (cases "nat l < i")
    case True
    then have "length (take (Suc (nat l)) (rev ?ys)) = Suc (nat l)" using assms(3) by simp
    moreover have "take (nat l) (take (Suc (nat l)) (rev ?ys)) = take (nat l) (rev ?ys)" by (simp add: min_def)
    ultimately show ?thesis using True assms kept ne h la unfolding NewCursorPage_def Let_def by simp
  next
    case False
    then have "take (Suc (nat l)) (rev ?ys) = rev ?ys" "i - nat l = 0" using assms(3) by simp_all
    then show ?thesis using False assms kept ne h la unfolding NewCursorPage_def Let_def by simp
  qed
qed

context keyset_table
begin

lemma ordered_distinct: "distinct ordered"
  using sorted_distinct [OF all_rows(2)] .

lemma fetch_from:
  assumes "0 < l" "l < int64_max" "k \<le> length ordered"
    and "cur = (if k = 0 then [] else EncodeCursor enc (row_key cols cols_of (ordered ! (k - 1))))"
  shows "fetch_page enc dec cols cols_of table \<lparr>kq_Limit = l, kq_Cursor = cur, kq_Before = False\<rparr> =
    \<lparr>cp_Data = take (nat l) (drop k ordered),
     NextCursor = (if nat l < length ordered - k then EncodeCursor enc (row_key cols cols_of (ordered ! (k + nat l - 1))) else []),
     PrevCursor = (if k = 0 \<or> k = length ordered then [] else EncodeCursor enc (row_key cols cols_of (ordered ! k)))\<rparr>"
proof -
  have "select_rows (Keyset dec \<lparr>kq_Limit = l, kq_Cursor = cur, kq_Before = False\<rparr> cols select_all) cols_of table
      = take (Suc (nat l)) (drop k ordered)"
    using select_first [OF assms(1,2)] select_after [OF assms(1,2), of "k - 1"] assms(3,4) by (cases k) auto
  moreover have "cur \<noteq> []" if "k \<noteq> 0" using that assms(4) cursor_not_empty by simp
  moreover have "hd (drop k ordered) = ordered ! k" if "k < length ordered" using that by (simp add: hd_drop_conv_nth)
  moreover have "drop k ordered ! (nat l - 1) = ordered ! (k + nat l - 1)" if "nat l < length ordered - k"
    using that assms(1,3) by (simp add: nth_drop)
  ultimately show ?thesis using assms(1,3,4)
    by (auto simp: fetch_page_def page_forward)
qed

lemma walk_from:
  assumes "0 < l" "l < int64_max"
  shows "k \<le> length ordered \<Longrightarrow> length ordered - k < n \<Longrightarrow>
    cur = (if k = 0 then [] else EncodeCursor enc (row_key cols cols_of (ordered ! (k - 1)))) \<Longrightarrow>
    walk enc dec cols cols_of table l n cur = Some (drop k ordered)"
proof (induction n arbitrary: k cur)
  case (Suc n)
  note f = fetch_from [OF assms Suc.prems(1,3)]
  show ?case
  proof (cases "nat l < length ordered - k")
    case True
    have "walk enc dec cols cols_of table l n (EncodeCursor enc (row_key cols cols_of (ordered ! (k + nat l - 1))))
        = Some (drop (k + nat l) ordered)"
      by (rule Suc.IH) (use True Suc.prems assms(1) in auto)
    moreover have "take (nat l) (drop k ordered) @ drop (k + nat l) ordered = drop k ordered"
      by (metis add.commute append_take_drop_id drop_drop)
    ultimately show ?thesis using True f cursor_not_empty by (simp add: Let_def)
  next
    case False
    then show ?thesis using f by (simp add: Let_def)
  qed
qed simp

lemma fetch_back:
  assumes "0 < l" "l < int64_max" "0 < i" "i < length ordered"
  shows "fetch_page enc dec cols cols_of table
      \<lparr>kq_Limit = l, kq_Cursor = EncodeCursor enc (row_key cols cols_of (ordered ! i)), kq_Before = True\<rparr> =
    \<lparr>cp_Data = drop (i - nat l) (take i ordered), NextCursor = EncodeCursor enc (row_key cols cols_of (ordered ! (i - 1))),
     PrevCursor = (if nat l < i then EncodeCursor enc (row_key cols cols_of (ordered ! (i - nat l))) else [])\<rparr>"
  using assms select_before [OF assms(1,2,4)] by (simp add: fetch_page_def page_backward)

end

section \<open>Values that survive a cursor\<close>

definition cursor_safe :: "db_value \<Rightarrow> bool" where
  "cursor_safe v = (case v of DInt n \<Rightarrow> \<bar>n\<bar> < 2 ^ 53 | DText s \<Rightarrow> True)"

lemma json_roundtrip:
  assumes "vs \<noteq> []" "\<forall>v\<in>set vs. cursor_safe v"
  shows "json_Unmarshal (json_Marshal vs) = Some vs"
proof -
  have "\<forall>v\<in>set vs. int64_value v \<and> value_read v = v"
    using assms(2) by (auto simp: cursor_safe_def int64_value_def value_read_def float64_exact int64_min_def int64_max_def split: db_value.splits)
  then show ?thesis using assms(1) json_roundtrip_read [of vs] by (simp add: map_idI)
qed

section \<open>Properties\<close>

text \<open>
  C7. Following the next cursors enumerates the table. For a table whose keyset columns order
  the rows uniquely, and whose key values come back from an encoded cursor unchanged, starting
  without a cursor and asking for the next page until there is none returns every row exactly
  once, in the order of the columns; as many pages as rows are always enough.
\<close>

theorem keyset_walk_complete:
  assumes "cols \<noteq> []" "keysetColumnsValid cols" "distinct table" "inj_on (row_key cols cols_of) (set table)"
    and "\<And>r. r \<in> set table \<Longrightarrow> dec (enc (row_key cols cols_of r)) = Some (row_key cols cols_of r)"
    and "\<And>r. enc (row_key cols cols_of r) \<noteq> []" and "0 < l" "l < int64_max"
  shows "\<exists>out. walk enc dec cols cols_of table l (Suc (length table)) [] = Some out \<and>
    set out = set table \<and> distinct out \<and> sorted_wrt (key_less cols cols_of) out"
proof -
  have t: "keyset_table enc dec cols cols_of table" using assms(1-6) by unfold_locales auto
  note all = keyset_table.all_rows [OF t]
  have d: "distinct (sort_by (key_less cols cols_of) table)"
    using keyset_table.ordered_distinct [OF t] .
  have "length (sort_by (key_less cols cols_of) table) = length table"
    using all(1) d assms(3) by (metis distinct_card)
  then have "walk enc dec cols cols_of table l (Suc (length table)) [] = Some (sort_by (key_less cols cols_of) table)"
    using keyset_table.walk_from [OF t assms(7,8), of 0 "Suc (length table)" "[]"] by simp
  with all d show ?thesis by blast
qed


text \<open>A table ordered by a text column, descending, and the identifier.\<close>

definition id_column :: "keysetColumn list" where
  "id_column = [\<lparr>k_Name = ''name'', k_Desc = True\<rparr>, \<lparr>k_Name = ''id'', k_Desc = False\<rparr>]"

definition demo_cols :: "int \<times> string \<Rightarrow> string \<Rightarrow> db_value" where
  "demo_cols r c = (if c = ''id'' then DInt (fst r) else DText (snd r))"

definition demo_rows :: "(int \<times> string) list" where
  "demo_rows = [(1, ''b''), (2, ''c''), (3, ''b'')]"

lemma demo_key: "row_key id_column demo_cols r = [DText (snd r), DInt (fst r)]"
  by (simp add: row_key_def id_column_def demo_cols_def)

lemma demo_coder: "r \<in> set demo_rows \<Longrightarrow> json_Unmarshal (json_Marshal [DText (snd r), DInt (fst r)]) = Some [DText (snd r), DInt (fst r)]"
  by (rule json_roundtrip) (auto simp: demo_rows_def cursor_safe_def)

lemma id_column_valid: "keysetColumnsValid id_column"
  by (simp add: keysetColumnsValid_def id_column_def isSimpleIdentifier_def ident_char_def is_lower_def chr_code_def)

interpretation demo: keyset_table json_Marshal json_Unmarshal id_column demo_cols demo_rows
  using demo_coder id_column_valid
  by unfold_locales (auto simp: demo_key inj_on_def json_Marshal_def id_column_def [THEN arg_cong, of "\<lambda>x. x = []"] demo_rows_def
      intro!: prod_eqI)

theorem keyset_walk_complete_witness:
  "\<exists>out. walk json_Marshal json_Unmarshal id_column demo_cols demo_rows 2 4 [] = Some out \<and> set out = {(1, ''b''), (2, ''c''), (3, ''b'')} \<and> distinct out"
proof -
  have "\<exists>out. walk json_Marshal json_Unmarshal id_column demo_cols demo_rows 2 (Suc (length demo_rows)) [] = Some out \<and>
      set out = set demo_rows \<and> distinct out \<and> sorted_wrt (key_less id_column demo_cols) out"
    by (rule keyset_walk_complete [OF demo.cols_ok demo.rows demo.coder]) (simp_all add: int64_max_def)
  moreover have "Suc (length demo_rows) = 4" "set demo_rows = {(1, ''b''), (2, ''c''), (3, ''b'')}" by (auto simp: demo_rows_def)
  ultimately show ?thesis by metis
qed

text \<open>
  C36. Paging backward. From the cursor of the row at position i of the order the page before it
  holds the rows just in front, in display order: as many as the limit, or all of them. Its
  next cursor leads forward to exactly the row at position i again, and a previous cursor is
  given exactly when further rows lie before the page.
\<close>

theorem keyset_backward_page:
  assumes "keyset_table enc dec cols cols_of table" "0 < l" "l < int64_max"
    and "ord = sort_by (key_less cols cols_of) table" "0 < i" "i < length ord"
    and "p = fetch_page enc dec cols cols_of table
      \<lparr>kq_Limit = l, kq_Cursor = EncodeCursor enc (row_key cols cols_of (ord ! i)), kq_Before = True\<rparr>"
  shows "cp_Data p = drop (i - nat l) (take i ord) \<and> (PrevCursor p \<noteq> [] \<longleftrightarrow> nat l < i) \<and>
    cp_Data (fetch_page enc dec cols cols_of table \<lparr>kq_Limit = l, kq_Cursor = NextCursor p, kq_Before = False\<rparr>)
      = take (nat l) (drop i ord)"
proof -
  note t = assms(1)
  have p: "p = \<lparr>cp_Data = drop (i - nat l) (take i ord), NextCursor = EncodeCursor enc (row_key cols cols_of (ord ! (i - 1))),
     PrevCursor = (if nat l < i then EncodeCursor enc (row_key cols cols_of (ord ! (i - nat l))) else [])\<rparr>"
    using keyset_table.fetch_back [OF t assms(2,3,5)] assms(4,6,7) by simp
  have "cp_Data (fetch_page enc dec cols cols_of table \<lparr>kq_Limit = l,
      kq_Cursor = EncodeCursor enc (row_key cols cols_of (ord ! (i - 1))), kq_Before = False\<rparr>) = take (nat l) (drop i ord)"
    using keyset_table.fetch_from [OF t assms(2,3), of i] assms(4-6) by simp
  then show ?thesis using p keyset_table.cursor_not_empty [OF t] by simp
qed

theorem keyset_backward_page_witness:
  "cp_Data (fetch_page json_Marshal json_Unmarshal id_column demo_cols demo_rows
     \<lparr>kq_Limit = 1, kq_Cursor = EncodeCursor json_Marshal (row_key id_column demo_cols (3, ''b'')), kq_Before = True\<rparr>) = [(1, ''b'')]"
proof -
  have o: "sort_by (key_less id_column demo_cols) demo_rows = [(2, ''c''), (1, ''b''), (3, ''b'')]"
    by (simp add: sort_by_def demo_rows_def key_less_def demo_key) (simp add: id_column_def less_char_def)
  show ?thesis
    using keyset_backward_page [OF demo.keyset_table_axioms, of 1 _ 2, OF _ _ refl _ _ refl] by (simp add: o int64_max_def)
qed

definition page_rows :: "string query \<Rightarrow> 'r list \<Rightarrow> 'r list" where
  "page_rows q rows = take (nat (the (q_limit q))) (drop (nat (the (q_offset q))) rows)"

definition numbered :: "int \<Rightarrow> int \<Rightarrow> paginationQuery" where
  "numbered psize n = \<lparr>pq_Page = n, pq_Limit = psize, pq_Search = [], pq_Sort = [], pq_Order = []\<rparr>"

lemma chunks: "concat (map (\<lambda>k. take z (drop (k * z) xs)) [0..<m]) = take (m * z) xs"
proof (induction m)
  case (Suc m)
  have "take (m * z) xs @ take z (drop (m * z) xs) = take (m * z + z) xs" by (rule take_add [symmetric])
  with Suc show ?case by (simp add: add.commute)
qed simp

lemma page_count_enough:
  assumes "0 < z" "0 \<le> t"
  shows "t \<le> PageCount (NewPagination items z n t) * z \<and> PageCount (NewPagination items z n t) * z < t + z \<and>
    0 \<le> PageCount (NewPagination items z n t)"
proof -
  have eq: "t = z * (t div z) + t mod z" "0 \<le> t mod z" "t mod z < z" "0 \<le> t div z" using assms by (simp_all add: pos_imp_zdiv_nonneg_iff)
  show ?thesis
  proof (cases "t mod z = 0")
    case True
    then have "PageCount (NewPagination items z n t) = t div z"
      using assms by (simp add: NewPagination_def Let_def go_mod_nonneg go_div_nonneg)
    then show ?thesis using True eq assms(1) by (simp add: mult.commute)
  next
    case False
    then have c: "PageCount (NewPagination items z n t) = t div z + 1"
      using assms by (simp add: NewPagination_def Let_def go_mod_nonneg go_div_nonneg)
    have "(t div z + 1) * z = z * (t div z) + z" by (simp add: algebra_simps)
    then show ?thesis using False eq assms(1) unfolding c by linarith
  qed
qed

text \<open>
  Numbered pages partition the result. With a positive page size the pages 1 to
  \<open>PageCount\<close>, selected with the offset and limit that \<open>Paginate\<close> sets, are together the whole
  result in order; each but the last is full, and \<open>StartNumber\<close> is the position of the page's
  first row, counted from one.
\<close>

theorem pagination_pages_partition:
  assumes "0 < z" "int (length rows) + z \<le> int64_max" "pg = NewPagination items z n (int (length rows))"
  shows "concat (map (\<lambda>k. page_rows (fst (Paginate (numbered z (int k + 1)) [] select_all)) rows) [0..<nat (PageCount pg)]) = rows \<and>
    (1 \<le> n \<and> n \<le> PageCount pg \<longrightarrow> StartNumber pg = (n - 1) * z + 1 \<and>
       length (page_rows (fst (Paginate (numbered z n) [] select_all)) rows)
         = (if n < PageCount pg then nat z else length rows - nat ((n - 1) * z)))"
proof -
  let ?m = "PageCount pg"
  have m: "int (length rows) \<le> ?m * z" "?m * z < int (length rows) + z" "0 \<le> ?m"
    using page_count_enough [OF assms(1), of "int (length rows)" items n] assms(3) by simp_all
  have off: "wrap64 ((k - 1) * z) = (k - 1) * z" "(k - 1) * z < int (length rows)" "0 \<le> (k - 1) * z"
    if "1 \<le> k" "k \<le> ?m" for k
  proof -
    have "(k - 1) * z \<le> (?m - 1) * z" using that assms(1) by (intro mult_right_mono) auto
    also have "\<dots> < int (length rows)" using m(2) by (simp add: algebra_simps)
    finally show b: "(k - 1) * z < int (length rows)" .
    show z: "0 \<le> (k - 1) * z" using that assms(1) by simp
    show "wrap64 ((k - 1) * z) = (k - 1) * z" using b z assms(1,2) by (intro wrap64_id) (auto simp: int64_min_def)
  qed
  have pr: "page_rows (fst (Paginate (numbered z k) [] select_all)) rows = take (nat z) (drop (nat ((k - 1) * z)) rows)"
    if "1 \<le> k" "k \<le> ?m" for k
    using off [OF that] that assms(1)
    by (simp add: page_rows_def Paginate_def applySearch_def applySorting_def applyPaginationDefaults_def numbered_def)
  have "map (\<lambda>k. page_rows (fst (Paginate (numbered z (int k + 1)) [] select_all)) rows) [0..<nat ?m] =
      map (\<lambda>k. take (nat z) (drop (k * nat z) rows)) [0..<nat ?m]"
    using assms(1) by (auto simp: pr nat_mult_distrib)
  then have "concat (map (\<lambda>k. page_rows (fst (Paginate (numbered z (int k + 1)) [] select_all)) rows) [0..<nat ?m])
      = take (nat ?m * nat z) rows" by (simp only: chunks)
  also have "\<dots> = rows" using m(1,3) assms(1) by (simp add: nat_mult_distrib [symmetric] le_nat_iff)
  finally have 1: "concat (map (\<lambda>k. page_rows (fst (Paginate (numbered z (int k + 1)) [] select_all)) rows) [0..<nat ?m]) = rows" .
  have 2: "StartNumber pg = (n - 1) * z + 1" if "1 \<le> n" "n \<le> ?m"
  proof -
    have "wrap64 ((n - 1) * z + 1) = (n - 1) * z + 1"
      using off [OF that] assms(1,2) by (intro wrap64_id) (auto simp: int64_min_def)
    then show ?thesis using off(1) [OF that] that(1) assms(1) unfolding assms(3) by (simp add: NewPagination_def Let_def)
  qed
  have 3: "length (page_rows (fst (Paginate (numbered z n) [] select_all)) rows)
      = (if n < ?m then nat z else length rows - nat ((n - 1) * z))" if "1 \<le> n" "n \<le> ?m"
  proof -
    have "n * z \<le> (?m - 1) * z" if "n < ?m" using that assms(1) by (intro mult_right_mono) auto
    moreover have "(?m - 1) * z < int (length rows)" using m(2) by (simp add: algebra_simps)
    moreover have "n * z = (n - 1) * z + z" by (simp add: algebra_simps)
    moreover have "int (length rows) \<le> (n - 1) * z + z" if "\<not> n < ?m"
      using that \<open>n \<le> ?m\<close> m(1) calculation(3) by simp
    ultimately show ?thesis using pr [OF \<open>1 \<le> n\<close> \<open>n \<le> ?m\<close>] off(3) [OF \<open>1 \<le> n\<close> \<open>n \<le> ?m\<close>] assms(1) by auto
  qed
  show ?thesis using 1 2 3 by blast
qed

theorem pagination_pages_partition_witness:
  "concat (map (\<lambda>k. page_rows (fst (Paginate (numbered 2 (int k + 1)) [] select_all)) ''abcde'')
     [0..<nat (PageCount (NewPagination ''ab'' 2 1 5))]) = ''abcde''"
  using pagination_pages_partition [of 2 "''abcde''" "NewPagination ''ab'' 2 1 5" "''ab''" 1]
  by (simp add: int64_max_def)

section \<open>Keys beyond the precision of a float\<close>

text \<open>
  A cursor is decoded into interface values, so an integer key comes back as a float: an identifier
  of more than 53 bits is rounded. Here the cursor of the first row seeks after a smaller number, the
  next page is the same row with the same cursor, and following the cursors never ends.
\<close>

definition big_rows :: "(int \<times> string) list" where
  "big_rows = [(9007199254740993, ''b''), (9007199254740995, ''b'')]"

lemma big_float: "float64_of_int 9007199254740993 = 9007199254740992"
  by (simp_all add: float64_of_int_def float64_nat_def float_excess.simps Let_def)

lemma big_page:
  assumes "cur = [] \<or> cur = EncodeCursor json_Marshal [DText ''b'', DInt 9007199254740993]"
  shows "NextCursor (fetch_page json_Marshal json_Unmarshal id_column demo_cols big_rows \<lparr>kq_Limit = 1, kq_Cursor = cur, kq_Before = False\<rparr>) =
      EncodeCursor json_Marshal [DText ''b'', DInt 9007199254740993]"
proof -
  have dec: "DecodeCursor json_Unmarshal (EncodeCursor json_Marshal [DText ''b'', DInt 9007199254740993]) = Some [DText ''b'', DInt 9007199254740992]"
    using json_roundtrip_read [of "[DText ''b'', DInt 9007199254740993]"]
    by (simp add: DecodeCursor_def EncodeCursor_def RawURL_roundtrip big_float int64_value_def value_read_def int64_min_def int64_max_def)
  have ne: "EncodeCursor json_Marshal [DText ''b'', DInt 9007199254740993] \<noteq> []"
    by (simp add: EncodeCursor_def RawURLEncode_def b64_enc_Nil json_Marshal_def)
  have cols: "id_column \<noteq> []" "length id_column = 2" by (simp_all add: id_column_def)
  have ord: "map (\<lambda>c. (k_Name c, k_Desc c \<noteq> False)) id_column = [(''name'', True), (''id'', False)]" by (simp add: id_column_def)
  have gs: "seek_groups id_column [DText ''b'', DInt 9007199254740992] False =
      [[(''name'', CLt, DText ''b'')], [(''name'', CEq, DText ''b''), (''id'', CGt, DInt 9007199254740992)]]"
    by (simp add: seek_groups_def seek_group_def id_column_def)
  have w: "wrap64 2 = 2" by (simp add: wrap64_id int64_min_def int64_max_def)
  have sel: "select_rows (Keyset json_Unmarshal \<lparr>kq_Limit = 1, kq_Cursor = cur, kq_Before = False\<rparr> id_column select_all) demo_cols big_rows = big_rows"
    using assms
  proof
    assume "cur = []"
    then show ?thesis
      by (simp add: select_rows_def Keyset_def cols id_column_valid keyset_limit_def select_all_def ord w sort_by_def big_rows_def row_less_def demo_cols_def)
        (simp add: id_column_def)
  next
    assume "cur = EncodeCursor json_Marshal [DText ''b'', DInt 9007199254740993]"
    then show ?thesis
      by (simp add: select_rows_def Keyset_def cols id_column_valid keyset_limit_def select_all_def ord w dec ne gs seek_holds_def
          sort_by_def big_rows_def row_less_def demo_cols_def) (simp add: id_column_def)
  qed
  show ?thesis unfolding fetch_page_def sel
    by (simp add: NewCursorPage_def Let_def big_rows_def demo_key)
qed

theorem keyset_large_ids_never_end:
  "walk json_Marshal json_Unmarshal id_column demo_cols big_rows 1 n [] = None"
proof -
  have "EncodeCursor json_Marshal [DText ''b'', DInt 9007199254740993] \<noteq> []"
    by (simp add: EncodeCursor_def RawURLEncode_def b64_enc_Nil json_Marshal_def)
  then have "walk json_Marshal json_Unmarshal id_column demo_cols big_rows 1 n cur = None"
    if "cur = [] \<or> cur = EncodeCursor json_Marshal [DText ''b'', DInt 9007199254740993]" for cur
    using that
  proof (induction n arbitrary: cur)
    case (Suc n)
    show ?case using big_page [OF Suc.prems(2)] Suc.IH Suc.prems(1) by (simp add: Let_def)
  qed simp
  then show ?thesis by blast
qed

end
