(* ===== verification/I18n.thy ===== *)
theory I18n
  imports Go_Strings "HOL-Library.List_Lexorder"
begin

text \<open>
  Message catalogues (\<open>src/i18n/bundle.go\<close>), plural categories (\<open>src/i18n/plural.go\<close>) and the
  choice of a locale from \<open>Accept-Language\<close> (\<open>src/i18n/middleware.go\<close>). A JSON object is the list
  of its members in the order a Go map iteration visits them, so a statement about every list
  covers every order; a leaf carries the text \<open>fmt.Sprint\<close> prints for it, and so do the
  arguments of a message. The JSON decoder and \<open>strconv.ParseFloat\<close> are parameters, and quality
  values are rational numbers.
\<close>

section \<open>Strings\<close>

fun ReplaceAll :: "string \<Rightarrow> string \<Rightarrow> string \<Rightarrow> string" where
  "ReplaceAll old new [] = []"
| "ReplaceAll old new (c # s) =
     (if old \<noteq> [] \<and> take (length old) (c # s) = old
      then new @ ReplaceAll old new (drop (length old - 1) s)
      else c # ReplaceAll old new s)"

fun after_sub :: "string \<Rightarrow> string \<Rightarrow> string option" where
  "after_sub sub [] = (if sub = [] then Some [] else None)"
| "after_sub sub (c # s) =
     (if take (length sub) (c # s) = sub then Some (drop (length sub) (c # s)) else after_sub sub s)"

definition HasSuffix :: "string \<Rightarrow> string \<Rightarrow> bool" where
  "HasSuffix s suf \<longleftrightarrow> HasPrefix (rev s) (rev suf)"

definition TrimSuffix :: "string \<Rightarrow> string \<Rightarrow> string" where
  "TrimSuffix s suf = rev (TrimPrefix (rev s) (rev suf))"

section \<open>Catalogues\<close>

datatype jval = JLeaf string | JMap "(string \<times> jval) list"

type_synonym msg_args = "(string, string) gomap"

record Bundle =
  messages :: "(string, (string, string) gomap) gomap"
  fallback :: string

datatype bundle_option = WithFallback string

fun bundle_opt :: "bundle_option \<Rightarrow> Bundle \<Rightarrow> Bundle" where
  "bundle_opt (WithFallback locale) b = b\<lparr>fallback := locale\<rparr>"

definition i18n_New :: "bundle_option list \<Rightarrow> Bundle" where
  "i18n_New opts = apply_opts bundle_opt opts \<lparr>messages = [], fallback = ''en''\<rparr>"

definition bundle_Has :: "Bundle \<Rightarrow> string \<Rightarrow> bool" where
  "bundle_Has b locale \<longleftrightarrow> (case gm_get (messages b) locale of None \<Rightarrow> False | Some m \<Rightarrow> gm_len m > 0)"

definition bundle_Locales :: "Bundle \<Rightarrow> string list" where
  "bundle_Locales b = sort_key (map chr_code) (gm_keys (messages b))"

fun flatten :: "string \<Rightarrow> (string \<times> jval) list \<Rightarrow> (string, string) gomap \<Rightarrow> (string, string) gomap" where
  "flatten prefix [] out = out"
| "flatten prefix ((k, v) # rest) out =
     (let key = (if prefix \<noteq> [] then prefix @ ''.'' @ k else k)
      in case v of
           JMap child \<Rightarrow> flatten prefix rest (flatten key child out)
         | JLeaf s \<Rightarrow> flatten prefix rest (gm_put out key s))"

definition bundle_LoadMap :: "string \<Rightarrow> (string \<times> jval) list \<Rightarrow> Bundle \<Rightarrow> Bundle" where
  "bundle_LoadMap locale nested b =
     (let m = (case gm_get (messages b) locale of None \<Rightarrow> [] | Some m \<Rightarrow> m)
      in b\<lparr>messages := gm_put (messages b) locale (flatten [] nested m)\<rparr>)"

datatype i18n_err = ParseErr string string | ReadDirErr string | ReadErr string string

definition bundle_LoadJSON ::
  "(string \<Rightarrow> string + (string \<times> jval) list) \<Rightarrow> string \<Rightarrow> string \<Rightarrow> Bundle \<Rightarrow> Bundle \<times> i18n_err option" where
  "bundle_LoadJSON unmarshal locale data b =
     (case unmarshal data of
        Inl e \<Rightarrow> (b, Some (ParseErr locale e))
      | Inr nested \<Rightarrow> (bundle_LoadMap locale nested b, None))"

text \<open>The directory: its entries with a flag for subdirectories, and the contents of a file.\<close>

fun LoadFS_loop ::
  "(string \<Rightarrow> string + (string \<times> jval) list) \<Rightarrow> (string \<Rightarrow> string + string) \<Rightarrow> (string \<times> bool) list \<Rightarrow>
   Bundle \<Rightarrow> Bundle \<times> i18n_err option" where
  "LoadFS_loop unmarshal readFile [] b = (b, None)"
| "LoadFS_loop unmarshal readFile ((name, isDir) # es) b =
     (if isDir \<or> \<not> HasSuffix name ''.json'' then LoadFS_loop unmarshal readFile es b
      else case readFile name of
             Inl e \<Rightarrow> (b, Some (ReadErr name e))
           | Inr data \<Rightarrow>
               (case bundle_LoadJSON unmarshal (TrimSuffix name ''.json'') data b of
                  (b', Some e) \<Rightarrow> (b', Some e)
                | (b', None) \<Rightarrow> LoadFS_loop unmarshal readFile es b'))"

definition bundle_LoadFS ::
  "(string \<Rightarrow> string + (string \<times> jval) list) \<Rightarrow> string + (string \<times> bool) list \<Rightarrow> (string \<Rightarrow> string + string) \<Rightarrow>
   Bundle \<Rightarrow> Bundle \<times> i18n_err option" where
  "bundle_LoadFS unmarshal readDir readFile b =
     (case readDir of
        Inl e \<Rightarrow> (b, Some (ReadDirErr e))
      | Inr entries \<Rightarrow> LoadFS_loop unmarshal readFile entries b)"

section \<open>Messages\<close>

definition bundle_lookup :: "Bundle \<Rightarrow> string \<Rightarrow> string \<Rightarrow> string option" where
  "bundle_lookup b locale key =
     (case gm_get (messages b) locale of None \<Rightarrow> None | Some m \<Rightarrow> gm_get m key)"

definition substitute :: "string \<Rightarrow> msg_args \<Rightarrow> string" where
  "substitute s args =
     (if length args = 0 then s else fold (\<lambda>(k, v) s. ReplaceAll (''{'' @ k @ ''}'') v s) args s)"

definition bundle_Translate :: "Bundle \<Rightarrow> string \<Rightarrow> string \<Rightarrow> msg_args \<Rightarrow> string" where
  "bundle_Translate b locale key args =
     (case bundle_lookup b locale key of
        Some s \<Rightarrow> substitute s args
      | None \<Rightarrow>
          if locale \<noteq> fallback b
          then case bundle_lookup b (fallback b) key of
                 Some s \<Rightarrow> substitute s args
               | None \<Rightarrow> key
          else key)"

text \<open>The magnitude of the least integer is itself; remainders take the sign of the dividend.\<close>

definition pluralCategory :: "string \<Rightarrow> int \<Rightarrow> string" where
  "pluralCategory locale n0 =
     (let n = (if n0 < 0 then wrap64 (- n0) else n0);
          lang = ToLower (case Cut CHR ''-'' locale of Some (l, _) \<Rightarrow> l | None \<Rightarrow> locale);
          mod10 = go_mod n 10; mod100 = go_mod n 100
      in if lang \<in> {''id'', ''ja'', ''ko'', ''zh'', ''th'', ''vi''} then ''other''
         else if lang = ''fr'' then (if n = 0 \<or> n = 1 then ''one'' else ''other'')
         else if lang \<in> {''ru'', ''uk''} then
           (if mod10 = 1 \<and> mod100 \<noteq> 11 then ''one''
            else if mod10 \<ge> 2 \<and> mod10 \<le> 4 \<and> (mod100 < 12 \<or> mod100 > 14) then ''few''
            else ''many'')
         else if lang = ''pl'' then
           (if n = 1 then ''one''
            else if mod10 \<ge> 2 \<and> mod10 \<le> 4 \<and> (mod100 < 12 \<or> mod100 > 14) then ''few''
            else ''many'')
         else if lang = ''ar'' then
           (if n = 0 then ''zero''
            else if n = 1 then ''one''
            else if n = 2 then ''two''
            else if mod100 \<ge> 3 \<and> mod100 \<le> 10 then ''few''
            else if mod100 \<ge> 11 \<and> mod100 \<le> 99 then ''many''
            else ''other'')
         else (if n = 1 then ''one'' else ''other''))"

definition merge_args :: "int \<Rightarrow> msg_args \<Rightarrow> msg_args" where
  "merge_args n args = fold (\<lambda>(k, v) m. gm_put m k v) args [(''n'', itoa n)]"

definition bundle_Plural :: "Bundle \<Rightarrow> string \<Rightarrow> string \<Rightarrow> int \<Rightarrow> msg_args \<Rightarrow> string" where
  "bundle_Plural b locale key n args =
     (let merged = merge_args n args;
          cat = pluralCategory locale n;
          full = key @ ''.'' @ cat
      in case bundle_lookup b locale full of
           Some s \<Rightarrow> substitute s merged
         | None \<Rightarrow> bundle_Translate b locale (key @ ''.other'') merged)"

section \<open>Accept-Language\<close>

type_synonym pref = "string \<times> rat"

definition parse_pref :: "(string \<Rightarrow> rat option) \<Rightarrow> string \<Rightarrow> pref" where
  "parse_pref parseFloat part =
     (case Cut CHR '';'' part of
        None \<Rightarrow> (ToLower part, 1)
      | Some (t, params) \<Rightarrow>
          (ToLower (TrimSpace t),
           case after_sub ''q='' (CHR '';'' # params) of
             None \<Rightarrow> 1
           | Some r \<Rightarrow> (case parseFloat r of Some f \<Rightarrow> f | None \<Rightarrow> 1)))"

definition header_prefs :: "(string \<Rightarrow> rat option) \<Rightarrow> string \<Rightarrow> pref list" where
  "header_prefs parseFloat header =
     map (parse_pref parseFloat) (filter (\<lambda>p. p \<noteq> []) (map TrimSpace (Split CHR '','' header)))"

fun first_match :: "Bundle \<Rightarrow> pref list \<Rightarrow> string" where
  "first_match b [] = []"
| "first_match b ((tag, q) # ps) =
     (if bundle_Has b tag then tag
      else case Cut CHR ''-'' tag of
             Some (base, _) \<Rightarrow> if bundle_Has b base then base else first_match b ps
           | None \<Rightarrow> first_match b ps)"

definition matchAcceptLanguage :: "(string \<Rightarrow> rat option) \<Rightarrow> Bundle \<Rightarrow> string \<Rightarrow> string" where
  "matchAcceptLanguage parseFloat b header =
     (if header = [] then []
      else first_match b (sort_key (\<lambda>p. - snd p) (header_prefs parseFloat header)))"

section \<open>Filling templates\<close>

text \<open>A message as a translator writes it: text without braces, and placeholders.\<close>

datatype seg = Lit string | Hole string

abbreviation plain :: "string \<Rightarrow> bool" where
  "plain s \<equiv> CHR ''{'' \<notin> set s \<and> CHR ''}'' \<notin> set s"

fun seg_plain :: "seg \<Rightarrow> bool" where
  "seg_plain (Lit w) = plain w"
| "seg_plain (Hole k) = plain k"

fun print_seg :: "seg \<Rightarrow> string" where
  "print_seg (Lit w) = w"
| "print_seg (Hole k) = ''{'' @ k @ ''}''"

definition print_msg :: "seg list \<Rightarrow> string" where
  "print_msg segs = concat (map print_seg segs)"

fun fill :: "msg_args \<Rightarrow> seg \<Rightarrow> seg" where
  "fill args (Lit w) = Lit w"
| "fill args (Hole k) = (case gm_get args k of None \<Rightarrow> Hole k | Some v \<Rightarrow> Lit v)"

lemma ReplaceAll_skip:
  "CHR ''{'' \<notin> set w \<Longrightarrow> ReplaceAll (CHR ''{'' # k) v (w @ s) = w @ ReplaceAll (CHR ''{'' # k) v s"
  by (induction w) auto

lemma plain_prefix:
  assumes "CHR ''}'' \<notin> set k" "CHR ''}'' \<notin> set k'"
  shows "take (length k + 1) (k' @ CHR ''}'' # s) = k @ ''}'' \<longleftrightarrow> k' = k"
proof
  assume "take (length k + 1) (k' @ CHR ''}'' # s) = k @ ''}''"
  then have "k' @ CHR ''}'' # s = k @ CHR ''}'' # drop (length k + 1) (k' @ CHR ''}'' # s)"
    by (metis append_Cons append_Nil append_assoc append_take_drop_id)
  then have "Cut CHR ''}'' (k' @ CHR ''}'' # s) = Cut CHR ''}'' (k @ CHR ''}'' # drop (length k + 1) (k' @ CHR ''}'' # s))"
    by simp
  then show "k' = k" using assms by (simp add: Cut_append)
qed simp

lemma ReplaceAll_hole:
  assumes "plain k" "plain k'"
  shows "ReplaceAll (''{'' @ k @ ''}'') v (print_seg (Hole k') @ s) =
    (if k' = k then v else print_seg (Hole k')) @ ReplaceAll (''{'' @ k @ ''}'') v s"
proof (cases "k' = k")
  case False
  then have "take (length k + 1) (k' @ CHR ''}'' # s) \<noteq> k @ ''}''" using assms plain_prefix by blast
  then show ?thesis using False assms ReplaceAll_skip [of "k' @ ''}''" "k @ ''}''" v s] by simp
qed simp

lemma ReplaceAll_print:
  assumes "plain k"
  shows "list_all seg_plain segs \<Longrightarrow>
    ReplaceAll (''{'' @ k @ ''}'') v (print_msg segs) = print_msg (map (fill [(k, v)]) segs)"
proof (induction segs)
  case (Cons x segs)
  show ?case
  proof (cases x)
    case (Lit w)
    then show ?thesis using Cons ReplaceAll_skip [of w "k @ ''}''" v "print_msg segs"] by (simp add: print_msg_def)
  next
    case (Hole k')
    then show ?thesis using Cons ReplaceAll_hole [OF assms, of k' v "print_msg segs"] by (simp add: print_msg_def)
  qed
qed (simp add: print_msg_def)

lemma fill_plain: "seg_plain x \<Longrightarrow> \<forall>(k, v)\<in>set args. plain v \<Longrightarrow> seg_plain (fill args x)"
  by (cases x) (auto simp: gm_get_def split: option.split dest: map_of_SomeD)

lemma substitute_print:
  assumes "\<forall>(k, v)\<in>set args. plain k \<and> plain v" "gm_ok args"
  shows "list_all seg_plain segs \<Longrightarrow> substitute (print_msg segs) args = print_msg (map (fill args) segs)"
  using assms
proof (induction args arbitrary: segs)
  case Nil
  have "fill [] x = x" for x by (cases x) simp_all
  then show ?case by (simp add: substitute_def)
next
  case (Cons a args)
  obtain k v where a: "a = (k, v)" by fastforce
  have "list_all seg_plain (map (fill [(k, v)]) segs)"
    using Cons.prems a fill_plain [of _ "[(k, v)]"] by (auto simp: list_all_iff)
  then have "substitute (print_msg (map (fill [(k, v)]) segs)) args = print_msg (map (fill args) (map (fill [(k, v)]) segs))"
    using Cons by (auto simp: gm_ok_def)
  moreover have "fill args (fill [(k, v)] x) = fill (a # args) x" for x using a by (cases x) auto
  ultimately show ?case using Cons.prems a
    by (simp add: substitute_def ReplaceAll_print [of k _ v, simplified] comp_def split: if_splits)
qed

section \<open>Loading\<close>

text \<open>The leaves of a nested object under their dotted paths.\<close>

fun leaves :: "string \<Rightarrow> (string \<times> jval) list \<Rightarrow> (string \<times> string) list" where
  "leaves prefix [] = []"
| "leaves prefix ((k, v) # rest) =
     (let key = (if prefix \<noteq> [] then prefix @ ''.'' @ k else k)
      in (case v of JMap child \<Rightarrow> leaves key child | JLeaf s \<Rightarrow> [(key, s)]) @ leaves prefix rest)"

lemma flatten_leaves: "flatten prefix nested out = fold (\<lambda>(k, v) m. gm_put m k v) (leaves prefix nested) out"
  by (induction prefix nested out rule: flatten.induct) (auto simp: Let_def split: jval.split)

lemma gm_get_fold_put:
  "distinct (map fst kvs) \<Longrightarrow>
    gm_get (fold (\<lambda>(k, v) m. gm_put m k v) kvs m) k = (case map_of kvs k of Some v \<Rightarrow> Some v | None \<Rightarrow> gm_get m k)"
proof (induction kvs arbitrary: m)
  case (Cons a kvs)
  then have "map_of kvs (fst a) = None" by (auto simp: map_of_eq_None_iff)
  then show ?case using Cons by (cases a) (auto split: option.splits)
qed simp

lemma fallback_LoadMap [simp]: "fallback (bundle_LoadMap l nested b) = fallback b"
  by (simp add: bundle_LoadMap_def Let_def)

lemma lookup_LoadMap:
  assumes "distinct (map fst (leaves [] nested))"
  shows "bundle_lookup (bundle_LoadMap locale nested b) l key =
    (if l = locale
     then case map_of (leaves [] nested) key of Some s \<Rightarrow> Some s | None \<Rightarrow> bundle_lookup b l key
     else bundle_lookup b l key)"
  by (simp add: bundle_lookup_def bundle_LoadMap_def flatten_leaves gm_get_fold_put [OF assms] Let_def split: option.split)

section \<open>Choosing a locale\<close>

text \<open>The locale a tag offers: itself when it is loaded, else its base language.\<close>

definition offered :: "Bundle \<Rightarrow> string \<Rightarrow> string option" where
  "offered b tag =
     (if bundle_Has b tag then Some tag
      else case Cut CHR ''-'' tag of
             Some (base, _) \<Rightarrow> if bundle_Has b base then Some base else None
           | None \<Rightarrow> None)"

lemma first_match_find:
  "first_match b ps =
    (case filter (\<lambda>p. offered b (fst p) \<noteq> None) ps of [] \<Rightarrow> [] | p # _ \<Rightarrow> the (offered b (fst p)))"
  by (induction b ps rule: first_match.induct) (auto simp: offered_def split: option.splits)

lemma hd_sort_key:
  fixes f :: "'a \<Rightarrow> 'b::linorder"
  assumes "xs \<noteq> []"
  shows "hd (sort_key f xs) = hd (filter (\<lambda>x. f x = Min (f ` set xs)) xs)"
proof -
  obtain y ys where s: "sort_key f xs = y # ys"
    using assms by (cases "sort_key f xs") (metis length_0_conv length_sort, blast)
  have "set xs = insert y (set ys)" using s by (metis list.simps(15) set_sort)
  moreover have "\<forall>z\<in>set ys. f y \<le> f z" using sorted_sort_key [of f xs] s by auto
  ultimately have m: "f y = Min (f ` set xs)" by (auto intro!: Min_eqI [symmetric])
  have "filter (\<lambda>x. f x = Min (f ` set xs)) (sort_key f xs) = filter (\<lambda>x. f x = Min (f ` set xs)) xs"
    by (rule sort_key_stable)
  then show ?thesis using s m by (metis (mono_tags, lifting) filter.simps(2) list.sel(1))
qed

lemma offered_Has: "offered b tag = Some l \<Longrightarrow> bundle_Has b l"
  by (auto simp: offered_def split: if_splits option.splits)

lemma matchAcceptLanguage_Has:
  "matchAcceptLanguage parseFloat b header \<noteq> [] \<Longrightarrow> bundle_Has b (matchAcceptLanguage parseFloat b header)"
proof -
  have "first_match b ps \<noteq> [] \<Longrightarrow> bundle_Has b (first_match b ps)" for ps
    by (induction b ps rule: first_match.induct) (auto split: option.splits)
  then show "matchAcceptLanguage parseFloat b header \<noteq> [] \<Longrightarrow> bundle_Has b (matchAcceptLanguage parseFloat b header)"
    by (auto simp: matchAcceptLanguage_def split: if_splits)
qed

section \<open>Properties\<close>

text \<open>
  Messages. Loading a nested catalogue makes every leaf available under its dotted path: a
  message written with placeholders is returned with each placeholder that has an argument
  filled in and the others left alone, in whatever order the arguments are visited; other
  locales and keys are not affected. A locale without the message uses the fallback locale's,
  and a key that neither has comes back as it is.
\<close>

theorem i18n_translation:
  assumes "distinct (map fst (leaves [] nested))" "map_of (leaves [] nested) key = Some (print_msg segs)"
    and "list_all seg_plain segs" "\<forall>(k, v)\<in>set args. plain k \<and> plain v" "gm_ok args"
  shows "let b' = bundle_LoadMap locale nested b; text = print_msg (map (fill args) segs)
    in bundle_Translate b' locale key args = text \<and>
       (set args' = set args \<and> gm_ok args' \<longrightarrow> bundle_Translate b' locale key args' = text) \<and>
       (fallback b = locale \<and> bundle_lookup b l key = None \<longrightarrow> bundle_Translate b' l key args = text) \<and>
       (bundle_lookup b l key' = None \<and> bundle_lookup b (fallback b) key' = None \<and> key' \<notin> fst ` set (leaves [] nested)
          \<longrightarrow> bundle_Translate b' l key' args = key') \<and>
       (l \<noteq> locale \<longrightarrow> bundle_lookup b' l = bundle_lookup b l)"
proof -
  let ?b = "bundle_LoadMap locale nested b"
  note look = lookup_LoadMap [OF assms(1), of _ b]
  have get: "gm_get args' = gm_get args" if "set args' = set args" "gm_ok args'"
    using that assms(5) map_of_inject_set [of args' args] unfolding gm_ok_def gm_get_def by auto
  then have fill_perm: "fill args' = fill args" if "set args' = set args" "gm_ok args'"
    using that by (intro ext) (metis fill.simps seg.exhaust)
  have main: "bundle_Translate ?b locale key a = print_msg (map (fill a) segs)"
    if "set a = set args" "gm_ok a" for a
    using that assms by (simp add: bundle_Translate_def look substitute_print)
  have "key' \<notin> fst ` set (leaves [] nested) \<Longrightarrow> map_of (leaves [] nested) key' = None"
    by (simp add: map_of_eq_None_iff)
  then show ?thesis using main [of args'] main [of args] assms(2-5) fill_perm
    by (auto simp: Let_def bundle_Translate_def look substitute_print split: option.splits)
qed

theorem i18n_translation_witness:
  "bundle_Translate (bundle_LoadMap ''en'' [(''greet'', JMap [(''hi'', JLeaf ''Hi {name}!'')])] (i18n_New []))
     ''fr'' ''greet.hi'' [(''name'', ''Ann'')] = ''Hi Ann!''"
  using i18n_translation [of "[(''greet'', JMap [(''hi'', JLeaf ''Hi {name}!'')])]" "''greet.hi''"
      "[Lit ''Hi '', Hole ''name'', Lit ''!'']" "[(''name'', ''Ann'')]" "''en''" "i18n_New []" "[]" "''fr''"]
  by (simp add: print_msg_def gm_ok_def i18n_New_def bundle_lookup_def Let_def)

text \<open>
  Content negotiation. A header that offers no loaded locale selects none; otherwise the
  selected locale is loaded and is the one offered, directly or through its base language, by
  the first tag of the highest quality among the tags that offer one.
\<close>

theorem i18n_accept_language:
  assumes "header \<noteq> []"
  shows "let prefs = filter (\<lambda>p. offered b (fst p) \<noteq> None) (header_prefs parseFloat header);
       v = matchAcceptLanguage parseFloat b header
     in if prefs = [] then v = []
        else let best = hd (filter (\<lambda>p. snd p = Max (snd ` set prefs)) prefs)
             in offered b (fst best) = Some v \<and> bundle_Has b v"
proof -
  define prefs where "prefs = filter (\<lambda>p. offered b (fst p) \<noteq> None) (header_prefs parseFloat header)"
  let ?f = "\<lambda>p :: pref. - snd p"
  have v: "matchAcceptLanguage parseFloat b header =
      (case sort_key ?f prefs of [] \<Rightarrow> [] | p # _ \<Rightarrow> the (offered b (fst p)))"
    using assms by (simp add: matchAcceptLanguage_def first_match_find prefs_def filter_sort)
  show ?thesis
  proof (cases "prefs = []")
    case True
    then show ?thesis using v by (simp add: prefs_def)
  next
    case False
    have "Min (?f ` set prefs) = - Max (snd ` set prefs)"
    proof (rule Min_eqI)
      have "Max (snd ` set prefs) \<in> snd ` set prefs" using False by (intro Max_in) auto
      then show "- Max (snd ` set prefs) \<in> ?f ` set prefs" by force
    qed (auto intro!: Max_ge rev_image_eqI)
    then have h: "hd (sort_key ?f prefs) = hd (filter (\<lambda>p. snd p = Max (snd ` set prefs)) prefs)"
      using hd_sort_key [OF False, of ?f] by simp
    obtain p ps where s: "sort_key ?f prefs = p # ps"
      using False by (cases "sort_key ?f prefs") (metis length_0_conv length_sort, blast)
    then have "p \<in> set prefs" by (metis list.set_intros(1) set_sort)
    then obtain l where l: "offered b (fst p) = Some l" by (auto simp: prefs_def)
    then show ?thesis using False v h s offered_Has [OF l] unfolding prefs_def [symmetric] Let_def by simp
  qed
qed

theorem i18n_accept_language_witness:
  "offered (bundle_LoadMap ''id'' [(''a'', JLeaf ''b'')] (i18n_New [])) ''id-id'' =
     Some (matchAcceptLanguage (\<lambda>s. None) (bundle_LoadMap ''id'' [(''a'', JLeaf ''b'')] (i18n_New [])) ''fr, id-ID'')"
proof -
  let ?b = "bundle_LoadMap ''id'' [(''a'', JLeaf ''b'')] (i18n_New [])"
  have h: "filter (\<lambda>p. offered ?b (fst p) \<noteq> None) (header_prefs (\<lambda>s. None) ''fr, id-ID'') = [(''id-id'', 1)]"
    by code_simp
  show ?thesis using i18n_accept_language [of "''fr, id-ID''" ?b "\<lambda>s. None"] unfolding h by (simp add: Let_def)
qed

section \<open>A deviation\<close>

text \<open>
  The tags of the header are lowered before they are looked up, so a locale loaded under a name
  with an upper-case letter, such as \<open>pt-BR\<close>, is never selected by a header.
\<close>

lemma Cut_lower: "ToLower (ToLower s) = ToLower s"
proof -
  have "to_lower (to_lower c) = to_lower c" for c by (auto simp: to_lower_def is_upper_def)
  then show ?thesis by (simp add: ToLower_def)
qed

lemma accept_language_selects_lower_case:
  "ToLower (matchAcceptLanguage parseFloat b header) = matchAcceptLanguage parseFloat b header"
proof -
  have "ToLower (first_match b ps) = first_match b ps" if "\<forall>p\<in>set ps. ToLower (fst p) = fst p" for ps
    using that
  proof (induction b ps rule: first_match.induct)
    case (2 b t q ps)
    have "ToLower base = base" if "Cut CHR ''-'' t = Some (base, r)" for base r
      using 2(3) that by (auto simp: Cut_Some ToLower_def)
    with 2 show ?case by (auto split: option.splits)
  qed (simp add: ToLower_def)
  moreover have "ToLower (fst (parse_pref parseFloat part)) = fst (parse_pref parseFloat part)" for part
    by (auto simp: parse_pref_def Cut_lower split: option.split)
  ultimately show ?thesis by (auto simp: matchAcceptLanguage_def header_prefs_def ToLower_def)
qed

end
