(* ===== verification/Api_Layer.thy ===== *)
theory Api_Layer
  imports I18n
begin

text \<open>
  The request layer: typed errors and their rendering (\<open>src/apierror/apierror.go\<close>), the response
  envelope (\<open>src/response/response.go\<close>), the context, recovery, logging and metrics middleware
  (\<open>src/middleware\<close>, \<open>src/context/ctx.go\<close>, \<open>src/metrics/metrics.go\<close>), binding
  (\<open>src/bind/bind.go\<close>), API keys (\<open>src/apikey\<close>) and locales (\<open>src/i18n/middleware.go\<close>). A handler maps the request context to a new one and either returns, with or
  without an error, or panics; \<open>c.Next()\<close> is the rest of the chain, a handler the middleware is
  given. The values kept in the request locals are strings, the request context, the
  identity of an API key and the message bundle. The random identifier of a request, SHA-256 and the parsers of the
  framework are parameters.
\<close>

section \<open>Errors and the response envelope\<close>

text \<open>An error value with its chain of causes: \<open>errors.As\<close> follows \<open>Unwrap\<close>.\<close>

datatype go_err =
    ApiErr int string string "string option" "go_err option"   \<comment> \<open>Status, Code, Message, Details, cause\<close>
  | FiberErr int string
  | PlainErr string
  | WrapErr string go_err

record response =
  r_Code :: int
  r_Message :: string
  r_Error :: string
  r_Data :: "string option"
  r_Status :: string

record identity =
  id_ID :: string
  id_Scopes :: "string list"

text \<open>A request context carries its deadline and the request id.\<close>

datatype local_val = LStr string | LCtx time string | LIdentity identity | LBundle Bundle

text \<open>What a handler sends: the envelope, the report of the probes, or some other page.\<close>

datatype resp_body =
    Envelope response
  | StatusReport string "(string, string) gomap option"
  | Page string

record fctx =
  f_status :: int
  f_body :: "resp_body option"
  f_req :: "(string, string) gomap"       \<comment> \<open>request headers\<close>
  f_reqbody :: string
  f_query :: "(string, string) gomap"
  f_cookies :: "(string, string) gomap"
  f_resp :: "(string, string) gomap"      \<comment> \<open>response headers\<close>
  f_locals :: "(string, local_val) gomap"
  f_method :: string
  f_path :: string
  f_route :: string                       \<comment> \<open>the route template, empty when there is none\<close>

fun apierror_Unwrap :: "go_err \<Rightarrow> go_err option" where
  "apierror_Unwrap (ApiErr s c m d cause) = cause"
| "apierror_Unwrap (WrapErr w e) = Some e"
| "apierror_Unwrap _ = None"

fun as_api :: "go_err \<Rightarrow> (int \<times> string \<times> string \<times> string option) option" where
  "as_api (ApiErr s c m d cause) = Some (s, c, m, d)"
| "as_api (WrapErr w e) = as_api e"
| "as_api _ = None"

fun as_fiber :: "go_err \<Rightarrow> (int \<times> string) option" where
  "as_fiber (FiberErr c m) = Some (c, m)"
| "as_fiber (ApiErr s c m d (Some e)) = as_fiber e"
| "as_fiber (WrapErr w e) = as_fiber e"
| "as_fiber _ = None"

definition apierror_New :: "int \<Rightarrow> string \<Rightarrow> string \<Rightarrow> go_err" where
  "apierror_New status code message = ApiErr status code message None None"

fun apierror_WithCode :: "string \<Rightarrow> go_err \<Rightarrow> go_err" where
  "apierror_WithCode code (ApiErr s c m d e) = ApiErr s code m d e"
| "apierror_WithCode code e = e"

fun apierror_WithDetails :: "string \<Rightarrow> go_err \<Rightarrow> go_err" where
  "apierror_WithDetails dt (ApiErr s c m d e) = ApiErr s c m (Some dt) e"
| "apierror_WithDetails dt e = e"

fun apierror_Wrap :: "go_err \<Rightarrow> go_err \<Rightarrow> go_err" where
  "apierror_Wrap cause (ApiErr s c m d e) = ApiErr s c m d (Some cause)"
| "apierror_Wrap cause e = e"

definition BadRequest where "BadRequest m = apierror_New 400 ''bad_request'' m"
definition Unauthorized where "Unauthorized m = apierror_New 401 ''unauthorized'' m"
definition Forbidden where "Forbidden m = apierror_New 403 ''forbidden'' m"
definition NotFound where "NotFound m = apierror_New 404 ''not_found'' m"
definition Conflict where "Conflict m = apierror_New 409 ''conflict'' m"
definition UnprocessableEntity where "UnprocessableEntity m = apierror_New 422 ''unprocessable_entity'' m"
definition TooManyRequests where "TooManyRequests m = apierror_New 429 ''too_many_requests'' m"
definition Internal where "Internal m = apierror_New 500 ''internal_server_error'' m"

lemmas apierror_defs = apierror_New_def BadRequest_def Unauthorized_def Forbidden_def NotFound_def Conflict_def
  UnprocessableEntity_def TooManyRequests_def Internal_def

fun apierror_Error :: "go_err \<Rightarrow> string" where
  "apierror_Error (ApiErr s c m d (Some e)) = c @ '': '' @ m @ '': '' @ apierror_Error e"
| "apierror_Error (ApiErr s c m d None) = c @ '': '' @ m"
| "apierror_Error (FiberErr c m) = m"
| "apierror_Error (PlainErr m) = m"
| "apierror_Error (WrapErr w e) = w @ '': '' @ apierror_Error e"

definition send :: "int \<Rightarrow> response \<Rightarrow> fctx \<Rightarrow> fctx" where
  "send code b c = c\<lparr>f_status := code, f_body := Some (Envelope b)\<rparr>"

definition apierror_Handler :: "go_err \<Rightarrow> fctx \<Rightarrow> fctx" where
  "apierror_Handler err c =
     (case as_api err of
        Some (st, code, msg, det) \<Rightarrow>
          send st \<lparr>r_Code = st, r_Message = msg, r_Error = code, r_Data = det, r_Status = ''error''\<rparr> c
      | None \<Rightarrow>
          (case as_fiber err of
             Some (code, msg) \<Rightarrow>
               send code \<lparr>r_Code = code, r_Message = msg, r_Error = [], r_Data = None, r_Status = ''error''\<rparr> c
           | None \<Rightarrow>
               send 500 \<lparr>r_Code = 500, r_Message = ''internal server error'', r_Error = [], r_Data = None,
                         r_Status = ''error''\<rparr> c))"

definition SendSuccess :: "string option \<Rightarrow> string \<Rightarrow> int list \<Rightarrow> fctx \<Rightarrow> fctx" where
  "SendSuccess data message code c =
     (let st = (case code of [] \<Rightarrow> 200 | x # _ \<Rightarrow> x)
      in send st \<lparr>r_Code = st, r_Message = message, r_Error = [], r_Data = data, r_Status = ''success''\<rparr> c)"

definition SendError_resp :: "string option \<Rightarrow> string \<Rightarrow> int list \<Rightarrow> fctx \<Rightarrow> fctx" where
  "SendError_resp data message code c =
     (let st = (case code of [] \<Rightarrow> 400 | x # _ \<Rightarrow> x)
      in send st \<lparr>r_Code = st, r_Message = message, r_Error = [], r_Data = data, r_Status = ''error''\<rparr> c)"

section \<open>Middleware\<close>

datatype hres = Ret "go_err option" | Panic string

type_synonym 'w handler = "'w \<Rightarrow> fctx \<Rightarrow> 'w \<times> fctx \<times> hres"

definition SetLocal :: "string \<Rightarrow> local_val \<Rightarrow> fctx \<Rightarrow> fctx" where
  "SetLocal key value c = c\<lparr>f_locals := gm_put (f_locals c) key value\<rparr>"

definition GetRequestID :: "fctx \<Rightarrow> string" where
  "GetRequestID c = (case gm_get (f_locals c) ''requestid'' of Some (LStr s) \<Rightarrow> s | _ \<Rightarrow> [])"

text \<open>The stored context; \<open>None\<close> stands for the background context.\<close>

definition GetContext :: "fctx \<Rightarrow> (time \<times> string) option" where
  "GetContext c = (case gm_get (f_locals c) ''ctx'' of Some (LCtx dl rid) \<Rightarrow> Some (dl, rid) | _ \<Rightarrow> None)"

text \<open>A local of a type: \<open>as_T\<close> is the type assertion, \<open>zero\<close> the zero value.\<close>

definition GetLocal :: "(local_val \<Rightarrow> 'v option) \<Rightarrow> 'v \<Rightarrow> fctx \<Rightarrow> string \<Rightarrow> 'v" where
  "GetLocal as_T zero c key =
     (case gm_get (f_locals c) key of
        None \<Rightarrow> zero
      | Some l \<Rightarrow> (case as_T l of Some v \<Rightarrow> v | None \<Rightarrow> zero))"

lemma GetLocal_SetLocal:
  "GetLocal as_T zero (SetLocal k v c) key =
    (if key = k then (case as_T v of Some x \<Rightarrow> x | None \<Rightarrow> zero) else GetLocal as_T zero c key)"
  by (simp add: GetLocal_def SetLocal_def gm_get_put)

text \<open>The context handed to the rest of the chain.\<close>

definition ContextMiddleware_ctx :: "duration \<Rightarrow> time \<Rightarrow> string \<Rightarrow> fctx \<Rightarrow> fctx" where
  "ContextMiddleware_ctx timeout now uuid c =
     (let requestID = (case gm_get (f_locals c) ''requestid'' of Some (LStr s) \<Rightarrow> s | _ \<Rightarrow> []);
          c1 = (if requestID = [] then SetLocal ''requestid'' (LStr uuid) c else c);
          requestID = (if requestID = [] then uuid else requestID);
          c2 = SetLocal ''ctx'' (LCtx (now + timeout) requestID) c1
      in c2\<lparr>f_resp := gm_put (f_resp c2) ''X-Request-ID'' requestID\<rparr>)"

definition ContextMiddleware :: "duration \<Rightarrow> time \<Rightarrow> string \<Rightarrow> 'w handler \<Rightarrow> 'w handler" where
  "ContextMiddleware timeout now uuid next w c = next w (ContextMiddleware_ctx timeout now uuid c)"

text \<open>The world of the logger and the metrics: the lines and samples recorded so far.\<close>

record sinks =
  log_lines :: "(string \<times> string \<times> int \<times> string) list"   \<comment> \<open>method, path, status, request id\<close>
  samples :: "(string \<times> string \<times> string) list"           \<comment> \<open>method, path, status\<close>
  err_lines :: "(string \<times> string) list"                      \<comment> \<open>recovered panic, request id\<close>

definition Recover :: "sinks handler \<Rightarrow> sinks handler" where
  "Recover next w c =
     (case next w c of
        (w', c', Panic r) \<Rightarrow>
          (w'\<lparr>err_lines := err_lines w' @ [(r, GetRequestID c')]\<rparr>,
           send 500 \<lparr>r_Code = 500, r_Message = ''Internal Server Error'', r_Error = [], r_Data = None,
             r_Status = ''error''\<rparr> c', Ret None)
      | x \<Rightarrow> x)"

definition RequestLogger :: "sinks handler \<Rightarrow> sinks handler" where
  "RequestLogger next w c =
     (case next w c of
        (w', c', Ret err) \<Rightarrow>
          (w'\<lparr>log_lines := log_lines w' @ [(f_method c', f_path c', f_status c', GetRequestID c')]\<rparr>, c', Ret err)
      | x \<Rightarrow> x)"

definition MetricsPath :: string where "MetricsPath = ''/metrics''"

definition metrics_code :: "int \<Rightarrow> go_err option \<Rightarrow> int" where
  "metrics_code status err =
     (case err of
        None \<Rightarrow> status
      | Some e \<Rightarrow> (case as_fiber e of None \<Rightarrow> 500 | Some (code, m) \<Rightarrow> code))"

definition metrics_Middleware :: "sinks handler \<Rightarrow> sinks handler" where
  "metrics_Middleware next w c =
     (if f_path c = MetricsPath then next w c
      else case next w c of
             (w', c', Ret err) \<Rightarrow>
               (w'\<lparr>samples := samples w' @
                   [(f_method c', if f_route c' \<noteq> [] then f_route c' else f_path c', itoa (metrics_code (f_status c') err))]\<rparr>,
                c', Ret err)
           | x \<Rightarrow> x)"

text \<open>The server runs the chain and hands a returned error to the error handler.\<close>

definition serve :: "'w handler \<Rightarrow> 'w \<Rightarrow> fctx \<Rightarrow> 'w \<times> fctx \<times> string option" where
  "serve h w c =
     (case h w c of
        (w', c', Ret None) \<Rightarrow> (w', c', None)
      | (w', c', Ret (Some e)) \<Rightarrow> (w', apierror_Handler e c', None)
      | (w', c', Panic r) \<Rightarrow> (w', c', Some r))"

section \<open>Binding\<close>

text \<open>A parser fills the value and reports an error; the value comes back in every case.\<close>

definition bindAndValidate ::
  "(fctx \<Rightarrow> 'v \<times> string option) \<Rightarrow> ('v \<Rightarrow> string list) \<Rightarrow> (string list \<Rightarrow> string) \<Rightarrow> fctx \<Rightarrow> fctx \<times> 'v \<times> bool" where
  "bindAndValidate parse validate render c =
     (case parse c of
        (v, Some e) \<Rightarrow> (SendError_resp None e [400] c, v, False)
      | (v, None) \<Rightarrow>
          let errs = validate v
          in if length errs > 0 then (SendError_resp (Some (render errs)) ''validation failed'' [422] c, v, False)
             else (c, v, True))"

text \<open>The parsers of a request, by where the input comes from.\<close>

record 'v parsers =
  ps_Body :: "fctx \<Rightarrow> 'v \<times> string option"
  ps_Query :: "fctx \<Rightarrow> 'v \<times> string option"
  ps_Params :: "fctx \<Rightarrow> 'v \<times> string option"

definition bind_Body where "bind_Body p = bindAndValidate (ps_Body p)"
definition bind_Query where "bind_Query p = bindAndValidate (ps_Query p)"
definition bind_Params where "bind_Params p = bindAndValidate (ps_Params p)"

section \<open>API keys\<close>

type_synonym key_store = "string \<Rightarrow> string + identity option"

definition MapStore_Lookup :: "(string, identity) gomap \<Rightarrow> key_store" where
  "MapStore_Lookup m h = Inr (gm_get m h)"

definition apikey_Hash :: "(string \<Rightarrow> string) \<Rightarrow> string \<Rightarrow> string" where
  "apikey_Hash sha256 key = hex_EncodeToString (sha256 key)"

definition apikey_Generate :: "(string \<Rightarrow> string) \<Rightarrow> string + string \<Rightarrow> string + string \<times> string" where
  "apikey_Generate sha256 random =
     (case random of
        Inl e \<Rightarrow> Inl (''apikey: generate: '' @ e)
      | Inr b \<Rightarrow> Inr (hex_EncodeToString b, apikey_Hash sha256 (hex_EncodeToString b)))"

definition apikey_header :: "string \<Rightarrow> string" where
  "apikey_header h = (if h = [] then ''X-API-Key'' else h)"

definition apikey_localsKey :: string where "apikey_localsKey = ''fibr_apikey_identity''"

text \<open>A header that is absent reads as the empty string.\<close>

definition req_header :: "fctx \<Rightarrow> string \<Rightarrow> string" where
  "req_header c name = (case gm_get (f_req c) name of None \<Rightarrow> [] | Some v \<Rightarrow> v)"

definition apikey_Middleware :: "(string \<Rightarrow> string) \<Rightarrow> key_store \<Rightarrow> string \<Rightarrow> 'w handler \<Rightarrow> 'w handler" where
  "apikey_Middleware sha256 lookup header next w c =
     (let key = req_header c (apikey_header header)
      in if key = [] then (w, c, Ret (Some (Unauthorized ''missing API key'')))
         else case lookup (apikey_Hash sha256 key) of
                Inl e \<Rightarrow> (w, c, Ret (Some (Internal ''api key lookup failed'')))
              | Inr None \<Rightarrow> (w, c, Ret (Some (Unauthorized ''invalid API key'')))
              | Inr (Some i) \<Rightarrow> next w (SetLocal apikey_localsKey (LIdentity i) c))"

definition apikey_FromContext :: "fctx \<Rightarrow> identity option" where
  "apikey_FromContext c = (case gm_get (f_locals c) apikey_localsKey of Some (LIdentity i) \<Rightarrow> Some i | _ \<Rightarrow> None)"

definition apikey_HasScope :: "fctx \<Rightarrow> string \<Rightarrow> bool" where
  "apikey_HasScope c scope = (case apikey_FromContext c of None \<Rightarrow> False | Some x \<Rightarrow> scope \<in> set (id_Scopes x))"

definition apikey_RequireScope :: "string \<Rightarrow> 'w handler \<Rightarrow> 'w handler" where
  "apikey_RequireScope scope next w c =
     (case apikey_FromContext c of
        None \<Rightarrow> (w, c, Ret (Some (Unauthorized ''not authenticated'')))
      | Some x \<Rightarrow>
          if scope \<notin> set (id_Scopes x) then (w, c, Ret (Some (Forbidden (''missing required scope: '' @ scope))))
          else next w c)"

section \<open>Locales\<close>

record mwConfig =
  queryKey :: string
  cookieKey :: string

datatype mw_option = WithQueryKey string | WithCookieKey string

fun mw_opt :: "mw_option \<Rightarrow> mwConfig \<Rightarrow> mwConfig" where
  "mw_opt (WithQueryKey k) c = c\<lparr>queryKey := k\<rparr>"
| "mw_opt (WithCookieKey k) c = c\<lparr>cookieKey := k\<rparr>"

definition gm_str :: "(string, string) gomap \<Rightarrow> string \<Rightarrow> string" where
  "gm_str m k = (case gm_get m k of None \<Rightarrow> [] | Some v \<Rightarrow> v)"

definition i18n_resolve :: "(string \<Rightarrow> rat option) \<Rightarrow> Bundle \<Rightarrow> fctx \<Rightarrow> mwConfig \<Rightarrow> string" where
  "i18n_resolve parseFloat b c cfg =
     (let q = gm_str (f_query c) (queryKey cfg);
          k = gm_str (f_cookies c) (cookieKey cfg);
          a = matchAcceptLanguage parseFloat b (req_header c ''Accept-Language'')
      in if q \<noteq> [] \<and> bundle_Has b q then q
         else if k \<noteq> [] \<and> bundle_Has b k then k
         else if a \<noteq> [] then a
         else fallback b)"

definition localeKey :: string where "localeKey = ''fibr_i18n_locale''"
definition bundleKey :: string where "bundleKey = ''fibr_i18n_bundle''"

definition i18n_Middleware :: "(string \<Rightarrow> rat option) \<Rightarrow> Bundle \<Rightarrow> mw_option list \<Rightarrow> 'w handler \<Rightarrow> 'w handler" where
  "i18n_Middleware parseFloat b opts next w c =
     (let cfg = apply_opts mw_opt opts \<lparr>queryKey = ''lang'', cookieKey = ''lang''\<rparr>
      in next w (SetLocal bundleKey (LBundle b) (SetLocal localeKey (LStr (i18n_resolve parseFloat b c cfg)) c)))"

definition ctx_bundle :: "fctx \<Rightarrow> Bundle option" where
  "ctx_bundle c = (case gm_get (f_locals c) bundleKey of Some (LBundle b) \<Rightarrow> Some b | _ \<Rightarrow> None)"

definition i18n_Locale :: "fctx \<Rightarrow> string" where
  "i18n_Locale c =
     (let v = (case gm_get (f_locals c) localeKey of Some (LStr s) \<Rightarrow> s | _ \<Rightarrow> [])
      in if v \<noteq> [] then v
         else case ctx_bundle c of Some b \<Rightarrow> fallback b | None \<Rightarrow> [])"

definition i18n_T :: "fctx \<Rightarrow> string \<Rightarrow> msg_args \<Rightarrow> string" where
  "i18n_T c key args =
     (case ctx_bundle c of None \<Rightarrow> key | Some b \<Rightarrow> bundle_Translate b (i18n_Locale c) key args)"

definition i18n_N :: "fctx \<Rightarrow> string \<Rightarrow> int \<Rightarrow> msg_args \<Rightarrow> string" where
  "i18n_N c key n args =
     (case ctx_bundle c of None \<Rightarrow> key | Some b \<Rightarrow> bundle_Plural b (i18n_Locale c) key n args)"

section \<open>Properties\<close>

text \<open>The status the client receives for an error.\<close>

definition client_status :: "go_err \<Rightarrow> int" where
  "client_status e = (case as_api e of Some (s, _) \<Rightarrow> s
     | None \<Rightarrow> (case as_fiber e of Some (c, _) \<Rightarrow> c | None \<Rightarrow> 500))"

lemma Handler_status: "f_status (apierror_Handler e c) = client_status e"
  by (auto simp: apierror_Handler_def client_status_def send_def split: option.splits prod.splits)

lemma Recover_total: "\<exists>w' c' r. Recover h w c = (w', c', Ret r)"
  by (auto simp: Recover_def split: prod.splits hres.splits)

text \<open>
  Every request behind the recovery and metrics middleware is answered. A panic becomes a
  generic 500; a returned error is rendered with the status, code and message of the first
  typed error of its chain, else of the first Fiber error, and an error that is neither gives
  a generic 500 from which its text is absent; without an error the handler's own response
  stands.
\<close>

theorem api_errors_rendered:
  "\<exists>w' c'. serve (Recover (metrics_Middleware h)) w c = (w', c', None) \<and>
    (case h w c of
       (w1, c1, Ret None) \<Rightarrow> c' = c1
     | (w1, c1, Ret (Some e)) \<Rightarrow> f_status c' = client_status e \<and>
         (as_api e = None \<and> as_fiber e = None \<longrightarrow> f_body c' = Some (Envelope \<lparr>r_Code = 500, r_Message = ''internal server error'',
            r_Error = [], r_Data = None, r_Status = ''error''\<rparr>)) \<and>
         (\<forall>s code msg det. as_api e = Some (s, code, msg, det) \<longrightarrow>
            f_body c' = Some (Envelope \<lparr>r_Code = s, r_Message = msg, r_Error = code, r_Data = det, r_Status = ''error''\<rparr>))
     | (w1, c1, Panic r) \<Rightarrow> f_status c' = 500 \<and> f_body c' = Some (Envelope \<lparr>r_Code = 500, r_Message = ''Internal Server Error'',
            r_Error = [], r_Data = None, r_Status = ''error''\<rparr>))"
proof -
  obtain w1 c1 r where h: "h w c = (w1, c1, r)" by (metis prod_cases3)
  have "\<exists>w2. metrics_Middleware h w c = (w2, c1, r)"
    using h by (cases r) (simp_all add: metrics_Middleware_def)
  then obtain w2 where m: "metrics_Middleware h w c = (w2, c1, r)" by blast
  show ?thesis
  proof (cases r)
    case (Panic p)
    then show ?thesis using h m by (simp add: serve_def Recover_def send_def)
  next
    case (Ret e)
    show ?thesis
    proof (cases e)
      case None
      then show ?thesis using h m Ret by (simp add: serve_def Recover_def)
    next
      case (Some x)
      then show ?thesis using h m Ret Handler_status [of x c1]
        by (auto simp: serve_def Recover_def apierror_Handler_def [of _ c1] send_def split: option.splits prod.splits)
    qed
  qed
qed

text \<open>
  C39. The API key gate. Behind the middleware and \<open>RequireScope\<close> a handler runs exactly when the
  store knows the hash of the key in the configured header and its identity has the scope, and
  then it finds that identity in the request; otherwise the request is refused unchanged, with
  401 for a missing or unknown key, 500 when the store fails and 403 for a missing scope. A key
  that \<open>Generate\<close> returned is looked up under the hash it returned with it.
\<close>

theorem apikey_scope_gate:
  fixes sha256 :: "string \<Rightarrow> string" and lookup :: key_store and h :: "'w handler"
  assumes g: "apikey_Generate sha256 random = Inr (key, hash)"
  shows "(let k = req_header c (apikey_header header);
       c' = (\<lambda>i. SetLocal apikey_localsKey (LIdentity i) c);
       out = apikey_Middleware sha256 lookup header (apikey_RequireScope scope h) w c;
       refused = (\<lambda>st x. \<exists>e. out = (w, x, Ret (Some e)) \<and> client_status e = st)
     in hash = apikey_Hash sha256 key \<and> length key = 2 * length (projr random) \<and>
        (if k = [] then refused 401 c
         else case lookup (apikey_Hash sha256 k) of
                Inl e \<Rightarrow> refused 500 c
              | Inr None \<Rightarrow> refused 401 c
              | Inr (Some i) \<Rightarrow>
                  if scope \<in> set (id_Scopes i)
                  then out = h w (c' i) \<and> apikey_FromContext (c' i) = Some i \<and> apikey_HasScope (c' i) scope
                  else refused 403 (c' i)))"
proof -
  have "length (hex_EncodeToString b) = 2 * length b" for b by (induction b) auto
  moreover obtain b where "random = Inr b" "key = hex_EncodeToString b" "hash = apikey_Hash sha256 key"
    using g by (auto simp: apikey_Generate_def split: sum.splits)
  ultimately show ?thesis
    by (simp add: apikey_Middleware_def apikey_RequireScope_def apikey_FromContext_def apikey_HasScope_def
        SetLocal_def apierror_defs client_status_def Let_def split: sum.split option.split)
qed

definition demo_ctx :: fctx where
  "demo_ctx = \<lparr>f_status = 200, f_body = None, f_req = [(''X-API-Key'', ''0a'')], f_reqbody = [], f_query = [], f_cookies = [], f_resp = [], f_locals = [],
     f_method = ''GET'', f_path = ''/'', f_route = []\<rparr>"

theorem apikey_scope_gate_witness:
  "fst (apikey_Middleware rev (MapStore_Lookup [(''6130'', \<lparr>id_ID = ''u'', id_Scopes = [''read'']\<rparr>)]) []
     (apikey_RequireScope ''read'' (\<lambda>n c. (Suc n, c, Ret None))) 0 demo_ctx) = 1"
proof -
  have g: "apikey_Generate rev (Inr [CHR 0x0a]) = Inr (''0a'', ''6130'')" by code_simp
  have h: "apikey_Hash rev ''0a'' = ''6130''" by code_simp
  show ?thesis
    using apikey_scope_gate [OF g, of demo_ctx "[]" "MapStore_Lookup [(''6130'', \<lparr>id_ID = ''u'', id_Scopes = [''read'']\<rparr>)]"
        "''read''" "\<lambda>n c. (Suc n, c, Ret None)" 0]
    by (simp add: req_header_def apikey_header_def demo_ctx_def MapStore_Lookup_def h Let_def)
qed

text \<open>
  A request is translated in the locale it asks for. Behind the middleware, the locale is
  that of the query parameter when it is loaded, else of the cookie when it is loaded, else the
  header's choice, else the fallback; so a locale other than the fallback is always one the
  bundle has messages for, and messages and plurals are looked up in it.
\<close>

theorem i18n_request_locale:
  assumes "cfg = apply_opts mw_opt opts \<lparr>queryKey = ''lang'', cookieKey = ''lang''\<rparr>"
  shows "\<exists>c'. i18n_Middleware parseFloat b opts h w c = h w c' \<and>
    (let l = i18n_Locale c'; q = gm_str (f_query c) (queryKey cfg); k = gm_str (f_cookies c) (cookieKey cfg)
     in (l = fallback b \<or> bundle_Has b l) \<and>
        (q \<noteq> [] \<and> bundle_Has b q \<longrightarrow> l = q) \<and>
        (\<not> (q \<noteq> [] \<and> bundle_Has b q) \<and> k \<noteq> [] \<and> bundle_Has b k \<longrightarrow> l = k) \<and>
        i18n_T c' key args = bundle_Translate b l key args \<and>
        i18n_N c' key n args = bundle_Plural b l key n args)"
proof -
  let ?l = "i18n_resolve parseFloat b c cfg"
  let ?c = "SetLocal bundleKey (LBundle b) (SetLocal localeKey (LStr ?l) c)"
  have keys: "localeKey \<noteq> bundleKey" by (simp add: localeKey_def bundleKey_def)
  have bun: "ctx_bundle ?c = Some b" by (simp add: ctx_bundle_def SetLocal_def)
  have loc: "i18n_Locale ?c = (if ?l = [] then fallback b else ?l)"
    using keys unfolding i18n_Locale_def bun by (simp add: SetLocal_def)
  have "bundle_Has b (matchAcceptLanguage parseFloat b hd)" if "matchAcceptLanguage parseFloat b hd \<noteq> []" for hd
    using that matchAcceptLanguage_Has by blast
  then have "?l = fallback b \<or> bundle_Has b ?l" by (auto simp: i18n_resolve_def Let_def)
  then show ?thesis using loc bun assms
    by (intro exI [of _ ?c]) (auto simp: i18n_Middleware_def i18n_T_def i18n_N_def Let_def i18n_resolve_def)
qed

theorem i18n_request_locale_witness:
  "\<exists>c'. i18n_Middleware (\<lambda>s. None) (i18n_New []) [WithQueryKey ''l''] (\<lambda>n c. (Suc n, c, Ret None)) 0 demo_ctx = (1, c', Ret None) \<and>
     i18n_Locale c' = ''en''"
  using i18n_request_locale [where key = "[]" and args = "[]" and n = 0, of "\<lparr>queryKey = ''l'', cookieKey = ''lang''\<rparr>" "[WithQueryKey ''l'']" "\<lambda>s. None" "i18n_New []"
      "\<lambda>n c. (Suc n, c, Ret None)" 0 demo_ctx]
  unfolding Let_def by (auto simp: i18n_New_def bundle_Has_def)

section \<open>Deviations\<close>

text \<open>
  The metrics middleware means to record the status the client will receive, but derives it
  from Fiber errors only: a typed error that wraps none is recorded as 500.
\<close>

lemma metrics_records_500_for_typed_errors:
  assumes "as_api e = Some (s, code, msg, det)" "as_fiber e = None" "s \<noteq> 500"
  shows "metrics_code st (Some e) = 500 \<and> client_status e \<noteq> metrics_code st (Some e)"
  using assms by (simp add: metrics_code_def client_status_def)

text \<open>
  The request logger reads the status before the error handler has run: for a handler that
  returns an error without touching the response it logs the default status.
\<close>

lemma request_logger_logs_status_before_error:
  assumes "h w c = (w, c, Ret (Some e))"
  shows "\<exists>w' c'. serve (RequestLogger h) w c = (w', c', None) \<and>
    last (log_lines w') = (f_method c, f_path c, f_status c, GetRequestID c) \<and> f_status c' = client_status e"
  using assms by (simp add: serve_def RequestLogger_def Handler_status)

end
