(* ===== verification/Webhook.thy ===== *)
theory Webhook
  imports Api_Layer
begin

text \<open>
  Signing and verifying webhook payloads (\<open>src/webhook/webhook.go\<close>, \<open>src/webhook/middleware.go\<close>).
  The HMAC-SHA256 function is a parameter. \<open>time.Since\<close> is modelled with the representation of
  Go's \<open>time.Time\<close>: seconds since year 1 in 64 bits, and a difference that saturates at the
  limits of \<open>time.Duration\<close>.
\<close>

datatype webhook_err = ErrMalformedHeader | ErrExpired | ErrInvalidSignature

definition DefaultHeader :: string where "DefaultHeader = ''Webhook-Signature''"
definition DefaultTolerance :: duration where "DefaultTolerance = 5 * minute"

definition webhook_mac :: "(string \<Rightarrow> string \<Rightarrow> string) \<Rightarrow> string \<Rightarrow> string \<Rightarrow> int \<Rightarrow> string" where
  "webhook_mac hmac payload secret unix = hmac secret (itoa unix @ ''.'' @ payload)"

definition webhook_Sign :: "(string \<Rightarrow> string \<Rightarrow> string) \<Rightarrow> string \<Rightarrow> string \<Rightarrow> time \<Rightarrow> string" where
  "webhook_Sign hmac payload secret t =
     (let unix = t div second
      in ''t='' @ itoa unix @ '',v1='' @ hex_EncodeToString (webhook_mac hmac payload secret unix))"

text \<open>The loop over the parts of the header: the last timestamp and signature win.\<close>

fun header_parts :: "string list \<Rightarrow> string \<times> string \<Rightarrow> string \<times> string" where
  "header_parts [] acc = acc"
| "header_parts (part # ps) (tsStr, sig) =
     (case Cut CHR ''='' (TrimSpace part) of
        None \<Rightarrow> header_parts ps (tsStr, sig)
      | Some (k, v) \<Rightarrow>
          header_parts ps (if k = ''t'' then (v, sig) else if k = ''v1'' then (tsStr, v) else (tsStr, sig)))"

definition unix_to_internal :: int where "unix_to_internal = 62135596800"

definition time_Since :: "time \<Rightarrow> int \<Rightarrow> duration" where
  "time_Since now unix =
     (let d = (now + unix_to_internal * second) - wrap64 (unix + unix_to_internal) * second
      in if d < int64_min then int64_min else if d > int64_max then int64_max else d)"

definition within_tolerance :: "time \<Rightarrow> int \<Rightarrow> duration \<Rightarrow> bool" where
  "within_tolerance now unix tolerance =
     (let delta = time_Since now unix;
          delta = (if delta < 0 then wrap64 (- delta) else delta)
      in \<not> delta > tolerance)"

definition webhook_Verify ::
  "(string \<Rightarrow> string \<Rightarrow> string) \<Rightarrow> time \<Rightarrow> string \<Rightarrow> string \<Rightarrow> string \<Rightarrow> duration \<Rightarrow> webhook_err option" where
  "webhook_Verify hmac now payload header secret tolerance =
     (case header_parts (Split CHR '','' header) ([], []) of
        (tsStr, sig) \<Rightarrow>
          if tsStr = [] \<or> sig = [] then Some ErrMalformedHeader
          else case ParseInt tsStr of
                 None \<Rightarrow> Some ErrMalformedHeader
               | Some unix \<Rightarrow>
                   if tolerance > 0 \<and> \<not> within_tolerance now unix tolerance then Some ErrExpired
                   else case hex_DecodeString sig of
                          None \<Rightarrow> Some ErrInvalidSignature
                        | Some got \<Rightarrow>
                            if webhook_mac hmac payload secret unix \<noteq> got then Some ErrInvalidSignature else None)"

record webhook_config =
  wc_Secret :: string
  wc_Header :: string
  wc_Tolerance :: duration

definition webhook_Middleware ::
  "(string \<Rightarrow> string \<Rightarrow> string) \<Rightarrow> time \<Rightarrow> webhook_config \<Rightarrow> 'w handler \<Rightarrow> 'w handler" where
  "webhook_Middleware hmac now cfg next w c =
     (let header = (if wc_Header cfg = [] then DefaultHeader else wc_Header cfg);
          tolerance = (if wc_Tolerance cfg = 0 then DefaultTolerance else wc_Tolerance cfg)
      in case webhook_Verify hmac now (f_reqbody c) (req_header c header) (wc_Secret cfg) tolerance of
           Some _ \<Rightarrow>
             (w, c, Ret (Some (apierror_WithCode ''invalid_signature'' (Unauthorized ''invalid webhook signature''))))
         | None \<Rightarrow> next w c)"

section \<open>The header of a signature parses back\<close>

lemma plain_char: "is_digit c \<or> is_lower c \<or> c = CHR ''-'' \<Longrightarrow> \<not> is_space c \<and> c \<noteq> CHR '','' \<and> c \<noteq> CHR ''=''"
  by (auto simp: is_digit_def is_lower_def is_space_def chr_code_def)

lemma header_of_Sign:
  assumes "\<forall>c\<in>set a. is_digit c \<or> c = CHR ''-''" "\<forall>c\<in>set b. is_digit c \<or> is_lower c"
  shows "header_parts (Split CHR '','' (''t='' @ a @ '',v1='' @ b)) ([], []) = (a, b)"
proof -
  have pa: "\<not> is_space c \<and> c \<noteq> CHR '',''" if "c \<in> set a" for c using assms(1) that plain_char by blast
  have pb: "\<not> is_space c \<and> c \<noteq> CHR '',''" if "c \<in> set b" for c using assms(2) that plain_char by blast
  have ch: "\<not> is_space CHR ''t''" "\<not> is_space CHR ''=''" "\<not> is_space CHR ''v''" "\<not> is_space CHR ''1''"
    by (simp_all add: is_space_def chr_code_def)
  have sp: "Split CHR '','' (''t='' @ a @ '',v1='' @ b) = [''t='' @ a, ''v1='' @ b]"
  proof -
    have "Split CHR '','' ((''t='' @ a) @ CHR '','' # (''v1='' @ b)) = (''t='' @ a) # Split CHR '','' (''v1='' @ b)"
      using pa by (intro Split_append) auto
    moreover have "Split CHR '','' (''v1='' @ b) = [''v1='' @ b]" using pb by (intro Split_no_sep) auto
    ultimately show ?thesis by simp
  qed
  have ta: "TrimSpace (''t='' @ a) = ''t='' @ a" using pa ch by (intro TrimSpace_id) auto
  have tb: "TrimSpace (''v1='' @ b) = ''v1='' @ b" using pb ch by (intro TrimSpace_id) auto
  have ca: "Cut CHR ''='' (''t='' @ a) = Some (''t'', a)" using Cut_append [of "CHR ''=''" "''t''" a] by simp
  have cb: "Cut CHR ''='' (''v1='' @ b) = Some (''v1'', b)" using Cut_append [of "CHR ''=''" "''v1''" b] by simp
  have "header_parts [''t='' @ a, ''v1='' @ b] ([], []) = header_parts [''v1='' @ b] (a, [])"
    by (subst header_parts.simps) (simp only: ta ca option.case prod.case if_True simp_thms)
  also have "\<dots> = header_parts [] (a, b)"
    by (subst header_parts.simps) (simp only: tb cb option.case prod.case list.inject char.inject simp_thms list.distinct if_True if_False)
  finally show ?thesis unfolding sp by (simp only: header_parts.simps)
qed

lemma time_Since_exact:
  assumes "int64_min \<le> unix + unix_to_internal" "unix + unix_to_internal \<le> int64_max"
    "int64_min < now - unix * second" "now - unix * second \<le> int64_max"
  shows "time_Since now unix = now - unix * second"
  using assms by (simp add: time_Since_def wrap64_id algebra_simps)

lemma within_exact:
  assumes "int64_min \<le> unix + unix_to_internal" "unix + unix_to_internal \<le> int64_max"
    "int64_min < now - unix * second" "now - unix * second \<le> int64_max"
  shows "within_tolerance now unix tol \<longleftrightarrow> \<bar>now - unix * second\<bar> \<le> tol"
proof -
  have "wrap64 (- (now - unix * second)) = - (now - unix * second)" if "now - unix * second < 0"
    using that assms(3) by (intro wrap64_id) (auto simp: int64_min_def int64_max_def)
  then show ?thesis unfolding within_tolerance_def Let_def time_Since_exact [OF assms] by auto
qed

section \<open>Properties\<close>



section \<open>A deviation\<close>

text \<open>
  A timestamp more than 292 years ahead is accepted whatever the tolerance: the saturated
  difference is the least 64-bit integer, whose negation is itself and stays below any
  tolerance.
\<close>

lemma webhook_far_future_accepted:
  assumes "unix + unix_to_internal \<le> int64_max" "now - unix * second < int64_min" "0 < unix" "0 < tol"
  shows "within_tolerance now unix tol"
proof -
  have "wrap64 (unix + unix_to_internal) = unix + unix_to_internal"
    using assms(1,3) by (intro wrap64_id) (auto simp: int64_min_def unix_to_internal_def)
  then have "time_Since now unix = int64_min" using assms(2) by (simp add: time_Since_def algebra_simps)
  moreover have "wrap64 (- int64_min) = int64_min" by (simp add: wrap64_def int64_min_def)
  ultimately show ?thesis using assms(4) by (simp add: within_tolerance_def int64_min_def)
qed

end
