(* ===== verification/Telemetry.thy ===== *)
theory Telemetry
  imports Fibr_Prelude
begin

text \<open>
  The structured logger (\<open>src/logger/logger.go\<close>) and the tracing set-up (\<open>src/tracing/tracing.go\<close>).
  \<open>zerolog\<close> and the OpenTelemetry packages are outside the repository: what the code calls of
  them are the parameters of the locales \<open>zerolog\<close> and \<open>otel_sdk\<close>, whose laws are their
  documentation. The world \<open>'w\<close> holds what has been written so far.
\<close>

section \<open>Levels\<close>

datatype level = TraceLevel | DebugLevel | InfoLevel | WarnLevel | ErrorLevel | FatalLevel | PanicLevel

fun level_no :: "level \<Rightarrow> int" where
  "level_no TraceLevel = -1"
| "level_no DebugLevel = 0"
| "level_no InfoLevel = 1"
| "level_no WarnLevel = 2"
| "level_no ErrorLevel = 3"
| "level_no FatalLevel = 4"
| "level_no PanicLevel = 5"

lemma level_no_inj: "level_no a = level_no b \<longleftrightarrow> a = b"
  by (cases a; cases b) simp_all

instantiation level :: linorder
begin

definition less_eq_level :: "level \<Rightarrow> level \<Rightarrow> bool" where
  "less_eq_level a b \<longleftrightarrow> level_no a \<le> level_no b"

definition less_level :: "level \<Rightarrow> level \<Rightarrow> bool" where
  "less_level a b \<longleftrightarrow> level_no a < level_no b"

instance
  by standard (auto simp: less_eq_level_def less_level_def level_no_inj)

end

section \<open>Logger\<close>

text \<open>A line: its level, the error when one was attached, the fields and the message.\<close>

record log_line =
  ln_level :: level
  ln_err :: "string option"
  ln_fields :: "string list"
  ln_msg :: string

text \<open>
  The library sends an event through a logger of some level; the flag tells whether the process ends.
\<close>

type_synonym 'w zerolog_emit = "level \<Rightarrow> log_line \<Rightarrow> 'w \<Rightarrow> 'w \<times> bool"

record logger =
  lg_level :: level

definition logger_New :: "level \<Rightarrow> logger" where
  "logger_New lv = \<lparr>lg_level = lv\<rparr>"

definition logger_Default :: logger where
  "logger_Default = logger_New InfoLevel"

definition logger_Debug :: "'w zerolog_emit \<Rightarrow> logger \<Rightarrow> string \<Rightarrow> string list \<Rightarrow> 'w \<Rightarrow> 'w \<times> bool" where
  "logger_Debug emit l msg data = emit (lg_level l) \<lparr>ln_level = DebugLevel, ln_err = None, ln_fields = data, ln_msg = msg\<rparr>"

definition logger_Info :: "'w zerolog_emit \<Rightarrow> logger \<Rightarrow> string \<Rightarrow> string list \<Rightarrow> 'w \<Rightarrow> 'w \<times> bool" where
  "logger_Info emit l msg data = emit (lg_level l) \<lparr>ln_level = InfoLevel, ln_err = None, ln_fields = data, ln_msg = msg\<rparr>"

definition logger_Warning :: "'w zerolog_emit \<Rightarrow> logger \<Rightarrow> string \<Rightarrow> string list \<Rightarrow> 'w \<Rightarrow> 'w \<times> bool" where
  "logger_Warning emit l msg data = emit (lg_level l) \<lparr>ln_level = WarnLevel, ln_err = None, ln_fields = data, ln_msg = msg\<rparr>"

definition logger_Error :: "'w zerolog_emit \<Rightarrow> logger \<Rightarrow> string option \<Rightarrow> string \<Rightarrow> string list \<Rightarrow> 'w \<Rightarrow> 'w \<times> bool" where
  "logger_Error emit l err msg data = emit (lg_level l) \<lparr>ln_level = ErrorLevel, ln_err = err, ln_fields = data, ln_msg = msg\<rparr>"

definition logger_Fatal :: "'w zerolog_emit \<Rightarrow> logger \<Rightarrow> string option \<Rightarrow> string \<Rightarrow> string list \<Rightarrow> 'w \<Rightarrow> 'w \<times> bool" where
  "logger_Fatal emit l err msg data = emit (lg_level l) \<lparr>ln_level = FatalLevel, ln_err = err, ln_fields = data, ln_msg = msg\<rparr>"

text \<open>A logger writes the events of its level and above; a written fatal event ends the process.\<close>

locale zerolog =
  fixes emit :: "'w zerolog_emit" and out :: "'w \<Rightarrow> log_line list"
  assumes emit_out: "emit lv x w = (w', ends) \<Longrightarrow> out w' = (if lv \<le> ln_level x then out w @ [x] else out w)"
    and emit_ends: "emit lv x w = (w', ends) \<Longrightarrow> lv \<le> ln_level x \<Longrightarrow> ends \<longleftrightarrow> ln_level x = FatalLevel"
    and emit_quiet: "emit lv x w = (w', ends) \<Longrightarrow> ln_level x \<noteq> FatalLevel \<Longrightarrow> \<not> ends"
begin

lemma out_emit: "out (fst (emit lv x w)) = (if lv \<le> ln_level x then out w @ [x] else out w)"
  by (rule emit_out [OF prod.collapse [symmetric]])

lemmas ends_emit = emit_ends [OF prod.collapse [symmetric]] emit_quiet [OF prod.collapse [symmetric]]

lemma default_writes:
  "out (fst (logger_Info emit logger_Default m d w)) = out w @ [\<lparr>ln_level = InfoLevel, ln_err = None, ln_fields = d, ln_msg = m\<rparr>]"
  "out (fst (logger_Warning emit logger_Default m d w)) = out w @ [\<lparr>ln_level = WarnLevel, ln_err = None, ln_fields = d, ln_msg = m\<rparr>]"
  "out (fst (logger_Error emit logger_Default e m d w)) = out w @ [\<lparr>ln_level = ErrorLevel, ln_err = e, ln_fields = d, ln_msg = m\<rparr>]"
  "out (fst (logger_Debug emit logger_Default m d w)) = out w"
  by (simp_all add: logger_Info_def logger_Warning_def logger_Error_def logger_Debug_def
      logger_Default_def logger_New_def out_emit less_eq_level_def)

lemma only_fatal_ends:
  "\<not> snd (logger_Debug emit l m d w)" "\<not> snd (logger_Info emit l m d w)" "\<not> snd (logger_Warning emit l m d w)"
  "\<not> snd (logger_Error emit l e m d w)"
  by (simp_all add: logger_Info_def logger_Warning_def logger_Error_def logger_Debug_def ends_emit)

lemma default_fatal_ends: "snd (logger_Fatal emit logger_Default e m d w)"
  by (simp add: logger_Fatal_def logger_Default_def logger_New_def ends_emit less_eq_level_def)

end

definition line_emit :: "log_line list zerolog_emit" where
  "line_emit lv x w = (if lv \<le> ln_level x then w @ [x] else w, ln_level x = FatalLevel \<and> lv \<le> FatalLevel)"

interpretation lines: zerolog line_emit "\<lambda>w. w"
  by unfold_locales (auto simp: line_emit_def)

section \<open>Tracing\<close>

text \<open>The options of \<open>resource.New\<close> the set-up passes, in order.\<close>

datatype resource_option = ResAttribute string string | ResFromEnv | ResTelemetrySDK

datatype propagator = TraceContext | Baggage

datatype 's tracing_option = WithServiceName string | WithSampler 's

record 's tracing_config =
  serviceName :: string
  sampler :: 's

record ('e, 'r, 's, 'p) otel =
  ot_exporter :: "string + 'e"                       \<comment> \<open>\<open>otlptracehttp.New\<close>, configured by the environment\<close>
  ot_resource :: "resource_option list \<Rightarrow> string + 'r"
  ot_provider :: "'e \<Rightarrow> 'r \<Rightarrow> 's \<Rightarrow> 'p"
  ot_default_sampler :: 's                           \<comment> \<open>\<open>ParentBased(AlwaysSample())\<close>\<close>

record 'p otel_globals =
  og_provider :: "'p option"
  og_propagators :: "propagator list"

fun tracing_opt :: "'s tracing_option \<Rightarrow> 's tracing_config \<Rightarrow> 's tracing_config" where
  "tracing_opt (WithServiceName n) c = c\<lparr>serviceName := n\<rparr>"
| "tracing_opt (WithSampler s) c = c\<lparr>sampler := s\<rparr>"

text \<open>\<open>Setup\<close> returns the provider whose \<open>Shutdown\<close> is the function the caller gets.\<close>

definition tracing_Setup ::
  "('e, 'r, 's, 'p) otel \<Rightarrow> 's tracing_option list \<Rightarrow> 'p otel_globals \<Rightarrow> 'p otel_globals \<times> (string + 'p)" where
  "tracing_Setup ot opts g =
     (let cfg = apply_opts tracing_opt opts \<lparr>serviceName = ''fiber-app'', sampler = ot_default_sampler ot\<rparr>
      in case ot_exporter ot of
           Inl e \<Rightarrow> (g, Inl e)
         | Inr exp' \<Rightarrow>
             (case ot_resource ot [ResAttribute ''service.name'' (serviceName cfg), ResFromEnv, ResTelemetrySDK] of
                Inl e \<Rightarrow> (g, Inl e)
              | Inr res \<Rightarrow>
                  let tp = ot_provider ot exp' res (sampler cfg)
                  in (g\<lparr>og_provider := Some tp, og_propagators := [TraceContext, Baggage]\<rparr>, Inr tp)))"

text \<open>The span context carried by a context, when it is valid: trace and span identifier.\<close>

definition tracing_LogFields :: "(string \<times> string) option \<Rightarrow> string \<times> string \<times> bool" where
  "tracing_LogFields sc = (case sc of None \<Rightarrow> ([], [], False) | Some (t, s) \<Rightarrow> (t, s, True))"

text \<open>
  A resource merges its options in order, a later one overriding an earlier one; \<open>env\<close> is the service
  name the environment sets.
\<close>

locale otel_sdk =
  fixes ot :: "('e, 'r, 's, 'p) otel" and env :: "string option" and service :: "'r \<Rightarrow> string"
  assumes resource_merge: "ot_resource ot [ResAttribute ''service.name'' n, ResFromEnv, ResTelemetrySDK] = Inr r \<Longrightarrow>
      service r = (case env of None \<Rightarrow> n | Some x \<Rightarrow> x)"

definition demo_otel :: "(unit, string, nat, string \<times> nat) otel" where
  "demo_otel = \<lparr>ot_exporter = Inr (),
     ot_resource = (\<lambda>opts. case opts of ResAttribute k n # _ \<Rightarrow> Inr n | _ \<Rightarrow> Inl ''no attribute''),
     ot_provider = (\<lambda>_ r s. (r, s)), ot_default_sampler = 0\<rparr>"

interpretation dot: otel_sdk demo_otel None "\<lambda>r. r"
  by unfold_locales (simp add: demo_otel_def)

text \<open>
  The set-up is all or nothing: an error leaves the globals as they were; otherwise the provider returned
  is the one installed, with the sampler and the service name of the last option that sets them,
  the environment's service name winning over both, and the W3C propagators.
\<close>

theorem tracing_setup_atomic:
  assumes "otel_sdk ot env service" "tracing_Setup ot opts g = (g', res)"
    and "cfg = apply_opts tracing_opt opts \<lparr>serviceName = ''fiber-app'', sampler = ot_default_sampler ot\<rparr>"
  shows "case res of
      Inl e \<Rightarrow> g' = g
    | Inr tp \<Rightarrow> g' = \<lparr>og_provider = Some tp, og_propagators = [TraceContext, Baggage]\<rparr> \<and>
        (\<exists>x r. ot_exporter ot = Inr x \<and> tp = ot_provider ot x r (sampler cfg) \<and>
           service r = (case env of None \<Rightarrow> serviceName cfg | Some n \<Rightarrow> n))"
  using assms otel_sdk.resource_merge [OF assms(1)]
  by (auto simp: tracing_Setup_def Let_def split: sum.splits)

theorem tracing_setup_atomic_witness:
  "\<exists>g'. tracing_Setup demo_otel [WithServiceName ''api''] \<lparr>og_provider = None, og_propagators = []\<rparr> = (g', Inr (''api'', 0)) \<and>
     og_propagators g' = [TraceContext, Baggage]"
proof -
  obtain g' where g': "tracing_Setup demo_otel [WithServiceName ''api''] \<lparr>og_provider = None, og_propagators = []\<rparr> = (g', Inr (''api'', 0))"
    by (simp add: tracing_Setup_def demo_otel_def Let_def)
  from tracing_setup_atomic [OF dot.otel_sdk_axioms this refl] g' show ?thesis by auto
qed

end
