(* ===== verification/Service.thy ===== *)
theory Service
  imports Telemetry Api_Layer "HOL-Library.Multiset"
begin

text \<open>
  Running a service: readiness checks and the gate (\<open>src/health\<close>), graceful shutdown
  (\<open>src/server/server.go\<close>), routing to database replicas (\<open>src/dbresolver/dbresolver.go\<close>),
  the choice of a database dialect (\<open>src/database/database.go\<close>), the in-process event bus
  (\<open>src/events/events.go\<close>) and unique slugs (\<open>src/slug/generator.go\<close>). Hooks, handlers and
  database calls are functions on an abstract state.
\<close>

section \<open>Readiness\<close>

datatype check_outcome = CheckOk | CheckErr string | CheckPanic string

type_synonym named_check = "string \<times> check_outcome"

definition check_msg :: "check_outcome \<Rightarrow> string" where
  "check_msg r = (case r of CheckOk \<Rightarrow> ''ok'' | CheckErr e \<Rightarrow> e | CheckPanic p \<Rightarrow> ''panic: '' @ p)"

text \<open>
  The collecting loop: \<open>sched\<close> lists the checks in the order in which their results arrive
  before the timer; when it ends early the timer fires and what is missing is a timeout.
\<close>

fun health_collect ::
  "named_check list \<Rightarrow> nat \<Rightarrow> nat list \<Rightarrow> (string, string) gomap \<Rightarrow> bool \<Rightarrow> bool \<times> (string, string) gomap" where
  "health_collect checks 0 sched detail ok = (ok, detail)"
| "health_collect checks (Suc n) [] detail ok =
     (False, fold (\<lambda>chk d. if gm_get d (fst chk) = None then gm_put d (fst chk) ''timeout'' else d) checks detail)"
| "health_collect checks (Suc n) (i # sched) detail ok =
     health_collect checks n sched (gm_put detail (fst (checks ! i)) (check_msg (snd (checks ! i))))
       (if snd (checks ! i) \<noteq> CheckOk then False else ok)"

definition health_runChecks :: "named_check list \<Rightarrow> nat list \<Rightarrow> bool \<times> (string, string) gomap" where
  "health_runChecks checks sched =
     (if length checks = 0 then (True, []) else health_collect checks (length checks) sched [] True)"

definition health_readyz :: "named_check list \<Rightarrow> nat list \<Rightarrow> int \<times> string \<times> (string, string) gomap" where
  "health_readyz checks sched =
     (case health_runChecks checks sched of
        (ok, detail) \<Rightarrow> if \<not> ok then (503, ''error'', detail) else (200, ''ok'', detail))"

record readiness_gate =
  g_closed :: bool

definition NewReadinessGate :: readiness_gate where "NewReadinessGate = \<lparr>g_closed = False\<rparr>"

definition gate_Check :: "readiness_gate \<Rightarrow> named_check" where
  "gate_Check g = (''readiness'', if g_closed g then CheckErr ''draining'' else CheckOk)"

definition gate_Close :: "readiness_gate \<Rightarrow> readiness_gate" where "gate_Close g = g\<lparr>g_closed := True\<rparr>"
definition gate_Open :: "readiness_gate \<Rightarrow> readiness_gate" where "gate_Open g = g\<lparr>g_closed := False\<rparr>"
definition gate_Ready :: "readiness_gate \<Rightarrow> bool" where "gate_Ready g = (\<not> g_closed g)"

definition PingHTTP_result :: "string \<Rightarrow> string + int \<Rightarrow> named_check" where
  "PingHTTP_result name resp =
     (name, case resp of
        Inl e \<Rightarrow> CheckErr e
      | Inr code \<Rightarrow>
          if code \<ge> 500 then CheckErr (''health: '' @ name @ '' returned status '' @ itoa code) else CheckOk)"

text \<open>The probes of a database, of Redis and of a TCP address, given what the calls they make report.\<close>

definition err_outcome :: "string option \<Rightarrow> check_outcome" where
  "err_outcome e = (case e of None \<Rightarrow> CheckOk | Some m \<Rightarrow> CheckErr m)"

definition PingBun_result :: "string option \<Rightarrow> named_check" where "PingBun_result e = (''db'', err_outcome e)"
definition PingRedis_result :: "string option \<Rightarrow> named_check" where "PingRedis_result e = (''redis'', err_outcome e)"

definition PingTCP_result :: "string \<Rightarrow> string + string option \<Rightarrow> named_check" where
  "PingTCP_result name dialed =
     (name, case dialed of Inl e \<Rightarrow> CheckErr e | Inr closeErr \<Rightarrow> err_outcome closeErr)"

section \<open>Graceful shutdown\<close>

type_synonym 's hook = "'s \<Rightarrow> 's \<times> string option"

fun run_hooks :: "'s hook list \<Rightarrow> 's \<Rightarrow> string list \<Rightarrow> 's \<times> string list" where
  "run_hooks [] s errs = (s, errs)"
| "run_hooks (f # fs) s errs = (case f s of (s', e) \<Rightarrow> run_hooks fs s' (case e of None \<Rightarrow> errs | Some x \<Rightarrow> errs @ [x]))"

text \<open>The hooks are given the context of the shutdown, here its deadline.\<close>

type_synonym 's ctx_hook = "time \<Rightarrow> 's hook"

record 's server_config =
  Timeout :: duration
  DrainDelay :: duration
  PreShutdown :: "'s ctx_hook list"
  Cleanup :: "'s ctx_hook list"

text \<open>
  \<open>listenErr\<close> is the error of \<open>Listen\<close> when it comes before the shutdown signal, \<open>now\<close> the time of the
  signal; \<open>drain\<close> is the wait for a delay, cut short by the deadline, and \<open>shutdown\<close> the shutdown
  of the Fiber app.
\<close>

definition server_run ::
  "'s server_config \<Rightarrow> string option \<Rightarrow> time \<Rightarrow> (time \<Rightarrow> duration \<Rightarrow> 's \<Rightarrow> 's) \<Rightarrow> 's ctx_hook \<Rightarrow> 's \<Rightarrow>
   's \<times> string list option" where
  "server_run cfg listenErr now drain shutdown s =
     (case listenErr of
        Some e \<Rightarrow> (s, Some [e])
      | None \<Rightarrow>
          let ctx = now + Timeout cfg
          in case run_hooks (map (\<lambda>fn. fn ctx) (PreShutdown cfg)) s [] of (s1, errs1) \<Rightarrow>
             let s2 = (if DrainDelay cfg > 0 then drain ctx (DrainDelay cfg) s1 else s1)
             in case run_hooks [shutdown ctx] s2 errs1 of (s3, errs3) \<Rightarrow>
                case run_hooks (map (\<lambda>fn. fn ctx) (Cleanup cfg)) s3 errs3 of (s4, errs4) \<Rightarrow>
                  (s4, errors_Join errs4))"

definition RunGraceful ::
  "duration \<Rightarrow> 's ctx_hook list \<Rightarrow> string option \<Rightarrow> time \<Rightarrow> (time \<Rightarrow> duration \<Rightarrow> 's \<Rightarrow> 's) \<Rightarrow> 's ctx_hook \<Rightarrow> 's \<Rightarrow>
   's \<times> string list option" where
  "RunGraceful timeout cleanup =
     server_run \<lparr>Timeout = timeout, DrainDelay = 0, PreShutdown = [], Cleanup = cleanup\<rparr>"

section \<open>Read replicas\<close>

record 'db resolver =
  primary :: 'db
  replicas :: "'db list"
  counter :: "64 word"

definition dbresolver_New :: "'db \<Rightarrow> 'db list \<Rightarrow> 'db resolver" where
  "dbresolver_New p rs = \<lparr>primary = p, replicas = rs, counter = 0\<rparr>"

definition resolver_Writer :: "'db resolver \<Rightarrow> 'db" where
  "resolver_Writer r = primary r"

definition resolver_Reader :: "'db resolver \<Rightarrow> 'db \<times> 'db resolver" where
  "resolver_Reader r =
     (if length (replicas r) = 0 then (primary r, r)
      else let c = counter r + 1; i = c - 1
           in (replicas r ! unat (i mod of_nat (length (replicas r))), r\<lparr>counter := c\<rparr>))"

definition resolver_Ping :: "('db \<Rightarrow> 'e option) \<Rightarrow> 'db resolver \<Rightarrow> 'e list option" where
  "resolver_Ping ping r = errors_Join (collect_errs ping (primary r # replicas r))"

definition resolver_Close :: "('db \<Rightarrow> 'e option) \<Rightarrow> 'db resolver \<Rightarrow> 'e list option" where
  "resolver_Close close r = errors_Join (collect_errs close (primary r # replicas r))"

fun resolver_reads :: "nat \<Rightarrow> 'db resolver \<Rightarrow> 'db list" where
  "resolver_reads 0 r = []"
| "resolver_reads (Suc n) r = (case resolver_Reader r of (d, r') \<Rightarrow> d # resolver_reads n r')"

section \<open>Dialects\<close>

datatype dialectKind = dialectUnknown | dialectPostgres | dialectSQLite

datatype dialect_err = UnsupportedScheme string

definition detectDialect :: "string \<Rightarrow> dialectKind \<times> dialect_err option" where
  "detectDialect dsn =
     (if HasPrefix dsn ''postgres://'' \<or> HasPrefix dsn ''postgresql://'' then (dialectPostgres, None)
      else if HasPrefix dsn ''file:'' \<or> dsn = '':memory:'' then (dialectSQLite, None)
      else if CHR '':'' \<in> set dsn then (dialectUnknown, Some (UnsupportedScheme dsn))
      else (dialectSQLite, None))"

section \<open>Event bus\<close>

type_synonym ('s, 'v) event_handler = "'v \<Rightarrow> 's \<Rightarrow> 's \<times> string option"

record ('s, 'v) bus =
  b_handlers :: "(string, ('s, 'v) event_handler list) gomap"
  b_async :: bool
  b_logger :: "logger option"

datatype bus_option = WithAsync | WithBusLogger logger

fun bus_opt :: "bus_option \<Rightarrow> ('s, 'v) bus \<Rightarrow> ('s, 'v) bus" where
  "bus_opt WithAsync b = b\<lparr>b_async := True\<rparr>"
| "bus_opt (WithBusLogger l) b = b\<lparr>b_logger := Some l\<rparr>"

definition events_New :: "bus_option list \<Rightarrow> ('s, 'v) bus" where
  "events_New opts =
     (let b = apply_opts bus_opt opts \<lparr>b_handlers = [], b_async = False, b_logger = None\<rparr>
      in if b_logger b = None then b\<lparr>b_logger := Some logger_Default\<rparr> else b)"

definition bus_handlers :: "string \<Rightarrow> ('s, 'v) bus \<Rightarrow> ('s, 'v) event_handler list" where
  "bus_handlers ty b = (case gm_get (b_handlers b) ty of None \<Rightarrow> [] | Some hs \<Rightarrow> hs)"

definition events_Subscribe :: "string \<Rightarrow> ('s, 'v) event_handler \<Rightarrow> ('s, 'v) bus \<Rightarrow> ('s, 'v) bus" where
  "events_Subscribe ty h b = b\<lparr>b_handlers := gm_put (b_handlers b) ty (bus_handlers ty b @ [h])\<rparr>"

text \<open>Synchronous delivery; in asynchronous mode the handlers are handed to goroutines and returned.\<close>

definition events_Publish ::
  "string \<Rightarrow> 'v \<Rightarrow> ('s, 'v) bus \<Rightarrow> 's \<Rightarrow> 's \<times> string list option \<times> ('s, 'v) event_handler list" where
  "events_Publish ty v b s =
     (if b_async b then (s, None, bus_handlers ty b)
      else case run_hooks (map (\<lambda>h. h v) (bus_handlers ty b)) s [] of (s', errs) \<Rightarrow> (s', errors_Join errs, []))"

section \<open>Slugs\<close>

definition maxSlugAttempts :: nat where "maxSlugAttempts = 10"

text \<open>
  \<open>base32.StdEncoding\<close>: five bits per character, the last character filled up with zero bits,
  and padding to a multiple of eight characters.
\<close>

definition byte_bits :: "char \<Rightarrow> bool list" where
  "byte_bits c = map (\<lambda>i. (chr_code c div 2 ^ i) mod 2 = 1) [7, 6, 5, 4, 3, 2, 1, 0]"

definition bits_val :: "bool list \<Rightarrow> nat" where
  "bits_val bs = foldl (\<lambda>a b. 2 * a + (if b then 1 else 0)) 0 bs"

definition base32_char :: "nat \<Rightarrow> char" where
  "base32_char d = char_of (if d < 26 then 65 + d else 24 + d)"

fun base32_groups :: "bool list \<Rightarrow> string" where
  "base32_groups [] = []"
| "base32_groups (a # b # c # d # e # bs) = base32_char (bits_val [a, b, c, d, e]) # base32_groups bs"
| "base32_groups bs = [base32_char (bits_val (bs @ replicate (5 - length bs) False))]"

definition base32_EncodeToString :: "string \<Rightarrow> string" where
  "base32_EncodeToString s =
     (let cs = base32_groups (concat (map byte_bits s))
      in cs @ replicate ((8 - length cs mod 8) mod 8) CHR ''='')"

definition TrimRight :: "string \<Rightarrow> char \<Rightarrow> string" where
  "TrimRight s c = rev (dropWhile ((=) c) (rev s))"

datatype slug_err = SlugNilDB | SlugRandom string | SlugCount string | SlugExhausted string nat

definition slug_candidate :: "string \<Rightarrow> string \<Rightarrow> string" where
  "slug_candidate baseSlug randomBytes =
     baseSlug @ ''-'' @ ToLower (TrimRight (base32_EncodeToString randomBytes) CHR ''='')"

text \<open>
  \<open>read i\<close> is what the \<open>i\<close>th read of ten random bytes gives, \<open>cnt\<close> the number of rows of the
  table with a slug; the loop runs with the attempt number.
\<close>

function slug_loop ::
  "(nat \<Rightarrow> string + string) \<Rightarrow> (string \<Rightarrow> string + nat) \<Rightarrow> string \<Rightarrow> string \<Rightarrow> nat \<Rightarrow> slug_err + string" where
  "slug_loop read cnt title baseSlug attempt =
     (if attempt < maxSlugAttempts
      then case read attempt of
             Inl e \<Rightarrow> Inl (SlugRandom e)
           | Inr randomBytes \<Rightarrow>
               (case cnt (slug_candidate baseSlug randomBytes) of
                  Inl e \<Rightarrow> Inl (SlugCount e)
                | Inr n \<Rightarrow>
                    if n = 0 then Inr (slug_candidate baseSlug randomBytes)
                    else slug_loop read cnt title baseSlug (attempt + 1))
      else Inl (SlugExhausted title maxSlugAttempts))"
  by pat_completeness auto
termination by (relation "measure (\<lambda>(_, _, _, _, attempt). maxSlugAttempts - attempt)") auto

declare slug_loop.simps [simp del]

definition slug_Generate ::
  "(string \<Rightarrow> string) \<Rightarrow> (nat \<Rightarrow> string + string) \<Rightarrow> (string \<Rightarrow> string + nat) option \<Rightarrow> string \<Rightarrow> slug_err + string" where
  "slug_Generate slug_Make read db title =
     (case db of
        None \<Rightarrow> Inl SlugNilDB
      | Some cnt \<Rightarrow> slug_loop read cnt title (slug_Make title) 0)"

section \<open>What the loops compute\<close>

lemma collect_ok:
  "fst (health_collect checks n sched d ok) \<longleftrightarrow>
     ok \<and> n \<le> length sched \<and> (\<forall>i\<in>set (take n sched). snd (checks ! i) = CheckOk)"
  by (induction checks n sched d ok rule: health_collect.induct) auto

lemma fill_timeouts:
  "gm_get (fold (\<lambda>chk d. if gm_get d (fst chk) = None then gm_put d (fst chk) ''timeout'' else d) chks d) k =
     (case gm_get d k of Some x \<Rightarrow> Some x | None \<Rightarrow> if k \<in> fst ` set chks then Some ''timeout'' else None)"
  by (induction chks arbitrary: d) (auto split: option.splits)

lemma collect_detail:
  assumes "distinct (map fst checks)" "i < length checks"
  shows "set sched \<subseteq> {..<length checks} \<Longrightarrow>
    gm_get (snd (health_collect checks n sched d ok)) (fst (checks ! i)) =
     (if i \<in> set (take n sched) then Some (check_msg (snd (checks ! i)))
      else if n \<le> length sched then gm_get d (fst (checks ! i))
      else case gm_get d (fst (checks ! i)) of Some x \<Rightarrow> Some x | None \<Rightarrow> Some ''timeout'')"
proof (induction n arbitrary: sched d ok)
  case (Suc n)
  show ?case
  proof (cases sched)
    case Nil
    then show ?thesis using assms(2) by (auto simp: fill_timeouts split: option.splits)
  next
    case (Cons j js)
    have "fst (checks ! j) = fst (checks ! i) \<longleftrightarrow> j = i"
      using assms Suc.prems Cons nth_eq_iff_index_eq [OF assms(1), of j i] by auto
    then show ?thesis using Suc.IH [of js] Suc.prems Cons by (auto split: option.splits)
  qed
qed auto

lemma run_hooks_append: "run_hooks (fs @ gs) s errs = (case run_hooks fs s errs of (s', e') \<Rightarrow> run_hooks gs s' e')"
  by (induction fs arbitrary: s errs) (auto split: prod.splits)

fun hook_errs :: "'s hook list \<Rightarrow> 's \<Rightarrow> string list" where
  "hook_errs [] s = []"
| "hook_errs (f # fs) s = (case snd (f s) of None \<Rightarrow> [] | Some e \<Rightarrow> [e]) @ hook_errs fs (fst (f s))"

lemma run_hooks_all: "run_hooks fs s errs = (fold (\<lambda>f s. fst (f s)) fs s, errs @ hook_errs fs s)"
  by (induction fs arbitrary: s errs) (auto split: prod.splits option.splits)

section \<open>Properties\<close>

text \<open>
  Graceful shutdown runs every hook once and in order, whatever fails and all
  with the same deadline: the pre-shutdown hooks, the drain wait when one is configured, the shutdown of the server, the cleanup hooks.
  The result joins exactly the errors that occurred, in that order, and is nil when none did.
\<close>

theorem server_shutdown_sequence:
  "server_run cfg None now drain shutdown s =
     (let ctx = now + Timeout cfg;
          steps = map (\<lambda>fn. fn ctx) (PreShutdown cfg) @
                  (if DrainDelay cfg > 0 then [\<lambda>s. (drain ctx (DrainDelay cfg) s, None)] else []) @
                  [shutdown ctx] @ map (\<lambda>fn. fn ctx) (Cleanup cfg)
      in (fold (\<lambda>f s. fst (f s)) steps s, errors_Join (hook_errs steps s)))"
proof -
  let ?ctx = "now + Timeout cfg"
  let ?steps = "map (\<lambda>fn. fn ?ctx) (PreShutdown cfg) @
      (if DrainDelay cfg > 0 then [\<lambda>s. (drain ?ctx (DrainDelay cfg) s, None)] else []) @
      [shutdown ?ctx] @ map (\<lambda>fn. fn ?ctx) (Cleanup cfg)"
  have "server_run cfg None now drain shutdown s = (case run_hooks ?steps s [] of (s', e) \<Rightarrow> (s', errors_Join e))"
    unfolding server_run_def run_hooks_append by (auto simp: Let_def split: prod.splits)
  then show ?thesis by (simp only: run_hooks_all Let_def append_Nil prod.case)
qed

text \<open>
  Readiness. For checks with different names, the endpoint answers 200 exactly when every
  check succeeded and reported in time; otherwise 503. The detail names every check with the
  message of its result, or a timeout when it did not report; a panicking check counts as
  failed, not as a crash.
\<close>

theorem health_readiness:
  assumes "distinct sched" "set sched \<subseteq> {..<length checks}" "distinct (map fst checks)"
    and "health_readyz checks sched = (code, status, detail)"
  shows "(code = 200 \<longleftrightarrow> (\<forall>chk\<in>set checks. snd chk = CheckOk) \<and> set sched = {..<length checks}) \<and>
    (code \<noteq> 200 \<longrightarrow> code = 503) \<and>
    (\<forall>i<length checks. gm_get detail (fst (checks ! i)) =
       Some (if i \<in> set sched then check_msg (snd (checks ! i)) else ''timeout''))"
proof (cases "checks = []")
  case True
  then show ?thesis using assms(2,4) by (auto simp: health_readyz_def health_runChecks_def)
next
  case False
  let ?n = "length checks"
  have len: "length sched \<le> ?n" and full: "length sched = ?n \<longleftrightarrow> set sched = {..<?n}"
    using assms(1,2) by (metis card_lessThan card_mono distinct_card finite_lessThan)
      (metis assms(1,2) card_lessThan card_subset_eq distinct_card finite_lessThan)
  have r: "health_runChecks checks sched = health_collect checks ?n sched [] True"
    using False by (simp add: health_runChecks_def)
  have ok: "fst (health_runChecks checks sched) \<longleftrightarrow> (\<forall>chk\<in>set checks. snd chk = CheckOk) \<and> set sched = {..<?n}"
  proof -
    have "fst (health_runChecks checks sched) \<longleftrightarrow> length sched = ?n \<and> (\<forall>i\<in>set sched. snd (checks ! i) = CheckOk)"
      using len by (auto simp: r collect_ok)
    then show ?thesis unfolding full all_set_conv_all_nth [of checks] by auto
  qed
  have "gm_get (snd (health_runChecks checks sched)) (fst (checks ! i)) =
      Some (if i \<in> set sched then check_msg (snd (checks ! i)) else ''timeout'')" if "i < ?n" for i
  proof -
    have "\<not> ?n \<le> length sched" if "i \<notin> set sched" using that \<open>i < ?n\<close> len full by auto
    then show ?thesis using collect_detail [OF assms(3) that assms(2), of ?n "[]" True] len by (auto simp: r)
  qed
  with ok assms(4) show ?thesis by (auto simp: health_readyz_def split: prod.splits if_splits)
qed

theorem health_readiness_witness:
  "\<exists>status detail. health_readyz [gate_Check (gate_Close NewReadinessGate), (''db'', CheckOk)] [1] = (503, status, detail) \<and>
     gm_get detail ''readiness'' = Some ''timeout''"
proof -
  obtain code status detail where r: "health_readyz [gate_Check (gate_Close NewReadinessGate), (''db'', CheckOk)] [1] = (code, status, detail)"
    by (metis prod_cases3)
  from health_readiness [OF _ _ _ r] have "code = 503 \<and> gm_get detail ''readiness'' = Some ''timeout''"
    by (auto simp: gate_Check_def gate_Close_def NewReadinessGate_def All_less_Suc)
  with r show ?thesis by blast
qed

lemma resolver_reads_rotate:
  assumes "replicas r \<noteq> []" "unat (counter r) + k < 2 ^ 64" "length (replicas r) < 2 ^ 64"
  shows "resolver_reads k r = map (\<lambda>j. replicas r ! ((unat (counter r) + j) mod length (replicas r))) [0..<k]"
  using assms
proof (induction k arbitrary: r)
  case (Suc k)
  let ?n = "length (replicas r)"
  have i: "unat (counter r mod of_nat ?n) = unat (counter r) mod ?n"
    using Suc.prems(3) by (simp add: unat_mod unat_of_nat)
  have c: "unat (counter r + 1) = unat (counter r) + 1"
    using Suc.prems(2) by (simp add: unat_word_ariths)
  let ?r = "r\<lparr>counter := counter r + 1\<rparr>"
  have "resolver_reads k ?r = map (\<lambda>j. replicas r ! ((unat (counter r) + 1 + j) mod ?n)) [0..<k]"
    using Suc.IH [of ?r] Suc.prems c by simp
  moreover have "[0..<Suc k] = 0 # map Suc [0..<k]" by (simp only: map_Suc_upt upt_rec [of 0 "Suc k"]) simp
  ultimately show ?case using Suc.prems(1) i by (simp add: resolver_Reader_def comp_def)
qed simp

text \<open>
  Reads are spread evenly. Any run of as many reads as there are replicas reaches each
  replica exactly once, wherever the counter stands short of its wrap-around; writes always go
  to the primary, which also serves the reads when there are no replicas.
\<close>

theorem dbresolver_round_robin:
  assumes "replicas r \<noteq> []" "unat (counter r) + length (replicas r) < 2 ^ 64"
  shows "mset (resolver_reads (length (replicas r)) r) = mset (replicas r) \<and>
    fst (resolver_Reader r) \<in> set (replicas r) \<and> resolver_Writer r = primary r \<and>
    fst (resolver_Reader (r\<lparr>replicas := []\<rparr>)) = primary r"
proof -
  let ?n = "length (replicas r)"
  have n: "?n < 2 ^ 64" using assms(2) by linarith
  have "resolver_reads ?n r = rotate (unat (counter r)) (replicas r)"
    unfolding resolver_reads_rotate [OF assms n]
    by (rule nth_equalityI) (simp_all add: nth_rotate)
  moreover have "mset (rotate1 xs) = mset xs" for xs :: "'a list" by (cases xs) auto
  then have "mset (rotate m xs) = mset xs" for m and xs :: "'a list" by (induction m) auto
  ultimately have m: "mset (resolver_reads ?n r) = mset (replicas r)" by simp
  then have "set (resolver_reads ?n r) = set (replicas r)" by (rule mset_eq_setD)
  moreover have "fst (resolver_Reader r) \<in> set (resolver_reads ?n r)"
    using assms(1) by (cases ?n; cases "resolver_Reader r") simp_all
  ultimately show ?thesis using m by (simp add: resolver_Writer_def resolver_Reader_def [of "r\<lparr>replicas := []\<rparr>"])
qed


theorem dbresolver_round_robin_witness:
  "mset (resolver_reads 2 (dbresolver_New ''p'' [''a'', ''b''])) = mset [''a'', ''b'']"
proof -
  let ?r = "dbresolver_New ''p'' [''a'', ''b'']"
  have r: "replicas ?r = [''a'', ''b'']" "counter ?r = 0" by (simp_all add: dbresolver_New_def)
  have "[''a'', ''b''] \<noteq> []" "unat (0 :: 64 word) + length [''a'', ''b''] < 2 ^ 64" by simp_all
  with dbresolver_round_robin [of ?r] have "mset (resolver_reads (length [''a'', ''b'']) ?r) = mset [''a'', ''b'']"
    unfolding r by blast
  moreover have "length [''a'', ''b''] = 2" by simp
  ultimately show ?thesis by metis
qed

lemma base32_groups_length: "length (base32_groups bs) = (length bs + 4) div 5"
  by (induction bs rule: base32_groups.induct) simp_all

definition base32_lower :: "char \<Rightarrow> bool" where
  "base32_lower c \<longleftrightarrow> is_lower c \<or> 50 \<le> chr_code c \<and> chr_code c \<le> 55"

lemma base32_char_ok:
  assumes "d < 32"
  shows "base32_char d \<noteq> CHR ''=''" "base32_lower (to_lower (base32_char d))"
proof -
  have "chr_code (base32_char d) = (if d < 26 then 65 + d else 24 + d)"
    using assms by (simp add: base32_char_def)
  moreover have "chr_code CHR ''='' = 61" by (simp add: chr_code_def)
  ultimately show "base32_char d \<noteq> CHR ''=''" "base32_lower (to_lower (base32_char d))"
    using assms by (auto simp: base32_lower_def to_lower_def is_upper_def is_lower_def split: if_splits)
qed

lemma bits_val_less: "bits_val bs < 2 ^ length bs"
  by (induction bs rule: rev_induct) (auto simp: bits_val_def)

lemma bits_val_5: "length bs = 5 \<Longrightarrow> bits_val bs < 32"
  using bits_val_less [of bs] by simp

lemma base32_groups_chars: "c \<in> set (base32_groups bs) \<Longrightarrow> \<exists>d < 32. c = base32_char d"
proof (induction bs rule: base32_groups.induct)
  case (2 a b c d e bs)
  with bits_val_less [of "[a, b, c, d, e]"] show ?case by auto
qed (auto intro!: exI [of _ "bits_val _"] conjI bits_val_5)

lemma slug_candidate_shape:
  assumes "length bytes = 10"
  shows "\<exists>u. slug_candidate b bytes = b @ ''-'' @ u \<and> length u = 16 \<and> list_all base32_lower u"
proof -
  let ?g = "base32_groups (concat (map byte_bits bytes))"
  have "length (concat (map byte_bits bytes)) = 80"
    using assms by (simp add: length_concat comp_def byte_bits_def sum_list_triv)
  then have l: "length ?g = 16" by (simp add: base32_groups_length)
  have "CHR ''='' \<notin> set ?g" using base32_groups_chars base32_char_ok(1) by metis
  then have "TrimRight ?g CHR ''='' = ?g"
    unfolding TrimRight_def by (metis dropWhile_eq_self_iff hd_in_set rev_rev_ident set_rev)
  moreover have "list_all base32_lower (ToLower ?g)"
    using base32_groups_chars base32_char_ok(2) by (fastforce simp: ToLower_def list_all_iff)
  ultimately show ?thesis using l
    by (auto simp: slug_candidate_def base32_EncodeToString_def ToLower_def)
qed

text \<open>
  Slugs. When random bytes can be read and the table counted, the generator returns the
  first of its ten candidates that no row has, in the form of the slugified title followed by
  sixteen lower-case base-32 characters, and fails exactly when all ten are taken.
\<close>

theorem slug_first_free:
  assumes read: "\<And>i. i < maxSlugAttempts \<Longrightarrow> read i = Inr (bytes i) \<and> length (bytes i) = 10"
    and cnt: "\<And>s. cnt s = Inr (rows s)"
  shows "case slug_Generate slug_Make read (Some cnt) title of
      Inr s \<Rightarrow> \<exists>i < maxSlugAttempts. s = slug_candidate (slug_Make title) (bytes i) \<and> rows s = 0 \<and>
        (\<forall>j < i. rows (slug_candidate (slug_Make title) (bytes j)) \<noteq> 0) \<and>
        (\<exists>u. s = slug_Make title @ ''-'' @ u \<and> length u = 16 \<and> list_all base32_lower u)
    | Inl e \<Rightarrow> e = SlugExhausted title maxSlugAttempts \<and>
        (\<forall>i < maxSlugAttempts. rows (slug_candidate (slug_Make title) (bytes i)) \<noteq> 0)"
proof -
  let ?c = "\<lambda>i. slug_candidate (slug_Make title) (bytes i)"
  have loop: "case slug_loop read cnt title (slug_Make title) a of
      Inr s \<Rightarrow> \<exists>i < maxSlugAttempts. s = ?c i \<and> rows s = 0 \<and> (\<forall>j < i. rows (?c j) \<noteq> 0)
    | Inl e \<Rightarrow> e = SlugExhausted title maxSlugAttempts \<and> (\<forall>i < maxSlugAttempts. rows (?c i) \<noteq> 0)"
    if "\<forall>j < a. rows (?c j) \<noteq> 0" for a
    using that
  proof (induction "maxSlugAttempts - a" arbitrary: a)
    case 0
    then show ?case by (auto simp: slug_loop.simps [of _ _ _ _ a])
  next
    case (Suc n)
    then have a: "a < maxSlugAttempts" "n = maxSlugAttempts - (a + 1)" by simp_all
    show ?case
    proof (cases "rows (?c a) = 0")
      case True
      then show ?thesis using a(1) Suc.prems read [OF a(1)] cnt
        by (auto simp: slug_loop.simps [of _ _ _ _ a] intro!: exI [of _ a])
    next
      case False
      then have "\<forall>j < a + 1. rows (?c j) \<noteq> 0" using Suc.prems less_Suc_eq by auto
      from Suc.hyps(1) [OF a(2) this] show ?thesis
        using False a(1) read [OF a(1)] cnt by (simp add: slug_loop.simps [of _ _ _ _ a])
    qed
  qed
  from loop [of 0] show ?thesis
  proof (cases "slug_loop read cnt title (slug_Make title) 0")
    case (Inr s)
    with loop [of 0] obtain i where i: "i < maxSlugAttempts" "s = ?c i" "rows s = 0" "\<forall>j < i. rows (?c j) \<noteq> 0"
      by auto
    moreover have "\<exists>u. s = slug_Make title @ ''-'' @ u \<and> length u = 16 \<and> list_all base32_lower u"
      unfolding i(2) using read [OF i(1)] by (blast intro: slug_candidate_shape)
    ultimately show ?thesis unfolding slug_Generate_def by (auto simp: Inr)
  qed (simp add: slug_Generate_def)
qed

theorem slug_first_free_witness:
  "slug_Generate (\<lambda>t. t) (\<lambda>i. Inr (replicate 10 CHR ''a'')) (Some (\<lambda>s. Inr 1)) ''post'' =
     Inl (SlugExhausted ''post'' maxSlugAttempts)"
  using slug_first_free [where read = "\<lambda>i. Inr (replicate 10 CHR ''a'')" and bytes = "\<lambda>i. replicate 10 CHR ''a''" and
      cnt = "\<lambda>s. Inr 1" and rows = "\<lambda>s. 1" and slug_Make = "\<lambda>t. t" and title = "''post''"]
  by (simp split: sum.splits)

section \<open>A deviation\<close>

text \<open>
  The documentation of \<open>RunGraceful\<close> says that after a listen error, too, the server is shut
  down and the cleanup hooks run. On a listen error no hook runs.
\<close>

lemma listen_error_skips_cleanup: "server_run cfg (Some e) now drain shutdown s = (s, Some [e])"
  by (simp add: server_run_def)

end
