(* ===== verification/Bootstrap.thy ===== *)
theory Bootstrap
  imports Service
begin

text \<open>
  The assembled application (\<open>src/bootstrap/bootstrap.go\<close>) and its modules
  (\<open>src/bootstrap/module.go\<close>). The Fiber app is the list of its routes in the order of
  registration; a request visits the matching ones in that order, \<open>c.Next()\<close> being the rest of the
  list. Path matching and the third-party middleware (security headers, compression,
  idempotency, tracing, CORS, the limiter, the Prometheus page, with the storages they are
  configured with) are parameters. The logger's output is the one of \<open>Api_Layer\<close>.
\<close>

type_synonym mw = "sinks handler \<Rightarrow> sinks handler"

record thirdparty =
  helmet :: mw
  compress :: mw
  idempotency :: mw
  otelfiber :: mw
  cors :: mw
  fiber_limiter :: "int \<Rightarrow> mw"
  promhttp :: "sinks handler"

record asynqmon_mount =
  am_Handler :: "sinks handler option"
  am_Path :: string
  am_Middleware :: "mw list"

text \<open>The handlers of an OpenAPI document: the document and, for its URL, the page.\<close>

record openapi_spec =
  SpecHandler :: "sinks handler"
  UIHandler :: "string \<Rightarrow> sinks handler"

record 's options =
  o_RequestTimeout :: duration
  o_ShutdownTimeout :: duration
  o_DB :: "'s ctx_hook option"            \<comment> \<open>closing the database\<close>
  o_EnableCORS :: bool
  o_RateLimit :: int
  o_SecurityHeaders :: bool
  o_Compression :: bool
  o_Idempotency :: bool
  o_AutoMigrate :: bool
  o_Metrics :: bool
  o_Tracing :: bool
  o_Cleanup :: "'s ctx_hook list"
  o_Asynqmon :: "asynqmon_mount option"
  o_HealthChecks :: "named_check list"
  o_ErrorHandler :: "(go_err \<Rightarrow> fctx \<Rightarrow> fctx) option"
  o_OpenAPI :: "openapi_spec option"
  o_OpenAPISpecURL :: string
  o_OpenAPIDocsURL :: string
  o_I18n :: "Bundle option"

section \<open>Routes\<close>

text \<open>What a request brings: the clock, the identifier drawn for it, the order of the check results.\<close>

record req_env =
  e_now :: time
  e_uuid :: string
  e_sched :: "nat list"

datatype route =
    RouteUse "req_env \<Rightarrow> mw"
  | RouteUseAt string "mw list" "sinks handler"
  | RouteGet string "req_env \<Rightarrow> named_check list \<Rightarrow> sinks handler"

record 's app =
  a_routes :: "route list"
  a_cleanup :: "'s ctx_hook list"
  a_shutdownTimeout :: duration
  a_healthChecks :: "named_check list"
  a_autoMigrate :: bool
  a_errorHandler :: "go_err \<Rightarrow> fctx \<Rightarrow> fctx"

fun dispatch ::
  "(string \<Rightarrow> fctx \<Rightarrow> bool) \<Rightarrow> (string \<Rightarrow> fctx \<Rightarrow> bool) \<Rightarrow> req_env \<Rightarrow> named_check list \<Rightarrow> route list \<Rightarrow> sinks handler" where
  "dispatch pmatch gmatch env checks [] w c =
     (w, c, Ret (Some (FiberErr 404 (''Cannot '' @ f_method c @ '' '' @ f_path c))))"
| "dispatch pmatch gmatch env checks (RouteUse f # rs) w c =
     f env (dispatch pmatch gmatch env checks rs) w (c\<lparr>f_route := ''/''\<rparr>)"
| "dispatch pmatch gmatch env checks (RouteUseAt p mws h # rs) w c =
     (if pmatch p c then foldr (\<lambda>m next. m next) mws h w (c\<lparr>f_route := p\<rparr>)
      else dispatch pmatch gmatch env checks rs w c)"
| "dispatch pmatch gmatch env checks (RouteGet p h # rs) w c =
     (if gmatch p c then h env checks w (c\<lparr>f_route := p\<rparr>)
      else dispatch pmatch gmatch env checks rs w c)"

definition app_snapshotChecks :: "'s app \<Rightarrow> named_check list" where
  "app_snapshotChecks a = a_healthChecks a"

definition app_serve ::
  "(string \<Rightarrow> fctx \<Rightarrow> bool) \<Rightarrow> (string \<Rightarrow> fctx \<Rightarrow> bool) \<Rightarrow> req_env \<Rightarrow> 's app \<Rightarrow> sinks \<Rightarrow> fctx \<Rightarrow>
   sinks \<times> fctx \<times> string option" where
  "app_serve pmatch gmatch env a w c =
     (case dispatch pmatch gmatch env (app_snapshotChecks a) (a_routes a) w c of
        (w', c', Ret None) \<Rightarrow> (w', c', None)
      | (w', c', Ret (Some e)) \<Rightarrow> (w', a_errorHandler a e c', None)
      | (w', c', Panic r) \<Rightarrow> (w', c', Some r))"

section \<open>Building the application\<close>

definition livez_handler :: "sinks handler" where
  "livez_handler w c = (w, c\<lparr>f_body := Some (StatusReport ''ok'' None)\<rparr>, Ret None)"

definition readyz_handler :: "req_env \<Rightarrow> named_check list \<Rightarrow> sinks handler" where
  "readyz_handler env checks w c =
     (case health_readyz checks (e_sched env) of
        (code, status, detail) \<Rightarrow>
          (w, c\<lparr>f_status := code, f_body := Some (StatusReport status (Some detail))\<rparr>, Ret None))"

definition health_RegisterProviderAt :: "string \<Rightarrow> string \<Rightarrow> route list" where
  "health_RegisterProviderAt livez readyz =
     [RouteGet livez (\<lambda>env checks. livez_handler), RouteGet readyz readyz_handler]"

definition health_RegisterProvider :: "route list" where
  "health_RegisterProvider = health_RegisterProviderAt ''/livez'' ''/readyz''"

definition bootstrap_front :: "(string \<Rightarrow> rat option) \<Rightarrow> thirdparty \<Rightarrow> 's options \<Rightarrow> route list" where
  "bootstrap_front parseFloat tp o' =
     (let timeout = (if o_RequestTimeout o' = 0 then 10 * second else o_RequestTimeout o')
      in [RouteUse (\<lambda>env. Recover), RouteUse (\<lambda>env. ContextMiddleware timeout (e_now env) (e_uuid env))] @
         (case o_I18n o' of None \<Rightarrow> [] | Some b \<Rightarrow> [RouteUse (\<lambda>env. i18n_Middleware parseFloat b [])]) @
         (if o_SecurityHeaders o' then [RouteUse (\<lambda>env. helmet tp)] else []) @
         (if o_Compression o' then [RouteUse (\<lambda>env. compress tp)] else []) @
         (if o_Idempotency o' then [RouteUse (\<lambda>env. idempotency tp)] else []) @
         (if o_Tracing o' then [RouteUse (\<lambda>env. otelfiber tp)] else []) @
         [RouteUse (\<lambda>env. RequestLogger)] @
         (if o_Metrics o' then [RouteUse (\<lambda>env. metrics_Middleware)] else []))"

definition bootstrap_back :: "thirdparty \<Rightarrow> 's options \<Rightarrow> route list" where
  "bootstrap_back tp o' =
     (if o_Metrics o' then [RouteGet MetricsPath (\<lambda>env checks. promhttp tp)] else []) @
     (case o_Asynqmon o' of
        None \<Rightarrow> []
      | Some m \<Rightarrow>
          (case am_Handler m of
             None \<Rightarrow> []
           | Some h \<Rightarrow> [RouteUseAt (if am_Path m = [] then ''/monitoring'' else am_Path m) (am_Middleware m) h])) @
     (if o_EnableCORS o' then [RouteUse (\<lambda>env. cors tp)] else []) @
     (if o_RateLimit o' > 0 then [RouteUse (\<lambda>env. fiber_limiter tp (o_RateLimit o'))] else []) @
     (case o_OpenAPI o' of
        None \<Rightarrow> []
      | Some sp \<Rightarrow>
          let specURL = (if o_OpenAPISpecURL o' = [] then ''/openapi.json'' else o_OpenAPISpecURL o');
              docsURL = (if o_OpenAPIDocsURL o' = [] then ''/docs'' else o_OpenAPIDocsURL o')
          in [RouteGet specURL (\<lambda>env checks. SpecHandler sp), RouteGet docsURL (\<lambda>env checks. UIHandler sp specURL)])"

definition bootstrap_New :: "(string \<Rightarrow> rat option) \<Rightarrow> thirdparty \<Rightarrow> 's options \<Rightarrow> 's app" where
  "bootstrap_New parseFloat tp o' =
     \<lparr>a_routes = bootstrap_front parseFloat tp o' @ health_RegisterProvider @ bootstrap_back tp o',
      a_cleanup = (case o_DB o' of None \<Rightarrow> [] | Some close \<Rightarrow> [close]) @ o_Cleanup o',
      a_shutdownTimeout = (if o_ShutdownTimeout o' = 0 then 10 * second else o_ShutdownTimeout o'),
      a_healthChecks = o_HealthChecks o',
      a_autoMigrate = o_AutoMigrate o',
      a_errorHandler = (case o_ErrorHandler o' of None \<Rightarrow> apierror_Handler | Some h \<Rightarrow> h)\<rparr>"

section \<open>Modules\<close>

text \<open>
  A module's optional capabilities are options. Registering adds routes, also when it then
  fails; migrating acts on the state of the database.
\<close>

record 's module =
  m_Name :: string
  m_Migrate :: "('s \<Rightarrow> 's \<times> string option) option"
  m_Register :: "route list \<times> string option"
  m_Checks :: "named_check list option"

datatype mount_err = MountMigrate string string | MountRegister string string

definition mount_migrate :: "'s module \<Rightarrow> bool \<Rightarrow> 's \<Rightarrow> 's \<times> mount_err option" where
  "mount_migrate m auto s =
     (case m_Migrate m of
        Some mg \<Rightarrow> if auto then (case mg s of (s', e) \<Rightarrow> (s', map_option (MountMigrate (m_Name m)) e)) else (s, None)
      | None \<Rightarrow> (s, None))"

fun app_Mount :: "'s module list \<Rightarrow> 's app \<Rightarrow> 's \<Rightarrow> 's app \<times> 's \<times> mount_err option" where
  "app_Mount [] a s = (a, s, None)"
| "app_Mount (m # ms) a s =
     (case mount_migrate m (a_autoMigrate a) s of
        (s', Some e) \<Rightarrow> (a, s', Some e)
      | (s', None) \<Rightarrow>
          (let a1 = a\<lparr>a_routes := a_routes a @ fst (m_Register m)\<rparr>
           in case snd (m_Register m) of
                Some e \<Rightarrow> (a1, s', Some (MountRegister (m_Name m) e))
              | None \<Rightarrow>
                  app_Mount ms
                    (case m_Checks m of
                       None \<Rightarrow> a1
                     | Some cs \<Rightarrow> a1\<lparr>a_healthChecks := a_healthChecks a1 @ cs\<rparr>) s'))"

definition app_Run ::
  "'s app \<Rightarrow> string option \<Rightarrow> time \<Rightarrow> (time \<Rightarrow> duration \<Rightarrow> 's \<Rightarrow> 's) \<Rightarrow> 's ctx_hook \<Rightarrow> 's \<Rightarrow> 's \<times> string list option" where
  "app_Run a = RunGraceful (a_shutdownTimeout a) (a_cleanup a)"

section \<open>Mounting\<close>

definition module_checks :: "'s module \<Rightarrow> named_check list" where
  "module_checks m = (case m_Checks m of None \<Rightarrow> [] | Some cs \<Rightarrow> cs)"

definition err_module :: "mount_err \<Rightarrow> string" where
  "err_module e = (case e of MountMigrate n _ \<Rightarrow> n | MountRegister n _ \<Rightarrow> n)"

lemma mount_migrate_off: "mount_migrate m False s = (s, None)"
  by (simp add: mount_migrate_def split: option.split)

lemma mount_migrate_name: "mount_migrate m auto s = (s', Some e) \<Longrightarrow> err_module e = m_Name m"
  by (auto simp: mount_migrate_def err_module_def split: option.splits if_splits prod.splits)

text \<open>What stays the same of an application when modules are mounted.\<close>

definition same_base :: "'s app \<Rightarrow> 's app \<Rightarrow> bool" where
  "same_base a a' \<longleftrightarrow> a_cleanup a' = a_cleanup a \<and> a_shutdownTimeout a' = a_shutdownTimeout a \<and>
     a_autoMigrate a' = a_autoMigrate a \<and> a_errorHandler a' = a_errorHandler a"

lemma Mount_spec:
  "app_Mount ms a s = (a', s', err) \<Longrightarrow>
    \<exists>k rs. k \<le> length ms \<and> (err = None \<longleftrightarrow> k = length ms) \<and> same_base a a' \<and>
      a_healthChecks a' = a_healthChecks a @ concat (map module_checks (take k ms)) \<and>
      a_routes a' = a_routes a @ concat (map (\<lambda>m. fst (m_Register m)) (take k ms)) @ rs \<and>
      (\<forall>e. err = Some e \<longrightarrow> err_module e = m_Name (ms ! k)) \<and> (err = None \<longrightarrow> rs = []) \<and>
      (\<not> a_autoMigrate a \<longrightarrow> s' = s) \<and>
      (err \<noteq> None \<longrightarrow> (\<forall>rest. app_Mount (take (Suc k) ms @ rest) a s = (a', s', err)))"
proof (induction ms arbitrary: a s)
  case Nil
  then show ?case by (auto simp: same_base_def)
next
  case (Cons m ms)
  obtain s1 me where mg: "mount_migrate m (a_autoMigrate a) s = (s1, me)" by fastforce
  have off: "\<not> a_autoMigrate a \<Longrightarrow> s1 = s" using mg by (simp add: mount_migrate_off)
  consider (migrate) e where "me = Some e" | (register) e where "me = None" "snd (m_Register m) = Some e"
    | (ok) "me = None" "snd (m_Register m) = None" by (cases me; cases "snd (m_Register m)") auto
  then show ?case
  proof cases
    case migrate
    then show ?thesis using Cons.prems mg off mount_migrate_name [of m "a_autoMigrate a" s s1 e]
      by (intro exI [of _ 0]) (auto simp: same_base_def)
  next
    case register
    then show ?thesis using Cons.prems mg off
      by (intro exI [of _ 0]) (auto simp: same_base_def err_module_def Let_def)
  next
    case ok
    let ?a = "a\<lparr>a_routes := a_routes a @ fst (m_Register m), a_healthChecks := a_healthChecks a @ module_checks m\<rparr>"
    have step: "app_Mount (m # ms') a s = app_Mount ms' ?a s1" for ms'
      using mg ok by (auto simp: Let_def module_checks_def split: option.split)
    with Cons.prems have "app_Mount ms ?a s1 = (a', s', err)" by simp
    from Cons.IH [OF this] obtain k rs where k: "k \<le> length ms" "err = None \<longleftrightarrow> k = length ms" "same_base ?a a'"
      "a_healthChecks a' = a_healthChecks ?a @ concat (map module_checks (take k ms))"
      "a_routes a' = a_routes ?a @ concat (map (\<lambda>m. fst (m_Register m)) (take k ms)) @ rs"
      "\<forall>e. err = Some e \<longrightarrow> err_module e = m_Name (ms ! k)" "err = None \<longrightarrow> rs = []"
      "\<not> a_autoMigrate ?a \<longrightarrow> s' = s1" "err \<noteq> None \<longrightarrow> (\<forall>rest. app_Mount (take (Suc k) ms @ rest) ?a s1 = (a', s', err))" by blast
    then show ?thesis using off step
      by (intro exI [of _ "Suc k"] exI [of _ rs]) (auto simp: same_base_def simp del: app_Mount.simps(2))
  qed
qed

section \<open>Requests through the chain\<close>

text \<open>
  A handler that answers every context of a request, that is one with its path and method, with
  a response of which \<open>P\<close> holds.
\<close>

definition answers :: "sinks handler \<Rightarrow> (fctx \<Rightarrow> bool) \<Rightarrow> fctx \<Rightarrow> bool" where
  "answers h P c \<longleftrightarrow>
     (\<forall>w c'. f_path c' = f_path c \<and> f_method c' = f_method c \<longrightarrow> (\<exists>w' c''. h w c' = (w', c'', Ret None) \<and> P c''))"

lemma answersD:
  "answers h P c \<Longrightarrow> f_path c' = f_path c \<Longrightarrow> f_method c' = f_method c \<Longrightarrow> \<exists>w' c''. h w c' = (w', c'', Ret None) \<and> P c''"
  by (simp add: answers_def)

lemma answers_own_middleware:
  assumes "answers h P c"
  shows "answers (Recover h) P c" "answers (ContextMiddleware timeout now uuid h) P c" "answers (RequestLogger h) P c"
    "answers (metrics_Middleware h) P c" "answers (i18n_Middleware parseFloat b opts h) P c"
proof -
  have pass: "answers (f h) P c"
    if "\<And>w c' w1 c1. f_path c' = f_path c \<Longrightarrow> h w c' = (w1, c1, Ret None) \<Longrightarrow> \<exists>w2. f h w c' = (w2, c1, Ret None)" for f
    unfolding answers_def using that answersD [OF assms] by metis
  show "answers (Recover h) P c" by (rule pass) (simp add: Recover_def)
  show "answers (RequestLogger h) P c" by (rule pass) (simp add: RequestLogger_def)
  show "answers (metrics_Middleware h) P c" by (rule pass) (simp add: metrics_Middleware_def)
  show "answers (ContextMiddleware timeout now uuid h) P c" "answers (i18n_Middleware parseFloat b opts h) P c"
    unfolding answers_def ContextMiddleware_def i18n_Middleware_def Let_def
    by (intro allI impI answersD [OF assms]; simp add: ContextMiddleware_ctx_def SetLocal_def Let_def)+
qed

lemma answers_Use:
  assumes "answers (f env (dispatch pm gm env checks rs)) P c"
  shows "answers (dispatch pm gm env checks (RouteUse f # rs)) P c"
  unfolding answers_def dispatch.simps by (intro allI impI answersD [OF assms]; simp)

lemma answers_front:
  assumes "answers (dispatch pm gm env checks rs) P c"
    and "\<not> o_SecurityHeaders o'" "\<not> o_Compression o'" "\<not> o_Idempotency o'" "\<not> o_Tracing o'"
  shows "answers (dispatch pm gm env checks (bootstrap_front parseFloat tp o' @ rs)) P c"
proof -
  let ?m = "(if o_Metrics o' then [RouteUse (\<lambda>env. metrics_Middleware)] else []) @ rs"
  have m: "answers (dispatch pm gm env checks ?m) P c"
    using assms(1) by (auto intro!: answers_Use answers_own_middleware(4))
  have "answers (dispatch pm gm env checks
      ((case o_I18n o' of None \<Rightarrow> [] | Some b \<Rightarrow> [RouteUse (\<lambda>env. i18n_Middleware parseFloat b [])]) @
       RouteUse (\<lambda>env. RequestLogger) # rs')) P c" if "answers (dispatch pm gm env checks rs') P c" for rs'
    using that by (cases "o_I18n o'") (auto intro!: answers_Use answers_own_middleware(3,5))
  from this [OF m] have "answers (dispatch pm gm env checks
      (RouteUse (\<lambda>env. Recover) #
       RouteUse (\<lambda>env. ContextMiddleware (if o_RequestTimeout o' = 0 then 10 * second else o_RequestTimeout o') (e_now env) (e_uuid env)) #
       (case o_I18n o' of None \<Rightarrow> [] | Some b \<Rightarrow> [RouteUse (\<lambda>env. i18n_Middleware parseFloat b [])]) @
       RouteUse (\<lambda>env. RequestLogger) # ?m)) P c"
    by (intro answers_Use answers_own_middleware(1,2))
  then show ?thesis using assms(2-) by (simp add: bootstrap_front_def Let_def del: dispatch.simps)
qed

section \<open>Properties\<close>

lemma New_routes:
  "\<exists>rs. a_routes (bootstrap_New parseFloat tp o') =
     RouteUse (\<lambda>env. Recover) #
     RouteUse (\<lambda>env. ContextMiddleware (if o_RequestTimeout o' = 0 then 10 * second else o_RequestTimeout o') (e_now env) (e_uuid env)) # rs"
  by (simp add: bootstrap_New_def bootstrap_front_def Let_def)


text \<open>
  Probes are not throttled and see every module. A readiness request is answered with the
  outcome of the configured checks followed by those of the modules mounted so far, and a
  liveness request with ok, whatever the CORS and rate limiting settings, the middleware they
  install and the routes the modules add.
\<close>

theorem bootstrap_probes:
  assumes mount: "app_Mount mods (bootstrap_New parseFloat tp o') s = (a, s', err)"
    and "\<not> o_SecurityHeaders o'" "\<not> o_Compression o'" "\<not> o_Idempotency o'" "\<not> o_Tracing o'"
    and ready: "\<And>c'. f_path c' = f_path c \<Longrightarrow> f_method c' = f_method c \<Longrightarrow> gm ''/readyz'' c' = r \<and> gm ''/livez'' c' = (\<not> r)"
  shows "\<exists>k w' c'. app_serve pm gm env a w c = (w', c', None) \<and> k \<le> length mods \<and> (err = None \<longleftrightarrow> k = length mods) \<and>
    (if r
     then let checks = o_HealthChecks o' @ concat (map module_checks (take k mods))
          in case health_readyz checks (e_sched env) of
               (code, status, detail) \<Rightarrow> f_status c' = code \<and> f_body c' = Some (StatusReport status (Some detail))
     else f_body c' = Some (StatusReport ''ok'' None))"
proof -
  from Mount_spec [OF mount] obtain k more where k: "k \<le> length mods" "err = None \<longleftrightarrow> k = length mods"
    and checks: "a_healthChecks a = a_healthChecks (bootstrap_New parseFloat tp o') @ concat (map module_checks (take k mods))"
    and more: "a_routes a = a_routes (bootstrap_New parseFloat tp o') @ more" by blast
  let ?checks = "o_HealthChecks o' @ concat (map module_checks (take k mods))"
  define P where "P = (\<lambda>c' :: fctx. if r
     then (case health_readyz ?checks (e_sched env) of
        (code, status, detail) \<Rightarrow> f_status c' = code \<and> f_body c' = Some (StatusReport status (Some detail)))
     else f_body c' = Some (StatusReport ''ok'' None))"
  have "answers (dispatch pm gm env ?checks (health_RegisterProvider @ rs)) P c" for rs
    using ready unfolding answers_def P_def
    by (auto simp: health_RegisterProvider_def health_RegisterProviderAt_def livez_handler_def readyz_handler_def split: prod.splits)
  from answers_front [OF this assms(2-5)]
  have "answers (dispatch pm gm env ?checks (a_routes a)) P c"
    unfolding more by (simp add: bootstrap_New_def)
  then obtain w' c' where "dispatch pm gm env ?checks (a_routes a) w c = (w', c', Ret None)" "P c'"
    using answersD [of _ P c c] by blast
  moreover have "app_snapshotChecks a = ?checks" using checks by (simp add: app_snapshotChecks_def bootstrap_New_def)
  ultimately show ?thesis using k
    by (intro exI [of _ k] exI [of _ w'] exI [of _ c']) (simp add: app_serve_def P_def Let_def split: if_splits)
qed


text \<open>An application with inert third-party middleware, for the examples.\<close>

definition demo_tp :: thirdparty where
  "demo_tp = \<lparr>helmet = id, compress = id, idempotency = id, otelfiber = id, cors = id,
     fiber_limiter = (\<lambda>n next w c. (w, c, Ret (Some (TooManyRequests [])))), promhttp = (\<lambda>w c. (w, c, Ret None))\<rparr>"

definition demo_options :: "unit options" where
  "demo_options = \<lparr>o_RequestTimeout = 0, o_ShutdownTimeout = 0, o_DB = None, o_EnableCORS = True, o_RateLimit = 1,
     o_SecurityHeaders = False, o_Compression = False, o_Idempotency = False, o_AutoMigrate = False, o_Metrics = True,
     o_Tracing = False, o_Cleanup = [], o_Asynqmon = None, o_HealthChecks = [(''db'', CheckOk)], o_ErrorHandler = None,
     o_OpenAPI = None, o_OpenAPISpecURL = [], o_OpenAPIDocsURL = [], o_I18n = None\<rparr>"

definition demo_module :: "unit module" where
  "demo_module = \<lparr>m_Name = ''users'', m_Migrate = None, m_Register = ([], Some ''taken''), m_Checks = None\<rparr>"

definition demo_env :: req_env where
  "demo_env = \<lparr>e_now = 0, e_uuid = ''u-1'', e_sched = [0]\<rparr>"

definition demo_sinks :: sinks where
  "demo_sinks = \<lparr>log_lines = [], samples = [], err_lines = []\<rparr>"

lemma demo_Mount: "app_Mount [] a s = (a, s, None)"
  by simp


theorem bootstrap_probes_witness:
  "\<exists>w' c'. app_serve (\<lambda>p c. False) (\<lambda>p c. p = f_path c) demo_env (bootstrap_New (\<lambda>_. None) demo_tp demo_options) demo_sinks
      (demo_ctx\<lparr>f_path := ''/readyz''\<rparr>) = (w', c', None) \<and> f_status c' = 200"
  using bootstrap_probes [OF demo_Mount [of "bootstrap_New (\<lambda>_. None) demo_tp demo_options" "()"],
      of "demo_ctx\<lparr>f_path := ''/readyz''\<rparr>" "\<lambda>p c. p = f_path c" True "\<lambda>p c. False" demo_env demo_sinks]
  by (auto simp: demo_options_def demo_env_def health_readyz_def health_runChecks_def Let_def)


end
