(* ===== verification/Filepath.thy ===== *)
theory Filepath
  imports I18n
begin

text \<open>
  What the program uses of Go's \<open>path/filepath\<close> and \<open>os\<close> (for a system whose separator is the
  slash): lexical cleaning of paths, and a tree of files and directories with the operations
  that create, write and remove them. A path is the list of its components, with a leading
  component \<open>/\<close> when it is absolute. The failures the operating system may add are parameters.
\<close>

section \<open>Lexical operations\<close>

text \<open>The components kept so far are on a stack; \<open>..\<close> pops one unless there is none to pop.\<close>

fun clean_comps :: "bool \<Rightarrow> string list \<Rightarrow> string list \<Rightarrow> string list" where
  "clean_comps rooted st [] = rev st"
| "clean_comps rooted st (c # cs) =
     (if c = [] \<or> c = ''.'' then clean_comps rooted st cs
      else if c = ''..''
      then (case st of
              [] \<Rightarrow> clean_comps rooted (if rooted then [] else [''..'']) cs
            | t # st' \<Rightarrow> clean_comps rooted (if t = ''..'' then ''..'' # st else st') cs)
      else clean_comps rooted (c # st) cs)"

definition is_rooted :: "string \<Rightarrow> bool" where
  "is_rooted s \<longleftrightarrow> HasPrefix s ''/''"

definition filepath_Clean :: "string \<Rightarrow> string" where
  "filepath_Clean s =
     (let cs = clean_comps (is_rooted s) [] (Split CHR ''/'' s)
      in if is_rooted s then ''/'' @ Join ''/'' cs else if cs = [] then ''.'' else Join ''/'' cs)"

definition filepath_Base :: "string \<Rightarrow> string" where
  "filepath_Base s =
     (if s = [] then ''.''
      else let t = rev (dropWhile ((=) CHR ''/'') (rev s))
           in if t = [] then ''/'' else last (Split CHR ''/'' t))"

definition path_of :: "string \<Rightarrow> string list" where
  "path_of s = (if is_rooted s then [''/''] else []) @ clean_comps (is_rooted s) [] (Split CHR ''/'' s)"

text \<open>Joining with a relative path that is already clean appends its components.\<close>

abbreviation joined :: "string list \<Rightarrow> string \<Rightarrow> string list" where
  "joined base dest \<equiv> base @ Split CHR ''/'' dest"

section \<open>The file tree\<close>

datatype node = DirNode | FileNode string

type_synonym file_path = "string list"
type_synonym fs = "(file_path, node) gomap"

definition inside :: "file_path \<Rightarrow> file_path \<Rightarrow> bool" where
  "inside p q \<longleftrightarrow> take (length p) q = p"

text \<open>Failures the system adds: on creating a directory, and on writing, where a part may be left behind.\<close>

record os_faults =
  mkdir_fault :: "file_path \<Rightarrow> string option"
  write_fault :: "file_path \<Rightarrow> (string \<times> string option) option"

fun mk_dirs :: "file_path \<Rightarrow> string list \<Rightarrow> fs \<Rightarrow> fs \<times> string option" where
  "mk_dirs pre [] t = (t, None)"
| "mk_dirs pre (x # xs) t =
     (case gm_get t (pre @ [x]) of
        Some (FileNode _) \<Rightarrow> (t, Some ''not a directory'')
      | Some DirNode \<Rightarrow> mk_dirs (pre @ [x]) xs t
      | None \<Rightarrow> mk_dirs (pre @ [x]) xs (gm_put t (pre @ [x]) DirNode))"

definition os_MkdirAll :: "os_faults \<Rightarrow> file_path \<Rightarrow> fs \<Rightarrow> fs \<times> string option" where
  "os_MkdirAll f p t = (case mkdir_fault f p of Some e \<Rightarrow> (t, Some e) | None \<Rightarrow> mk_dirs [] p t)"

definition os_WriteFile :: "os_faults \<Rightarrow> file_path \<Rightarrow> string \<Rightarrow> fs \<Rightarrow> fs \<times> string option" where
  "os_WriteFile f p content t =
     (if butlast p \<noteq> [] \<and> gm_get t (butlast p) \<noteq> Some DirNode then (t, Some ''no such directory'')
      else if gm_get t p = Some DirNode then (t, Some ''is a directory'')
      else case write_fault f p of
             Some (e, left) \<Rightarrow> (case left of None \<Rightarrow> t | Some x \<Rightarrow> gm_put t p (FileNode x), Some e)
           | None \<Rightarrow> (gm_put t p (FileNode content), None))"

definition os_Exists :: "file_path \<Rightarrow> fs \<Rightarrow> bool" where
  "os_Exists p t \<longleftrightarrow> gm_get t p \<noteq> None"

definition os_IsDir :: "file_path \<Rightarrow> fs \<Rightarrow> bool" where
  "os_IsDir p t \<longleftrightarrow> gm_get t p = Some DirNode"

definition os_RemoveAll :: "file_path \<Rightarrow> fs \<Rightarrow> fs" where
  "os_RemoveAll p t = filter (\<lambda>(q, _). \<not> inside p q) t"

text \<open>Removing a file; a directory that has entries stays.\<close>

definition dir_entries :: "file_path \<Rightarrow> fs \<Rightarrow> file_path list" where
  "dir_entries p t = filter (\<lambda>q. length q = length p + 1 \<and> inside p q) (map fst t)"

definition os_Remove :: "file_path \<Rightarrow> fs \<Rightarrow> fs" where
  "os_Remove p t = (if gm_get t p = Some DirNode \<and> dir_entries p t \<noteq> [] then t else gm_del t p)"

section \<open>Lemmas\<close>

lemma inside_append [simp]: "inside p (p @ q)"
  by (simp add: inside_def)

lemma inside_refl [simp]: "inside p p"
  by (simp add: inside_def)

lemma inside_iff: "inside p q \<longleftrightarrow> (\<exists>r. q = p @ r)"
  unfolding inside_def by (metis append_eq_conv_conj append_take_drop_id)

lemma gm_get_RemoveAll: "gm_get (os_RemoveAll p t) q = (if inside p q then None else gm_get t q)"
proof (induction t)
  case (Cons a t)
  then show ?case by (cases a) (auto simp: os_RemoveAll_def)
qed (simp add: os_RemoveAll_def)

text \<open>Creating directories changes nothing else: what was there stays, what appears are ancestors.\<close>

lemma mk_dirs_get:
  "mk_dirs pre xs t = (t', e) \<Longrightarrow>
    gm_get t' q = gm_get t q \<or>
    gm_get t q = None \<and> gm_get t' q = Some DirNode \<and> inside pre q \<and> inside q (pre @ xs)"
proof (induction pre xs t rule: mk_dirs.induct)
  case (2 pre x xs t)
  have u: "inside (pre @ [x]) q \<Longrightarrow> inside pre q" by (auto simp: inside_iff)
  show ?case
  proof (cases "gm_get t (pre @ [x])")
    case None
    with 2 have "mk_dirs (pre @ [x]) xs (gm_put t (pre @ [x]) DirNode) = (t', e)" by simp
    from 2(1) [OF None this] None u show ?thesis by (auto simp: inside_iff split: if_splits)
  next
    case (Some n)
    show ?thesis
    proof (cases n)
      case DirNode
      with 2 Some have "mk_dirs (pre @ [x]) xs t = (t', e)" by simp
      from 2(2) [OF Some DirNode this] u show ?thesis by auto
    qed (use 2 Some in auto)
  qed
qed auto

lemma mk_dirs_ok:
  "mk_dirs pre xs t = (t', None) \<Longrightarrow> xs \<noteq> [] \<Longrightarrow> gm_get t' (pre @ xs) = Some DirNode"
proof (induction pre xs t rule: mk_dirs.induct)
  case (2 pre x xs t)
  have keep: "gm_get t' q = Some DirNode" if "mk_dirs p ys s = (t', None)" "gm_get s q = Some DirNode" for p ys s q
    using mk_dirs_get [OF that(1), of q] that(2) by auto
  from 2 show ?case
    by (cases "xs = []") (auto split: option.splits node.splits intro: keep)
qed simp

lemma mk_dirs_succeeds:
  "(\<And>k y. 0 < k \<Longrightarrow> k \<le> length xs \<Longrightarrow> gm_get t (pre @ take k xs) \<noteq> Some (FileNode y)) \<Longrightarrow> \<exists>t'. mk_dirs pre xs t = (t', None)"
proof (induction pre xs t rule: mk_dirs.induct)
  case (2 pre x xs t)
  have nf: "gm_get t (pre @ x # take k xs) \<noteq> Some (FileNode y)" if "k \<le> length xs" for k y
    using 2(3) [of "Suc k" y] that by simp
  show ?case
  proof (cases "gm_get t (pre @ [x])")
    case None
    have "\<exists>t'. mk_dirs (pre @ [x]) xs (gm_put t (pre @ [x]) DirNode) = (t', None)"
      using nf by (intro 2(1) [OF None]) auto
    then show ?thesis using None by simp
  next
    case (Some n)
    then have n: "n = DirNode" using nf [of 0] by (cases n) auto
    have "\<exists>t'. mk_dirs (pre @ [x]) xs t = (t', None)" using nf by (intro 2(2) [OF Some n]) auto
    then show ?thesis using Some n by simp
  qed
qed simp

end
