(* ===== verification/Generator.thy ===== *)
theory Generator
  imports Filepath
begin

text \<open>
  The project generator (\<open>src/cmd/fibr\<close>): options with their prompts and validation
  (\<open>options.go\<close>), module names (\<open>module.go\<close>), the plans of files, rendering with clean-up after
  a failure, migration timestamps (\<open>generate.go\<close>) and adding a module to a project
  (\<open>addmodule.go\<close>). Executing a template on its data, formatting Go source, running commands and
  drawing random bytes are parameters; the file tree is that of \<open>Filepath\<close>. The errors are
  values that carry what their messages name.
\<close>

section \<open>Options\<close>

record gen_options =
  go_Name :: string
  go_Module :: string
  go_DB :: string
  go_Layout :: string
  go_Sample :: bool
  go_Auth :: bool
  go_Team :: bool
  go_Queue :: bool
  go_Mailer :: bool
  go_Realtime :: bool
  go_I18n :: bool
  go_Dir :: string
  go_NoGit :: bool
  go_NoTidy :: bool
  go_HelpersVersion :: string
  go_Local :: string

datatype opt_err = NameRequired | NameNotSimple string | ModuleRequired | BadDB | BadLayout

definition contains_dotdot :: "string \<Rightarrow> bool" where
  "contains_dotdot s \<longleftrightarrow> after_sub ''..'' s \<noteq> None"

definition options_Validate :: "gen_options \<Rightarrow> gen_options \<times> opt_err option" where
  "options_Validate opts =
     (let opts = (if go_Team opts then opts\<lparr>go_Auth := True\<rparr> else opts)
      in if go_Name opts = [] then (opts, Some NameRequired)
         else if CHR ''/'' \<in> set (go_Name opts) \<or> CHR 0x5C \<in> set (go_Name opts) \<or> contains_dotdot (go_Name opts)
         then (opts, Some (NameNotSimple (go_Name opts)))
         else if go_Module opts = [] then (opts, Some ModuleRequired)
         else if go_DB opts \<noteq> ''postgres'' \<and> go_DB opts \<noteq> ''sqlite'' then (opts, Some BadDB)
         else if go_Layout opts \<noteq> ''ddd'' \<and> go_Layout opts \<noteq> ''layered'' then (opts, Some BadLayout)
         else ((if go_Dir opts = [] then opts\<lparr>go_Dir := go_Name opts\<rparr> else opts), None))"

text \<open>The terminal: the lines still to be read (nothing more reads as an empty line) and what was written.\<close>

type_synonym terminal = "string list \<times> string list"

definition read_line :: "terminal \<Rightarrow> string \<times> terminal" where
  "read_line io = (case io of ([], out) \<Rightarrow> ([], ([], out)) | (l # ls, out) \<Rightarrow> (l, (ls, out)))"

definition write_out :: "string \<Rightarrow> terminal \<Rightarrow> terminal" where
  "write_out s io = (fst io, snd io @ [s])"

definition prompt :: "string \<Rightarrow> string \<Rightarrow> terminal \<Rightarrow> string \<times> terminal" where
  "prompt label deflt io =
     (case read_line (write_out (if deflt \<noteq> [] then label @ '' ['' @ deflt @ '']: '' else label @ '': '') io) of
        (line, io') \<Rightarrow> (if TrimSpace line = [] then deflt else TrimSpace line, io'))"

definition yesNo :: "string \<Rightarrow> terminal \<Rightarrow> bool \<times> terminal" where
  "yesNo label io =
     (case read_line (write_out (label @ '' [y/N]: '') io) of
        (line, io') \<Rightarrow> (let l = ToLower (TrimSpace line) in (l = ''y'' \<or> l = ''yes'', io')))"

text \<open>A question that is asked only under a condition, and its answer stored.\<close>

definition ask :: "bool \<Rightarrow> (terminal \<Rightarrow> 'x \<times> terminal) \<Rightarrow> ('x \<Rightarrow> gen_options \<Rightarrow> gen_options) \<Rightarrow>
    gen_options \<times> terminal \<Rightarrow> gen_options \<times> terminal" where
  "ask cond q set_field = (\<lambda>(opts, io). if cond then (case q io of (x, io') \<Rightarrow> (set_field x opts, io')) else (opts, io))"

definition resolve_prompts :: "(string \<Rightarrow> bool) \<Rightarrow> gen_options \<Rightarrow> terminal \<Rightarrow> gen_options \<times> terminal" where
  "resolve_prompts changed o0 io0 =
     (let (o1, io1) = ask (go_Name o0 = []) (prompt ''Project name'' []) (\<lambda>x o'. o'\<lparr>go_Name := x\<rparr>) (o0, io0);
          (o2, io2) = ask (go_Module o1 = []) (prompt ''Module path'' []) (\<lambda>x o'. o'\<lparr>go_Module := x\<rparr>) (o1, io1);
          (o3, io3) = ask (\<not> changed ''db'') (prompt ''Database (postgres/sqlite)'' (go_DB o2)) (\<lambda>x o'. o'\<lparr>go_DB := x\<rparr>) (o2, io2);
          (o4, io4) = ask (\<not> changed ''layout'') (prompt ''Layout (ddd/layered)'' (go_Layout o3)) (\<lambda>x o'. o'\<lparr>go_Layout := x\<rparr>) (o3, io3);
          (o5, io5) = ask (\<not> changed ''sample'' \<and> \<not> go_Sample o4) (yesNo ''Include sample CRUD?'') (\<lambda>x o'. o'\<lparr>go_Sample := x\<rparr>) (o4, io4);
          (o6, io6) = ask (\<not> changed ''auth'' \<and> \<not> go_Auth o5) (yesNo ''Include auth (JWT + accounts)?'') (\<lambda>x o'. o'\<lparr>go_Auth := x\<rparr>) (o5, io5);
          (o7, io7) = ask (go_Auth o6 \<and> \<not> changed ''auth-with-team'' \<and> \<not> go_Team o6) (yesNo ''Include teams/workspaces?'')
                        (\<lambda>x o'. o'\<lparr>go_Team := x\<rparr>) (o6, io6);
          (o8, io8) = ask (\<not> changed ''queue'' \<and> \<not> go_Queue o7) (yesNo ''Include background job queue (asynq)?'')
                        (\<lambda>x o'. o'\<lparr>go_Queue := x\<rparr>) (o7, io7)
      in ask (\<not> changed ''mailer'' \<and> \<not> go_Mailer o8) (yesNo ''Include transactional email (SMTP mailer)?'')
           (\<lambda>x o'. o'\<lparr>go_Mailer := x\<rparr>) (o8, io8))"

definition options_Resolve ::
  "bool \<Rightarrow> (string \<Rightarrow> bool) option \<Rightarrow> gen_options \<Rightarrow> terminal \<Rightarrow> (gen_options \<times> opt_err option) \<times> terminal" where
  "options_Resolve interactive changed opts io =
     (let changed = (case changed of None \<Rightarrow> (\<lambda>_. False) | Some f \<Rightarrow> f);
          (opts', io') = (if interactive then resolve_prompts changed opts io else (opts, io))
      in (options_Validate opts', io'))"

section \<open>Names and plans\<close>

record moduleData =
  md_Module :: string
  md_Layout :: string
  md_Type :: string
  md_Pkg :: string
  md_Plural :: string

definition is_letter :: "char \<Rightarrow> bool" where
  "is_letter c \<longleftrightarrow> is_lower c \<or> is_upper c"

definition moduleNameRe :: "string \<Rightarrow> bool" where
  "moduleNameRe name = (case name of [] \<Rightarrow> False
     | c # cs \<Rightarrow> is_letter c \<and> list_all (\<lambda>x. is_letter x \<or> is_digit x \<or> x = CHR ''_'') cs)"

definition deriveModuleNames :: "string \<Rightarrow> moduleData option" where
  "deriveModuleNames name =
     (if \<not> moduleNameRe name then None
      else Some \<lparr>md_Module = [], md_Layout = [], md_Type = ToUpper (take 1 name) @ drop 1 name, md_Pkg = ToLower name,
                 md_Plural = ToLower name @ ''s''\<rparr>)"

record gen_data =
  gd_Name :: string
  gd_Module :: string
  gd_DB :: string
  gd_Layout :: string
  gd_Sample :: bool
  gd_Auth :: bool
  gd_Team :: bool
  gd_Queue :: bool
  gd_Mailer :: bool
  gd_Realtime :: bool
  gd_I18n :: bool
  gd_JWTSecret :: string
  gd_HelpersVersion :: string
  gd_LocalReplace :: string

type_synonym fileSpec = "string \<times> string"   \<comment> \<open>template, destination\<close>

definition plan :: "gen_data \<Rightarrow> fileSpec list" where
  "plan d =
     [(''common/gomod.tmpl'', ''go.mod''),
      (''common/gitignore.tmpl'', ''.gitignore''),
      (''common/env.tmpl'', ''.env.example''),
      (''common/env.tmpl'', ''.env''),
      (''common/dockerfile.tmpl'', ''Dockerfile''),
      (''common/compose.tmpl'', ''docker-compose.yml''),
      (''common/makefile.tmpl'', ''Makefile''),
      (''common/readme.tmpl'', ''README.md''),
      (''common/migrations.tmpl'', ''internal/migrations/migrations.go'')] @
     (if gd_Layout d = ''ddd'' then
        [(''ddd/main.tmpl'', ''cmd/api/main.go''),
         (''ddd/config.tmpl'', ''internal/infrastructure/config/config.go''),
         (''ddd/database.tmpl'', ''internal/infrastructure/database/database.go''),
         (''ddd/router.tmpl'', ''internal/interface/http/router.go'')]
      else if gd_Layout d = ''layered'' then
        [(''layered/main.tmpl'', ''cmd/api/main.go''),
         (''layered/config.tmpl'', ''internal/config/config.go''),
         (''layered/router.tmpl'', ''internal/router/router.go'')]
      else [])"

definition planModule :: "moduleData \<Rightarrow> fileSpec list" where
  "planModule md =
     (let p = md_Pkg md
      in if md_Layout md = ''ddd'' then
           [(''module/ddd/domain.tmpl'', ''internal/domain/'' @ p @ ''/'' @ p @ ''.go''),
            (''module/ddd/repository_iface.tmpl'', ''internal/domain/'' @ p @ ''/repository.go''),
            (''module/ddd/service.tmpl'', ''internal/application/'' @ p @ ''/service.go''),
            (''module/ddd/persistence.tmpl'', ''internal/infrastructure/persistence/'' @ p @ ''_repository_bun.go''),
            (''module/ddd/handler.tmpl'', ''internal/interface/http/'' @ p @ ''_handler.go''),
            (''module/ddd/module.tmpl'', ''internal/interface/http/'' @ p @ ''_module.go'')]
         else if md_Layout md = ''layered'' then
           [(''module/layered/model.tmpl'', ''internal/model/'' @ p @ ''.go''),
            (''module/layered/repository.tmpl'', ''internal/repository/'' @ p @ ''_repo.go''),
            (''module/layered/service.tmpl'', ''internal/service/'' @ p @ ''_service.go''),
            (''module/layered/handler.tmpl'', ''internal/handler/'' @ p @ ''_handler.go''),
            (''module/layered/module.tmpl'', ''internal/handler/'' @ p @ ''_module.go'')]
         else [])"

definition planAuth :: "gen_data \<Rightarrow> fileSpec list" where
  "planAuth d =
     (if gd_Layout d = ''ddd'' then
        [(''auth/ddd/account.tmpl'', ''internal/domain/account/account.go''),
         (''auth/ddd/repository.tmpl'', ''internal/domain/account/repository.go''),
         (''auth/ddd/service.tmpl'', ''internal/application/account/service.go''),
         (''auth/ddd/persistence.tmpl'', ''internal/infrastructure/persistence/account_repository_bun.go'')] @
        (if gd_Team d then
           [(''auth/ddd/team.tmpl'', ''internal/domain/team/team.go''),
            (''auth/ddd/team_repository.tmpl'', ''internal/domain/team/repository.go''),
            (''auth/ddd/team_persistence.tmpl'', ''internal/infrastructure/persistence/team_repository_bun.go''),
            (''auth/ddd/team_service.tmpl'', ''internal/application/team/service.go''),
            (''auth/ddd/handler_team.tmpl'', ''internal/interface/http/auth_handler.go''),
            (''auth/ddd/module_team.tmpl'', ''internal/interface/http/auth_module.go'')]
         else
           [(''auth/ddd/handler.tmpl'', ''internal/interface/http/auth_handler.go''),
            (''auth/ddd/module.tmpl'', ''internal/interface/http/auth_module.go'')])
      else if gd_Layout d = ''layered'' then
        [(''auth/layered/model.tmpl'', ''internal/model/account.go''),
         (''auth/layered/repository.tmpl'', ''internal/repository/account_repo.go''),
         (''auth/layered/service.tmpl'', ''internal/service/auth_service.go'')] @
        (if gd_Team d then
           [(''auth/layered/team_model.tmpl'', ''internal/model/team.go''),
            (''auth/layered/team_repository.tmpl'', ''internal/repository/team_repo.go''),
            (''auth/layered/team_service.tmpl'', ''internal/service/team_service.go''),
            (''auth/layered/handler_team.tmpl'', ''internal/handler/auth_handler.go''),
            (''auth/layered/module_team.tmpl'', ''internal/handler/auth_module.go'')]
         else
           [(''auth/layered/handler.tmpl'', ''internal/handler/auth_handler.go''),
            (''auth/layered/module.tmpl'', ''internal/handler/auth_module.go'')])
      else [])"

definition planQueue :: "gen_data \<Rightarrow> fileSpec list" where
  "planQueue d =
     (if gd_Layout d = ''ddd'' then [(''queue/jobs.tmpl'', ''internal/application/jobs/jobs.go'')]
      else if gd_Layout d = ''layered'' then [(''queue/jobs.tmpl'', ''internal/jobs/jobs.go'')]
      else [])"

definition planRealtime :: "gen_data \<Rightarrow> fileSpec list" where
  "planRealtime d =
     (if gd_Layout d = ''layered'' then [(''realtime/layered/handler.tmpl'', ''internal/handler/realtime_handler.go'')]
      else [(''realtime/ddd/handler.tmpl'', ''internal/interface/http/realtime_handler.go'')])"

definition planI18n :: "gen_data \<Rightarrow> fileSpec list" where
  "planI18n d =
     [(''i18n/locales.tmpl'', ''internal/locales/locales.go''),
      (''i18n/en.tmpl'', ''internal/locales/en.json''),
      (''i18n/id.tmpl'', ''internal/locales/id.json'')] @
     (if gd_Layout d = ''layered'' then [(''i18n/layered/handler.tmpl'', ''internal/handler/i18n_handler.go'')]
      else [(''i18n/ddd/handler.tmpl'', ''internal/interface/http/i18n_handler.go'')])"

section \<open>Migration timestamps\<close>

text \<open>
  \<open>time.Format("20060102150405")\<close> of a UTC time, given in seconds since the first of January of
  the year 1: the year and then the month are found by counting off their days.
\<close>

definition leap :: "nat \<Rightarrow> bool" where
  "leap y \<longleftrightarrow> y mod 4 = 0 \<and> (y mod 100 \<noteq> 0 \<or> y mod 400 = 0)"

definition year_days :: "nat \<Rightarrow> nat" where
  "year_days y = (if leap y then 366 else 365)"

function civil_year :: "nat \<Rightarrow> nat \<Rightarrow> nat \<times> nat" where
  "civil_year y d = (if d < year_days y then (y, d) else civil_year (y + 1) (d - year_days y))"
  by pat_completeness auto
termination by (relation "measure snd") (auto simp: year_days_def)

declare civil_year.simps [simp del]

definition month_days :: "bool \<Rightarrow> nat list" where
  "month_days lp = [31, if lp then 29 else 28, 31, 30, 31, 30, 31, 31, 30, 31, 30, 31]"

fun civil_month :: "nat list \<Rightarrow> nat \<Rightarrow> nat \<Rightarrow> nat \<times> nat" where
  "civil_month [] m d = (m, d)"
| "civil_month (l # ls) m d = (if d < l then (m, d) else civil_month ls (m + 1) (d - l))"

fun pad_num :: "nat \<Rightarrow> nat \<Rightarrow> string" where
  "pad_num 0 n = []"
| "pad_num (Suc k) n = pad_num k (n div 10) @ [digit_char (n mod 10)]"

definition format_stamp :: "nat \<Rightarrow> string" where
  "format_stamp secs =
     (let (y, yd) = civil_year 1 (secs div 86400);
          (m, d) = civil_month (month_days (leap y)) 1 yd;
          t = secs mod 86400
      in (if y < 10000 then pad_num 4 y else nat_digits y) @ pad_num 2 m @ pad_num 2 (d + 1) @ pad_num 2 (t div 3600) @ pad_num 2 (t div 60 mod 60) @ pad_num 2 (t mod 60))"

record migrationClock =
  clk_base :: nat
  clk_n :: nat

definition newMigrationClock :: "nat \<Rightarrow> migrationClock" where
  "newMigrationClock now = \<lparr>clk_base = now, clk_n = 0\<rparr>"

definition clock_next :: "migrationClock \<Rightarrow> string \<times> migrationClock" where
  "clock_next c = (format_stamp (clk_base c + clk_n c), c\<lparr>clk_n := clk_n c + 1\<rparr>)"

section \<open>Rendering\<close>

datatype tdata = TData gen_data | TModule moduleData | TNil

record gen_env =
  ge_faults :: os_faults
  ge_exec :: "string \<Rightarrow> tdata \<Rightarrow> string + string"      \<comment> \<open>a template executed on its data\<close>
  ge_gofmt :: "string \<Rightarrow> string + string"
  ge_readdir :: "file_path \<Rightarrow> string option"            \<comment> \<open>a failure other than a missing directory\<close>
  ge_random :: "nat \<Rightarrow> string + string"
  ge_now :: nat
  ge_cmd :: "file_path \<Rightarrow> string list \<Rightarrow> fs \<Rightarrow> fs \<times> string option"

definition randHex :: "gen_env \<Rightarrow> nat \<Rightarrow> string + string" where
  "randHex env n = (case ge_random env n of Inl e \<Rightarrow> Inl e | Inr b \<Rightarrow> Inr (hex_EncodeToString b))"

definition render_content :: "gen_env \<Rightarrow> fileSpec \<Rightarrow> tdata \<Rightarrow> string + string" where
  "render_content env fsp data =
     (case ge_exec env (fst fsp) data of
        Inl e \<Rightarrow> Inl e
      | Inr content \<Rightarrow> if HasSuffix (snd fsp) ''.go'' then ge_gofmt env content else Inr content)"

definition renderFile :: "gen_env \<Rightarrow> fileSpec \<Rightarrow> tdata \<Rightarrow> file_path \<Rightarrow> fs \<Rightarrow> fs \<times> string option" where
  "renderFile env fsp data base t =
     (case render_content env fsp data of
        Inl e \<Rightarrow> (t, Some e)
      | Inr content \<Rightarrow>
          let full = joined base (snd fsp)
          in case os_MkdirAll (ge_faults env) (butlast full) t of
               (t1, Some e) \<Rightarrow> (t1, Some e)
             | (t1, None) \<Rightarrow> os_WriteFile (ge_faults env) full content t1)"

datatype gen_err =
    DirNotEmpty file_path
  | ReadDirFailed string
  | RandomFailed string
  | RenderFailed string string        \<comment> \<open>template, cause\<close>
  | BadModuleName string
  | MigrationExists string
  | MigrationFailed string            \<comment> \<open>cause\<close>
  | NoGoMod
  | NoModuleLine
  | NoLayout
  | LayoutInvalid
  | FileExists string

fun render_all :: "gen_env \<Rightarrow> (fileSpec \<times> tdata) list \<Rightarrow> file_path \<Rightarrow> fs \<Rightarrow> fs \<times> gen_err option" where
  "render_all env [] base t = (t, None)"
| "render_all env ((fsp, data) # rest) base t =
     (case renderFile env fsp data base t of
        (t1, Some e) \<Rightarrow> (t1, Some (RenderFailed (fst fsp) e))
      | (t1, None) \<Rightarrow> render_all env rest base t1)"

definition render_migration :: "gen_env \<Rightarrow> string \<Rightarrow> string \<Rightarrow> tdata \<Rightarrow> file_path \<Rightarrow> fs \<Rightarrow> fs \<times> gen_err option" where
  "render_migration env tmpl dest data base t =
     (if os_Exists (joined base dest) t then (t, Some (MigrationExists dest))
      else case renderFile env (tmpl, dest) data base t of
             (t1, Some e) \<Rightarrow> (t1, Some (MigrationFailed e))
           | (t1, None) \<Rightarrow> (t1, None))"

definition renderMigration :: "gen_env \<Rightarrow> moduleData \<Rightarrow> file_path \<Rightarrow> string \<Rightarrow> fs \<Rightarrow> fs \<times> gen_err option" where
  "renderMigration env md base ts =
     render_migration env ''migration/create_table.tmpl'' (''internal/migrations/'' @ ts @ ''_create_'' @ md_Plural md @ ''.go'')
       (TModule md) base"

definition renderAuthMigration :: "gen_env \<Rightarrow> file_path \<Rightarrow> string \<Rightarrow> fs \<Rightarrow> fs \<times> gen_err option" where
  "renderAuthMigration env base ts =
     render_migration env ''auth/migration_accounts.tmpl'' (''internal/migrations/'' @ ts @ ''_create_accounts.go'') TNil base"

definition team_steps :: "(string \<times> string) list" where
  "team_steps =
     [(''auth/migration_accounts.tmpl'', ''create_accounts''),
      (''auth/migration_teams.tmpl'', ''create_teams''),
      (''auth/migration_memberships.tmpl'', ''create_memberships''),
      (''auth/migration_roles.tmpl'', ''create_roles''),
      (''auth/migration_role_permissions.tmpl'', ''create_role_permissions''),
      (''auth/migration_invitations.tmpl'', ''create_invitations'')]"

fun render_team :: "gen_env \<Rightarrow> (string \<times> string) list \<Rightarrow> file_path \<Rightarrow> migrationClock \<Rightarrow> fs \<Rightarrow> fs \<times> gen_err option" where
  "render_team env [] base clock t = (t, None)"
| "render_team env ((tmpl, name) # steps) base clock t =
     (case clock_next clock of (ts, clock') \<Rightarrow>
      case render_migration env tmpl (''internal/migrations/'' @ ts @ ''_'' @ name @ ''.go'') TNil base t of
        (t1, Some e) \<Rightarrow> (t1, Some e)
      | (t1, None) \<Rightarrow> render_team env steps base clock' t1)"

definition renderTeamMigrations :: "gen_env \<Rightarrow> file_path \<Rightarrow> migrationClock \<Rightarrow> fs \<Rightarrow> fs \<times> gen_err option" where
  "renderTeamMigrations env base clock = render_team env team_steps base clock"

definition dirNonEmpty :: "gen_env \<Rightarrow> file_path \<Rightarrow> fs \<Rightarrow> string + bool" where
  "dirNonEmpty env dir t =
     (case ge_readdir env dir of
        Some e \<Rightarrow> Inl e
      | None \<Rightarrow>
          (case (if dir = [] then Some DirNode else gm_get t dir) of
             None \<Rightarrow> Inr False
           | Some (FileNode _) \<Rightarrow> Inl ''not a directory''
           | Some DirNode \<Rightarrow> Inr (length (dir_entries dir t) > 0)))"

section \<open>Generating a project\<close>

text \<open>The stages of the generator: each runs on the tree the one before left, unless that failed.\<close>

definition and_then :: "fs \<times> gen_err option \<Rightarrow> (fs \<Rightarrow> fs \<times> gen_err option) \<Rightarrow> fs \<times> gen_err option" where
  "and_then r f = (case r of (t, Some e) \<Rightarrow> (t, Some e) | (t, None) \<Rightarrow> f t)"

definition stage :: "bool \<Rightarrow> (fs \<Rightarrow> fs \<times> gen_err option) \<Rightarrow> fs \<Rightarrow> fs \<times> gen_err option" where
  "stage cond f t = (if cond then f t else (t, None))"

abbreviation with_data :: "fileSpec list \<Rightarrow> tdata \<Rightarrow> (fileSpec \<times> tdata) list" where
  "with_data specs d \<equiv> map (\<lambda>f. (f, d)) specs"

definition gen_sample :: "gen_env \<Rightarrow> gen_options \<Rightarrow> file_path \<Rightarrow> migrationClock \<Rightarrow> fs \<Rightarrow> fs \<times> gen_err option" where
  "gen_sample env opts base clock t =
     (case deriveModuleNames ''user'' of
        None \<Rightarrow> (t, Some (BadModuleName ''user''))
      | Some md0 \<Rightarrow>
          let md = md0\<lparr>md_Module := go_Module opts, md_Layout := go_Layout opts\<rparr>
          in and_then (render_all env (with_data (planModule md) (TModule md)) base t)
               (renderMigration env md base (fst (clock_next clock))))"

definition gen_auth :: "gen_env \<Rightarrow> gen_options \<Rightarrow> gen_data \<Rightarrow> file_path \<Rightarrow> migrationClock \<Rightarrow> fs \<Rightarrow> fs \<times> gen_err option" where
  "gen_auth env opts d base clock t =
     and_then (render_all env (with_data (planAuth d) (TData d)) base t)
       (if go_Team opts then renderTeamMigrations env base clock
        else renderAuthMigration env base (fst (clock_next clock)))"

definition gen_files :: "gen_env \<Rightarrow> gen_options \<Rightarrow> gen_data \<Rightarrow> file_path \<Rightarrow> fs \<Rightarrow> fs \<times> gen_err option" where
  "gen_files env opts d base t =
     (let clock = newMigrationClock (ge_now env);
          clock1 = (if go_Sample opts then snd (clock_next clock) else clock);
          r1 = render_all env (with_data (plan d) (TData d)) base t;
          r2 = and_then r1 (stage (go_Sample opts) (gen_sample env opts base clock));
          r3 = and_then r2 (stage (go_Auth opts) (gen_auth env opts d base clock1));
          r4 = and_then r3 (stage (go_Queue opts) (render_all env (with_data (planQueue d) (TData d)) base));
          r5 = and_then r4 (stage (go_Realtime opts) (render_all env (with_data (planRealtime d) (TData d)) base))
      in and_then r5 (stage (go_I18n opts) (render_all env (with_data (planI18n d) (TData d)) base)))"

text \<open>\<open>os.RemoveAll\<close> refuses a path that ends in a dot, and its error is ignored.\<close>

definition remove_target :: "string \<Rightarrow> fs \<Rightarrow> fs" where
  "remove_target dir t =
     (if dir = [] \<or> dir = ''.'' \<or> HasSuffix dir ''/.'' then t else os_RemoveAll (path_of dir) t)"

record gen_world =
  gw_fs :: fs
  gw_out :: "string list"
  gw_cmds :: "(file_path \<times> string list) list"

definition runCmd :: "gen_env \<Rightarrow> file_path \<Rightarrow> string list \<Rightarrow> gen_world \<Rightarrow> gen_world \<times> string option" where
  "runCmd env dir args w =
     (case ge_cmd env dir args (gw_fs w) of
        (t, e) \<Rightarrow> (w\<lparr>gw_fs := t, gw_cmds := gw_cmds w @ [(dir, args)]\<rparr>, e))"

definition say :: "string \<Rightarrow> gen_world \<Rightarrow> gen_world" where
  "say s w = w\<lparr>gw_out := gw_out w @ [s]\<rparr>"

definition post_tidy :: "gen_env \<Rightarrow> gen_options \<Rightarrow> file_path \<Rightarrow> gen_world \<Rightarrow> gen_world" where
  "post_tidy env opts base w =
     (let w1 = (if go_Local opts = [] \<and> go_HelpersVersion opts \<noteq> []
                then case runCmd env base [''go'', ''get'', ''github.com/rahmadafandi/fibr@'' @ go_HelpersVersion opts] w of
                       (w', Some e) \<Rightarrow> say (''warning: go get fibr@'' @ go_HelpersVersion opts @ '' failed ('' @ e @
                                           ''); use --local for an unpublished library'') w'
                     | (w', None) \<Rightarrow> w'
                else w)
      in case runCmd env base [''go'', ''mod'', ''tidy''] w1 of
           (w2, Some e) \<Rightarrow> say (''warning: go mod tidy failed ('' @ e @
                               ''); project generated, resolve deps manually or use --local'') w2
         | (w2, None) \<Rightarrow> w2)"

definition Generate :: "gen_env \<Rightarrow> gen_options \<Rightarrow> gen_world \<Rightarrow> gen_world \<times> gen_err option" where
  "Generate env o0 w =
     (let opts = (if go_Team o0 then o0\<lparr>go_Auth := True\<rparr> else o0);
          base = path_of (go_Dir opts)
      in case dirNonEmpty env base (gw_fs w) of
           Inl e \<Rightarrow> (w, Some (ReadDirFailed e))
         | Inr True \<Rightarrow> (w, Some (DirNotEmpty base))
         | Inr False \<Rightarrow>
             (let d0 = \<lparr>gd_Name = go_Name opts, gd_Module = go_Module opts, gd_DB = go_DB opts, gd_Layout = go_Layout opts,
                        gd_Sample = go_Sample opts, gd_Auth = False, gd_Team = False, gd_Queue = go_Queue opts,
                        gd_Mailer = go_Mailer opts, gd_Realtime = go_Realtime opts, gd_I18n = go_I18n opts, gd_JWTSecret = [],
                        gd_HelpersVersion = go_HelpersVersion opts, gd_LocalReplace = go_Local opts\<rparr>
              in case (if go_Auth opts
                       then (case randHex env 32 of
                               Inl e \<Rightarrow> Inl e
                             | Inr secret \<Rightarrow> Inr (d0\<lparr>gd_Auth := True, gd_Team := go_Team opts, gd_JWTSecret := secret\<rparr>))
                       else Inr d0) of
                   Inl e \<Rightarrow> (w, Some (RandomFailed e))
                 | Inr d \<Rightarrow>
                     (case gen_files env opts d base (gw_fs w) of
                        (t, Some e) \<Rightarrow> (w\<lparr>gw_fs := remove_target (go_Dir opts) t\<rparr>, Some e)
                      | (t, None) \<Rightarrow>
                          let w1 = w\<lparr>gw_fs := t\<rparr>;
                              w2 = (if \<not> go_NoTidy opts then post_tidy env opts base w1 else w1);
                              w3 = (if \<not> go_NoGit opts then fst (runCmd env base [''git'', ''init''] w2) else w2)
                          in (say (''created '' @ go_Dir opts @ '' ('' @ go_Layout opts @ '', '' @ go_DB opts @ '')'') w3, None))))"

section \<open>Adding a module\<close>

fun module_line :: "string list \<Rightarrow> string option" where
  "module_line [] = None"
| "module_line (l # ls) =
     (let line = TrimSpace l
      in if HasPrefix line ''module '' then Some (TrimSpace (TrimPrefix line ''module '')) else module_line ls)"

definition readGoModule :: "file_path \<Rightarrow> fs \<Rightarrow> gen_err + string" where
  "readGoModule dir t =
     (case gm_get t (dir @ [''go.mod'']) of
        Some (FileNode content) \<Rightarrow>
          (case module_line (Split CHR 0x0A content) of Some m \<Rightarrow> Inr m | None \<Rightarrow> Inl NoModuleLine)
      | Some DirNode \<Rightarrow> Inl NoModuleLine
      | None \<Rightarrow> Inl NoGoMod)"

definition detectLayout :: "file_path \<Rightarrow> fs \<Rightarrow> gen_err + string" where
  "detectLayout dir t =
     (if os_IsDir (dir @ [''internal'', ''domain'']) t then Inr ''ddd''
      else if os_IsDir (dir @ [''internal'', ''model'']) t then Inr ''layered''
      else Inl NoLayout)"

definition mountHint :: "string \<Rightarrow> string \<Rightarrow> moduleData \<Rightarrow> string \<times> string" where
  "mountHint layout modulePath md =
     (if layout = ''ddd'' then
        (CHR 0x09 # ''httpiface '' @ [CHR 0x22] @ modulePath @ ''/internal/interface/http'' @ [CHR 0x22],
         ''app.Mount(httpiface.New'' @ md_Type md @ ''Module(db))'')
      else if layout = ''layered'' then
        (CHR 0x09 # [CHR 0x22] @ modulePath @ ''/internal/handler'' @ [CHR 0x22],
         ''app.Mount(handler.New'' @ md_Type md @ ''Module(db))'')
      else ([], []))"

record add_options =
  ao_Name :: string
  ao_Dir :: string
  ao_Layout :: string

fun remove_written :: "file_path list \<Rightarrow> fs \<Rightarrow> fs" where
  "remove_written [] t = t"
| "remove_written (p # ps) t = remove_written ps (os_Remove p t)"

text \<open>The loop that renders the files of a module; on a failure those written so far are removed.\<close>

fun add_files ::
  "gen_env \<Rightarrow> fileSpec list \<Rightarrow> tdata \<Rightarrow> file_path \<Rightarrow> file_path list \<Rightarrow> fs \<Rightarrow> (fs \<times> file_path list) \<times> gen_err option" where
  "add_files env [] data base written t = ((t, written), None)"
| "add_files env (fsp # rest) data base written t =
     (case renderFile env fsp data base t of
        (t1, Some e) \<Rightarrow> ((remove_written written t1, written), Some (RenderFailed (fst fsp) e))
      | (t1, None) \<Rightarrow> add_files env rest data base (written @ [joined base (snd fsp)]) t1)"

definition existing_file :: "fileSpec list \<Rightarrow> file_path \<Rightarrow> fs \<Rightarrow> string option" where
  "existing_file specs base t = map_option snd (List.find (\<lambda>f. os_Exists (joined base (snd f)) t) specs)"

definition add_render :: "gen_env \<Rightarrow> moduleData \<Rightarrow> file_path \<Rightarrow> fs \<Rightarrow> fs \<times> gen_err option" where
  "add_render env md base t =
     (case existing_file (planModule md) base t of
        Some dest \<Rightarrow> (t, Some (FileExists dest))
      | None \<Rightarrow>
          (case add_files env (planModule md) (TModule md) base [] t of
             ((t1, written), Some e) \<Rightarrow> (t1, Some e)
           | ((t1, written), None) \<Rightarrow>
               (case renderMigration env md base (fst (clock_next (newMigrationClock (ge_now env)))) t1 of
                  (t2, Some e) \<Rightarrow> (remove_written written t2, Some e)
                | (t2, None) \<Rightarrow> (t2, None))))"

text \<open>Of what the command prints, the fixed instructions between the lines below are left out.\<close>

definition AddModule :: "gen_env \<Rightarrow> add_options \<Rightarrow> gen_world \<Rightarrow> gen_world \<times> gen_err option" where
  "AddModule env ao w =
     (let base = path_of (if ao_Dir ao = [] then ''.'' else ao_Dir ao)
      in case readGoModule base (gw_fs w) of
           Inl e \<Rightarrow> (w, Some e)
         | Inr modulePath \<Rightarrow>
             (case (if ao_Layout ao = [] then detectLayout base (gw_fs w) else Inr (ao_Layout ao)) of
                Inl e \<Rightarrow> (w, Some e)
              | Inr layout \<Rightarrow>
                  if layout \<noteq> ''ddd'' \<and> layout \<noteq> ''layered'' then (w, Some LayoutInvalid)
                  else case deriveModuleNames (ao_Name ao) of
                         None \<Rightarrow> (w, Some (BadModuleName (ao_Name ao)))
                       | Some md0 \<Rightarrow>
                           let md = md0\<lparr>md_Module := modulePath, md_Layout := layout\<rparr>
                           in case add_render env md base (gw_fs w) of
                                (t, Some e) \<Rightarrow> (w\<lparr>gw_fs := t\<rparr>, Some e)
                              | (t, None) \<Rightarrow>
                                  (case mountHint layout modulePath md of
                                     (importLine, mountLine) \<Rightarrow>
                                       (w\<lparr>gw_fs := t, gw_out := gw_out w @ [''added module '' @ md_Pkg md @ '' ('' @ layout @ '').'',
                                          importLine, mountLine]\<rparr>, None))))"

end
