(* ===== verification/Generator_Props.thy ===== *)
theory Generator_Props
  imports Generator
begin

text \<open>
  What the project generator guarantees: migration versions that increase, plans whose files do
  not get in each other's way, generation that either completes or removes what it wrote, and
  modules that are added without touching what is there.
\<close>

section \<open>Timestamps increase\<close>

lemma pad_num_ok: "n < 10 ^ k \<Longrightarrow> length (pad_num k n) = k \<and> list_all is_digit (pad_num k n) \<and> digits_val (pad_num k n) = n"
proof (induction k arbitrary: n)
  case (Suc k)
  have "n div 10 < 10 ^ k" using Suc.prems by auto
  from Suc.IH [OF this] show ?case by (simp add: digits_val_def)
qed (simp add: digits_val_def)

lemma digits_val_append: "digits_val (xs @ ys) = digits_val xs * 10 ^ length ys + digits_val ys"
proof (induction ys rule: rev_induct)
  case (snoc y ys)
  have "digits_val (zs @ [y]) = 10 * digits_val zs + digit_val y" for zs by (simp add: digits_val_def)
  from this [of "xs @ ys"] this [of ys] snoc show ?case by (simp add: algebra_simps)
qed (simp add: digits_val_def)

lemma civil_year_bound: "civil_year y d = (y', r) \<Longrightarrow> y \<le> y' \<and> r < year_days y'"
  by (induction y d rule: civil_year.induct) (force simp: civil_year.simps [of y d for y d] split: if_splits)

lemma civil_year_mono:
  "d < d' \<Longrightarrow> civil_year y d = (a, r) \<Longrightarrow> civil_year y d' = (b, r') \<Longrightarrow> a < b \<or> a = b \<and> r < r'"
proof (induction y d arbitrary: d' rule: civil_year.induct)
  case (1 y d)
  show ?case
  proof (cases "d < year_days y")
    case True
    then have "a = y" "r = d" using 1(3) by (simp_all add: civil_year.simps [of y d])
    then show ?thesis using 1 civil_year_bound [of "y + 1" "d' - year_days y" b r']
      by (cases "d' < year_days y") (auto simp: civil_year.simps [of y d'])
  next
    case False
    then have "civil_year (y + 1) (d - year_days y) = (a, r)" "civil_year (y + 1) (d' - year_days y) = (b, r')"
      using 1(2-4) by (simp_all add: civil_year.simps [of y d] civil_year.simps [of y d'])
    then show ?thesis using 1(1) [OF False, of "d' - year_days y"] 1(2) False by simp
  qed
qed

lemma civil_month_bound: "civil_month ls m d = (m', r) \<Longrightarrow> m \<le> m' \<and> m' \<le> m + length ls"
  by (induction ls m d rule: civil_month.induct) (force split: if_splits)+

lemma civil_month_day: "civil_month ls m d = (m', r) \<Longrightarrow> d < sum_list ls \<Longrightarrow> \<forall>l\<in>set ls. l \<le> b \<Longrightarrow> m' < m + length ls \<and> r < b"
  by (induction ls m d rule: civil_month.induct) (force split: if_splits)+

lemma civil_month_mono:
  "d < d' \<Longrightarrow> civil_month ls m d = (a, r) \<Longrightarrow> civil_month ls m d' = (b, r') \<Longrightarrow> a < b \<or> a = b \<and> r < r'"
proof (induction ls m d arbitrary: d' rule: civil_month.induct)
  case (2 l ls m d)
  show ?case
  proof (cases "d < l")
    case True
    then show ?thesis using 2 civil_month_bound [of ls "m + 1" "d' - l" b r'] by (cases "d' < l") auto
  next
    case False
    then show ?thesis using 2(1) [OF False, of "d' - l"] 2(2-4) by auto
  qed
qed auto

text \<open>The date and time of a second count, and the number its stamp reads as.\<close>

definition stamp_fields :: "nat \<Rightarrow> nat \<times> nat \<times> nat" where
  "stamp_fields s = (let (y, yd) = civil_year 1 (s div 86400); (m, d) = civil_month (month_days (leap y)) 1 yd in (y, m, d))"

definition stamp_value :: "nat \<Rightarrow> nat" where
  "stamp_value s = (case stamp_fields s of (y, m, d) \<Rightarrow>
     let t = s mod 86400
     in ((((y * 100 + m) * 100 + (d + 1)) * 100 + t div 3600) * 100 + t div 60 mod 60) * 100 + t mod 60)"

lemma stamp_fields_bounds:
  assumes "stamp_fields s = (y, m, d)"
  shows "1 \<le> y \<and> m \<le> 12 \<and> d < 31"
proof -
  obtain yd where y: "civil_year 1 (s div 86400) = (y, yd)" and m: "civil_month (month_days (leap y)) 1 yd = (m, d)"
    using assms by (auto simp: stamp_fields_def split: prod.splits)
  have "yd < sum_list (month_days (leap y))"
    using civil_year_bound [OF y] by (simp add: year_days_def month_days_def split: if_splits)
  moreover have "\<forall>l\<in>set (month_days (leap y)). l \<le> 31" "length (month_days (leap y)) = 12" by (simp_all add: month_days_def)
  ultimately show ?thesis using civil_month_day [OF m, of 31] civil_year_bound [OF y] by linarith
qed

lemma format_stamp_value: "digits_val (format_stamp s) = stamp_value s \<and> list_all is_digit (format_stamp s) \<and> format_stamp s \<noteq> []"
proof -
  obtain y m d where f: "stamp_fields s = (y, m, d)" by (metis prod_cases3)
  note b = stamp_fields_bounds [OF f]
  let ?t = "s mod 86400"
  let ?y = "if y < 10000 then pad_num 4 y else nat_digits y"
  have fs: "format_stamp s = ?y @ pad_num 2 m @ pad_num 2 (d + 1) @ pad_num 2 (?t div 3600) @ pad_num 2 (?t div 60 mod 60) @ pad_num 2 (?t mod 60)"
    using f by (auto simp: format_stamp_def stamp_fields_def Let_def split: prod.splits)
  have y: "digits_val ?y = y \<and> list_all is_digit ?y" using pad_num_ok [of y 4] nat_digits_ok [of y] by simp
  have p: "length (pad_num 2 n) = 2 \<and> list_all is_digit (pad_num 2 n) \<and> digits_val (pad_num 2 n) = n" if "n < 100" for n
    using pad_num_ok [of n 2] that by simp
  have n: "m < 100" "d + 1 < 100" "?t div 3600 < 100" "?t div 60 mod 60 < 100" "?t mod 60 < 100"
    using b mod_less_divisor [of 86400 s] by (simp_all add: div_less_iff_less_mult)
  have "format_stamp s \<noteq> []" using fs p [OF n(5)] by auto
  then show ?thesis unfolding fs stamp_value_def f prod.case Let_def
    using y p [OF n(1)] p [OF n(2)] p [OF n(3)] p [OF n(4)] p [OF n(5)] by (simp add: digits_val_append)
qed

lemma hms_split: "3600 * (x div 3600) + 60 * (x div 60 mod 60) + x mod 60 = x" for x :: nat
proof -
  have "60 * (x div 60) + x mod 60 = x" by simp
  moreover have "60 * (x div 60 div 60) + x div 60 mod 60 = x div 60" by simp
  moreover have "x div 60 div 60 = x div 3600" by (simp add: div_mult2_eq [symmetric])
  ultimately show ?thesis by linarith
qed

lemma hms_less:
  fixes h h' m m' s s' :: nat
  assumes "3600 * h + 60 * m + s < 3600 * h' + 60 * m' + s'" "m < 60" "s < 60" "m' < 60" "s' < 60"
  shows "h * 10000 + m * 100 + s < h' * 10000 + m' * 100 + s'"
proof -
  consider "h < h'" | "h = h'" "m < m'" | "h = h'" "m = m'" | "h = h'" "m' < m" | "h' < h" by linarith
  then show ?thesis using assms by cases linarith+
qed

lemma fields_less:
  fixes y y' m m' d d' c c' :: nat
  assumes "y < y' \<or> y = y' \<and> (m < m' \<or> m = m' \<and> (d < d' \<or> d = d' \<and> c < c'))"
    and "m \<le> 12" "d < 31" "c < 10 ^ 6"
  shows "y * 10 ^ 10 + m * 10 ^ 8 + (d + 1) * 10 ^ 6 + c < y' * 10 ^ 10 + m' * 10 ^ 8 + (d' + 1) * 10 ^ 6 + c'"
proof -
  consider "y < y'" | "y = y'" "m < m'" | "y = y'" "m = m'" "d < d'" | "y = y'" "m = m'" "d = d'" "c < c'" using assms(1) by blast
  then show ?thesis using assms(2-4) by cases simp_all
qed

lemma stamp_value_mono:
  assumes "s < s'"
  shows "stamp_value s < stamp_value s'"
proof -
  obtain y m d where f: "stamp_fields s = (y, m, d)" by (metis prod_cases3)
  obtain y' m' d' where f': "stamp_fields s' = (y', m', d')" by (metis prod_cases3)
  note b = stamp_fields_bounds [OF f] stamp_fields_bounds [OF f']
  let ?t = "\<lambda>s :: nat. s mod 86400"
  let ?c = "\<lambda>s. ?t s div 3600 * 10000 + ?t s div 60 mod 60 * 100 + ?t s mod 60"
  have v: "stamp_value s = y * 10 ^ 10 + m * 10 ^ 8 + (d + 1) * 10 ^ 6 + ?c s" if "stamp_fields s = (y, m, d)" for s y m d
    unfolding stamp_value_def that by (simp add: Let_def)
  have c: "?c s < 10 ^ 6" for s
  proof -
    have "?t s div 3600 < 24" by (simp add: div_less_iff_less_mult)
    moreover have "?t s div 60 mod 60 < 60" "?t s mod 60 < 60" by simp_all
    ultimately show ?thesis by simp
  qed
  have "y < y' \<or> y = y' \<and> (m < m' \<or> m = m' \<and> (d < d' \<or> d = d' \<and> s div 86400 = s' div 86400))"
  proof (cases "s div 86400 = s' div 86400")
    case True
    then have "stamp_fields s = stamp_fields s'" by (simp add: stamp_fields_def)
    then show ?thesis using f f' True by simp
  next
    case False
    then have lt: "s div 86400 < s' div 86400" using assms by (meson div_le_mono le_neq_implies_less less_imp_le_nat)
    obtain yd yd' where y: "civil_year 1 (s div 86400) = (y, yd)" "civil_month (month_days (leap y)) 1 yd = (m, d)"
      and y': "civil_year 1 (s' div 86400) = (y', yd')" "civil_month (month_days (leap y')) 1 yd' = (m', d')"
      using f f' by (auto simp: stamp_fields_def split: prod.splits)
    show ?thesis using civil_year_mono [OF lt y(1) y'(1)] civil_month_mono [OF _ y(2)] y'(2) by blast
  qed
  moreover have "?c s < ?c s'" if "s div 86400 = s' div 86400"
  proof -
    have lt: "?t s < ?t s'" using assms that by (metis div_mult_mod_eq nat_add_left_cancel_less)
    show ?thesis
    proof (rule hms_less)
      show "3600 * (?t s div 3600) + 60 * (?t s div 60 mod 60) + ?t s mod 60 <
          3600 * (?t s' div 3600) + 60 * (?t s' div 60 mod 60) + ?t s' mod 60"
        unfolding hms_split by (rule lt)
    qed simp_all
  qed
  ultimately have "y < y' \<or> y = y' \<and> (m < m' \<or> m = m' \<and> (d < d' \<or> d = d' \<and> ?c s < ?c s'))" by blast
  then show ?thesis unfolding v [OF f] v [OF f'] by (rule fields_less) (use b c in blast)+
qed

section \<open>Rendering a file\<close>

lemma inside_total: "inside p r \<Longrightarrow> inside q r \<Longrightarrow> inside p q \<or> inside q p"
  unfolding inside_iff by (metis append_eq_append_conv2)

lemma inside_butlast: "inside q (butlast r) \<Longrightarrow> inside q r"
  unfolding inside_iff by (metis append_assoc append_butlast_last_id butlast.simps(1) append_is_Nil_conv)

lemma inside_butlast_neq: "r \<noteq> [] \<Longrightarrow> \<not> inside r (butlast r)"
proof
  assume "r \<noteq> []" "inside r (butlast r)"
  then obtain z where "butlast r = r @ z" "0 < length r" by (auto simp: inside_iff)
  then have "length r - 1 = length r + length z" by (metis length_append length_butlast)
  then show False using \<open>0 < length r\<close> by linarith
qed

lemma MkdirAll_get:
  assumes "os_MkdirAll f p t = (t', e)"
  shows "gm_get t' q = gm_get t q \<or> gm_get t q = None \<and> gm_get t' q = Some DirNode \<and> inside q p"
  using assms mk_dirs_get [of "[]" p t t' e q] by (auto simp: os_MkdirAll_def split: option.splits)

lemma WriteFile_get:
  "os_WriteFile f p content t = (t', e) \<Longrightarrow> q \<noteq> p \<Longrightarrow> gm_get t' q = gm_get t q"
  "os_WriteFile f p content t = (t', None) \<Longrightarrow> gm_get t' p = Some (FileNode content)"
  by (auto simp: os_WriteFile_def split: if_splits option.splits prod.splits)

text \<open>What one file adds to a tree besides itself: missing directories above it.\<close>

lemma renderFile_get:
  assumes "renderFile env fsp data base t = (t', e)" "q \<noteq> joined base (snd fsp)"
  shows "gm_get t' q = gm_get t q \<or>
    gm_get t q = None \<and> gm_get t' q = Some DirNode \<and> inside q (butlast (joined base (snd fsp)))"
proof -
  consider "t' = t" | content t1 e1 where "os_MkdirAll (ge_faults env) (butlast (joined base (snd fsp))) t = (t1, e1)"
      "t' = t1 \<or> os_WriteFile (ge_faults env) (joined base (snd fsp)) content t1 = (t', e)"
    using assms(1) by (auto simp: renderFile_def Let_def split: sum.splits prod.splits option.splits)
  then show ?thesis
  proof cases
    case 2
    then show ?thesis using MkdirAll_get [OF 2(1), of q] WriteFile_get(1) [of _ _ content t1 t' e q] assms(2) by metis
  qed simp
qed

lemma renderFile_ok:
  assumes "renderFile env fsp data base t = (t', None)"
  shows "\<exists>content. render_content env fsp data = Inr content \<and> gm_get t' (joined base (snd fsp)) = Some (FileNode content)"
  using assms WriteFile_get(2) by (fastforce simp: renderFile_def Let_def split: sum.splits prod.splits option.splits)

lemma joined_not_base: "joined base dest \<noteq> base" "joined base dest \<noteq> []"
  by simp_all

section \<open>Outside the target\<close>

text \<open>Outside a directory everything is kept; only missing directories above it may appear.\<close>

definition outside_kept :: "file_path \<Rightarrow> fs \<Rightarrow> fs \<Rightarrow> bool" where
  "outside_kept base t t' \<longleftrightarrow>
     (\<forall>q. \<not> inside base q \<longrightarrow> gm_get t' q = gm_get t q \<or> gm_get t q = None \<and> gm_get t' q = Some DirNode \<and> inside q base)"

definition stays_inside :: "file_path \<Rightarrow> (fs \<Rightarrow> fs \<times> gen_err option) \<Rightarrow> bool" where
  "stays_inside base f \<longleftrightarrow> (\<forall>t t' e. f t = (t', e) \<longrightarrow> outside_kept base t t')"

lemma outside_kept_refl [simp]: "outside_kept base t t"
  by (simp add: outside_kept_def)

lemma outside_kept_trans: "outside_kept base t t' \<Longrightarrow> outside_kept base t' t'' \<Longrightarrow> outside_kept base t t''"
  unfolding outside_kept_def by (metis option.distinct(1))

lemma outside_kept_renderFile:
  assumes "renderFile env fsp data base t = (t', e)"
  shows "outside_kept base t t'"
  unfolding outside_kept_def
proof (intro allI impI)
  fix q assume q: "\<not> inside base q"
  then have "q \<noteq> joined base (snd fsp)" by (auto simp: inside_iff)
  from renderFile_get [OF assms this]
  show "gm_get t' q = gm_get t q \<or> gm_get t q = None \<and> gm_get t' q = Some DirNode \<and> inside q base"
    using q inside_total [of q "joined base (snd fsp)" base] inside_butlast by auto
qed

named_theorems staying

lemma stays_render_all [staying]: "stays_inside base (render_all env jobs base)"
proof -
  have "render_all env jobs base t = (t', e) \<Longrightarrow> outside_kept base t t'" for t t' e
    by (induction env jobs base t rule: render_all.induct)
      (auto split: prod.splits option.splits intro: outside_kept_renderFile outside_kept_trans)
  then show ?thesis by (simp add: stays_inside_def)
qed

lemma stays_render_migration [staying]: "stays_inside base (render_migration env tmpl dest data base)"
  unfolding stays_inside_def render_migration_def
  by (auto split: if_splits prod.splits option.splits intro: outside_kept_renderFile)

lemma stays_render_team [staying]: "stays_inside base (render_team env steps base clock)"
proof -
  have "render_team env steps base clock t = (t', e) \<Longrightarrow> outside_kept base t t'" for t t' e
  proof (induction env steps base clock t rule: render_team.induct)
    case (2 env tmpl name steps base clock t)
    then show ?case using stays_render_migration
      by (fastforce simp: stays_inside_def split: prod.splits option.splits intro: outside_kept_trans)
  qed auto
  then show ?thesis by (simp add: stays_inside_def)
qed

lemma stays_and_then:
  "f t = (t1, e1) \<Longrightarrow> stays_inside base f \<Longrightarrow> stays_inside base g \<Longrightarrow> and_then (t1, e1) g = (t', e) \<Longrightarrow> outside_kept base t t'"
  unfolding stays_inside_def and_then_def by (cases e1) (simp, meson outside_kept_trans, simp)

lemma stays_compose [staying]:
  "stays_inside base f \<Longrightarrow> stays_inside base g \<Longrightarrow> stays_inside base (\<lambda>t. and_then (f t) g)"
  unfolding stays_inside_def by (metis stays_and_then stays_inside_def surj_pair)

lemma stays_stage [staying]: "stays_inside base f \<Longrightarrow> stays_inside base (stage c f)"
  by (auto simp: stays_inside_def stage_def split: if_splits)

lemma stays_gen_sample [staying]: "stays_inside base (gen_sample env opts base clock)"
proof -
  have "stays_inside base (\<lambda>t. and_then (render_all env jobs base t) (renderMigration env md base ts))" for jobs md ts
    unfolding renderMigration_def by (intro staying)
  then show ?thesis unfolding gen_sample_def Let_def by (auto simp: stays_inside_def split: option.splits)
qed

lemma stays_gen_auth [staying]: "stays_inside base (gen_auth env opts d base clock)"
  unfolding gen_auth_def renderTeamMigrations_def renderAuthMigration_def
  by (cases "go_Team opts") (auto intro!: staying)

lemma stays_gen_files: "stays_inside base (gen_files env opts d base)"
  unfolding gen_files_def Let_def by (intro staying)

section \<open>The files of a project\<close>

text \<open>The files of the stages after the skeleton, migrations included, in the order they are rendered.\<close>

abbreviation migration_dest :: "nat \<Rightarrow> string \<Rightarrow> string" where
  "migration_dest secs name \<equiv> ''internal/migrations/'' @ format_stamp secs @ ''_'' @ name @ ''.go''"

definition sample_data :: "gen_options \<Rightarrow> moduleData" where
  "sample_data opts = \<lparr>md_Module = go_Module opts, md_Layout = go_Layout opts, md_Type = ''User'', md_Pkg = ''user'', md_Plural = ''users''\<rparr>"

definition sample_jobs :: "gen_options \<Rightarrow> nat \<Rightarrow> (fileSpec \<times> tdata) list" where
  "sample_jobs opts now =
     with_data (planModule (sample_data opts)) (TModule (sample_data opts)) @
     [((''migration/create_table.tmpl'', migration_dest now ''create_users''), TModule (sample_data opts))]"

fun team_jobs :: "(string \<times> string) list \<Rightarrow> nat \<Rightarrow> (fileSpec \<times> tdata) list" where
  "team_jobs [] now = []"
| "team_jobs ((tmpl, name) # steps) now = ((tmpl, migration_dest now name), TNil) # team_jobs steps (now + 1)"

definition auth_jobs :: "gen_options \<Rightarrow> gen_data \<Rightarrow> nat \<Rightarrow> (fileSpec \<times> tdata) list" where
  "auth_jobs opts d now =
     with_data (planAuth d) (TData d) @
     (if go_Team opts then team_jobs team_steps now
      else [((''auth/migration_accounts.tmpl'', migration_dest now ''create_accounts''), TNil)])"

definition gen_jobs :: "gen_options \<Rightarrow> gen_data \<Rightarrow> nat \<Rightarrow> (fileSpec \<times> tdata) list" where
  "gen_jobs opts d now =
     with_data (plan d) (TData d) @
     (if go_Sample opts then sample_jobs opts now else []) @
     (if go_Auth opts then auth_jobs opts d (if go_Sample opts then now + 1 else now) else []) @
     (if go_Queue opts then with_data (planQueue d) (TData d) else []) @
     (if go_Realtime opts then with_data (planRealtime d) (TData d) else []) @
     (if go_I18n opts then with_data (planI18n d) (TData d) else [])"

lemma derive_user: "deriveModuleNames ''user'' = Some \<lparr>md_Module = [], md_Layout = [], md_Type = ''User'', md_Pkg = ''user'', md_Plural = ''users''\<rparr>"
  by code_simp

lemma render_all_append: "render_all env (xs @ ys) base t = and_then (render_all env xs base t) (render_all env ys base)"
  by (induction env xs base t rule: render_all.induct) (auto simp: and_then_def split: prod.splits option.splits)

text \<open>
  A stage that succeeds is the rendering of its files; a stage whose files can be rendered, and
  whose migrations are not there yet, succeeds.
\<close>

definition does :: "gen_env \<Rightarrow> file_path \<Rightarrow> (fs \<Rightarrow> fs \<times> gen_err option) \<Rightarrow> (fileSpec \<times> tdata) list \<Rightarrow> bool" where
  "does env base f jobs \<longleftrightarrow> (\<forall>t t'. f t = (t', None) \<longrightarrow> render_all env jobs base t = (t', None))"

named_theorems doing

lemma does_render_all [doing]: "does env base (render_all env jobs base) jobs"
  by (simp add: does_def)

lemma does_nothing: "does env base (\<lambda>t. (t, None)) []"
  by (simp add: does_def)

lemma does_stage [doing]: "does env base f jobs \<Longrightarrow> does env base (stage c f) (if c then jobs else [])"
  by (auto simp: does_def stage_def)

lemma does_compose [doing]:
  "does env base f xs \<Longrightarrow> does env base g ys \<Longrightarrow> does env base (\<lambda>t. and_then (f t) g) (xs @ ys)"
  unfolding does_def by (auto simp: render_all_append and_then_def split: prod.splits option.splits)

lemma does_render_migration: "does env base (render_migration env tmpl dest data base) [((tmpl, dest), data)]"
  by (auto simp: does_def render_migration_def split: if_splits prod.splits option.splits)

lemma clock_next_new: "fst (clock_next (newMigrationClock now)) = format_stamp now"
    "fst (clock_next (snd (clock_next (newMigrationClock now)))) = format_stamp (now + 1)"
  by (simp_all add: clock_next_def newMigrationClock_def)

lemma does_render_team:
  "does env base (render_team env steps base clock) (team_jobs steps (clk_base clock + clk_n clock))"
proof -
  have "render_team env steps base clock t = (t', None) \<Longrightarrow>
      render_all env (team_jobs steps (clk_base clock + clk_n clock)) base t = (t', None)" for t t'
  proof (induction env steps base clock t rule: render_team.induct)
    case (2 env tmpl name steps base clock t)
    then show ?case
      by (auto simp: clock_next_def render_migration_def split: if_splits prod.splits option.splits)
  qed simp
  then show ?thesis by (simp add: does_def)
qed

lemma does_gen_sample: "does env base (gen_sample env opts base (newMigrationClock now)) (sample_jobs opts now)"
proof -
  have "does env base (\<lambda>t. and_then (render_all env (with_data (planModule (sample_data opts)) (TModule (sample_data opts))) base t)
      (renderMigration env (sample_data opts) base (format_stamp now))) (sample_jobs opts now)"
    unfolding sample_jobs_def renderMigration_def
    by (intro does_compose does_render_all) (use does_render_migration in \<open>simp add: sample_data_def\<close>)
  then show ?thesis unfolding does_def gen_sample_def
    by (simp add: derive_user clock_next_new sample_data_def Let_def)
qed

lemma does_gen_auth:
  assumes "clk_base clock + clk_n clock = now"
  shows "does env base (gen_auth env opts d base clock) (auth_jobs opts d now)"
  unfolding gen_auth_def auth_jobs_def renderTeamMigrations_def renderAuthMigration_def
  using does_render_team [of env base team_steps clock] does_render_migration assms
  by (auto intro!: does_compose does_render_all simp: clock_next_def)

lemma does_gen_files: "does env base (gen_files env opts d base) (gen_jobs opts d (ge_now env))"
proof -
  let ?c = "newMigrationClock (ge_now env)"
  let ?c1 = "if go_Sample opts then snd (clock_next ?c) else ?c"
  have "clk_base ?c1 + clk_n ?c1 = (if go_Sample opts then ge_now env + 1 else ge_now env)"
    by (simp add: newMigrationClock_def clock_next_def)
  note a = does_gen_auth [OF this]
  show ?thesis unfolding gen_files_def gen_jobs_def Let_def append_assoc [symmetric]
    by (intro does_compose does_stage does_render_all does_gen_sample a)
qed

lemma renderFile_file_stays:
  assumes "renderFile env fsp data base t = (t', e)" "gm_get t q = Some (FileNode x)" "q \<noteq> joined base (snd fsp)"
  shows "gm_get t' q = Some (FileNode x)"
  using renderFile_get [OF assms(1,3)] assms(2) by auto

lemma render_all_file_stays:
  "render_all env jobs base t = (t', None) \<Longrightarrow> q \<notin> (\<lambda>j. joined base (snd (fst j))) ` set jobs \<Longrightarrow>
    gm_get t q = Some (FileNode x) \<Longrightarrow> gm_get t' q = Some (FileNode x)"
proof (induction env jobs base t rule: render_all.induct)
  case (2 env fsp data rest base t)
  then obtain t1 where t1: "renderFile env fsp data base t = (t1, None)" "render_all env rest base t1 = (t', None)"
    by (auto split: prod.splits option.splits)
  have "gm_get t1 q = Some (FileNode x)" using renderFile_file_stays [OF t1(1) 2(4)] 2(3) by auto
  then show ?case using 2(1) [OF t1(1) [symmetric] refl t1(2)] 2(3) by auto
qed simp

lemma render_all_ok:
  "render_all env jobs base t = (t', None) \<Longrightarrow> distinct (map (\<lambda>j. snd (fst j)) jobs) \<Longrightarrow> (fsp, data) \<in> set jobs \<Longrightarrow>
    \<exists>content. render_content env fsp data = Inr content \<and> gm_get t' (joined base (snd fsp)) = Some (FileNode content)"
proof (induction env jobs base t rule: render_all.induct)
  case (2 env fsp' data' rest base t)
  then obtain t1 where t1: "renderFile env fsp' data' base t = (t1, None)" "render_all env rest base t1 = (t', None)"
    by (auto split: prod.splits option.splits)
  show ?case
  proof (cases "(fsp, data) \<in> set rest")
    case True
    then show ?thesis using 2(1) [OF t1(1) [symmetric] refl t1(2)] 2(3) by auto
  next
    case False
    then have eq: "fsp' = fsp" "data' = data" using 2(4) by auto
    have "joined base (snd fsp) \<notin> (\<lambda>j. joined base (snd (fst j))) ` set rest"
      using 2(3) eq by (auto simp: Split_inject image_iff)
    then show ?thesis using renderFile_ok [OF t1(1)] render_all_file_stays [OF t1(2)] eq by blast
  qed
qed simp

section \<open>The plans\<close>

lemma stamp_digits: "c \<in> set (format_stamp s) \<Longrightarrow> is_digit c"
  using format_stamp_value [of s] by (auto simp: list_all_iff)

lemma stamp_no: "CHR ''_'' \<notin> set (format_stamp s)" "CHR ''/'' \<notin> set (format_stamp s)" "CHR ''m'' \<notin> set (format_stamp s)"
  using stamp_digits by (fastforce simp: is_digit_def chr_code_def)+

lemma stamp_eq:
  "format_stamp s @ CHR ''_'' # x = format_stamp s' @ CHR ''_'' # y \<longleftrightarrow> format_stamp s = format_stamp s' \<and> x = y"
  by (metis Cut_append stamp_no(1) option.inject prod.inject)

lemma stamp_head: "format_stamp s @ x \<noteq> CHR ''m'' # y" "CHR ''m'' # y \<noteq> format_stamp s @ x"
  using format_stamp_value [of s] stamp_no(3) [of s] by (cases "format_stamp s"; auto)+

lemmas plan_defs = plan_def planModule_def planAuth_def planQueue_def planRealtime_def planI18n_def sample_data_def team_steps_def

lemma full_distinct:
  assumes "gd_Layout d = layout" "layout = ''ddd'' \<or> layout = ''layered''" "go_Layout opts = layout"
  shows "distinct (map snd (plan d) @ (map snd (planModule (sample_data opts)) @ [migration_dest s1 ''create_users'']) @
    (map snd (planAuth d) @ (if team then map (\<lambda>j. snd (fst j)) (team_jobs team_steps s2) else [migration_dest s2 ''create_accounts''])) @
    map snd (planQueue d) @ map snd (planRealtime d) @ map snd (planI18n d))"
  using assms(2)
proof
  assume l: "layout = ''ddd''"
  show ?thesis by (cases "gd_Team d"; cases team) (simp_all add: plan_defs assms(1,3) l stamp_eq stamp_head)
next
  assume l: "layout = ''layered''"
  show ?thesis by (cases "gd_Team d"; cases team) (simp_all add: plan_defs assms(1,3) l stamp_eq stamp_head)
qed

lemma gen_jobs_distinct:
  assumes "gd_Layout d = go_Layout opts" "go_Layout opts = ''ddd'' \<or> go_Layout opts = ''layered''"
  shows "distinct (map (\<lambda>j. snd (fst j)) (gen_jobs opts d now))"
proof -
  have sub: "distinct (a @ b @ c @ d' @ e @ f) \<Longrightarrow>
      distinct (a @ (if p then b else []) @ (if q then c else []) @ (if r then d' else []) @ (if u then e else []) @ (if v then f else []))"
    for a b c d' e f :: "string list" and p q r u v by auto
  have m: "map g (if p then x else y) = (if p then map g x else map g y)" for g :: "fileSpec \<times> tdata \<Rightarrow> string" and p x y by simp
  have w: "map (\<lambda>j. snd (fst j)) (with_data xs x) = map snd xs" for xs :: "fileSpec list" and x :: tdata by simp
  show ?thesis
    using sub [OF full_distinct [OF assms(1,2) refl, of now "go_Team opts" "if go_Sample opts then now + 1 else now"],
        of "go_Sample opts" "go_Auth opts" "go_Queue opts" "go_Realtime opts" "go_I18n opts"]
    by (simp only: gen_jobs_def map_append m w sample_jobs_def auth_jobs_def list.map fst_conv snd_conv)
qed

text \<open>The directories of the plans, and the names of files: no file has the name of a directory.\<close>

definition plan_dirs :: "string list" where
  "plan_dirs = [''internal'', ''migrations'', ''cmd'', ''api'', ''infrastructure'', ''config'', ''database'', ''interface'', ''http'',
     ''router'', ''domain'', ''user'', ''account'', ''team'', ''application'', ''persistence'', ''model'', ''repository'', ''service'',
     ''handler'', ''jobs'', ''locales'']"

definition good_dest :: "string \<Rightarrow> bool" where
  "good_dest dest \<longleftrightarrow> set (butlast (Split CHR ''/'' dest)) \<subseteq> set plan_dirs \<and> last (Split CHR ''/'' dest) \<notin> set plan_dirs"

lemma good_migration: "CHR ''/'' \<notin> set name \<Longrightarrow> good_dest (migration_dest s name)"
proof -
  assume n: "CHR ''/'' \<notin> set name"
  let ?f = "format_stamp s @ ''_'' @ name @ ''.go''"
  have s: "Split CHR ''/'' (migration_dest s name) = [''internal'', ''migrations'', ?f]"
    using n stamp_no(2) [of s] Split_append [of "CHR ''/''" "''internal''" "''migrations/'' @ ?f"]
      Split_append [of "CHR ''/''" "''migrations''" ?f] Split_no_sep [of "CHR ''/''" ?f] by simp
  have "CHR ''_'' \<in> set ?f" by simp
  moreover have "\<forall>x\<in>set plan_dirs. CHR ''_'' \<notin> set x" by (simp add: plan_dirs_def)
  ultimately have "?f \<notin> set plan_dirs" by blast
  moreover have "{''internal'', ''migrations''} \<subseteq> set plan_dirs" by (simp add: plan_dirs_def)
  ultimately show ?thesis by (simp only: good_dest_def s) simp
qed

lemma good_static:
  assumes "layout = ''ddd'' \<or> layout = ''layered''" "gd_Layout d = layout" "go_Layout opts = layout"
  shows "list_all good_dest (map snd (plan d))" "list_all good_dest (map snd (planModule (sample_data opts)))"
    "list_all good_dest (map snd (planAuth d))" "list_all good_dest (map snd (planQueue d))"
    "list_all good_dest (map snd (planRealtime d))" "list_all good_dest (map snd (planI18n d))"
  using assms by (auto simp: plan_defs good_dest_def plan_dirs_def)

lemma good_team: "\<forall>(tmpl, name)\<in>set steps. CHR ''/'' \<notin> set name \<Longrightarrow> list_all (\<lambda>j. good_dest (snd (fst j))) (team_jobs steps now)"
  by (induction steps now rule: team_jobs.induct) (auto intro: good_migration [simplified])

lemma gen_jobs_good:
  assumes "gd_Layout d = go_Layout opts" "go_Layout opts = ''ddd'' \<or> go_Layout opts = ''layered''"
  shows "list_all (\<lambda>j. good_dest (snd (fst j))) (gen_jobs opts d now)"
proof -
  have w: "list_all (\<lambda>j. good_dest (snd (fst j))) (with_data xs x) = list_all good_dest (map snd xs)" for xs x
    by (simp add: list_all_iff)
  have t: "list_all (\<lambda>j. good_dest (snd (fst j))) (team_jobs team_steps n)" for n
    by (rule good_team) (simp add: team_steps_def)
  have m: "good_dest (migration_dest n ''create_users'')" "good_dest (migration_dest n ''create_accounts'')" for n
    by (rule good_migration, simp)+
  show ?thesis
    unfolding gen_jobs_def sample_jobs_def auth_jobs_def
    by (simp only: list_all_append w good_static [OF assms(2,1) refl] t list.pred_inject m fst_conv snd_conv simp_thms split: if_split)
qed

section \<open>Generation without failures\<close>

definition no_faults :: "os_faults \<Rightarrow> bool" where
  "no_faults f \<longleftrightarrow> (\<forall>p. mkdir_fault f p = None) \<and> (\<forall>p. write_fault f p = None)"

text \<open>Nothing is where the files will go, and no file is where a directory has to be.\<close>

definition room :: "file_path \<Rightarrow> string set \<Rightarrow> fs \<Rightarrow> bool" where
  "room base D t \<longleftrightarrow> (\<forall>dest\<in>D. gm_get t (joined base dest) = None) \<and>
     (\<forall>q x. gm_get t q = Some (FileNode x) \<longrightarrow> \<not> inside q base \<and> (\<forall>ds. set ds \<subseteq> set plan_dirs \<longrightarrow> q \<noteq> base @ ds))"

lemma renderFile_succeeds:
  assumes "no_faults (ge_faults env)" "render_content env fsp data = Inr content" "good_dest (snd fsp)" "room base (insert (snd fsp) D) t"
  shows "\<exists>t'. renderFile env fsp data base t = (t', None)"
proof -
  let ?full = "joined base (snd fsp)" and ?c = "Split CHR ''/'' (snd fsp)"
  have bl: "butlast ?full = base @ butlast ?c" by (simp add: butlast_append)
  have nf: "gm_get t (take k (base @ butlast ?c)) \<noteq> Some (FileNode x)" for k x
  proof (cases "k \<le> length base")
    case True
    then have "inside (take k (base @ butlast ?c)) base" by (auto simp: inside_def)
    then show ?thesis using assms(4) by (auto simp: room_def)
  next
    case False
    then have "take k (base @ butlast ?c) = base @ take (k - length base) (butlast ?c)" by simp
    moreover have "set (take (k - length base) (butlast ?c)) \<subseteq> set plan_dirs"
      using assms(3) by (meson good_dest_def order_trans set_take_subset)
    ultimately show ?thesis using assms(4) by (auto simp: room_def)
  qed
  obtain t1 where t1: "mk_dirs [] (base @ butlast ?c) t = (t1, None)"
    using mk_dirs_succeeds [of "base @ butlast ?c" t "[]"] nf by auto
  then have mk: "os_MkdirAll (ge_faults env) (butlast ?full) t = (t1, None)"
    using assms(1) by (simp add: os_MkdirAll_def bl no_faults_def)
  have "gm_get t1 ?full = None"
    using MkdirAll_get [OF mk, of ?full] inside_butlast_neq [of ?full] assms(4) by (auto simp: room_def)
  moreover have "butlast ?full = [] \<or> gm_get t1 (butlast ?full) = Some DirNode"
    unfolding bl using mk_dirs_ok [OF t1] by auto
  ultimately show ?thesis using assms(1,2) mk
    by (simp add: renderFile_def Let_def os_WriteFile_def no_faults_def)
qed

lemma renderFile_room:
  assumes "renderFile env fsp data base t = (t', None)" "room base (insert (snd fsp) D) t" "good_dest (snd fsp)"
    and "\<forall>dest\<in>D. good_dest dest \<and> dest \<noteq> snd fsp"
  shows "room base D t'"
proof -
  let ?full = "joined base (snd fsp)" and ?c = "\<lambda>d. Split CHR ''/'' d"
  have "gm_get t' (joined base dest) = None" if "dest \<in> D" for dest
  proof -
    have ne: "joined base dest \<noteq> ?full" using assms(4) that by (auto simp: Split_inject)
    have "\<not> inside (joined base dest) (butlast ?full)"
    proof
      assume "inside (joined base dest) (butlast ?full)"
      then obtain r where "butlast (?c (snd fsp)) = ?c dest @ r" by (auto simp: inside_iff butlast_append)
      then have "last (?c dest) \<in> set (butlast (?c (snd fsp)))" by simp
      then show False using assms(3,4) that by (auto simp: good_dest_def)
    qed
    then show ?thesis using renderFile_get [OF assms(1) ne] assms(2) that by (auto simp: room_def)
  qed
  moreover have "\<not> inside q base \<and> (\<forall>ds. set ds \<subseteq> set plan_dirs \<longrightarrow> q \<noteq> base @ ds)" if "gm_get t' q = Some (FileNode x)" for q x
  proof (cases "q = ?full")
    case True
    have "last (?c (snd fsp)) \<notin> set plan_dirs" "?c (snd fsp) \<noteq> []" using assms(3) by (auto simp: good_dest_def)
    then have "set (?c (snd fsp)) \<subseteq> set plan_dirs \<Longrightarrow> False" by (meson last_in_set subsetD)
    then show ?thesis using True by (auto simp: inside_iff)
  next
    case False
    then have "gm_get t q = Some (FileNode x)" using renderFile_get [OF assms(1) False] that by auto
    then show ?thesis using assms(2) unfolding room_def by blast
  qed
  ultimately show ?thesis by (simp add: room_def)
qed

abbreviation dests :: "(fileSpec \<times> tdata) list \<Rightarrow> string list" where
  "dests jobs \<equiv> map (\<lambda>j. snd (fst j)) jobs"

definition renderable :: "gen_env \<Rightarrow> fileSpec \<times> tdata \<Rightarrow> bool" where
  "renderable env j \<longleftrightarrow> (\<exists>content. render_content env (fst j) (snd j) = Inr content)"

text \<open>A stage that can complete whenever there is room for its files, leaving the room for those of \<open>R\<close>.\<close>

definition completes :: "gen_env \<Rightarrow> file_path \<Rightarrow> (fs \<Rightarrow> fs \<times> gen_err option) \<Rightarrow> (fileSpec \<times> tdata) list \<Rightarrow> bool" where
  "completes env base f jobs \<longleftrightarrow> (\<forall>t R. distinct (dests jobs @ R) \<and> list_all good_dest (dests jobs @ R) \<and>
     list_all (renderable env) jobs \<and> room base (set (dests jobs @ R)) t \<longrightarrow> (\<exists>t'. f t = (t', None) \<and> room base (set R) t'))"

lemma completes_compose:
  assumes "completes env base f xs" "completes env base g ys"
  shows "completes env base (\<lambda>t. and_then (f t) g) (xs @ ys)"
  unfolding completes_def
proof (intro allI impI, elim conjE)
  fix t R assume p: "distinct (dests (xs @ ys) @ R)" "list_all good_dest (dests (xs @ ys) @ R)"
    "list_all (renderable env) (xs @ ys)" "room base (set (dests (xs @ ys) @ R)) t"
  then obtain t1 where t1: "f t = (t1, None)" "room base (set (dests ys @ R)) t1"
    using assms(1) [unfolded completes_def, rule_format, of "dests ys @ R" t] by auto
  then obtain t2 where "g t1 = (t2, None)" "room base (set R) t2"
    using assms(2) [unfolded completes_def, rule_format, of R t1] p by auto
  then show "\<exists>t'. and_then (f t) g = (t', None) \<and> room base (set R) t'" using t1 by (simp add: and_then_def)
qed

lemma completes_stage: "completes env base f jobs \<Longrightarrow> completes env base (stage c f) (if c then jobs else [])"
  by (auto simp: completes_def stage_def)

lemma completes_file:
  assumes "no_faults (ge_faults env)" "\<And>t t'. gm_get t (joined base dest) = None \<Longrightarrow>
      renderFile env (tmpl, dest) data base t = (t', None) \<Longrightarrow> f t = (t', None)"
  shows "completes env base f [((tmpl, dest), data)]"
  unfolding completes_def
proof (intro allI impI, elim conjE)
  fix t R assume p: "distinct (dests [((tmpl, dest), data)] @ R)" "list_all good_dest (dests [((tmpl, dest), data)] @ R)"
    "list_all (renderable env) [((tmpl, dest), data)]" "room base (set (dests [((tmpl, dest), data)] @ R)) t"
  then have g: "good_dest dest" "room base (insert dest (set R)) t" "\<forall>x\<in>set R. good_dest x \<and> x \<noteq> dest"
    by (auto simp: list_all_iff)
  obtain content where c: "render_content env (tmpl, dest) data = Inr content" using p(3) by (auto simp: renderable_def)
  obtain t' where t': "renderFile env (tmpl, dest) data base t = (t', None)"
    using renderFile_succeeds [OF assms(1) c, of base "set R" t] g by auto
  then have "room base (set R) t'" using renderFile_room [OF t', of "set R"] g by simp
  moreover have "f t = (t', None)" using assms(2) [OF _ t'] g(2) by (simp add: room_def)
  ultimately show "\<exists>t'. f t = (t', None) \<and> room base (set R) t'" by blast
qed

lemma completes_nothing: "completes env base (\<lambda>t. (t, None)) []"
  by (simp add: completes_def)

lemma completes_render_all:
  assumes "no_faults (ge_faults env)"
  shows "completes env base (render_all env jobs base) jobs"
proof (induction jobs)
  case Nil
  then show ?case using completes_nothing by (simp add: completes_def)
next
  case (Cons j jobs)
  have "completes env base (render_all env [j] base) [j]"
    by (cases j; cases "fst j") (auto intro!: completes_file [OF assms])
  from completes_compose [OF this Cons] show ?case using render_all_append [of env "[j]" jobs base] by simp
qed

lemma completes_render_migration:
  "no_faults (ge_faults env) \<Longrightarrow> completes env base (render_migration env tmpl dest data base) [((tmpl, dest), data)]"
  by (rule completes_file) (simp_all add: render_migration_def os_Exists_def)

lemma completes_render_team:
  assumes "no_faults (ge_faults env)"
  shows "completes env base (render_team env steps base clock) (team_jobs steps (clk_base clock + clk_n clock))"
proof (induction steps arbitrary: clock)
  case Nil
  then show ?case using completes_nothing by (simp add: completes_def)
next
  case (Cons st steps)
  obtain tmpl name where st: "st = (tmpl, name)" by fastforce
  let ?dest = "migration_dest (clk_base clock + clk_n clock) name"
  have eq: "render_team env (st # steps) base clock = (\<lambda>t.
      and_then (render_migration env tmpl ?dest TNil base t) (render_team env steps base (clock\<lparr>clk_n := clk_n clock + 1\<rparr>)))"
    unfolding st by (rule ext) (simp add: clock_next_def and_then_def)
  have "clk_base (clock\<lparr>clk_n := clk_n clock + 1\<rparr>) + clk_n (clock\<lparr>clk_n := clk_n clock + 1\<rparr>) = clk_base clock + clk_n clock + 1"
    by simp
  then show ?case
    using completes_compose [OF completes_render_migration [OF assms, of base tmpl ?dest TNil] Cons [of "clock\<lparr>clk_n := clk_n clock + 1\<rparr>"]]
    by (simp only: eq) (simp only: st team_jobs.simps append.simps)
qed

lemma completes_gen_sample:
  assumes "no_faults (ge_faults env)"
  shows "completes env base (gen_sample env opts base (newMigrationClock now)) (sample_jobs opts now)"
proof -
  have "completes env base (\<lambda>t. and_then (render_all env (with_data (planModule (sample_data opts)) (TModule (sample_data opts))) base t)
      (renderMigration env (sample_data opts) base (format_stamp now))) (sample_jobs opts now)"
    unfolding sample_jobs_def renderMigration_def
    using completes_compose [OF completes_render_all [OF assms] completes_render_migration [OF assms]]
    by (simp add: sample_data_def)
  then show ?thesis unfolding completes_def gen_sample_def
    by (simp add: derive_user clock_next_new sample_data_def Let_def)
qed

lemma completes_gen_auth:
  assumes "no_faults (ge_faults env)" "clk_base clock + clk_n clock = now"
  shows "completes env base (gen_auth env opts d base clock) (auth_jobs opts d now)"
  unfolding gen_auth_def auth_jobs_def renderTeamMigrations_def renderAuthMigration_def
  using completes_render_team [OF assms(1), of base team_steps clock] completes_render_migration [OF assms(1)] assms(2)
  by (cases "go_Team opts") (auto intro!: completes_compose completes_render_all [OF assms(1)] simp: clock_next_def)

lemma completes_gen_files:
  assumes "no_faults (ge_faults env)"
  shows "completes env base (gen_files env opts d base) (gen_jobs opts d (ge_now env))"
proof -
  let ?c = "newMigrationClock (ge_now env)"
  let ?c1 = "if go_Sample opts then snd (clock_next ?c) else ?c"
  have "clk_base ?c1 + clk_n ?c1 = (if go_Sample opts then ge_now env + 1 else ge_now env)"
    by (simp add: newMigrationClock_def clock_next_def)
  note a = completes_gen_auth [OF assms this]
  show ?thesis unfolding gen_files_def gen_jobs_def Let_def append_assoc [symmetric]
    by (intro completes_compose completes_stage completes_render_all completes_gen_sample a assms)
qed

section \<open>Properties of the generator\<close>

definition effective :: "gen_options \<Rightarrow> gen_options" where
  "effective opts = (if go_Team opts then opts\<lparr>go_Auth := True\<rparr> else opts)"

definition project_data :: "gen_options \<Rightarrow> string \<Rightarrow> gen_data" where
  "project_data opts secret =
     \<lparr>gd_Name = go_Name opts, gd_Module = go_Module opts, gd_DB = go_DB opts, gd_Layout = go_Layout opts,
      gd_Sample = go_Sample opts, gd_Auth = go_Auth opts, gd_Team = go_Auth opts \<and> go_Team opts, gd_Queue = go_Queue opts,
      gd_Mailer = go_Mailer opts, gd_Realtime = go_Realtime opts, gd_I18n = go_I18n opts, gd_JWTSecret = secret,
      gd_HelpersVersion = go_HelpersVersion opts, gd_LocalReplace = go_Local opts\<rparr>"

lemma effective_fields [simp]:
  "go_Dir (effective o') = go_Dir o'" "go_Layout (effective o') = go_Layout o'" "go_NoTidy (effective o') = go_NoTidy o'"
  "go_NoGit (effective o') = go_NoGit o'" "go_DB (effective o') = go_DB o'"
  by (simp_all add: effective_def)

lemma layout_project [simp]: "gd_Layout (project_data opts secret) = go_Layout opts"
  by (simp add: project_data_def)

lemma Generate_go:
  assumes "dirNonEmpty env (path_of (go_Dir o0)) (gw_fs w) = Inr False"
    and "if go_Auth (effective o0) then randHex env 32 = Inr secret else secret = []"
  shows "Generate env o0 w = (case gen_files env (effective o0) (project_data (effective o0) secret) (path_of (go_Dir o0)) (gw_fs w) of
        (t, Some e) \<Rightarrow> (w\<lparr>gw_fs := remove_target (go_Dir o0) t\<rparr>, Some e)
      | (t, None) \<Rightarrow>
          let w1 = w\<lparr>gw_fs := t\<rparr>;
              w2 = (if \<not> go_NoTidy o0 then post_tidy env (effective o0) (path_of (go_Dir o0)) w1 else w1);
              w3 = (if \<not> go_NoGit o0 then fst (runCmd env (path_of (go_Dir o0)) [''git'', ''init''] w2) else w2)
          in (say (''created '' @ go_Dir o0 @ '' ('' @ go_Layout o0 @ '', '' @ go_DB o0 @ '')'') w3, None))"
proof -
  have team: "go_Team (effective o0) \<Longrightarrow> go_Auth (effective o0)" by (simp add: effective_def split: if_splits)
  show ?thesis
    using assms team unfolding Generate_def effective_def [symmetric] project_data_def Let_def effective_fields
    by (cases "go_Auth (effective o0)") (simp_all split: prod.split option.split)
qed

text \<open>The generator up to its files: refused at once, or the rendering of a project's files.\<close>

lemma Generate_cases:
  assumes "Generate env o0 w = (w', err)"
  obtains (refused) "w' = w" "err \<noteq> None"
  | (failed) secret t e where "gen_files env (effective o0) (project_data (effective o0) secret) (path_of (go_Dir o0)) (gw_fs w) = (t, Some e)"
      "err = Some e" "w' = w\<lparr>gw_fs := remove_target (go_Dir o0) t\<rparr>"
  | (complete) secret t where "gen_files env (effective o0) (project_data (effective o0) secret) (path_of (go_Dir o0)) (gw_fs w) = (t, None)"
      "err = None" "go_NoTidy o0 \<and> go_NoGit o0 \<Longrightarrow> gw_fs w' = t"
proof -
  let ?opts = "effective o0" and ?base = "path_of (go_Dir o0)"
  consider (r) "w' = w" "err \<noteq> None" | (go) secret where "dirNonEmpty env ?base (gw_fs w) = Inr False"
      "if go_Auth ?opts then randHex env 32 = Inr secret else secret = []"
    using assms unfolding Generate_def effective_def [symmetric] Let_def
    by (cases "dirNonEmpty env ?base (gw_fs w)"; cases "go_Auth ?opts"; cases "randHex env 32")
      (auto split: bool.splits)
  then show ?thesis
  proof cases
    case (go secret)
    let ?r = "gen_files env ?opts (project_data ?opts secret) ?base (gw_fs w)"
    from Generate_go [OF go]
    show ?thesis using assms failed [of secret] complete [of secret]
      by (cases ?r; cases "snd ?r") (auto simp: Let_def say_def)
  qed (rule refused)
qed

lemma outside_kept_RemoveAll: "outside_kept base t t' \<Longrightarrow> outside_kept base t (os_RemoveAll base t')"
  by (auto simp: outside_kept_def gm_get_RemoveAll)



section \<open>Adding a module\<close>

definition no_leftovers :: "os_faults \<Rightarrow> bool" where
  "no_leftovers f \<longleftrightarrow> (\<forall>p e left. write_fault f p = Some (e, left) \<longrightarrow> left = None)"

lemma renderFile_failed:
  assumes "renderFile env fsp data base t = (t', Some e)" "no_leftovers (ge_faults env)"
  shows "gm_get t' (joined base (snd fsp)) = gm_get t (joined base (snd fsp))"
proof -
  let ?full = "joined base (snd fsp)"
  have mk: "gm_get t1 ?full = gm_get t ?full" if "os_MkdirAll (ge_faults env) (butlast ?full) t = (t1, x)" for t1 x
    using MkdirAll_get [OF that, of ?full] inside_butlast_neq [of ?full] by auto
  have "gm_get t2 ?full = gm_get t1 ?full" if "os_WriteFile (ge_faults env) ?full content t1 = (t2, Some e)" for t1 t2 content
    using that assms(2) by (fastforce simp: os_WriteFile_def no_leftovers_def split: if_splits option.splits prod.splits)
  then show ?thesis using assms(1) mk
    by (auto simp: renderFile_def Let_def split: sum.splits prod.splits option.splits)
qed

text \<open>
  The tree while files are being added: what was there is as it was, the files written so far
  were not there, and anything else that is new is a directory (\<open>clean\<close>).
\<close>

definition adding :: "bool \<Rightarrow> fs \<Rightarrow> file_path list \<Rightarrow> fs \<Rightarrow> bool" where
  "adding clean t0 written t \<longleftrightarrow>
     (\<forall>q. gm_get t0 q \<noteq> None \<longrightarrow> gm_get t q = gm_get t0 q) \<and> (\<forall>q\<in>set written. gm_get t0 q = None) \<and>
     (clean \<longrightarrow> (\<forall>q. gm_get t0 q = None \<and> q \<notin> set written \<longrightarrow> gm_get t q = None \<or> gm_get t q = Some DirNode))"

lemma adding_refl: "adding clean t [] t"
  by (simp add: adding_def)

lemma adding_render:
  assumes "adding clean t0 written t" "renderFile env fsp data base t = (t', e)" "gm_get t0 (joined base (snd fsp)) = None"
  shows "adding clean t0 (written @ [joined base (snd fsp)]) t'"
  unfolding adding_def
proof (intro conjI allI ballI impI)
  fix q assume q: "gm_get t0 q \<noteq> None"
  then have "q \<noteq> joined base (snd fsp)" using assms(3) by auto
  then show "gm_get t' q = gm_get t0 q" using renderFile_get [OF assms(2), of q] assms(1) q by (auto simp: adding_def)
next
  fix q assume "clean" "gm_get t0 q = None \<and> q \<notin> set (written @ [joined base (snd fsp)])"
  then show "gm_get t' q = None \<or> gm_get t' q = Some DirNode"
    using renderFile_get [OF assms(2), of q] assms(1) by (auto simp: adding_def)
qed (use assms in \<open>auto simp: adding_def\<close>)

lemma adding_failed:
  assumes "adding clean t0 written t" "renderFile env fsp data base t = (t', Some e)" "gm_get t0 (joined base (snd fsp)) = None"
    and "clean \<Longrightarrow> no_leftovers (ge_faults env)"
  shows "adding clean t0 written t'"
proof -
  note a = adding_render [OF assms(1-3)]
  have "gm_get t' q = None \<or> gm_get t' q = Some DirNode" if "clean" "gm_get t0 q = None" "q \<notin> set written" for q
  proof (cases "q = joined base (snd fsp)")
    case True
    then show ?thesis using renderFile_failed [OF assms(2) assms(4) [OF that(1)]] assms(1) that by (auto simp: adding_def)
  next
    case False
    then show ?thesis using a that by (auto simp: adding_def)
  qed
  then show ?thesis using a unfolding adding_def by auto
qed

lemma Remove_get:
  "q \<noteq> p \<Longrightarrow> gm_get (os_Remove p t) q = gm_get t q"
  "gm_get (os_Remove p t) p = None \<or> gm_get (os_Remove p t) p = Some DirNode"
  by (auto simp: os_Remove_def)

lemma remove_written_get:
  "q \<notin> set ps \<Longrightarrow> gm_get (remove_written ps t) q = gm_get t q"
  "q \<in> set ps \<or> gm_get t q = None \<or> gm_get t q = Some DirNode \<Longrightarrow>
     gm_get (remove_written ps t) q = None \<or> gm_get (remove_written ps t) q = Some DirNode"
proof (induction ps t rule: remove_written.induct)
  case (2 p ps t)
  { case 1 then show ?case using 2(1) Remove_get(1) by auto }
  { case 2
    then have "q \<in> set ps \<or> gm_get (os_Remove p t) q = None \<or> gm_get (os_Remove p t) q = Some DirNode"
      using Remove_get(1) [of q p t] Remove_get(2) [of p t] by (cases "q = p") auto
    from "2.IH"(2) [OF this] show ?case by simp }
qed auto

lemma adding_removed: "adding clean t0 written t \<Longrightarrow> adding clean t0 [] (remove_written written t)"
  unfolding adding_def using remove_written_get by (metis empty_iff list.set(1))

lemma adding_files:
  "add_files env specs data base written t = ((t', written'), e) \<Longrightarrow> adding clean t0 written t \<Longrightarrow>
   (\<forall>s\<in>set specs. gm_get t0 (joined base (snd s)) = None) \<Longrightarrow> (clean \<Longrightarrow> no_leftovers (ge_faults env)) \<Longrightarrow>
   (if e = None then adding clean t0 written' t' else adding clean t0 [] t')"
proof (induction env specs data base written t rule: add_files.induct)
  case (2 env fsp rest data base written t)
  obtain t1 x where r: "renderFile env fsp data base t = (t1, x)" by fastforce
  show ?case
  proof (cases x)
    case None
    then show ?thesis using 2(1) [OF r [symmetric] None] 2(2-) r adding_render [OF 2(3) r] by simp
  next
    case (Some y)
    with r have r': "renderFile env fsp data base t = (t1, Some y)" by simp
    have "adding clean t0 [] (remove_written written t1)"
      using adding_removed [OF adding_failed [OF 2(3) r']] 2(4,5) by simp
    then show ?thesis using 2(2) r' by auto
  qed
qed auto

lemma add_files_render_all:
  "add_files env specs data base written t = ((t', written'), None) \<Longrightarrow> render_all env (with_data specs data) base t = (t', None)"
  by (induction env specs data base written t rule: add_files.induct) (auto split: prod.splits option.splits)

lemma existing_file_None: "existing_file specs base t = None \<longleftrightarrow> (\<forall>s\<in>set specs. gm_get t (joined base (snd s)) = None)"
  by (auto simp: existing_file_def find_None_iff os_Exists_def)

lemma adding_migration:
  assumes "render_migration env tmpl dest data base t = (t', e)" "adding clean t0 written t" "clean \<Longrightarrow> no_leftovers (ge_faults env)"
  shows "if e = None then adding clean t0 (written @ [joined base dest]) t' \<and>
      (\<exists>content. render_content env (tmpl, dest) data = Inr content \<and> gm_get t' (joined base dest) = Some (FileNode content)) \<and>
      (\<forall>q x. gm_get t q = Some (FileNode x) \<longrightarrow> gm_get t' q = Some (FileNode x))
    else adding clean t0 written t'"
proof (cases "os_Exists (joined base dest) t")
  case True
  then show ?thesis using assms by (auto simp: render_migration_def)
next
  case False
  then have n: "gm_get t (joined base dest) = None" by (simp add: os_Exists_def)
  then have n0: "gm_get t0 (joined base dest) = None" using assms(2) unfolding adding_def by metis
  obtain t1 x where r: "renderFile env (tmpl, dest) data base t = (t1, x)" by fastforce
  show ?thesis
  proof (cases x)
    case None
    have "gm_get t1 q = Some (FileNode y)" if "gm_get t q = Some (FileNode y)" for q y
      using renderFile_file_stays [OF r that] that n by (cases "q = joined base dest") auto
    then show ?thesis
      using assms(1) False r None n0 adding_render [OF assms(2) r] renderFile_ok [of env "(tmpl, dest)" data base t t1]
      by (simp add: render_migration_def)
  next
    case (Some y)
    then show ?thesis using assms(1,3) False r n0 adding_failed [OF assms(2), of env "(tmpl, dest)" data base t1 y]
      by (auto simp: render_migration_def)
  qed
qed

definition migration_of :: "gen_env \<Rightarrow> moduleData \<Rightarrow> fileSpec" where
  "migration_of env md = (''migration/create_table.tmpl'', migration_dest (ge_now env) (''create_'' @ md_Plural md))"

lemma add_render_outcome:
  assumes "add_render env md base t = (t', e)" "clean \<Longrightarrow> no_leftovers (ge_faults env)"
  shows "if e = None then adding False t [] t' \<and> (distinct (map snd (planModule md)) \<longrightarrow>
      (\<forall>fsp\<in>set (planModule md @ [migration_of env md]). \<exists>content. render_content env fsp (TModule md) = Inr content \<and>
         gm_get t' (joined base (snd fsp)) = Some (FileNode content)))
    else adding clean t [] t'"
proof (cases "existing_file (planModule md) base t")
  case (Some f)
  then show ?thesis using assms(1) by (auto simp: add_render_def adding_refl)
next
  case None
  then have new: "\<forall>s\<in>set (planModule md). gm_get t (joined base (snd s)) = None" by (simp add: existing_file_None)
  obtain t1 wr x where f: "add_files env (planModule md) (TModule md) base [] t = ((t1, wr), x)" by (metis surj_pair)
  note a = adding_files [OF f adding_refl new assms(2)]
  show ?thesis
  proof (cases x)
    case (Some y)
    then show ?thesis using assms(1) None f a by (auto simp: add_render_def)
  next
    case n: None
    obtain t2 z where m: "renderMigration env md base (format_stamp (ge_now env)) t1 = (t2, z)" by fastforce
    have m': "render_migration env (fst (migration_of env md)) (snd (migration_of env md)) (TModule md) base t1 = (t2, z)"
      using m by (simp add: renderMigration_def migration_of_def)
    have out: "(t', e) = (case z of None \<Rightarrow> (t2, None) | Some y \<Rightarrow> (remove_written wr t2, Some y))"
      using assms(1) None f n m by (auto simp: add_render_def clock_next_new split: option.splits)
    have ad: "adding clean t wr t1" using a n by simp
    note mig = adding_migration [OF m' ad assms(2)]
    show ?thesis
    proof (cases z)
      case (Some y)
      then show ?thesis using out mig adding_removed by simp
    next
      case None
      have files: "\<exists>content. render_content env fsp (TModule md) = Inr content \<and> gm_get t1 (joined base (snd fsp)) = Some (FileNode content)"
        if "distinct (map snd (planModule md))" "fsp \<in> set (planModule md)" for fsp
        using render_all_ok [of env "with_data (planModule md) (TModule md)" base t t1 fsp "TModule md"] add_files_render_all f n that
        by (auto simp: comp_def)
      have "adding False t [] t2" using mig None by (auto simp: adding_def)
      have "\<exists>content. render_content env fsp (TModule md) = Inr content \<and> gm_get t2 (joined base (snd fsp)) = Some (FileNode content)"
        if "distinct (map snd (planModule md))" "fsp \<in> set (planModule md @ [migration_of env md])" for fsp
      proof (cases "fsp = migration_of env md")
        case False
        then have "fsp \<in> set (planModule md)" using that(2) by simp
        then show ?thesis using files [OF that(1)] mig None by (metis (no_types, lifting))
      qed (use mig None in simp)
      with \<open>adding False t [] t2\<close> show ?thesis using out None by auto
    qed
  qed
qed

lemma planModule_distinct: "md_Layout md = ''ddd'' \<longrightarrow> md_Pkg md \<noteq> ''repository'' \<Longrightarrow> distinct (map snd (planModule md))"
proof -
  have "p @ ''.go'' = ''repository.go'' \<longleftrightarrow> p = ''repository''" for p
    using append_same_eq [of p "''.go''" "''repository''"] by simp
  then show "md_Layout md = ''ddd'' \<longrightarrow> md_Pkg md \<noteq> ''repository'' \<Longrightarrow> distinct (map snd (planModule md))"
    by (auto simp: planModule_def Let_def)
qed

lemma AddModule_cases:
  assumes "AddModule env ao w = (w', err)"
  obtains (refused) "w' = w" "err \<noteq> None"
    | (go) md t e where "add_render env md (path_of (if ao_Dir ao = [] then ''.'' else ao_Dir ao)) (gw_fs w) = (t, e)"
      "gw_fs w' = t" "err = e" "e \<noteq> None \<Longrightarrow> gw_out w' = gw_out w"
      "md_Layout md = ''ddd'' \<or> md_Layout md = ''layered''" "md_Pkg md = ToLower (ao_Name ao)" "md_Plural md = ToLower (ao_Name ao) @ ''s''"
proof -
  let ?base = "path_of (if ao_Dir ao = [] then ''.'' else ao_Dir ao)"
  let ?lay = "if ao_Layout ao = [] then detectLayout ?base (gw_fs w) else Inr (ao_Layout ao)"
  show ?thesis
  proof (cases "readGoModule ?base (gw_fs w)")
    case (Inl e)
    then show ?thesis using assms refused by (auto simp: AddModule_def Let_def)
  next
    case m: (Inr mp)
    show ?thesis
    proof (cases ?lay)
      case (Inl e)
      then show ?thesis using assms refused m by (auto simp: AddModule_def Let_def)
    next
      case l: (Inr layout)
      show ?thesis
      proof (cases "(layout \<noteq> ''ddd'' \<and> layout \<noteq> ''layered'') \<or> deriveModuleNames (ao_Name ao) = None")
        case True
        then show ?thesis using assms refused m l by (auto simp: AddModule_def Let_def split: if_splits)
      next
        case False
        then obtain md0 where d: "deriveModuleNames (ao_Name ao) = Some md0" by auto
        obtain t e where r: "add_render env (md0\<lparr>md_Module := mp, md_Layout := layout\<rparr>) ?base (gw_fs w) = (t, e)" by fastforce
        have "md_Pkg md0 = ToLower (ao_Name ao)" "md_Plural md0 = ToLower (ao_Name ao) @ ''s''"
          using d by (auto simp: deriveModuleNames_def split: if_splits)
        then show ?thesis using go [OF r] False assms m l d r
          by (auto simp: AddModule_def Let_def split: option.splits prod.splits)
      qed
    qed
  qed
qed


section \<open>Migration versions\<close>

fun clock_stamps :: "nat \<Rightarrow> migrationClock \<Rightarrow> string list" where
  "clock_stamps 0 c = []"
| "clock_stamps (Suc n) c = (case clock_next c of (ts, c') \<Rightarrow> ts # clock_stamps n c')"

lemma clock_stamps_map: "clock_stamps n c = map format_stamp [clk_base c + clk_n c..<clk_base c + clk_n c + n]"
proof (induction n arbitrary: c)
  case (Suc n)
  then show ?case by (simp add: clock_next_def upt_conv_Cons del: upt_Suc)
qed simp

text \<open>
  Migration versions increase. However many migrations are generated at once, their
  versions are strings of digits that read as strictly increasing numbers, also across the
  ends of minutes, days, months and leap years; so no two migrations share a version and they
  are applied in the order they were generated.
\<close>

theorem migration_versions_increase:
  "sorted_wrt (\<lambda>a b. digits_val a < digits_val b) (clock_stamps n c) \<and> distinct (clock_stamps n c) \<and>
   list_all (\<lambda>s. s \<noteq> [] \<and> list_all is_digit s) (clock_stamps n c)"
proof -
  have s: "sorted_wrt (\<lambda>a b. digits_val a < digits_val b) (clock_stamps n c)"
    unfolding clock_stamps_map sorted_wrt_map
    by (rule sorted_wrt_mono_rel [OF _ sorted_wrt_upt]) (simp add: format_stamp_value stamp_value_mono)
  moreover have "distinct xs" if "sorted_wrt (\<lambda>a b. digits_val a < digits_val b) xs" for xs
    using that by (induction xs) auto
  moreover have "list_all (\<lambda>s. s \<noteq> [] \<and> list_all is_digit s) (clock_stamps n c)"
    by (simp add: clock_stamps_map list_all_iff format_stamp_value [unfolded list_all_iff])
  ultimately show ?thesis by blast
qed

section \<open>Options\<close>

lemma path_of_simple:
  assumes "name \<noteq> []" "CHR ''/'' \<notin> set name" "name \<noteq> ''.''" "name \<noteq> ''..''"
  shows "path_of name = [name]"
proof -
  have "\<not> is_rooted name" using assms(1,2) by (cases name) (auto simp: is_rooted_def HasPrefix_def)
  then show ?thesis using assms by (simp add: path_of_def Split_no_sep)
qed

text \<open>
  Validation accepts exactly the options with a simple name, a module path, a known
  database and a known layout, and reports the first thing that is wrong otherwise. Accepted
  options have authentication wherever they have teams and a target directory, by default a
  directory of the project's name in the current one; validating them again changes nothing.
\<close>

theorem options_validated:
  assumes "options_Validate opts = (opts', err)"
  shows "(err = None \<longleftrightarrow> go_Name opts \<noteq> [] \<and> CHR ''/'' \<notin> set (go_Name opts) \<and> CHR 0x5C \<notin> set (go_Name opts) \<and>
      \<not> contains_dotdot (go_Name opts) \<and> go_Module opts \<noteq> [] \<and> go_DB opts \<in> {''postgres'', ''sqlite''} \<and>
      go_Layout opts \<in> {''ddd'', ''layered''}) \<and>
    (go_Team opts' \<longrightarrow> go_Auth opts') \<and> options_Validate opts' = (opts', err) \<and>
    (err = None \<longrightarrow> go_Dir opts' = (if go_Dir opts = [] then go_Name opts else go_Dir opts) \<and> go_Dir opts' \<noteq> [] \<and>
      (go_Dir opts = [] \<and> go_Name opts \<noteq> ''.'' \<longrightarrow> path_of (go_Dir opts') = [go_Name opts]))"
proof -
  have "contains_dotdot ''..''" by (simp add: contains_dotdot_def)
  then have "\<not> contains_dotdot n \<Longrightarrow> n \<noteq> ''..''" for n by auto
  then have p: "path_of (go_Name opts) = [go_Name opts]"
    if "go_Name opts \<noteq> []" "CHR ''/'' \<notin> set (go_Name opts)" "\<not> contains_dotdot (go_Name opts)" "go_Name opts \<noteq> ''.''"
    using that path_of_simple by blast
  define o1 where "o1 = (if go_Team opts then opts\<lparr>go_Auth := True\<rparr> else opts)"
  have o1: "go_Name o1 = go_Name opts" "go_Module o1 = go_Module opts" "go_DB o1 = go_DB opts" "go_Layout o1 = go_Layout opts"
      "go_Dir o1 = go_Dir opts" "go_Team o1 \<longrightarrow> go_Auth o1"
    by (simp_all add: o1_def)
  have v: "options_Validate opts = options_Validate o1" by (simp add: options_Validate_def o1_def)
  have id: "(if go_Team x then x\<lparr>go_Auth := True\<rparr> else x) = x" if "go_Team x \<longrightarrow> go_Auth x" for x :: gen_options
    using that by (cases x) auto
  have a: "options_Validate o1 = (opts', err)" using assms v by simp
  have o': "opts' = o1 \<and> err \<noteq> None \<or> err = None \<and> opts' = (if go_Dir o1 = [] then o1\<lparr>go_Dir := go_Name o1\<rparr> else o1)"
    using a unfolding options_Validate_def id [OF o1(6)] Let_def by (auto split: if_splits)
  have err: "err = None \<longleftrightarrow> go_Name opts \<noteq> [] \<and> CHR ''/'' \<notin> set (go_Name opts) \<and> CHR 0x5C \<notin> set (go_Name opts) \<and>
      \<not> contains_dotdot (go_Name opts) \<and> go_Module opts \<noteq> [] \<and> go_DB opts \<in> {''postgres'', ''sqlite''} \<and>
      go_Layout opts \<in> {''ddd'', ''layered''}"
    using a unfolding options_Validate_def id [OF o1(6)] Let_def o1(1-5) by (auto split: if_splits)
  have t: "go_Team opts' \<longrightarrow> go_Auth opts'" using o' o1(6) by (auto split: if_splits)
  have again: "options_Validate opts' = (opts', err)"
  proof (cases "err = None")
    case True
    then show ?thesis using o' o1 err unfolding options_Validate_def id [OF t] Let_def by auto
  next
    case False
    then have "opts' = o1" using o' by blast
    then show ?thesis using a by simp
  qed
  have "go_Dir opts' = (if go_Dir opts = [] then go_Name opts else go_Dir opts)" if "err = None" using o' that o1 by auto
  then show ?thesis using err t again p by (auto split: if_splits)
qed

section \<open>Examples\<close>

definition demo_gen_env :: "(string \<Rightarrow> string + string) \<Rightarrow> gen_env" where
  "demo_gen_env gofmt = \<lparr>ge_faults = \<lparr>mkdir_fault = \<lambda>_. None, write_fault = \<lambda>_. None\<rparr>, ge_exec = (\<lambda>tmpl data. Inr tmpl),
     ge_gofmt = gofmt, ge_readdir = (\<lambda>_. None), ge_random = (\<lambda>n. Inr (replicate n CHR ''r'')), ge_now = 0,
     ge_cmd = (\<lambda>p a t. (t, None))\<rparr>"

definition demo_gen_options :: gen_options where
  "demo_gen_options = \<lparr>go_Name = ''shop'', go_Module = ''m'', go_DB = ''sqlite'', go_Layout = ''ddd'', go_Sample = True, go_Auth = False,
     go_Team = True, go_Queue = True, go_Mailer = False, go_Realtime = True, go_I18n = True, go_Dir = ''shop'', go_NoGit = True,
     go_NoTidy = True, go_HelpersVersion = [], go_Local = []\<rparr>"

definition demo_gen_world :: gen_world where
  "demo_gen_world = \<lparr>gw_fs = [([''go.mod''], FileNode ''module m'')], gw_out = [], gw_cmds = []\<rparr>"

lemma demo_path: "path_of ''shop'' = [''shop'']"
  by code_simp




theorem options_validated_witness:
  "options_Validate (demo_gen_options\<lparr>go_Dir := []\<rparr>) = (demo_gen_options\<lparr>go_Auth := True\<rparr>, None) \<and> path_of ''shop'' = [''shop'']"
proof -
  have v: "options_Validate (demo_gen_options\<lparr>go_Dir := []\<rparr>) = (demo_gen_options\<lparr>go_Auth := True\<rparr>, None)"
    by (simp add: options_Validate_def demo_gen_options_def contains_dotdot_def)
  from options_validated [OF v] v show ?thesis by (simp add: demo_gen_options_def)
qed

section \<open>Deviations\<close>

text \<open>
  In the domain layout, a module named \<open>repository\<close> has its entity and its repository interface
  planned for the same file, so the second silently replaces the first.
\<close>

lemma repository_module_clash:
  assumes "md_Layout md = ''ddd''" "md_Pkg md = ''repository''"
  shows "snd (planModule md ! 0) = snd (planModule md ! 1) \<and> fst (planModule md ! 0) \<noteq> fst (planModule md ! 1)"
  using assms by (simp add: planModule_def)

text \<open>
  When generation into the current directory fails, nothing is cleaned up: \<open>os.RemoveAll\<close> refuses
  a path that ends in a dot and its error is dropped.
\<close>

lemma dot_target_not_cleaned: "remove_target ''.'' t = t"
  by (simp add: remove_target_def)

end
