(* ===== verification/Open_Api.thy ===== *)
theory Open_Api
  imports Api_Layer
begin

text \<open>
  The OpenAPI generator (\<open>src/openapi\<close>): schemas reflected from Go types with their \<open>json\<close> and
  \<open>validate\<close> tags (\<open>schema.go\<close>), the registration of operations and the document
  (\<open>openapi.go\<close>, \<open>spec_model.go\<close>), and the cached handlers (\<open>handlers.go\<close>). A type is what
  \<open>reflect\<close> shows of it; a named type refers to an environment that gives its name and its
  underlying type, so types can be recursive. The functions of \<open>schema.go\<close> that call each other
  are written over the calls they make (\<open>_with\<close>), and \<open>reflect\<close> ties them together on fuel: \<open>None\<close>
  means that they are still running. \<open>ParseFloat\<close>, the JSON encoder and the Swagger page are
  parameters; the order of a map is that of insertion.
\<close>

section \<open>Types\<close>

datatype gtype =
    TString | TBool | TInt | TInt64 | TFloat32 | TFloat64 | TTime | TIface | TOther
  | TPtr gtype | TSlice gtype | TArray gtype | TMap gtype
  | TNamed string
  | TStruct "gfield list"
and gfield = GField (gf_name: string) (gf_exported: bool) (gf_embedded: bool) (gf_json: string) (gf_validate: string) (gf_type: gtype)

text \<open>The environment: for the identity of a named type its name and its underlying type.\<close>

type_synonym tenv = "(string, string \<times> gtype) gomap"

fun underlying :: "tenv \<Rightarrow> gtype \<Rightarrow> gtype" where
  "underlying env (TNamed i) = (case gm_get env i of None \<Rightarrow> TOther | Some (_, u) \<Rightarrow> u)"
| "underlying env t = t"

fun type_name :: "tenv \<Rightarrow> gtype \<Rightarrow> string" where
  "type_name env (TNamed i) = (case gm_get env i of None \<Rightarrow> [] | Some (n, _) \<Rightarrow> n)"
| "type_name env t = []"

fun deref :: "gtype \<Rightarrow> bool \<times> gtype" where
  "deref (TPtr t) = (True, snd (deref t))"
| "deref t = (False, t)"

section \<open>Schemas\<close>

datatype enum_item = EnumNum rat | EnumStr string

record schema_kw =
  sk_Ref :: string
  sk_Type :: string
  sk_Format :: string
  sk_Nullable :: bool
  sk_Required :: "string list"
  sk_Enum :: "enum_item list"
  sk_Minimum :: "rat option"
  sk_Maximum :: "rat option"
  sk_MinLength :: "int option"
  sk_MaxLength :: "int option"
  sk_MinItems :: "int option"
  sk_MaxItems :: "int option"

definition kw0 :: schema_kw where
  "kw0 = \<lparr>sk_Ref = [], sk_Type = [], sk_Format = [], sk_Nullable = False, sk_Required = [], sk_Enum = [], sk_Minimum = None,
     sk_Maximum = None, sk_MinLength = None, sk_MaxLength = None, sk_MinItems = None, sk_MaxItems = None\<rparr>"

text \<open>Keywords, properties, items and additional properties.\<close>

datatype schema = Schema (s_kw: schema_kw) (s_props: "(string \<times> schema) list") (s_items: "schema option") (s_addl: "schema option")

definition prim_schema :: "string \<Rightarrow> string \<Rightarrow> schema" where
  "prim_schema ty fmt = Schema (kw0\<lparr>sk_Type := ty, sk_Format := fmt\<rparr>) [] None None"

definition upd_kw :: "(schema_kw \<Rightarrow> schema_kw) \<Rightarrow> schema \<Rightarrow> schema" where
  "upd_kw f s = (case s of Schema k p i a \<Rightarrow> Schema (f k) p i a)"

definition ref_prefix :: string where "ref_prefix = ''#/components/schemas/''"

definition ref_to :: "string \<Rightarrow> schema" where
  "ref_to name = Schema (kw0\<lparr>sk_Ref := ref_prefix @ name\<rparr>) [] None None"

section \<open>Tags\<close>

definition jsonName :: "gfield \<Rightarrow> string \<times> bool" where
  "jsonName f =
     (if gf_json f = ''-'' then ([], True)
      else let before = (case Cut CHR '','' (gf_json f) of Some (b, _) \<Rightarrow> b | None \<Rightarrow> gf_json f)
           in (if before \<noteq> [] then before else gf_name f, False))"

record validateRules =
  vr_required :: bool
  vr_rules :: "(string, string) gomap"
  vr_flags :: "string list"

fun parse_parts :: "string list \<Rightarrow> validateRules \<Rightarrow> validateRules" where
  "parse_parts [] vr = vr"
| "parse_parts (p # ps) vr =
     (let part = TrimSpace p
      in if part = [] then parse_parts ps vr
         else if part = ''required'' then parse_parts ps (vr\<lparr>vr_required := True\<rparr>)
         else case Cut CHR ''='' part of
                Some (k, v) \<Rightarrow> parse_parts ps (vr\<lparr>vr_rules := gm_put (vr_rules vr) k v\<rparr>)
              | None \<Rightarrow> parse_parts ps (vr\<lparr>vr_flags := part # vr_flags vr\<rparr>))"

definition parseValidate :: "string \<Rightarrow> validateRules" where
  "parseValidate tag =
     (let vr = \<lparr>vr_required = False, vr_rules = [], vr_flags = []\<rparr>
      in if tag = [] then vr else parse_parts (Split CHR '','' tag) vr)"

fun isNumericKind :: "gtype \<Rightarrow> bool" where
  "isNumericKind TInt = True"
| "isNumericKind TInt64 = True"
| "isNumericKind TFloat32 = True"
| "isNumericKind TFloat64 = True"
| "isNumericKind _ = False"

fun isListKind :: "gtype \<Rightarrow> bool" where
  "isListKind (TSlice _) = True"
| "isListKind (TArray _) = True"
| "isListKind _ = False"

text \<open>\<open>strings.Fields\<close>: the words between white space.\<close>

fun Fields_from :: "string \<Rightarrow> string \<Rightarrow> string list" where
  "Fields_from w [] = (if w = [] then [] else [w])"
| "Fields_from w (c # cs) = (if is_space c then (if w = [] then [] else [w]) @ Fields_from [] cs else Fields_from (w @ [c]) cs)"

definition parseEnum :: "(string \<Rightarrow> rat option) \<Rightarrow> string \<Rightarrow> gtype \<Rightarrow> enum_item list" where
  "parseEnum pf raw kind =
     map (\<lambda>item. if isNumericKind kind then (case pf item of Some f \<Rightarrow> EnumNum f | None \<Rightarrow> EnumStr item) else EnumStr item)
       (Fields_from [] raw)"

definition applyBound :: "(string \<Rightarrow> rat option) \<Rightarrow> string \<Rightarrow> bool \<Rightarrow> gtype \<Rightarrow> schema_kw \<Rightarrow> schema_kw" where
  "applyBound pf raw isMin kind k =
     (if isNumericKind kind then
        (case pf raw of None \<Rightarrow> k | Some f \<Rightarrow> if isMin then k\<lparr>sk_Minimum := Some f\<rparr> else k\<lparr>sk_Maximum := Some f\<rparr>)
      else if kind = TString then
        (case ParseInt raw of None \<Rightarrow> k | Some n \<Rightarrow> if isMin then k\<lparr>sk_MinLength := Some n\<rparr> else k\<lparr>sk_MaxLength := Some n\<rparr>)
      else if isListKind kind then
        (case ParseInt raw of None \<Rightarrow> k | Some n \<Rightarrow> if isMin then k\<lparr>sk_MinItems := Some n\<rparr> else k\<lparr>sk_MaxItems := Some n\<rparr>)
      else k)"

definition validate_format :: "string list \<Rightarrow> string option" where
  "validate_format flags =
     (if ''email'' \<in> set flags then Some ''email''
      else if ''url'' \<in> set flags \<or> ''uri'' \<in> set flags then Some ''uri''
      else if ''uuid'' \<in> set flags \<or> ''uuid4'' \<in> set flags then Some ''uuid''
      else None)"

definition on_rule :: "validateRules \<Rightarrow> string \<Rightarrow> (string \<Rightarrow> schema_kw \<Rightarrow> schema_kw) \<Rightarrow> schema_kw \<Rightarrow> schema_kw" where
  "on_rule vr name f k = (case gm_get (vr_rules vr) name of None \<Rightarrow> k | Some v \<Rightarrow> f v k)"

definition applyValidate :: "(string \<Rightarrow> rat option) \<Rightarrow> tenv \<Rightarrow> schema \<Rightarrow> validateRules \<Rightarrow> gtype \<Rightarrow> schema" where
  "applyValidate pf env sc vr t =
     (let kind = underlying env (snd (deref t));
          k1 = on_rule vr ''oneof'' (\<lambda>v k. k\<lparr>sk_Enum := parseEnum pf v kind\<rparr>) (s_kw sc);
          k2 = on_rule vr ''min'' (\<lambda>v. applyBound pf v True kind) k1;
          k3 = on_rule vr ''max'' (\<lambda>v. applyBound pf v False kind) k2;
          k4 = on_rule vr ''len'' (\<lambda>v k. applyBound pf v False kind (applyBound pf v True kind k)) k3;
          k5 = (case validate_format (vr_flags vr) of None \<Rightarrow> k4 | Some f \<Rightarrow> k4\<lparr>sk_Format := f\<rparr>)
      in upd_kw (\<lambda>_. k5) sc)"

section \<open>Reflection\<close>

type_synonym comps = "(string, schema) gomap"
type_synonym reflect_type = "gtype \<Rightarrow> comps \<Rightarrow> (schema \<times> comps) option"
type_synonym reflect_object = "gfield list \<Rightarrow> comps \<Rightarrow> (schema \<times> comps) option"

definition structSchema_with :: "reflect_object \<Rightarrow> string \<Rightarrow> gfield list \<Rightarrow> comps \<Rightarrow> (schema \<times> comps) option" where
  "structSchema_with objectSchema name fs c =
     (if name = [] then objectSchema fs c
      else if gm_get c name \<noteq> None then Some (ref_to name, c)
      else case objectSchema fs (gm_put c name (prim_schema ''object'' [])) of
             None \<Rightarrow> None
           | Some (obj, c') \<Rightarrow> Some (ref_to name, gm_put c' name obj))"

definition items_of :: "schema \<Rightarrow> schema" where
  "items_of i = Schema (kw0\<lparr>sk_Type := ''array''\<rparr>) [] (Some i) None"

definition values_of :: "schema \<Rightarrow> schema" where
  "values_of i = Schema (kw0\<lparr>sk_Type := ''object''\<rparr>) [] None (Some i)"

definition wrap_schema :: "(schema \<Rightarrow> schema) \<Rightarrow> (schema \<times> comps) option \<Rightarrow> (schema \<times> comps) option" where
  "wrap_schema f r = map_option (\<lambda>(i, c). (f i, c)) r"

definition baseSchema_with ::
    "tenv \<Rightarrow> reflect_type \<Rightarrow> reflect_object \<Rightarrow> gtype \<Rightarrow> comps \<Rightarrow> (schema \<times> comps) option" where
  "baseSchema_with env schemaFor objectSchema t c =
     (if t = TTime then Some (prim_schema ''string'' ''date-time'', c)
      else case underlying env t of
        TString \<Rightarrow> Some (prim_schema ''string'' [], c)
      | TBool \<Rightarrow> Some (prim_schema ''boolean'' [], c)
      | TInt \<Rightarrow> Some (prim_schema ''integer'' [], c)
      | TInt64 \<Rightarrow> Some (prim_schema ''integer'' ''int64'', c)
      | TFloat32 \<Rightarrow> Some (prim_schema ''number'' ''float'', c)
      | TFloat64 \<Rightarrow> Some (prim_schema ''number'' ''double'', c)
      | TSlice e \<Rightarrow> wrap_schema items_of (schemaFor e c)
      | TArray e \<Rightarrow> wrap_schema items_of (schemaFor e c)
      | TMap e \<Rightarrow> wrap_schema values_of (schemaFor e c)
      | TStruct fs \<Rightarrow> structSchema_with objectSchema (type_name env t) fs c
      | _ \<Rightarrow> Some (Schema kw0 [] None None, c))"

definition nullable_unless_ref :: "bool \<Rightarrow> schema \<Rightarrow> schema" where
  "nullable_unless_ref nullable sc =
     (if nullable \<and> sk_Ref (s_kw sc) = [] then upd_kw (\<lambda>k. k\<lparr>sk_Nullable := True\<rparr>) sc else sc)"

definition schemaFor_with ::
    "tenv \<Rightarrow> reflect_type \<Rightarrow> reflect_object \<Rightarrow> gtype \<Rightarrow> comps \<Rightarrow> (schema \<times> comps) option" where
  "schemaFor_with env schemaFor objectSchema t c =
     (case deref t of (nullable, t') \<Rightarrow>
        wrap_schema (nullable_unless_ref nullable) (baseSchema_with env schemaFor objectSchema t' c))"

text \<open>The fields of an untagged embedded struct, which are flattened.\<close>

definition embeds :: "tenv \<Rightarrow> gfield \<Rightarrow> gfield list option" where
  "embeds env f =
     (if gf_embedded f \<and> gf_json f = []
      then (case underlying env (snd (deref (gf_type f))) of TStruct fs \<Rightarrow> Some fs | _ \<Rightarrow> None)
      else None)"

fun objectSchema_loop ::
    "(string \<Rightarrow> rat option) \<Rightarrow> tenv \<Rightarrow> reflect_type \<Rightarrow> reflect_object \<Rightarrow> gfield list \<Rightarrow> (string, schema) gomap \<Rightarrow> string list \<Rightarrow> comps \<Rightarrow>
     (schema \<times> comps) option" where
  "objectSchema_loop pf env schemaFor objectSchema [] props req c =
     Some (Schema (kw0\<lparr>sk_Type := ''object'', sk_Required := req\<rparr>) props None None, c)"
| "objectSchema_loop pf env schemaFor objectSchema (f # fs) props req c =
     (if \<not> gf_exported f then objectSchema_loop pf env schemaFor objectSchema fs props req c
      else case embeds env f of
        Some efs \<Rightarrow>
          (case objectSchema efs c of
             None \<Rightarrow> None
           | Some (sub, c') \<Rightarrow>
               objectSchema_loop pf env schemaFor objectSchema fs (fold (\<lambda>(k, v) m. gm_put m k v) (s_props sub) props)
                 (req @ sk_Required (s_kw sub)) c')
      | None \<Rightarrow>
          if snd (jsonName f) then objectSchema_loop pf env schemaFor objectSchema fs props req c
          else (case schemaFor (gf_type f) c of
             None \<Rightarrow> None
           | Some (sc, c') \<Rightarrow>
               let rules = parseValidate (gf_validate f);
                   sc' = applyValidate pf env sc rules (gf_type f);
                   name = fst (jsonName f)
               in objectSchema_loop pf env schemaFor objectSchema fs (gm_put props name sc') (if vr_required rules then req @ [name] else req) c'))"

datatype reflect_call = CallSchema gtype | CallObject "gfield list"

primrec reflect :: "(string \<Rightarrow> rat option) \<Rightarrow> tenv \<Rightarrow> nat \<Rightarrow> reflect_call \<Rightarrow> comps \<Rightarrow> (schema \<times> comps) option" where
  "reflect pf env 0 call c = None"
| "reflect pf env (Suc n) call c =
     (case call of
        CallSchema t \<Rightarrow> schemaFor_with env (reflect pf env n \<circ> CallSchema) (reflect pf env n \<circ> CallObject) t c
      | CallObject fs \<Rightarrow> objectSchema_loop pf env (reflect pf env n \<circ> CallSchema) (reflect pf env n \<circ> CallObject) fs [] [] c)"

definition schemaFor :: "(string \<Rightarrow> rat option) \<Rightarrow> tenv \<Rightarrow> nat \<Rightarrow> gtype \<Rightarrow> comps \<Rightarrow> (schema \<times> comps) option" where
  "schemaFor pf env n t = reflect pf env n (CallSchema t)"

section \<open>The document\<close>

record info =
  inf_Title :: string
  inf_Version :: string
  inf_Description :: string

datatype media_type = MediaType (mt_Schema: schema)

record param =
  pa_Name :: string
  pa_In :: string
  pa_Required :: bool
  pa_Schema :: schema

record request_body =
  rb_Required :: bool
  rb_Content :: "(string, media_type) gomap"

record op_response =
  or_Description :: string
  or_Content :: "(string, media_type) gomap"

record operation =
  on_Summary :: string
  on_Description :: string
  on_Tags :: "string list"
  on_Parameters :: "param list"
  on_RequestBody :: "request_body option"
  on_Responses :: "(string, op_response) gomap"
  on_Security :: "(string, string list) gomap list"

record path_item =
  pi_Get :: "operation option"
  pi_Post :: "operation option"
  pi_Put :: "operation option"
  pi_Patch :: "operation option"
  pi_Delete :: "operation option"
  pi_Head :: "operation option"
  pi_Options :: "operation option"

definition no_ops :: path_item where
  "no_ops = \<lparr>pi_Get = None, pi_Post = None, pi_Put = None, pi_Patch = None, pi_Delete = None, pi_Head = None, pi_Options = None\<rparr>"

record security_scheme =
  ss_Type :: string
  ss_Scheme :: string
  ss_BearerFormat :: string

record components =
  co_Schemas :: comps
  co_SecuritySchemes :: "(string, security_scheme) gomap"

record document =
  doc_OpenAPI :: string
  doc_Info :: info
  doc_Paths :: "(string, path_item) gomap"
  doc_Components :: "components option"

text \<open>The specification; \<open>sp_once\<close> is what the first call of \<open>bytes\<close> left behind.\<close>

record spec =
  sp_info :: info
  sp_paths :: "(string, path_item) gomap"
  sp_schemas :: comps
  sp_security :: "(string, security_scheme) gomap"
  sp_once :: "(string + string) option"

definition bearerSchemeName :: string where "bearerSchemeName = ''bearerAuth''"

definition openapi_New :: "info \<Rightarrow> spec" where
  "openapi_New i = \<lparr>sp_info = i, sp_paths = [], sp_schemas = [], sp_security = [], sp_once = None\<rparr>"

definition WithBearerAuth :: "spec \<Rightarrow> spec" where
  "WithBearerAuth s = s\<lparr>sp_security := gm_put (sp_security s) bearerSchemeName
     \<lparr>ss_Type = ''http'', ss_Scheme = ''bearer'', ss_BearerFormat = ''JWT''\<rparr>\<rparr>"

text \<open>The types stand for the values: reflection looks at nothing else of them.\<close>

record op_decl =
  od_Summary :: string
  od_Description :: string
  od_Tags :: "string list"
  od_Request :: "gtype option"
  od_Response :: "gtype option"
  od_Query :: "gtype option"
  od_Status :: int
  od_Secured :: bool

fun convert_segs :: "string list \<Rightarrow> string list \<times> string list" where
  "convert_segs [] = ([], [])"
| "convert_segs (seg # segs) =
     (case convert_segs segs of (ss, ps) \<Rightarrow>
        if HasPrefix seg '':'' then ((''{'' @ tl seg @ ''}'') # ss, tl seg # ps)
        else if seg = ''*'' then (''{wildcard}'' # ss, ''wildcard'' # ps)
        else (seg # ss, ps))"

definition convertPath :: "string \<Rightarrow> string \<times> string list" where
  "convertPath path = (case convert_segs (Split CHR ''/'' path) of (ss, ps) \<Rightarrow> (Join ''/'' ss, ps))"

definition setOp :: "path_item \<Rightarrow> string \<Rightarrow> operation \<Rightarrow> path_item" where
  "setOp item meth o' =
     (let m = ToUpper meth
      in if m = ''GET'' then item\<lparr>pi_Get := Some o'\<rparr>
         else if m = ''POST'' then item\<lparr>pi_Post := Some o'\<rparr>
         else if m = ''PUT'' then item\<lparr>pi_Put := Some o'\<rparr>
         else if m = ''PATCH'' then item\<lparr>pi_Patch := Some o'\<rparr>
         else if m = ''DELETE'' then item\<lparr>pi_Delete := Some o'\<rparr>
         else if m = ''HEAD'' then item\<lparr>pi_Head := Some o'\<rparr>
         else if m = ''OPTIONS'' then item\<lparr>pi_Options := Some o'\<rparr>
         else item)"

fun query_loop ::
    "(string \<Rightarrow> rat option) \<Rightarrow> tenv \<Rightarrow> nat \<Rightarrow> gfield list \<Rightarrow> param list \<Rightarrow> comps \<Rightarrow> (param list \<times> comps) option" where
  "query_loop pf env n [] ps c = Some (ps, c)"
| "query_loop pf env n (f # fs) ps c =
     (if \<not> gf_exported f \<or> snd (jsonName f) then query_loop pf env n fs ps c
      else case schemaFor pf env n (gf_type f) c of
        None \<Rightarrow> None
      | Some (sc, c') \<Rightarrow>
          let rules = parseValidate (gf_validate f)
          in query_loop pf env n fs (ps @ [\<lparr>pa_Name = fst (jsonName f), pa_In = ''query'', pa_Required = vr_required rules,
               pa_Schema = applyValidate pf env sc rules (gf_type f)\<rparr>]) c')"

definition queryParams :: "(string \<Rightarrow> rat option) \<Rightarrow> tenv \<Rightarrow> nat \<Rightarrow> gtype \<Rightarrow> comps \<Rightarrow> (param list \<times> comps) option" where
  "queryParams pf env n t c =
     (case underlying env (snd (deref t)) of TStruct fs \<Rightarrow> query_loop pf env n fs [] c | _ \<Rightarrow> Some ([], c))"

text \<open>The table of \<open>http.StatusText\<close>, empty for an unknown code.\<close>

definition status_texts :: "(int \<times> string) list" where
  "status_texts = [
    (100, ''Continue''), (101, ''Switching Protocols''), (102, ''Processing''), (103, ''Early Hints''), (200, ''OK''),
    (201, ''Created''), (202, ''Accepted''), (203, ''Non-Authoritative Information''), (204, ''No Content''),
    (205, ''Reset Content''), (206, ''Partial Content''), (207, ''Multi-Status''), (208, ''Already Reported''), (226, ''IM Used''),
    (300, ''Multiple Choices''), (301, ''Moved Permanently''), (302, ''Found''), (303, ''See Other''), (304, ''Not Modified''),
    (305, ''Use Proxy''), (307, ''Temporary Redirect''), (308, ''Permanent Redirect''), (400, ''Bad Request''),
    (401, ''Unauthorized''), (402, ''Payment Required''), (403, ''Forbidden''), (404, ''Not Found''), (405, ''Method Not Allowed''),
    (406, ''Not Acceptable''), (407, ''Proxy Authentication Required''), (408, ''Request Timeout''), (409, ''Conflict''),
    (410, ''Gone''), (411, ''Length Required''), (412, ''Precondition Failed''), (413, ''Request Entity Too Large''),
    (414, ''Request URI Too Long''), (415, ''Unsupported Media Type''), (416, ''Requested Range Not Satisfiable''),
    (417, ''Expectation Failed''), (421, ''Misdirected Request''), (422, ''Unprocessable Entity''), (423, ''Locked''),
    (424, ''Failed Dependency''), (425, ''Too Early''), (426, ''Upgrade Required''), (428, ''Precondition Required''),
    (429, ''Too Many Requests''), (431, ''Request Header Fields Too Large''), (451, ''Unavailable For Legal Reasons''),
    (500, ''Internal Server Error''), (501, ''Not Implemented''), (502, ''Bad Gateway''), (503, ''Service Unavailable''),
    (504, ''Gateway Timeout''), (505, ''HTTP Version Not Supported''), (506, ''Variant Also Negotiates''),
    (507, ''Insufficient Storage''), (508, ''Loop Detected''), (510, ''Not Extended''), (511, ''Network Authentication Required''),
    (418, ''I'' @ [CHR 0x27] @ ''m a teapot'')]"

definition StatusText :: "int \<Rightarrow> string" where
  "StatusText code = (case map_of status_texts code of Some t \<Rightarrow> t | None \<Rightarrow> [])"

definition json_content :: "schema \<Rightarrow> (string, media_type) gomap" where
  "json_content sc = [(''application/json'', MediaType sc)]"

definition path_param :: "string \<Rightarrow> param" where
  "path_param name = \<lparr>pa_Name = name, pa_In = ''path'', pa_Required = True, pa_Schema = prim_schema ''string'' []\<rparr>"

text \<open>The schema of an optional value: nothing for \<open>nil\<close>.\<close>

definition opt_schema ::
    "(string \<Rightarrow> rat option) \<Rightarrow> tenv \<Rightarrow> nat \<Rightarrow> gtype option \<Rightarrow> comps \<Rightarrow> (schema option \<times> comps) option" where
  "opt_schema pf env n t c =
     (case t of None \<Rightarrow> Some (None, c)
      | Some t' \<Rightarrow> map_option (\<lambda>(sc, c'). (Some sc, c')) (schemaFor pf env n t' c))"

definition success_status :: "op_decl \<Rightarrow> int" where
  "success_status d = (if od_Status d = 0 then 200 else od_Status d)"

definition new_operation :: "op_decl \<Rightarrow> string list \<Rightarrow> param list \<Rightarrow> schema option \<Rightarrow> schema option \<Rightarrow> operation" where
  "new_operation d pathParams qs body answer =
     (let status = success_status d;
          desc = (if StatusText status = [] then ''response'' else StatusText status)
      in \<lparr>on_Summary = od_Summary d, on_Description = od_Description d, on_Tags = od_Tags d,
          on_Parameters = map path_param pathParams @ qs,
          on_RequestBody = map_option (\<lambda>sc. \<lparr>rb_Required = True, rb_Content = json_content sc\<rparr>) body,
          on_Responses = [(itoa status, \<lparr>or_Description = desc,
            or_Content = (case answer of None \<Rightarrow> [] | Some sc \<Rightarrow> json_content sc)\<rparr>)],
          on_Security = (if od_Secured d then [[(bearerSchemeName, [])]] else [])\<rparr>)"

definition Register :: "(string \<Rightarrow> rat option) \<Rightarrow> tenv \<Rightarrow> nat \<Rightarrow> string \<Rightarrow> string \<Rightarrow> op_decl \<Rightarrow> spec \<Rightarrow> spec option" where
  "Register pf env n meth path d s =
     (let (oapiPath, pathParams) = convertPath path;
          item = (case gm_get (sp_paths s) oapiPath of Some i \<Rightarrow> i | None \<Rightarrow> no_ops)
      in case (case od_Query d of None \<Rightarrow> Some ([], sp_schemas s) | Some q \<Rightarrow> queryParams pf env n q (sp_schemas s)) of
           None \<Rightarrow> None
         | Some (qs, c1) \<Rightarrow>
         (case opt_schema pf env n (od_Request d) c1 of
            None \<Rightarrow> None
          | Some (body, c2) \<Rightarrow>
          (case opt_schema pf env n (od_Response d) c2 of
             None \<Rightarrow> None
           | Some (answer, c3) \<Rightarrow>
               Some (s\<lparr>sp_schemas := c3,
                 sp_paths := gm_put (sp_paths s) oapiPath (setOp item meth (new_operation d pathParams qs body answer))\<rparr>))))"

definition openapi_Build :: "spec \<Rightarrow> document" where
  "openapi_Build s =
     \<lparr>doc_OpenAPI = ''3.0.3'', doc_Info = sp_info s, doc_Paths = sp_paths s,
      doc_Components =
        (if gm_len (sp_schemas s) > 0 \<or> gm_len (sp_security s) > 0
         then Some \<lparr>co_Schemas = (if gm_len (sp_schemas s) > 0 then sp_schemas s else []),
                    co_SecuritySchemes = (if gm_len (sp_security s) > 0 then sp_security s else [])\<rparr>
         else None)\<rparr>"

text \<open>The JSON encoder gives an error text or the bytes.\<close>

definition spec_bytes :: "(document \<Rightarrow> string + string) \<Rightarrow> spec \<Rightarrow> spec \<times> (string + string)" where
  "spec_bytes json_Marshal s =
     (case sp_once s of
        Some r \<Rightarrow> (s, r)
      | None \<Rightarrow> (s\<lparr>sp_once := Some (json_Marshal (openapi_Build s))\<rparr>, json_Marshal (openapi_Build s)))"

definition SpecHandler :: "(document \<Rightarrow> string + string) \<Rightarrow> spec handler" where
  "SpecHandler json_Marshal s c =
     (case spec_bytes json_Marshal s of
        (s', Inl e) \<Rightarrow> (s', c, Ret (Some (PlainErr e)))
      | (s', Inr b) \<Rightarrow>
          (s', c\<lparr>f_resp := gm_put (f_resp c) ''Content-Type'' ''application/json'', f_body := Some (Page b)\<rparr>, Ret None))"

text \<open>The page is rendered once; \<open>html/template\<close> is the parameter.\<close>

definition UIHandler :: "(string \<Rightarrow> string) \<Rightarrow> string \<Rightarrow> spec handler" where
  "UIHandler swaggerHTML specURL s c =
     (s, c\<lparr>f_resp := gm_put (f_resp c) ''Content-Type'' ''text/html; charset=utf-8'', f_body := Some (Page (swaggerHTML specURL))\<rparr>,
      Ret None)"

section \<open>References and termination\<close>

text \<open>The references in a schema.\<close>

primrec refs :: "schema \<Rightarrow> string list" where
  "refs (Schema k props items addl) =
     (if sk_Ref k = [] then [] else [sk_Ref k]) @ concat (map snd (map (map_prod id refs) props)) @
     (case map_option refs items of None \<Rightarrow> [] | Some l \<Rightarrow> l) @ (case map_option refs addl of None \<Rightarrow> [] | Some l \<Rightarrow> l)"

text \<open>Every reference of a schema names a component.\<close>

definition resolved :: "comps \<Rightarrow> schema \<Rightarrow> bool" where
  "resolved c s \<longleftrightarrow> (\<forall>r\<in>set (refs s). \<exists>n\<in>set (gm_keys c). r = ref_prefix @ n)"

definition comps_resolved :: "comps \<Rightarrow> bool" where
  "comps_resolved c \<longleftrightarrow> gm_ok c \<and> (\<forall>(n, s)\<in>set c. resolved c s)"

end
