(* ===== verification/Open_Api_Props.thy ===== *)
theory Open_Api_Props
  imports Open_Api
begin

text \<open>
  Proofs about the OpenAPI generator: every reference of the document names one of its
  components, reflection returns on recursive types, and registered operations are found in the
  document with their path parameters.
\<close>

section \<open>References\<close>

lemma set_gm_put: "x \<in> set (gm_put m k v) \<Longrightarrow> x = (k, v) \<or> x \<in> set m"
  by (induction m) (auto simp: gm_put_def split: if_splits)

lemma set_gm_put_all: "x \<in> set (fold (\<lambda>(k, v) m. gm_put m k v) kvs m) \<Longrightarrow> x \<in> set kvs \<or> x \<in> set m"
  by (induction kvs arbitrary: m) (auto dest!: set_gm_put)

lemma resolved_mono: "set (gm_keys c) \<subseteq> set (gm_keys c') \<Longrightarrow> resolved c s \<Longrightarrow> resolved c' s"
  unfolding resolved_def by blast

lemma refs_upd_kw: "sk_Ref (f (s_kw s)) = sk_Ref (s_kw s) \<Longrightarrow> refs (upd_kw f s) = refs s"
  by (cases s) (simp add: upd_kw_def)

lemma applyBound_Ref: "sk_Ref (applyBound pf raw isMin kind k) = sk_Ref k"
  by (simp add: applyBound_def split: option.splits)

lemma refs_applyValidate: "refs (applyValidate pf env sc vr t) = refs sc"
proof -
  have r: "sk_Ref (on_rule vr name f k) = sk_Ref k" if "\<And>v k. sk_Ref (f v k) = sk_Ref k" for name f k
    using that by (simp add: on_rule_def split: option.split)
  show ?thesis
    unfolding applyValidate_def Let_def
    by (rule refs_upd_kw) (simp add: r applyBound_Ref split: option.split)
qed

lemma resolved_simps [simp]:
  "resolved c (applyValidate pf env sc vr t) = resolved c sc"
  "resolved c (nullable_unless_ref b sc) = resolved c sc"
  "resolved c (items_of sc) = resolved c sc"
  "resolved c (values_of sc) = resolved c sc"
  "resolved c (prim_schema ty fmt)"
  "resolved c (Schema kw0 [] None None)"
  by (simp_all add: resolved_def refs_applyValidate nullable_unless_ref_def refs_upd_kw items_of_def values_of_def prim_schema_def kw0_def)

lemma resolved_ref: "name \<in> set (gm_keys c) \<Longrightarrow> resolved c (ref_to name)"
  by (auto simp: resolved_def ref_to_def kw0_def ref_prefix_def)

lemma resolved_object:
  "resolved c (Schema (kw0\<lparr>sk_Type := ty, sk_Required := req\<rparr>) props None None) \<longleftrightarrow> (\<forall>(n, s)\<in>set props. resolved c s)"
proof -
  have "set (refs (Schema (kw0\<lparr>sk_Type := ty, sk_Required := req\<rparr>) props None None)) = (\<Union>(n, s)\<in>set props. set (refs s))"
    by (force simp: kw0_def)
  then show ?thesis by (auto simp: resolved_def)
qed

lemma refs_props: "(n, p) \<in> set (s_props s) \<Longrightarrow> set (refs p) \<subseteq> set (refs s)"
  by (cases s) force

lemma resolved_props: "resolved c s \<Longrightarrow> (n, p) \<in> set (s_props s) \<Longrightarrow> resolved c p"
  using refs_props [of n p s] by (auto simp: resolved_def)

text \<open>What a reflecting call keeps: components stay registered and all references resolve.\<close>

definition keeps_refs :: "comps \<Rightarrow> schema \<times> comps \<Rightarrow> bool" where
  "keeps_refs c r \<longleftrightarrow> set (gm_keys c) \<subseteq> set (gm_keys (snd r)) \<and> comps_resolved (snd r) \<and> resolved (snd r) (fst r)"

definition refs_sound :: "('a \<Rightarrow> comps \<Rightarrow> (schema \<times> comps) option) \<Rightarrow> bool" where
  "refs_sound f \<longleftrightarrow> (\<forall>x c r. comps_resolved c \<longrightarrow> f x c = Some r \<longrightarrow> keeps_refs c r)"

lemma refs_soundD:
  assumes "refs_sound f" "comps_resolved c" "f x c = Some (s, c')"
  shows "set (gm_keys c) \<subseteq> set (gm_keys c')" "comps_resolved c'" "resolved c' s"
  using assms by (fastforce simp: refs_sound_def keeps_refs_def)+

lemma comps_resolved_put:
  assumes c: "comps_resolved c" and s: "resolved (gm_put c n s) s"
  shows "comps_resolved (gm_put c n s)"
proof -
  have "resolved (gm_put c n s) p" if "(m, p) \<in> set (gm_put c n s)" for m p
  proof (cases "(m, p) = (n, s)")
    case False
    then have "(m, p) \<in> set c" using set_gm_put [OF that] by blast
    then have "resolved c p" using c by (auto simp: comps_resolved_def)
    then show ?thesis using resolved_mono [of c "gm_put c n s"] by auto
  qed (use s in simp)
  then show ?thesis using c by (auto simp: comps_resolved_def)
qed

lemma struct_refs:
  assumes "refs_sound ro" "comps_resolved c" "structSchema_with ro name fs c = Some r"
  shows "keeps_refs c r"
proof -
  consider "name = []" "ro fs c = Some r" | "name \<in> set (gm_keys c)" "r = (ref_to name, c)"
    | obj c' where "ro fs (gm_put c name (prim_schema ''object'' [])) = Some (obj, c')" "r = (ref_to name, gm_put c' name obj)"
    using assms(3) by (auto simp: structSchema_with_def gm_keys_get split: if_splits option.splits)
  then show ?thesis
  proof cases
    case 1
    then show ?thesis using assms(1,2) unfolding refs_sound_def by blast
  next
    case 2
    then show ?thesis using assms(2) by (simp add: keeps_refs_def resolved_ref)
  next
    case 3
    have "comps_resolved (gm_put c name (prim_schema ''object'' []))" by (rule comps_resolved_put [OF assms(2)]) simp
    note r = refs_soundD [OF assms(1), OF this 3(1)]
    have "comps_resolved (gm_put c' name obj)"
      by (rule comps_resolved_put [OF r(2) resolved_mono [OF _ r(3)]]) auto
    then show ?thesis using r(1) by (auto simp: 3(2) keeps_refs_def intro!: resolved_ref)
  qed
qed

lemma wrap_refs:
  assumes "refs_sound f" "comps_resolved c" "wrap_schema g (f x c) = Some r" "\<And>c s. resolved c (g s) = resolved c s"
  shows "keeps_refs c r"
proof -
  obtain s c' where "f x c = Some (s, c')" "r = (g s, c')" using assms(3) by (auto simp: wrap_schema_def)
  then show ?thesis using refs_soundD [OF assms(1,2)] assms(4) by (simp add: keeps_refs_def)
qed

lemma base_refs:
  assumes rs: "refs_sound rs" and ro: "refs_sound ro"
  shows "refs_sound (baseSchema_with env rs ro)"
  unfolding refs_sound_def
proof (intro allI impI)
  fix t c r assume c: "comps_resolved c" and e: "baseSchema_with env rs ro t c = Some r"
  have s: "keeps_refs c (p, c)" if "resolved c p" for p using that c by (simp add: keeps_refs_def)
  show "keeps_refs c r"
  proof (cases "t = TTime")
    case True
    then show ?thesis using e s by (auto simp: baseSchema_with_def)
  next
    case False
    then show ?thesis using e
      by (auto simp: baseSchema_with_def split: gtype.splits intro: s struct_refs [OF ro c]
          wrap_refs [OF rs c, of items_of] wrap_refs [OF rs c, of values_of])
  qed
qed

lemma schemaFor_refs:
  assumes "refs_sound rs" "refs_sound ro"
  shows "refs_sound (schemaFor_with env rs ro)"
  unfolding refs_sound_def
proof (intro allI impI)
  fix t c r assume "comps_resolved c" "schemaFor_with env rs ro t c = Some r"
  then show "keeps_refs c r"
    using wrap_refs [OF base_refs [OF assms, of env], of c "nullable_unless_ref (fst (deref t))" "snd (deref t)" r]
    by (simp add: schemaFor_with_def split: prod.splits)
qed

lemma keeps_refs_trans: "keeps_refs c' r \<Longrightarrow> set (gm_keys c) \<subseteq> set (gm_keys c') \<Longrightarrow> keeps_refs c r"
  by (auto simp: keeps_refs_def)

lemma object_refs:
  assumes rs: "refs_sound rs" and ro: "refs_sound ro"
  shows "comps_resolved c \<Longrightarrow> (\<And>n s. (n, s) \<in> set props \<Longrightarrow> resolved c s) \<Longrightarrow>
    objectSchema_loop pf env rs ro fs props req c = Some r \<Longrightarrow> keeps_refs c r"
proof (induction fs arbitrary: props req c)
  case Nil
  then show ?case by (auto simp: keeps_refs_def resolved_object)
next
  case (Cons f fs)
  note c = Cons.prems(1) and p = Cons.prems(2) and e = Cons.prems(3)
  consider (skip) "objectSchema_loop pf env rs ro fs props req c = Some r"
    | (flat) efs sub c' where "ro efs c = Some (sub, c')"
        "objectSchema_loop pf env rs ro fs (fold (\<lambda>(k, v) m. gm_put m k v) (s_props sub) props) (req @ sk_Required (s_kw sub)) c' = Some r"
    | (field) sc c' req' where "rs (gf_type f) c = Some (sc, c')"
        "objectSchema_loop pf env rs ro fs (gm_put props (fst (jsonName f)) (applyValidate pf env sc (parseValidate (gf_validate f)) (gf_type f)))
           req' c' = Some r"
    using e by (auto simp: Let_def split: if_splits option.splits prod.splits)
  then show ?case
  proof cases
    case skip
    then show ?thesis using Cons.IH c p by blast
  next
    case flat
    note r = refs_soundD [OF ro, OF c flat(1)]
    have "resolved c' s" if "(n, s) \<in> set (fold (\<lambda>(k, v) m. gm_put m k v) (s_props sub) props)" for n s
      using set_gm_put_all [OF that] p resolved_props [OF r(3)] resolved_mono [OF r(1)] by blast
    then show ?thesis using Cons.IH [OF r(2) _ flat(2)] keeps_refs_trans [OF _ r(1)] by blast
  next
    case field
    note r = refs_soundD [OF rs, OF c field(1)]
    have "resolved c' s"
      if "(n, s) \<in> set (gm_put props (fst (jsonName f)) (applyValidate pf env sc (parseValidate (gf_validate f)) (gf_type f)))" for n s
      using set_gm_put [OF that] p r(3) resolved_mono [OF r(1)] by auto
    then show ?thesis using Cons.IH [OF r(2) _ field(2)] keeps_refs_trans [OF _ r(1)] by blast
  qed
qed

lemma reflect_refs: "refs_sound (reflect pf env n)"
proof (induction n)
  case 0
  then show ?case by (simp add: refs_sound_def)
next
  case (Suc n)
  then have s: "refs_sound (reflect pf env n \<circ> CallSchema)" "refs_sound (reflect pf env n \<circ> CallObject)"
    by (auto simp: refs_sound_def)
  have "keeps_refs c r" if c: "comps_resolved c" and e: "reflect pf env (Suc n) call c = Some r" for call c r
  proof (cases call)
    case (CallSchema t)
    then have "schemaFor_with env (reflect pf env n \<circ> CallSchema) (reflect pf env n \<circ> CallObject) t c = Some r" using e by simp
    then show ?thesis using schemaFor_refs [OF s, of env] c unfolding refs_sound_def by blast
  next
    case (CallObject fs)
    then show ?thesis using object_refs [OF s c, of "[]"] e by simp
  qed
  then show ?case unfolding refs_sound_def by blast
qed

lemma schemaFor_sound: "refs_sound (schemaFor pf env n)"
  using reflect_refs [of pf env n] by (auto simp: refs_sound_def schemaFor_def)

section \<open>Fuel\<close>

text \<open>More fuel gives the same result.\<close>

definition refines :: "('a \<Rightarrow> comps \<Rightarrow> 'r option) \<Rightarrow> ('a \<Rightarrow> comps \<Rightarrow> 'r option) \<Rightarrow> bool" where
  "refines f g \<longleftrightarrow> (\<forall>x c r. f x c = Some r \<longrightarrow> g x c = Some r)"

lemma refinesD: "refines f g \<Longrightarrow> f x c = Some r \<Longrightarrow> g x c = Some r"
  unfolding refines_def by blast

lemma struct_mono: "refines ro ro' \<Longrightarrow> structSchema_with ro name fs c = Some r \<Longrightarrow> structSchema_with ro' name fs c = Some r"
  by (auto simp: structSchema_with_def dest: refinesD split: if_splits option.splits)

lemma wrap_mono: "refines f f' \<Longrightarrow> wrap_schema g (f x c) = Some r \<Longrightarrow> wrap_schema g (f' x c) = Some r"
  by (auto simp: wrap_schema_def dest: refinesD)

lemma base_mono: "refines rs rs' \<Longrightarrow> refines ro ro' \<Longrightarrow> refines (baseSchema_with env rs ro) (baseSchema_with env rs' ro')"
  by (auto simp: refines_def [of "baseSchema_with _ _ _"] baseSchema_with_def
      intro: struct_mono wrap_mono [of rs rs'] split: if_splits gtype.splits)

lemma schemaFor_mono: "refines rs rs' \<Longrightarrow> refines ro ro' \<Longrightarrow> refines (schemaFor_with env rs ro) (schemaFor_with env rs' ro')"
  using wrap_mono [OF base_mono, of rs rs' ro ro']
  by (auto simp: refines_def [of "schemaFor_with _ _ _"] schemaFor_with_def split: prod.splits)

lemma object_mono:
  assumes "refines rs rs'" "refines ro ro'"
  shows "objectSchema_loop pf env rs ro fs props req c = Some r \<Longrightarrow> objectSchema_loop pf env rs' ro' fs props req c = Some r"
proof (induction fs arbitrary: props req c)
  case (Cons f fs)
  then show ?case
    by (auto simp: Let_def dest: refinesD [OF assms(1)] refinesD [OF assms(2)] split: if_splits option.splits prod.splits)
qed simp

lemma reflect_mono: "m \<le> n \<Longrightarrow> refines (reflect pf env m) (reflect pf env n)"
proof (induction m arbitrary: n)
  case 0
  then show ?case by (simp add: refines_def)
next
  case (Suc m)
  then obtain k where n: "n = Suc k" "m \<le> k" by (cases n) auto
  have s: "refines (reflect pf env m \<circ> C) (reflect pf env k \<circ> C)" for C :: "'x \<Rightarrow> reflect_call"
    using refinesD [OF Suc.IH [OF n(2)]] unfolding refines_def comp_def by blast
  have "reflect pf env n call c = Some r" if e: "reflect pf env (Suc m) call c = Some r" for call c r
  proof (cases call)
    case (CallSchema t)
    then show ?thesis using e refinesD [OF schemaFor_mono [OF s s]] by (simp add: n(1))
  next
    case (CallObject fs)
    then show ?thesis using e object_mono [OF s s] by (simp add: n(1))
  qed
  then show ?case unfolding refines_def by blast
qed

section \<open>Termination\<close>

text \<open>
  The named types may be recursive through structs. A rank bounds the other ways a type can
  contain another: a named type that is no struct has a rank above the types it is built from,
  and an untagged embedded struct a rank below the struct that embeds it.
\<close>

definition struct_named :: "tenv \<Rightarrow> string \<Rightarrow> bool" where
  "struct_named env i \<longleftrightarrow> (case gm_get env i of Some (_, TStruct _) \<Rightarrow> True | _ \<Rightarrow> False)"

definition embed_rank :: "(string \<Rightarrow> nat) \<Rightarrow> gtype \<Rightarrow> nat" where
  "embed_rank rank t = (case t of TNamed i \<Rightarrow> rank i | _ \<Rightarrow> 0)"

primrec type_weight :: "tenv \<Rightarrow> (string \<Rightarrow> nat) \<Rightarrow> gtype \<Rightarrow> nat"
  and field_weight :: "tenv \<Rightarrow> (string \<Rightarrow> nat) \<Rightarrow> gfield \<Rightarrow> nat" where
  "type_weight env rank TString = 0"
| "type_weight env rank TBool = 0"
| "type_weight env rank TInt = 0"
| "type_weight env rank TInt64 = 0"
| "type_weight env rank TFloat32 = 0"
| "type_weight env rank TFloat64 = 0"
| "type_weight env rank TTime = 0"
| "type_weight env rank TIface = 0"
| "type_weight env rank TOther = 0"
| "type_weight env rank (TPtr t) = Suc (type_weight env rank t)"
| "type_weight env rank (TSlice t) = Suc (type_weight env rank t)"
| "type_weight env rank (TArray t) = Suc (type_weight env rank t)"
| "type_weight env rank (TMap t) = Suc (type_weight env rank t)"
| "type_weight env rank (TNamed i) = (if struct_named env i then 0 else rank i)"
| "type_weight env rank (TStruct fs) = Suc (sum_list (map (field_weight env rank) fs))"
| "field_weight env rank (GField n ex em json va t) =
     Suc (type_weight env rank t + (if em \<and> json = [] then embed_rank rank (snd (deref t)) else 0))"

definition object_weight :: "tenv \<Rightarrow> (string \<Rightarrow> nat) \<Rightarrow> gfield list \<Rightarrow> nat" where
  "object_weight env rank fs = sum_list (map (field_weight env rank) fs)"

definition ranked :: "tenv \<Rightarrow> (string \<Rightarrow> nat) \<Rightarrow> bool" where
  "ranked env rank \<longleftrightarrow> list_all (\<lambda>(i, name, u).
     name \<noteq> [] \<and> (case u of TStruct fs \<Rightarrow> object_weight env rank fs \<le> rank i | _ \<Rightarrow> type_weight env rank u \<le> rank i)) env"

lemma deref_weight: "type_weight env rank (snd (deref t)) \<le> type_weight env rank t"
  by (induction t rule: deref.induct) auto

lemma rankedD:
  assumes "ranked env rank" "gm_get env i = Some (name, u)"
  shows "name \<noteq> []" "case u of TStruct fs \<Rightarrow> object_weight env rank fs \<le> rank i | _ \<Rightarrow> type_weight env rank u \<le> rank i"
    "name \<in> fst ` snd ` set env"
proof -
  have m: "(i, name, u) \<in> set env" using assms(2) by (auto simp: gm_get_def dest: map_of_SomeD)
  then show "name \<noteq> []" "case u of TStruct fs \<Rightarrow> object_weight env rank fs \<le> rank i | _ \<Rightarrow> type_weight env rank u \<le> rank i"
    using assms(1) by (auto simp: ranked_def list_all_iff)
  show "name \<in> fst ` snd ` set env" using m by force
qed

definition call_weight :: "tenv \<Rightarrow> (string \<Rightarrow> nat) \<Rightarrow> reflect_call \<Rightarrow> nat" where
  "call_weight env rank call = (case call of CallSchema t \<Rightarrow> type_weight env rank t | CallObject fs \<Rightarrow> object_weight env rank fs)"

text \<open>The names of the environment that are not registered yet.\<close>

definition unregistered :: "tenv \<Rightarrow> comps \<Rightarrow> nat" where
  "unregistered env c = card (fst ` snd ` set env - set (gm_keys c))"

lemma unregistered_mono: "set (gm_keys c) \<subseteq> set (gm_keys c') \<Longrightarrow> unregistered env c' \<le> unregistered env c"
  unfolding unregistered_def by (rule card_mono) auto

lemma unregistered_put:
  assumes "name \<in> fst ` snd ` set env" "name \<notin> set (gm_keys c)"
  shows "unregistered env (gm_put c name s) < unregistered env c"
  unfolding unregistered_def using assms by (intro psubset_card_mono) auto

text \<open>The calls below a call weigh less, or register a name first.\<close>

lemma elem_weight:
  assumes "ranked env rank" "underlying env t = TSlice e \<or> underlying env t = TArray e \<or> underlying env t = TMap e"
  shows "type_weight env rank e < type_weight env rank t"
proof (cases t)
  case (TNamed i)
  with assms(2) obtain name u where g: "gm_get env i = Some (name, u)" and u: "u = TSlice e \<or> u = TArray e \<or> u = TMap e"
    by (auto split: option.splits)
  then show ?thesis using rankedD(2) [OF assms(1) g] by (auto simp: TNamed struct_named_def)
qed (use assms(2) in auto)

lemma embed_weight:
  assumes "ranked env rank" "embeds env f = Some efs"
  shows "object_weight env rank efs < field_weight env rank f"
proof -
  obtain n ex em json va t where f: "f = GField n ex em json va t" by (cases f)
  let ?t = "snd (deref t)"
  have e: "em" "json = []" "underlying env ?t = TStruct efs"
    using assms(2) by (auto simp: f embeds_def split: if_splits gtype.splits)
  show ?thesis
  proof (cases ?t)
    case (TNamed i)
    then obtain name where "gm_get env i = Some (name, TStruct efs)" using e(3) by (auto split: option.splits)
    then show ?thesis using rankedD(2) [OF assms(1)] e(1,2) by (simp add: f TNamed embed_rank_def) fastforce
  next
    case (TStruct fs)
    then show ?thesis using e deref_weight [of env rank t] by (simp add: f object_weight_def)
  qed (use e(3) in auto)
qed

lemma field_type_weight: "type_weight env rank (gf_type f) < field_weight env rank f"
  by (cases f) simp

lemma object_returns:
  assumes calls: "\<And>call c. call_weight env rank call < w \<Longrightarrow> comps_resolved c \<Longrightarrow> unregistered env c \<le> m \<Longrightarrow> \<exists>n r. reflect pf env n call c = Some r"
    and rank: "ranked env rank"
  shows "(\<And>f. f \<in> set fs \<Longrightarrow> field_weight env rank f \<le> w) \<Longrightarrow> comps_resolved c \<Longrightarrow> unregistered env c \<le> m \<Longrightarrow>
    \<exists>n r. objectSchema_loop pf env (reflect pf env n \<circ> CallSchema) (reflect pf env n \<circ> CallObject) fs props req c = Some r"
proof (induction fs arbitrary: props req c)
  case (Cons f fs)
  note w = Cons.prems(1) and c = Cons.prems(2,3)
  have IH: "\<exists>n r. n \<ge> n0 \<and> objectSchema_loop pf env (reflect pf env n \<circ> CallSchema) (reflect pf env n \<circ> CallObject) fs props req c' = Some r"
    if c': "comps_resolved c'" "unregistered env c' \<le> m" for props req c' n0
  proof -
    obtain n r where n: "objectSchema_loop pf env (reflect pf env n \<circ> CallSchema) (reflect pf env n \<circ> CallObject) fs props req c' = Some r"
      using Cons.IH [OF _ c'] w by (meson list.set_intros(2))
    have "refines (reflect pf env n \<circ> C) (reflect pf env (max n0 n) \<circ> C)" for C :: "'x \<Rightarrow> reflect_call"
      using refinesD [OF reflect_mono [of n "max n0 n" pf env]] unfolding refines_def comp_def by simp
    then show ?thesis using object_mono n by (meson max.cobounded1)
  qed
  have below: "\<exists>n0 s c'. (\<forall>n\<ge>n0. reflect pf env n call c = Some (s, c')) \<and> comps_resolved c' \<and> unregistered env c' \<le> m"
    if cw: "call_weight env rank call < w" for call
  proof -
    obtain n0 s c' where r: "reflect pf env n0 call c = Some (s, c')" using calls [OF cw c] by auto
    have "reflect pf env n call c = Some (s, c')" if "n \<ge> n0" for n using refinesD [OF reflect_mono [OF that] r] .
    moreover note refs_soundD(1,2) [OF reflect_refs, OF c(1) r]
    ultimately show ?thesis using unregistered_mono [of c c' env] c(2) by fastforce
  qed
  consider (skip) "\<not> gf_exported f \<or> embeds env f = None \<and> snd (jsonName f)" | (flat) efs where "gf_exported f" "embeds env f = Some efs"
    | (field) "gf_exported f" "embeds env f = None" "\<not> snd (jsonName f)" by (cases "embeds env f") auto
  then show ?case
  proof cases
    case skip
    obtain n r where "objectSchema_loop pf env (reflect pf env n \<circ> CallSchema) (reflect pf env n \<circ> CallObject) fs props req c = Some r"
      using IH [OF c, of 0 props req] by blast
    then show ?thesis using skip by (intro exI [of _ n] exI [of _ r]) (cases "gf_exported f"; simp add: comp_def)
  next
    case flat
    have "call_weight env rank (CallObject efs) < w"
      using embed_weight [OF rank flat(2)] w [of f] by (simp add: call_weight_def)
    then obtain n0 s c' where n0: "\<forall>n\<ge>n0. reflect pf env n (CallObject efs) c = Some (s, c')" "comps_resolved c'" "unregistered env c' \<le> m"
      using below by blast
    obtain n r where "n \<ge> n0" "objectSchema_loop pf env (reflect pf env n \<circ> CallSchema) (reflect pf env n \<circ> CallObject) fs
        (fold (\<lambda>(k, v) m. gm_put m k v) (s_props s) props) (req @ sk_Required (s_kw s)) c' = Some r"
      using IH [OF n0(2,3)] by blast
    then show ?thesis using flat n0(1) by (intro exI [of _ n] exI [of _ r]) (simp add: comp_def)
  next
    case field
    have "call_weight env rank (CallSchema (gf_type f)) < w"
      using field_type_weight [of env rank f] w [of f] by (simp add: call_weight_def)
    then obtain n0 s c' where n0: "\<forall>n\<ge>n0. reflect pf env n (CallSchema (gf_type f)) c = Some (s, c')" "comps_resolved c'" "unregistered env c' \<le> m"
      using below by blast
    obtain n r where "n \<ge> n0" "objectSchema_loop pf env (reflect pf env n \<circ> CallSchema) (reflect pf env n \<circ> CallObject) fs
        (gm_put props (fst (jsonName f)) (applyValidate pf env s (parseValidate (gf_validate f)) (gf_type f)))
        (if vr_required (parseValidate (gf_validate f)) then req @ [fst (jsonName f)] else req) c' = Some r"
      using IH [OF n0(2,3)] by blast
    then show ?thesis using field n0(1) by (intro exI [of _ n] exI [of _ r]) (simp add: Let_def comp_def)
  qed
qed simp

lemma base_returns:
  assumes calls: "\<And>call. call_weight env rank call < type_weight env rank t \<Longrightarrow> \<exists>n r. reflect pf env n call c = Some r"
    and fresh: "\<And>fs name s. unregistered env (gm_put c name s) < unregistered env c \<Longrightarrow>
      \<exists>n r. reflect pf env n (CallObject fs) (gm_put c name (prim_schema ''object'' [])) = Some r"
    and rank: "ranked env rank"
  shows "\<exists>n r. baseSchema_with env (reflect pf env n \<circ> CallSchema) (reflect pf env n \<circ> CallObject) t c = Some r"
proof (cases "t = TTime")
  case True
  then show ?thesis by (simp add: baseSchema_with_def)
next
  case time: False
  consider (elem) e where "underlying env t = TSlice e \<or> underlying env t = TArray e \<or> underlying env t = TMap e"
    | (struct) fs where "underlying env t = TStruct fs"
    | (flat) "\<forall>e fs. underlying env t \<noteq> TSlice e \<and> underlying env t \<noteq> TArray e \<and> underlying env t \<noteq> TMap e \<and> underlying env t \<noteq> TStruct fs"
    by auto
  then show ?thesis
  proof cases
    case elem
    then have "call_weight env rank (CallSchema e) < type_weight env rank t" using elem_weight [OF rank] by (simp add: call_weight_def)
    then obtain n r where "reflect pf env n (CallSchema e) c = Some r" using calls by blast
    then show ?thesis using elem time by (intro exI [of _ n]) (auto simp: baseSchema_with_def wrap_schema_def)
  next
    case struct
    consider (inline) "t = TStruct fs" | (named) i name where "t = TNamed i" "gm_get env i = Some (name, TStruct fs)"
      using struct by (cases t) (auto split: option.splits)
    then show ?thesis
    proof cases
      case inline
      then have "call_weight env rank (CallObject fs) < type_weight env rank t" by (simp add: call_weight_def object_weight_def)
      then obtain n r where "reflect pf env n (CallObject fs) c = Some r" using calls by blast
      then show ?thesis using inline by (intro exI [of _ n]) (auto simp: baseSchema_with_def structSchema_with_def)
    next
      case named
      note n = rankedD(1,3) [OF rank named(2)]
      show ?thesis
      proof (cases "gm_get c name")
        case None
        then obtain k r where "reflect pf env k (CallObject fs) (gm_put c name (prim_schema ''object'' [])) = Some r"
          using fresh [OF unregistered_put [OF n(2), of c]] gm_get_keys [of c name] by blast
        then show ?thesis using named n(1) None
          by (intro exI [of _ k]) (auto simp: baseSchema_with_def structSchema_with_def split: prod.splits)
      qed (use named n(1) in \<open>auto simp: baseSchema_with_def structSchema_with_def\<close>)
    qed
  next
    case flat
    then show ?thesis by (auto simp: baseSchema_with_def split: gtype.splits)
  qed
qed

lemma reflect_returns_below:
  assumes outer: "\<And>call c. unregistered env c < m \<Longrightarrow> comps_resolved c \<Longrightarrow> \<exists>n r. reflect pf env n call c = Some r"
    and rank: "ranked env rank"
  shows "comps_resolved c \<Longrightarrow> unregistered env c \<le> m \<Longrightarrow> \<exists>n r. reflect pf env n call c = Some r"
proof (induction "call_weight env rank call" arbitrary: call c rule: less_induct)
  case less
  show ?case
  proof (cases call)
    case (CallSchema t)
    have "\<exists>n r. reflect pf env n call' c = Some r" if "call_weight env rank call' < type_weight env rank (snd (deref t))" for call'
      using less.hyps [of call' c] less.prems that deref_weight [of env rank t] by (simp add: CallSchema call_weight_def)
    moreover have "\<exists>n r. reflect pf env n (CallObject fs) (gm_put c name (prim_schema ''object'' [])) = Some r"
      if "unregistered env (gm_put c name s) < unregistered env c" for fs name s
    proof (rule outer)
      show "unregistered env (gm_put c name (prim_schema ''object'' [])) < m"
        using that less.prems(2) by (simp add: unregistered_def)
      show "comps_resolved (gm_put c name (prim_schema ''object'' []))" by (rule comps_resolved_put [OF less.prems(1)]) simp
    qed
    ultimately obtain n r where
        "baseSchema_with env (reflect pf env n \<circ> CallSchema) (reflect pf env n \<circ> CallObject) (snd (deref t)) c = Some r"
      using base_returns [OF _ _ rank] by blast
    then show ?thesis
      by (intro exI [of _ "Suc n"]) (cases r; auto simp: CallSchema schemaFor_with_def wrap_schema_def split: prod.splits)
  next
    case (CallObject fs)
    have "field_weight env rank f \<le> object_weight env rank fs" if "f \<in> set fs" for f
      using member_le_sum_list [of "field_weight env rank f" "map (field_weight env rank) fs"] that by (simp add: object_weight_def)
    moreover have "\<exists>n r. reflect pf env n call' c' = Some r"
      if "call_weight env rank call' < object_weight env rank fs" "comps_resolved c'" "unregistered env c' \<le> m" for call' c'
      using less.hyps [of call' c'] that by (simp add: CallObject call_weight_def)
    ultimately obtain n r where "objectSchema_loop pf env (reflect pf env n \<circ> CallSchema) (reflect pf env n \<circ> CallObject) fs [] [] c = Some r"
      using object_returns [OF _ rank _ less.prems, of "object_weight env rank fs" pf fs "[]" "[]"] by blast
    then show ?thesis by (intro exI [of _ "Suc n"]) (simp add: CallObject)
  qed
qed

lemma reflect_returns:
  assumes "ranked env rank" "comps_resolved c"
  shows "\<exists>n r. reflect pf env n call c = Some r"
  using assms(2)
proof (induction "unregistered env c" arbitrary: call c rule: less_induct)
  case less
  show ?case by (rule reflect_returns_below [OF less.hyps assms(1) less.prems order_refl])
qed

section \<open>Whole documents\<close>

datatype spec_call = CallBearer | CallRegister string string op_decl

fun spec_run :: "(string \<Rightarrow> rat option) \<Rightarrow> tenv \<Rightarrow> nat \<Rightarrow> spec_call list \<Rightarrow> spec \<Rightarrow> spec option" where
  "spec_run pf env n [] s = Some s"
| "spec_run pf env n (CallBearer # calls) s = spec_run pf env n calls (WithBearerAuth s)"
| "spec_run pf env n (CallRegister meth path d # calls) s =
     (case Register pf env n meth path d s of None \<Rightarrow> None | Some s' \<Rightarrow> spec_run pf env n calls s')"

definition content_refs :: "(string, media_type) gomap \<Rightarrow> string list" where
  "content_refs m = concat (map (\<lambda>(_, mt). refs (mt_Schema mt)) m)"

definition operation_refs :: "operation \<Rightarrow> string list" where
  "operation_refs o' =
     concat (map (\<lambda>p. refs (pa_Schema p)) (on_Parameters o')) @
     (case on_RequestBody o' of None \<Rightarrow> [] | Some b \<Rightarrow> content_refs (rb_Content b)) @
     concat (map (\<lambda>(_, r). content_refs (or_Content r)) (on_Responses o'))"

definition item_operations :: "path_item \<Rightarrow> operation list" where
  "item_operations i =
     concat (map (\<lambda>o'. case o' of None \<Rightarrow> [] | Some x \<Rightarrow> [x])
       [pi_Get i, pi_Post i, pi_Put i, pi_Patch i, pi_Delete i, pi_Head i, pi_Options i])"

definition doc_operations :: "document \<Rightarrow> operation list" where
  "doc_operations d = concat (map (\<lambda>(_, i). item_operations i) (doc_Paths d))"

definition doc_schemas :: "document \<Rightarrow> comps" where
  "doc_schemas d = (case doc_Components d of None \<Rightarrow> [] | Some c \<Rightarrow> co_Schemas c)"

definition doc_security :: "document \<Rightarrow> (string, security_scheme) gomap" where
  "doc_security d = (case doc_Components d of None \<Rightarrow> [] | Some c \<Rightarrow> co_SecuritySchemes c)"

definition doc_refs :: "document \<Rightarrow> string list" where
  "doc_refs d = concat (map operation_refs (doc_operations d)) @ concat (map (\<lambda>(_, s). refs s) (doc_schemas d))"

definition required_schemes :: "document \<Rightarrow> string list" where
  "required_schemes d = concat (map (\<lambda>o'. concat (map gm_keys (on_Security o'))) (doc_operations d))"

lemma doc_schemas_Build [simp]: "doc_schemas (openapi_Build s) = sp_schemas s"
  by (auto simp: doc_schemas_def openapi_Build_def gm_len_0)

lemma doc_security_Build [simp]: "doc_security (openapi_Build s) = sp_security s"
  by (auto simp: doc_security_def openapi_Build_def gm_len_0)

definition refs_in :: "comps \<Rightarrow> string list \<Rightarrow> bool" where
  "refs_in c rs \<longleftrightarrow> (\<forall>r\<in>set rs. \<exists>n\<in>set (gm_keys c). r = ref_prefix @ n)"

lemma refs_in_simps [simp]:
  "refs_in c []" "refs_in c (xs @ ys) \<longleftrightarrow> refs_in c xs \<and> refs_in c ys"
  "refs_in c (concat xss) \<longleftrightarrow> (\<forall>xs\<in>set xss. refs_in c xs)" "refs_in c (refs s) \<longleftrightarrow> resolved c s"
  by (auto simp: refs_in_def resolved_def)

lemma refs_in_mono: "set (gm_keys c) \<subseteq> set (gm_keys c') \<Longrightarrow> refs_in c rs \<Longrightarrow> refs_in c' rs"
  unfolding refs_in_def by blast

definition operation_ok :: "comps \<Rightarrow> operation \<Rightarrow> bool" where
  "operation_ok c o' \<longleftrightarrow> refs_in c (operation_refs o') \<and> (\<forall>m\<in>set (on_Security o'). set (gm_keys m) \<subseteq> {bearerSchemeName})"

definition spec_ok :: "spec \<Rightarrow> bool" where
  "spec_ok s \<longleftrightarrow> comps_resolved (sp_schemas s) \<and>
     (\<forall>(_, i)\<in>set (sp_paths s). \<forall>o'\<in>set (item_operations i). operation_ok (sp_schemas s) o')"

lemma item_operations_setOp: "set (item_operations (setOp i m o')) \<subseteq> insert o' (set (item_operations i))"
  by (auto simp: setOp_def item_operations_def Let_def split: option.splits)

lemma operation_ok_mono: "set (gm_keys c) \<subseteq> set (gm_keys c') \<Longrightarrow> operation_ok c o' \<Longrightarrow> operation_ok c' o'"
  unfolding operation_ok_def using refs_in_mono by blast

lemma query_loop_ok:
  "query_loop pf env n fs ps c = Some (ps', c') \<Longrightarrow> comps_resolved c \<Longrightarrow> (\<forall>p\<in>set ps. resolved c (pa_Schema p)) \<Longrightarrow>
   set (gm_keys c) \<subseteq> set (gm_keys c') \<and> comps_resolved c' \<and> (\<forall>p\<in>set ps'. resolved c' (pa_Schema p))"
proof (induction fs arbitrary: ps c)
  case (Cons f fs)
  show ?case
  proof (cases "\<not> gf_exported f \<or> snd (jsonName f)")
    case True
    then show ?thesis using Cons by simp
  next
    case False
    then obtain sc c1 where s: "schemaFor pf env n (gf_type f) c = Some (sc, c1)"
      and r: "query_loop pf env n fs (ps @ [\<lparr>pa_Name = fst (jsonName f), pa_In = ''query'', pa_Required = vr_required (parseValidate (gf_validate f)),
               pa_Schema = applyValidate pf env sc (parseValidate (gf_validate f)) (gf_type f)\<rparr>]) c1 = Some (ps', c')"
      using Cons.prems(1) by (auto simp: Let_def split: option.splits)
    note k = refs_soundD [OF schemaFor_sound, OF Cons.prems(2) s]
    show ?thesis using Cons.IH [OF r k(2)] Cons.prems(3) k(1,3) resolved_mono [OF k(1)] by auto
  qed
qed simp

lemma opt_schema_ok:
  assumes "opt_schema pf env n t c = Some (sc, c')" "comps_resolved c"
  shows "set (gm_keys c) \<subseteq> set (gm_keys c') \<and> comps_resolved c' \<and> (\<forall>s. sc = Some s \<longrightarrow> resolved c' s)"
proof (cases t)
  case (Some t')
  then obtain s where s: "schemaFor pf env n t' c = Some (s, c')" "sc = Some s" using assms(1) by (auto simp: opt_schema_def)
  then show ?thesis using refs_soundD [OF schemaFor_sound, OF assms(2) s(1)] by auto
qed (use assms in \<open>auto simp: opt_schema_def\<close>)

lemma queryParams_ok:
  assumes "(case q of None \<Rightarrow> Some ([], c) | Some q \<Rightarrow> queryParams pf env n q c) = Some (ps, c')" "comps_resolved c"
  shows "set (gm_keys c) \<subseteq> set (gm_keys c') \<and> comps_resolved c' \<and> (\<forall>p\<in>set ps. resolved c' (pa_Schema p))"
  using assms query_loop_ok [of pf env n _ "[]" c ps c']
  by (auto simp: queryParams_def split: option.splits gtype.splits)

lemma Register_cases:
  assumes "Register pf env n meth path d s = Some s'"
  obtains qs c1 body c2 answer c3 where
    "(case od_Query d of None \<Rightarrow> Some ([], sp_schemas s) | Some q \<Rightarrow> queryParams pf env n q (sp_schemas s)) = Some (qs, c1)"
    "opt_schema pf env n (od_Request d) c1 = Some (body, c2)" "opt_schema pf env n (od_Response d) c2 = Some (answer, c3)"
    "s' = s\<lparr>sp_schemas := c3, sp_paths := gm_put (sp_paths s) (fst (convertPath path))
       (setOp (case gm_get (sp_paths s) (fst (convertPath path)) of Some i \<Rightarrow> i | None \<Rightarrow> no_ops) meth
         (new_operation d (snd (convertPath path)) qs body answer))\<rparr>"
proof -
  have *: "\<exists>a. F = Some a \<and> G a = Some r" if "(case F of None \<Rightarrow> None | Some a \<Rightarrow> G a) = Some r" for F :: "'x option" and G and r :: "'y"
    using that by (cases F) auto
  show ?thesis using assms that unfolding Register_def Let_def
    by (auto simp only: prod.case_eq_if option.inject dest!: *)
qed

lemma Register_ok:
  assumes s: "spec_ok s" and r: "Register pf env n meth path d s = Some s'"
  shows "spec_ok s' \<and> sp_security s' = sp_security s"
  using r
proof (cases rule: Register_cases)
  case (1 qs c1 body c2 answer c3)
  let ?o = "new_operation d (snd (convertPath path)) qs body answer"
  have c: "comps_resolved (sp_schemas s)" using s by (simp add: spec_ok_def)
  note q = queryParams_ok [OF 1(1) c]
  note b = opt_schema_ok [OF 1(2)] and a = opt_schema_ok [OF 1(3)]
  have k: "set (gm_keys (sp_schemas s)) \<subseteq> set (gm_keys c3)" "set (gm_keys c1) \<subseteq> set (gm_keys c3)"
    "set (gm_keys c2) \<subseteq> set (gm_keys c3)" "comps_resolved c3"
    using q b a by blast+
  have body: "\<forall>sc. body = Some sc \<longrightarrow> resolved c3 sc" using q b resolved_mono [OF k(3)] by blast
  have answer: "\<forall>sc. answer = Some sc \<longrightarrow> resolved c3 sc" using q b a by blast
  have qs: "\<forall>p\<in>set qs. resolved c3 (pa_Schema p)" using q resolved_mono [OF k(2)] by blast
  have "operation_ok c3 ?o"
    using body answer qs
    by (auto simp: operation_ok_def operation_refs_def new_operation_def Let_def content_refs_def json_content_def path_param_def
        gm_keys_def split: option.splits)
  moreover have "operation_ok c3 o'" if "(p, i) \<in> set (sp_paths s)" "o' \<in> set (item_operations i)" for p i o'
    using s that operation_ok_mono [OF k(1)] by (fastforce simp: spec_ok_def)
  moreover have "item_operations no_ops = []" by (simp add: item_operations_def no_ops_def)
  moreover have "(fst (convertPath path), i) \<in> set (sp_paths s)" if "gm_get (sp_paths s) (fst (convertPath path)) = Some i" for i
    using that by (simp add: gm_get_def map_of_SomeD)
  ultimately have "operation_ok c3 o'" if "(p, i) \<in> set (sp_paths s')" "o' \<in> set (item_operations i)" for p i o'
    using that by (auto simp: 1(4) dest!: set_gm_put item_operations_setOp [THEN subsetD] split: option.splits)
  then show ?thesis using k(4) by (auto simp: spec_ok_def 1(4))
qed

lemma spec_run_ok:
  "spec_ok s \<Longrightarrow> spec_run pf env n calls s = Some s' \<Longrightarrow>
   spec_ok s' \<and> set (gm_keys (sp_security s)) \<subseteq> set (gm_keys (sp_security s')) \<and>
   (CallBearer \<in> set calls \<longrightarrow> bearerSchemeName \<in> set (gm_keys (sp_security s')))"
proof (induction pf env n calls s rule: spec_run.induct)
  case (2 pf env n calls s)
  have "spec_ok (WithBearerAuth s)" using 2(2) by (simp add: spec_ok_def WithBearerAuth_def)
  moreover have "set (gm_keys (sp_security (WithBearerAuth s))) = insert bearerSchemeName (set (gm_keys (sp_security s)))"
    by (simp add: WithBearerAuth_def)
  ultimately show ?case using 2 by auto
next
  case (3 pf env n meth path d calls s)
  then obtain s1 where s1: "Register pf env n meth path d s = Some s1" "spec_run pf env n calls s1 = Some s'"
    by (auto split: option.splits)
  then show ?case using 3(1) [OF s1(1)] Register_ok [OF 3(2) s1(1)] by auto
qed simp

section \<open>Properties\<close>

text \<open>
  C20. The document is closed. After any sequence of registrations, every \<open>$ref\<close> in the
  parameters, bodies and responses of the operations and in the component schemas names a
  component of the document, recursive and mutually recursive types included, and once the bearer
  scheme is registered every scheme an operation requires is defined.
\<close>

theorem openapi_refs_resolve:
  assumes "spec_run pf env n calls (openapi_New inf0) = Some s"
  shows "let d = openapi_Build s
    in (\<forall>r\<in>set (doc_refs d). \<exists>name sc. r = ''#/components/schemas/'' @ name \<and> gm_get (doc_schemas d) name = Some sc) \<and>
       (CallBearer \<in> set calls \<longrightarrow> (\<forall>k\<in>set (required_schemes d). \<exists>sc. gm_get (doc_security d) k = Some sc))"
proof -
  let ?d = "openapi_Build s"
  have "spec_ok (openapi_New inf0)" by (simp add: spec_ok_def openapi_New_def comps_resolved_def)
  note ok = spec_run_ok [OF this assms]
  have ops: "operation_ok (sp_schemas s) o'" if "o' \<in> set (doc_operations ?d)" for o'
    using ok that by (auto simp: spec_ok_def doc_operations_def openapi_Build_def)
  have "refs_in (sp_schemas s) (doc_refs ?d)"
    using ops ok by (auto simp: doc_refs_def operation_ok_def spec_ok_def comps_resolved_def)
  moreover have "set (required_schemes ?d) \<subseteq> {bearerSchemeName}"
    using ops by (auto simp: required_schemes_def operation_ok_def)
  ultimately show ?thesis using ok unfolding refs_in_def ref_prefix_def Let_def by (auto simp: gm_keys_get)
qed

text \<open>Two structs that refer to each other, an embedded base and a slice type.\<close>

definition demo_types :: tenv where
  "demo_types = [(''user'', ''User'', TStruct [
       GField ''Base'' True True [] [] (TNamed ''base''),
       GField ''Name'' True False ''name'' ''required,min=3'' TString,
       GField ''Boss'' True False ''boss,omitempty'' [] (TPtr (TNamed ''user'')),
       GField ''Posts'' True False ''posts'' [] (TNamed ''posts'')]),
     (''base'', ''Base'', TStruct [GField ''ID'' True False ''id'' [] TInt64]),
     (''posts'', ''Posts'', TSlice (TNamed ''post'')),
     (''post'', ''Post'', TStruct [GField ''Author'' True False ''author'' [] (TNamed ''user'')])]"

definition demo_calls :: "spec_call list" where
  "demo_calls = [CallBearer, CallRegister ''get'' ''/users/:id'' \<lparr>od_Summary = ''one user'', od_Description = [], od_Tags = [],
     od_Request = None, od_Response = Some (TNamed ''user''), od_Query = None, od_Status = 0, od_Secured = True\<rparr>]"

definition demo_info :: info where
  "demo_info = \<lparr>inf_Title = ''t'', inf_Version = ''1'', inf_Description = []\<rparr>"

lemma demo_run:
  "case spec_run (\<lambda>_. None) demo_types 9 demo_calls (openapi_New demo_info) of None \<Rightarrow> False
   | Some s \<Rightarrow> ''#/components/schemas/User'' \<in> set (doc_refs (openapi_Build s))"
  by code_simp

theorem openapi_refs_resolve_witness:
  "case spec_run (\<lambda>_. None) demo_types 9 demo_calls (openapi_New demo_info) of None \<Rightarrow> False
   | Some s \<Rightarrow> \<exists>sc. gm_get (doc_schemas (openapi_Build s)) ''User'' = Some sc"
proof (cases "spec_run (\<lambda>_. None) demo_types 9 demo_calls (openapi_New demo_info)")
  case None
  then show ?thesis using demo_run by simp
next
  case (Some s)
  then have "''#/components/schemas/User'' \<in> set (doc_refs (openapi_Build s))" using demo_run by simp
  then have "\<exists>name sc. ''#/components/schemas/User'' = ''#/components/schemas/'' @ name \<and> gm_get (doc_schemas (openapi_Build s)) name = Some sc"
    using openapi_refs_resolve [OF Some] unfolding Let_def by blast
  then show ?thesis using Some by simp
qed

section \<open>Registration returns\<close>

definition settles :: "(nat \<Rightarrow> 'r option) \<Rightarrow> 'r \<Rightarrow> bool" where
  "settles F r \<longleftrightarrow> (\<exists>n0. \<forall>n\<ge>n0. F n = Some r)"

lemma settles_Some [intro!]: "settles (\<lambda>n. Some r) r"
  by (simp add: settles_def)

lemma settles_case:
  assumes "settles F a" "settles (\<lambda>n. G n a) b"
  shows "settles (\<lambda>n. case F n of None \<Rightarrow> None | Some x \<Rightarrow> G n x) b"
proof -
  obtain n1 n2 where "\<forall>n\<ge>n1. F n = Some a" "\<forall>n\<ge>n2. G n a = Some b" using assms by (auto simp: settles_def)
  then show ?thesis unfolding settles_def by (intro exI [of _ "max n1 n2"]) simp
qed

lemma settles_case_pair:
  assumes "settles F (a, a')" "settles (\<lambda>n. G n a a') b"
  shows "settles (\<lambda>n. case F n of None \<Rightarrow> None | Some (x, y) \<Rightarrow> G n x y) b"
  using settles_case [OF assms(1), of "\<lambda>n (x, y). G n x y" b] assms(2) by simp

lemma schemaFor_settles:
  assumes "ranked env rank" "comps_resolved c"
  shows "\<exists>s c'. settles (\<lambda>n. schemaFor pf env n t c) (s, c') \<and> comps_resolved c'"
proof -
  obtain n s c' where r: "reflect pf env n (CallSchema t) c = Some (s, c')" using reflect_returns [OF assms] by fastforce
  have "settles (\<lambda>n. schemaFor pf env n t c) (s, c')"
    unfolding settles_def schemaFor_def using refinesD [OF reflect_mono r] by blast
  then show ?thesis using refs_soundD(2) [OF reflect_refs, OF assms(2) r] by blast
qed

lemma query_loop_settles:
  assumes "ranked env rank"
  shows "comps_resolved c \<Longrightarrow> \<exists>ps' c'. settles (\<lambda>n. query_loop pf env n fs ps c) (ps', c') \<and> comps_resolved c'"
proof (induction fs arbitrary: ps c)
  case (Cons f fs)
  show ?case
  proof (cases "\<not> gf_exported f \<or> snd (jsonName f)")
    case True
    then show ?thesis using Cons by simp
  next
    case False
    obtain sc c1 where s: "settles (\<lambda>n. schemaFor pf env n (gf_type f) c) (sc, c1)" "comps_resolved c1"
      using schemaFor_settles [OF assms Cons.prems] by blast
    let ?p = "\<lparr>pa_Name = fst (jsonName f), pa_In = ''query'', pa_Required = vr_required (parseValidate (gf_validate f)),
               pa_Schema = applyValidate pf env sc (parseValidate (gf_validate f)) (gf_type f)\<rparr>"
    obtain ps' c' where "settles (\<lambda>n. query_loop pf env n fs (ps @ [?p]) c1) (ps', c')" "comps_resolved c'"
      using Cons.IH [OF s(2)] by blast
    then have "settles (\<lambda>n. query_loop pf env n (f # fs) ps c) (ps', c')"
      using settles_case_pair [OF s(1), of "\<lambda>n sc c1. query_loop pf env n fs (ps @ [\<lparr>pa_Name = fst (jsonName f), pa_In = ''query'',
        pa_Required = vr_required (parseValidate (gf_validate f)),
        pa_Schema = applyValidate pf env sc (parseValidate (gf_validate f)) (gf_type f)\<rparr>]) c1"] False
      unfolding query_loop.simps Let_def by simp
    then show ?thesis using \<open>comps_resolved c'\<close> by blast
  qed
qed auto

lemma opt_schema_settles:
  assumes "ranked env rank" "comps_resolved c"
  shows "\<exists>s c'. settles (\<lambda>n. opt_schema pf env n t c) (s, c') \<and> comps_resolved c'"
proof (cases t)
  case (Some t')
  obtain s c' where "settles (\<lambda>n. schemaFor pf env n t' c) (s, c')" "comps_resolved c'" using schemaFor_settles [OF assms] by blast
  then show ?thesis by (auto simp: opt_schema_def Some settles_def intro!: exI [of _ "Some s"])
qed (use assms(2) in \<open>auto simp: opt_schema_def\<close>)

lemma queryParams_settles:
  assumes "ranked env rank" "comps_resolved c"
  shows "\<exists>ps c'. settles (\<lambda>n. case q of None \<Rightarrow> Some ([], c) | Some q \<Rightarrow> queryParams pf env n q c) (ps, c') \<and> comps_resolved c'"
proof (cases q)
  case (Some t)
  show ?thesis
  proof (cases "\<exists>fs. underlying env (snd (deref t)) = TStruct fs")
    case True
    then show ?thesis using query_loop_settles [OF assms] by (auto simp: Some queryParams_def)
  next
    case False
    then have "queryParams pf env n t c = Some ([], c)" for n by (auto simp: queryParams_def split: gtype.splits)
    then show ?thesis using assms(2) by (auto simp: Some)
  qed
qed (use assms(2) in auto)

lemma Register_settles:
  assumes "ranked env rank" "comps_resolved (sp_schemas s)"
  shows "\<exists>s'. settles (\<lambda>n. Register pf env n meth path d s) s' \<and> comps_resolved (sp_schemas s')"
proof -
  obtain qs c1 where q: "settles (\<lambda>n. case od_Query d of None \<Rightarrow> Some ([], sp_schemas s) | Some q \<Rightarrow> queryParams pf env n q (sp_schemas s)) (qs, c1)"
    "comps_resolved c1" using queryParams_settles [OF assms] by blast
  obtain body c2 where b: "settles (\<lambda>n. opt_schema pf env n (od_Request d) c1) (body, c2)" "comps_resolved c2"
    using opt_schema_settles [OF assms(1) q(2)] by blast
  obtain answer c3 where a: "settles (\<lambda>n. opt_schema pf env n (od_Response d) c2) (answer, c3)" "comps_resolved c3"
    using opt_schema_settles [OF assms(1) b(2)] by blast
  let ?s = "s\<lparr>sp_schemas := c3, sp_paths := gm_put (sp_paths s) (fst (convertPath path))
       (setOp (case gm_get (sp_paths s) (fst (convertPath path)) of Some i \<Rightarrow> i | None \<Rightarrow> no_ops) meth
         (new_operation d (snd (convertPath path)) qs body answer))\<rparr>"
  obtain n1 n2 n3 where n: "\<forall>n\<ge>n1. (case od_Query d of None \<Rightarrow> Some ([], sp_schemas s) | Some q \<Rightarrow> queryParams pf env n q (sp_schemas s)) = Some (qs, c1)"
    "\<forall>n\<ge>n2. opt_schema pf env n (od_Request d) c1 = Some (body, c2)" "\<forall>n\<ge>n3. opt_schema pf env n (od_Response d) c2 = Some (answer, c3)"
    using q(1) b(1) a(1) unfolding settles_def by blast
  have "\<forall>n\<ge>max n1 (max n2 n3). Register pf env n meth path d s = Some ?s"
    using n unfolding Register_def Let_def by (simp add: prod.case_eq_if)
  then have "settles (\<lambda>n. Register pf env n meth path d s) ?s" unfolding settles_def by blast
  then show ?thesis using a(2) by (intro exI [of _ ?s]) simp
qed

lemma spec_run_settles:
  assumes "ranked env rank"
  shows "comps_resolved (sp_schemas s) \<Longrightarrow> \<exists>s'. settles (\<lambda>n. spec_run pf env n calls s) s'"
proof (induction calls arbitrary: s)
  case (Cons call calls)
  show ?case
  proof (cases call)
    case CallBearer
    then show ?thesis using Cons.IH [of "WithBearerAuth s"] Cons.prems by (simp add: WithBearerAuth_def)
  next
    case (CallRegister meth path d)
    obtain s1 where s1: "settles (\<lambda>n. Register pf env n meth path d s) s1" "comps_resolved (sp_schemas s1)"
      using Register_settles [OF assms Cons.prems] by blast
    obtain s' where "settles (\<lambda>n. spec_run pf env n calls s1) s'" using Cons.IH [OF s1(2)] by blast
    from settles_case [OF s1(1), of "\<lambda>n. spec_run pf env n calls", OF this] show ?thesis by (auto simp: CallRegister)
  qed
qed auto

text \<open>
  C21. Reflection returns. When the named types can be ranked - they may refer to each other and to
  themselves through the fields of structs in any way, but a slice, map or pointer type refers
  only to lower ones and an untagged embedded struct is lower than the struct that embeds it -
  every sequence of registrations ends: some amount of fuel is enough, and more gives the same
  specification.
\<close>

theorem openapi_registration_returns:
  assumes "ranked env rank"
  shows "\<exists>n0 s. \<forall>n\<ge>n0. spec_run pf env n calls (openapi_New inf0) = Some s"
  using spec_run_settles [OF assms, of "openapi_New inf0" pf calls]
  by (auto simp: settles_def openapi_New_def comps_resolved_def)

theorem openapi_registration_returns_witness:
  "\<exists>n0 s. \<forall>n\<ge>n0. spec_run (\<lambda>_. None) demo_types n demo_calls (openapi_New demo_info) = Some s"
proof (rule openapi_registration_returns)
  show "ranked demo_types (\<lambda>i. if i = ''user'' then 7 else 1)" by code_simp
qed

section \<open>Documented operations\<close>

definition item_op :: "path_item \<Rightarrow> string \<Rightarrow> operation option" where
  "item_op i m =
     (if m = ''GET'' then pi_Get i else if m = ''POST'' then pi_Post i else if m = ''PUT'' then pi_Put i
      else if m = ''PATCH'' then pi_Patch i else if m = ''DELETE'' then pi_Delete i else if m = ''HEAD'' then pi_Head i
      else if m = ''OPTIONS'' then pi_Options i else None)"

definition documented_methods :: "string set" where
  "documented_methods = {''GET'', ''POST'', ''PUT'', ''PATCH'', ''DELETE'', ''HEAD'', ''OPTIONS''}"

definition doc_op :: "document \<Rightarrow> string \<Rightarrow> string \<Rightarrow> operation option" where
  "doc_op d path m = (case gm_get (doc_Paths d) path of None \<Rightarrow> None | Some i \<Rightarrow> item_op i m)"

text \<open>The parameters of a path template: its segments in braces.\<close>

definition template_params :: "string \<Rightarrow> string list" where
  "template_params path =
     map (\<lambda>seg. butlast (tl seg)) (List.filter (\<lambda>seg. HasPrefix seg ''{'' \<and> last seg = CHR ''}'') (Split CHR ''/'' path))"

lemma item_op_setOp: "ToUpper m \<in> documented_methods \<Longrightarrow> item_op (setOp i m o') (ToUpper m) = Some o'"
  unfolding documented_methods_def insert_iff empty_iff by (elim disjE) (simp_all add: item_op_def setOp_def)

lemma item_op_setOp_other:
  assumes "k \<noteq> ToUpper m"
  shows "item_op (setOp i m o') k = item_op i k"
proof (cases "ToUpper m \<in> documented_methods")
  case True
  then show ?thesis using assms unfolding documented_methods_def insert_iff empty_iff
    by (elim disjE) (simp_all add: item_op_def setOp_def)
next
  case False
  then show ?thesis by (simp add: documented_methods_def setOp_def Let_def)
qed

lemma item_op_no_ops [simp]: "item_op no_ops m = None"
  by (simp add: item_op_def no_ops_def)

lemma convert_segs_template:
  "list_all (\<lambda>s. \<not> HasPrefix s ''{'') segs \<Longrightarrow>
   map (\<lambda>seg. butlast (tl seg)) (List.filter (\<lambda>seg. HasPrefix seg ''{'' \<and> last seg = CHR ''}'') (fst (convert_segs segs))) = snd (convert_segs segs)"
proof (induction segs)
  case (Cons seg segs)
  have "butlast (tl (''{'' @ n @ ''}'')) = n" "last (''{'' @ n @ ''}'') = CHR ''}''" for n :: string by (simp_all add: butlast_append)
  then show ?case using Cons by (auto simp: HasPrefix_def split: prod.splits)
qed simp

lemma Split_chars: "w \<in> set (Split sep s) \<Longrightarrow> sep \<notin> set w"
  by (induction sep s arbitrary: w rule: Split.induct) (auto split: if_splits list.splits)

lemma convert_segs_chars:
  "\<forall>w\<in>set segs. CHR ''/'' \<notin> set w \<Longrightarrow> \<forall>w\<in>set (fst (convert_segs segs)). CHR ''/'' \<notin> set w"
proof (induction segs)
  case (Cons seg segs)
  moreover have "CHR ''/'' \<notin> set (tl seg)" using Cons.prems by (cases seg) auto
  ultimately show ?case by (auto split: prod.splits)
qed simp

lemma convert_segs_Nil: "fst (convert_segs segs) = [] \<longleftrightarrow> segs = []"
  by (cases segs) (auto split: prod.splits)

lemma template_params_convertPath:
  assumes "list_all (\<lambda>s. \<not> HasPrefix s ''{'') (Split CHR ''/'' path)"
  shows "template_params (fst (convertPath path)) = snd (convertPath path)"
proof -
  let ?segs = "Split CHR ''/'' path"
  have "Split CHR ''/'' (Join ''/'' (fst (convert_segs ?segs))) = fst (convert_segs ?segs)"
    using convert_segs_chars [of ?segs] Split_chars [of _ "CHR ''/''" path] convert_segs_Nil [of ?segs] by (intro Split_Join) auto
  then show ?thesis using convert_segs_template [OF assms] by (simp add: convertPath_def template_params_def prod.case_eq_if)
qed

text \<open>
  A registered operation is documented. Registering under a verb the format knows puts the operation
  under the converted path, replacing what was there; its path parameters are those of the path
  template, in order and all required, followed by the query parameters, and every other verb
  and path of the document is as before.
\<close>

theorem openapi_operation_documented:
  assumes "Register pf env n meth path d s = Some s'" "ToUpper meth \<in> documented_methods"
    and "list_all (\<lambda>seg. \<not> HasPrefix seg ''{'') (Split CHR ''/'' path)"
  shows "let p = fst (convertPath path)
    in (\<exists>o'. doc_op (openapi_Build s') p (ToUpper meth) = Some o' \<and> on_Summary o' = od_Summary d \<and>
          map pa_Name (filter (\<lambda>q. pa_In q = ''path'') (on_Parameters o')) = template_params p \<and>
          (\<forall>q\<in>set (on_Parameters o'). pa_In q = ''path'' \<longrightarrow> pa_Required q) \<and>
          (on_RequestBody o' = None \<longleftrightarrow> od_Request d = None) \<and> (on_Security o' = [] \<longleftrightarrow> \<not> od_Secured d)) \<and>
       (\<forall>q m. (q, m) \<noteq> (p, ToUpper meth) \<longrightarrow> doc_op (openapi_Build s') q m = doc_op (openapi_Build s) q m)"
  using assms(1)
proof (cases rule: Register_cases)
  case (1 qs c1 body c2 answer c3)
  let ?p = "fst (convertPath path)" and ?o = "new_operation d (snd (convertPath path)) qs body answer"
  have "query_loop pf env n fs ps c = Some (ps', c') \<Longrightarrow> \<forall>q\<in>set ps. pa_In q = ''query'' \<Longrightarrow> \<forall>q\<in>set ps'. pa_In q = ''query''" for fs ps c ps' c'
    by (induction pf env n fs ps c rule: query_loop.induct) (auto simp: Let_def split: if_splits option.splits)
  then have q: "\<forall>q\<in>set qs. pa_In q = ''query''"
    using 1(1) by (fastforce simp: queryParams_def split: option.splits gtype.splits)
  then have "filter (\<lambda>q. pa_In q = ''path'') (on_Parameters ?o) = map path_param (snd (convertPath path))"
    by (auto simp: new_operation_def Let_def path_param_def filter_empty_conv filter_id_conv)
  then have ps: "map pa_Name (filter (\<lambda>q. pa_In q = ''path'') (on_Parameters ?o)) = template_params ?p"
    by (simp add: template_params_convertPath [OF assms(3)] path_param_def comp_def)
  have r: "\<forall>q\<in>set (on_Parameters ?o). pa_In q = ''path'' \<longrightarrow> pa_Required q" using q by (auto simp: new_operation_def Let_def path_param_def)
  have b: "body = None \<longleftrightarrow> od_Request d = None" using 1(2) by (auto simp: opt_schema_def split: option.splits)
  have here: "doc_op (openapi_Build s') ?p (ToUpper meth) = Some ?o"
    by (simp add: doc_op_def openapi_Build_def 1(4) item_op_setOp [OF assms(2)])
  have "doc_op (openapi_Build s') q m = doc_op (openapi_Build s) q m" if "(q, m) \<noteq> (?p, ToUpper meth)" for q m
  proof (cases "q = ?p")
    case True
    then have m: "m \<noteq> ToUpper meth" using that by simp
    show ?thesis
      by (cases "gm_get (sp_paths s) ?p") (simp_all add: True doc_op_def openapi_Build_def 1(4) item_op_setOp_other [OF m])
  qed (simp add: doc_op_def openapi_Build_def 1(4))
  then have others: "\<forall>q m. (q, m) \<noteq> (?p, ToUpper meth) \<longrightarrow> doc_op (openapi_Build s') q m = doc_op (openapi_Build s) q m" by simp
  have fields: "on_Summary ?o = od_Summary d" "on_RequestBody ?o = None \<longleftrightarrow> od_Request d = None" "on_Security ?o = [] \<longleftrightarrow> \<not> od_Secured d"
    by (simp_all add: new_operation_def Let_def b)
  show ?thesis unfolding Let_def by (intro conjI others exI [of _ ?o] here ps r fields)
qed

theorem openapi_operation_documented_witness:
  "let s = Register (\<lambda>_. None) demo_types 9 ''get'' ''/users/:id/posts/*'' \<lparr>od_Summary = ''one user'', od_Description = [], od_Tags = [],
       od_Request = None, od_Response = None, od_Query = None, od_Status = 0, od_Secured = True\<rparr> (openapi_New demo_info)
   in case s of None \<Rightarrow> False
      | Some s' \<Rightarrow> \<exists>o'. doc_op (openapi_Build s') ''/users/{id}/posts/{wildcard}'' ''GET'' = Some o' \<and> on_Summary o' = ''one user''"
proof -
  let ?d = "\<lparr>od_Summary = ''one user'', od_Description = [], od_Tags = [],
       od_Request = None, od_Response = None, od_Query = None, od_Status = 0, od_Secured = True\<rparr> :: op_decl"
  let ?path = "''/users/:id/posts/*''"
  have c: "fst (convertPath ?path) = ''/users/{id}/posts/{wildcard}''" "ToUpper ''get'' = ''GET''"
    "list_all (\<lambda>seg. \<not> HasPrefix seg ''{'') (Split CHR ''/'' ?path)" by code_simp+
  obtain s' where s': "Register (\<lambda>_. None) demo_types 9 ''get'' ?path ?d (openapi_New demo_info) = Some s'"
    by (simp add: Register_def opt_schema_def prod.case_eq_if)
  from openapi_operation_documented [OF s' _ c(3)] show ?thesis unfolding s' Let_def c by (auto simp: documented_methods_def)
qed

text \<open>
  A slice type whose elements have that same type, as in \<open>type Tree []Tree\<close>, has no rank: only
  structs are entered into the components before their parts are reflected, so no amount of fuel
  is enough.
\<close>

lemma openapi_recursive_slice_diverges:
  "schemaFor pf [(''tree'', ''Tree'', TSlice (TNamed ''tree''))] n (TNamed ''tree'') c = None"
  by (induction n) (simp_all add: schemaFor_def schemaFor_with_def baseSchema_with_def wrap_schema_def)

text \<open>
  Components are keyed by the bare type name, so of two structs of different packages with the
  same name the second is documented with the fields of the first.
\<close>

lemma openapi_same_name_shares_component:
  assumes "gm_get env i = Some (name, TStruct fs)" "gm_get env j = Some (name, TStruct fs')" "name \<noteq> []"
    and "schemaFor pf env (Suc n) (TNamed i) c = Some (s, c1)"
  shows "schemaFor pf env (Suc m) (TNamed j) c1 = Some (s, c1)"
proof -
  have "s = ref_to name \<and> gm_get c1 name \<noteq> None"
    using assms by (auto simp: schemaFor_def schemaFor_with_def baseSchema_with_def wrap_schema_def structSchema_with_def
        nullable_unless_ref_def split: if_splits option.splits)
  then show ?thesis using assms(2,3)
    by (simp add: schemaFor_def schemaFor_with_def baseSchema_with_def wrap_schema_def structSchema_with_def nullable_unless_ref_def)
qed

text \<open>
  Query parameters are not flattened: the fields of an untagged embedded struct become one
  parameter named after it, although the schema of a body flattens them.
\<close>

lemma openapi_query_embedding_not_flattened:
  "map_option (\<lambda>(ps, _). map pa_Name ps) (queryParams (\<lambda>_. None) demo_types 9
     (TStruct [GField ''Base'' True True [] [] (TNamed ''base'')]) []) = Some [''Base''] \<and>
   map_option (\<lambda>(s, _). map fst (s_props s)) (schemaFor (\<lambda>_. None) demo_types 9
     (TStruct [GField ''Base'' True True [] [] (TNamed ''base'')]) []) = Some [''id'']"
  by (rule conjI) code_simp+

end
