(* ===== verification/Config.thy ===== *)
theory Config
  imports Filepath
begin

text \<open>
  Typed configuration from environment variables (\<open>src/config/config.go\<close>). A struct is the list
  of its fields with their tags, the kind \<open>reflect\<close> reports and their current value; integers
  carry their width. \<open>strconv.ParseInt\<close>, \<open>ParseUint\<close>, \<open>ParseBool\<close> and \<open>time.ParseDuration\<close> are
  written out; \<open>ParseFloat\<close>, \<open>strconv.Quote\<close> and the \<open>.env\<close> reader are parameters.
\<close>

section \<open>Parsers of the standard library\<close>

definition num_error :: "(string \<Rightarrow> string) \<Rightarrow> string \<Rightarrow> string \<Rightarrow> string \<Rightarrow> string" where
  "num_error quote fn s msg = ''strconv.'' @ fn @ '': parsing '' @ quote s @ '': '' @ msg"

definition bits_of :: "nat \<Rightarrow> nat" where
  "bits_of b = (if b = 0 then 64 else b)"

definition ParseUint_bits :: "(string \<Rightarrow> string) \<Rightarrow> string \<Rightarrow> nat \<Rightarrow> string + nat" where
  "ParseUint_bits quote s b =
     (if s = [] \<or> \<not> list_all is_digit s then Inl (num_error quote ''ParseUint'' s ''invalid syntax'')
      else if digits_val s \<ge> 2 ^ bits_of b then Inl (num_error quote ''ParseUint'' s ''value out of range'')
      else Inr (digits_val s))"

definition ParseInt_bits :: "(string \<Rightarrow> string) \<Rightarrow> string \<Rightarrow> nat \<Rightarrow> string + int" where
  "ParseInt_bits quote s b =
     (let neg = (s \<noteq> [] \<and> hd s = CHR ''-'');
          ds = (if s \<noteq> [] \<and> (hd s = CHR ''-'' \<or> hd s = CHR ''+'') then tl s else s);
          un = digits_val ds;
          cutoff = 2 ^ (bits_of b - 1)
      in if ds = [] \<or> \<not> list_all is_digit ds then Inl (num_error quote ''ParseInt'' s ''invalid syntax'')
         else if \<not> neg \<and> un \<ge> cutoff \<or> neg \<and> un > cutoff then Inl (num_error quote ''ParseInt'' s ''value out of range'')
         else Inr (if neg then - int un else int un))"

definition ParseBool :: "(string \<Rightarrow> string) \<Rightarrow> string \<Rightarrow> string + bool" where
  "ParseBool quote s =
     (if s \<in> {''1'', ''t'', ''T'', ''true'', ''TRUE'', ''True''} then Inr True
      else if s \<in> {''0'', ''f'', ''F'', ''false'', ''FALSE'', ''False''} then Inr False
      else Inl (num_error quote ''ParseBool'' s ''invalid syntax''))"

text \<open>The units of a duration, in nanoseconds; the micro sign has two encodings.\<close>

definition unit_table :: "(string \<times> int) list" where
  "unit_table = [(''ns'', 1), (''us'', 1000), ([CHR 0xC2, CHR 0xB5, CHR ''s''], 1000), ([CHR 0xCE, CHR 0xBC, CHR ''s''], 1000),
     (''ms'', millisecond), (''s'', second), (''m'', 60 * second), (''h'', 3600 * second)]"

text \<open>A fraction: its digits as a number and the power of ten they are divided by, until they overflow.\<close>

fun leading_fraction :: "string \<Rightarrow> int \<Rightarrow> int \<Rightarrow> bool \<Rightarrow> int \<times> int" where
  "leading_fraction [] x scale overflow = (x, scale)"
| "leading_fraction (c # cs) x scale overflow =
     (let y = x * 10 + int (digit_val c)
      in if overflow then leading_fraction cs x scale True
         else if x > (2 ^ 63 - 1) div 10 \<or> y > 2 ^ 63 then leading_fraction cs x scale True
         else leading_fraction cs y (scale * 10) False)"

definition item_value :: "int \<Rightarrow> string \<Rightarrow> int \<Rightarrow> int" where
  "item_value v fs unit = (case leading_fraction fs 0 1 False of (f, scale) \<Rightarrow> v * unit + f * unit div scale)"

text \<open>One number with its unit: its value and what is left to read.\<close>

definition duration_item :: "(string \<Rightarrow> string) \<Rightarrow> string \<Rightarrow> string \<Rightarrow> string + (int \<times> string)" where
  "duration_item quote orig s =
     (let ds = takeWhile is_digit s; r = dropWhile is_digit s;
          v = int (digits_val ds);
          dot = (r \<noteq> [] \<and> hd r = CHR ''.'');
          fs = (if dot then takeWhile is_digit (tl r) else []);
          r2 = (if dot then dropWhile is_digit (tl r) else r);
          u = takeWhile (\<lambda>c. \<not> (c = CHR ''.'' \<or> is_digit c)) r2;
          r3 = dropWhile (\<lambda>c. \<not> (c = CHR ''.'' \<or> is_digit c)) r2;
          invalid = Inl (''time: invalid duration '' @ quote orig)
      in if v > 2 ^ 63 \<or> ds = [] \<and> fs = [] then invalid
         else if u = [] then Inl (''time: missing unit in duration '' @ quote orig)
         else case map_of unit_table u of
           None \<Rightarrow> Inl (''time: unknown unit '' @ quote u @ '' in duration '' @ quote orig)
         | Some unit \<Rightarrow>
             if v > 2 ^ 63 div unit then invalid
             else if item_value v fs unit > 2 ^ 63 then invalid else Inr (item_value v fs unit, r3))"

lemma duration_item_shorter: "duration_item quote orig s = Inr (v, r) \<Longrightarrow> length r < length s"
proof -
  assume a: "duration_item quote orig s = Inr (v, r)"
  have *: "length (dropWhile P xs) \<le> length xs" for P and xs :: string using length_dropWhile_le [of P xs] .
  let ?r = "dropWhile is_digit s"
  let ?r2 = "if ?r \<noteq> [] \<and> hd ?r = CHR ''.'' then dropWhile is_digit (tl ?r) else ?r"
  let ?n = "\<lambda>c. \<not> (c = CHR ''.'' \<or> is_digit c)"
  from a have r: "r = dropWhile ?n ?r2" and u: "takeWhile ?n ?r2 \<noteq> []"
    by (auto simp: duration_item_def Let_def split: if_splits option.splits prod.splits)
  have "length ?r2 \<le> length s" using * [of is_digit s] * [of is_digit "tl ?r"] by auto
  moreover have "length (takeWhile ?n ?r2) + length (dropWhile ?n ?r2) = length ?r2"
    by (metis length_append takeWhile_dropWhile_id)
  ultimately show ?thesis using r u by (cases "takeWhile ?n ?r2") auto
qed

function duration_sum :: "(string \<Rightarrow> string) \<Rightarrow> string \<Rightarrow> string \<Rightarrow> int \<Rightarrow> string + int" where
  "duration_sum quote orig s d =
     (if s = [] then Inr d
      else case duration_item quote orig s of
        Inl e \<Rightarrow> Inl e
      | Inr (v, r) \<Rightarrow> if d + v > 2 ^ 63 then Inl (''time: invalid duration '' @ quote orig) else duration_sum quote orig r (d + v))"
  by pat_completeness auto
termination
  by (relation "measure (\<lambda>(_, _, s, _). length s)") (auto simp: duration_item_shorter)

declare duration_sum.simps [simp del]

definition ParseDuration :: "(string \<Rightarrow> string) \<Rightarrow> string \<Rightarrow> string + int" where
  "ParseDuration quote s =
     (let neg = (s \<noteq> [] \<and> hd s = CHR ''-'');
          r = (if s \<noteq> [] \<and> (hd s = CHR ''-'' \<or> hd s = CHR ''+'') then tl s else s);
          invalid = Inl (''time: invalid duration '' @ quote s)
      in if r = ''0'' then Inr 0
         else if r = [] then invalid
         else case duration_sum quote s r 0 of
           Inl e \<Rightarrow> Inl e
         | Inr d \<Rightarrow> if neg then Inr (- d) else if d > 2 ^ 63 - 1 then invalid else Inr d)"

section \<open>Fields\<close>

text \<open>
  Kinds as \<open>reflect\<close> reports them; a string kind tells whether it is the predeclared type, a width
  of 0 is the platform's.
\<close>

datatype kind =
    KDuration | KString bool | KBool | KInt nat | KUint nat | KFloat nat | KSlice kind | KOther string

datatype cfg_value =
    VDur int | VStr string | VBool bool | VInt int | VUint nat | VFloat rat | VStrs "string list" | VOpaque string

record cfg_field =
  cf_tag :: string
  cf_default :: "string option"
  cf_required :: string
  cf_settable :: bool
  cf_kind :: kind
  cf_value :: cfg_value

fun int_kind_name :: "string \<Rightarrow> nat \<Rightarrow> string" where
  "int_kind_name base b = (if b = 0 then base else base @ nat_digits b)"

fun kind_name :: "kind \<Rightarrow> string" where
  "kind_name KDuration = ''int64''"
| "kind_name (KString _) = ''string''"
| "kind_name KBool = ''bool''"
| "kind_name (KInt b) = int_kind_name ''int'' b"
| "kind_name (KUint b) = int_kind_name ''uint'' b"
| "kind_name (KFloat b) = int_kind_name ''float'' b"
| "kind_name (KSlice _) = ''slice''"
| "kind_name (KOther n) = n"

text \<open>Setting a field gives its new value, an error, or a panic of \<open>reflect\<close>.\<close>

datatype set_result = SetOk cfg_value | SetErr string | SetPanic

definition set_of :: "('a \<Rightarrow> cfg_value) \<Rightarrow> string + 'a \<Rightarrow> set_result" where
  "set_of mk r = (case r of Inl e \<Rightarrow> SetErr e | Inr x \<Rightarrow> SetOk (mk x))"

fun setField :: "(string \<Rightarrow> string) \<Rightarrow> (nat \<Rightarrow> string \<Rightarrow> string + rat) \<Rightarrow> kind \<Rightarrow> string \<Rightarrow> set_result" where
  "setField quote pf KDuration raw = set_of VDur (ParseDuration quote raw)"
| "setField quote pf (KString _) raw = SetOk (VStr raw)"
| "setField quote pf KBool raw = set_of VBool (ParseBool quote raw)"
| "setField quote pf (KInt b) raw = set_of VInt (ParseInt_bits quote raw b)"
| "setField quote pf (KUint b) raw = set_of VUint (ParseUint_bits quote raw b)"
| "setField quote pf (KFloat b) raw = set_of VFloat (pf b raw)"
| "setField quote pf (KSlice e) raw =
     (case e of
        KString predeclared \<Rightarrow> if predeclared then SetOk (VStrs (map TrimSpace (Split CHR '','' raw))) else SetPanic
      | _ \<Rightarrow> SetErr (''unsupported slice element type '' @ kind_name e))"
| "setField quote pf (KOther n) raw = SetErr (''unsupported type '' @ n)"

section \<open>Loading\<close>

type_synonym env_vars = "(string, string) gomap"

text \<open>The text a field is set from: its variable, or its default when that is empty.\<close>

definition field_raw :: "env_vars \<Rightarrow> cfg_field \<Rightarrow> string" where
  "field_raw env f =
     (let raw = (case gm_get env (ToUpper (cf_tag f)) of Some v \<Rightarrow> v | None \<Rightarrow> [])
      in if raw = [] then (case cf_default f of Some d \<Rightarrow> d | None \<Rightarrow> raw) else raw)"

record load_state =
  ls_done :: "cfg_field list"
  ls_missing :: "string list"
  ls_parse :: "string list"

text \<open>The loop over the fields; a panic ends it with the fields as they are.\<close>

fun load_fields ::
    "(string \<Rightarrow> string) \<Rightarrow> (nat \<Rightarrow> string \<Rightarrow> string + rat) \<Rightarrow> env_vars \<Rightarrow> cfg_field list \<Rightarrow> load_state \<Rightarrow> load_state \<times> bool" where
  "load_fields quote pf env [] st = (st, False)"
| "load_fields quote pf env (f # fs) st =
     (let keep = st\<lparr>ls_done := ls_done st @ [f]\<rparr>; key = ToUpper (cf_tag f); raw = field_raw env f
      in if cf_tag f = [] \<or> \<not> cf_settable f then load_fields quote pf env fs keep
         else if raw = []
         then load_fields quote pf env fs (if cf_required f = ''true'' then keep\<lparr>ls_missing := ls_missing st @ [key]\<rparr> else keep)
         else case setField quote pf (cf_kind f) raw of
           SetPanic \<Rightarrow> (st\<lparr>ls_done := ls_done st @ f # fs\<rparr>, True)
         | SetErr e \<Rightarrow> load_fields quote pf env fs (keep\<lparr>ls_parse := ls_parse st @ [key @ '': '' @ e]\<rparr>)
         | SetOk v \<Rightarrow> load_fields quote pf env fs (st\<lparr>ls_done := ls_done st @ [f\<lparr>cf_value := v\<rparr>]\<rparr>))"

definition load_problems :: "load_state \<Rightarrow> string list" where
  "load_problems st =
     (if ls_missing st \<noteq> [] then [''missing required config: '' @ Join '', '' (ls_missing st)] else []) @
     (if ls_parse st \<noteq> [] then [''config parse errors: '' @ Join ''; '' (ls_parse st)] else [])"

text \<open>What \<open>out\<close> points to, and how reading the \<open>.env\<close> file ended: the environment it leaves.\<close>

datatype cfg_out = NotPointer | NotStruct | OutStruct "cfg_field list"

datatype dotenv_result = EnvLoaded env_vars | EnvMissing | EnvError string

datatype load_outcome = Loaded | LoadError string | LoadPanic

record load_world =
  lw_getwd :: "string + string"
  lw_dotenv :: "string \<Rightarrow> env_vars \<Rightarrow> dotenv_result"
  lw_quote :: "string \<Rightarrow> string"
  lw_float :: "nat \<Rightarrow> string \<Rightarrow> string + rat"

definition load_struct :: "load_world \<Rightarrow> env_vars \<Rightarrow> cfg_field list \<Rightarrow> cfg_field list \<times> load_outcome" where
  "load_struct w env fs =
     (case load_fields (lw_quote w) (lw_float w) env fs \<lparr>ls_done = [], ls_missing = [], ls_parse = []\<rparr> of (st, panicked) \<Rightarrow>
        (ls_done st,
         if panicked then LoadPanic
         else if load_problems st \<noteq> [] then LoadError (Join ''; '' (load_problems st)) else Loaded))"

definition LoadConfig :: "load_world \<Rightarrow> env_vars \<Rightarrow> cfg_out \<Rightarrow> cfg_out \<times> load_outcome" where
  "LoadConfig w env out =
     (case lw_getwd w of
        Inl e \<Rightarrow> (out, LoadError (''error getting working directory: '' @ e))
      | Inr wd \<Rightarrow>
          (case lw_dotenv w (filepath_Clean (wd @ ''/.env'')) env of
             EnvError e \<Rightarrow> (out, LoadError (''error loading .env file: '' @ e))
           | res \<Rightarrow>
               let env' = (case res of EnvLoaded v \<Rightarrow> v | _ \<Rightarrow> env)
               in case out of
                    NotPointer \<Rightarrow> (out, LoadError ''config: out must be a non-nil pointer to a struct'')
                  | NotStruct \<Rightarrow> (out, LoadError ''config: out must be a pointer to a struct'')
                  | OutStruct fs \<Rightarrow> (case load_struct w env' fs of (fs', r) \<Rightarrow> (OutStruct fs', r))))"

section \<open>Lemmas\<close>

text \<open>A value of a kind, within the width of that kind.\<close>

definition has_kind :: "kind \<Rightarrow> cfg_value \<Rightarrow> bool" where
  "has_kind k v = (case v of
     VDur n \<Rightarrow> k = KDuration \<and> int64_min \<le> n \<and> n \<le> int64_max
   | VStr _ \<Rightarrow> k \<in> {KString True, KString False}
   | VBool _ \<Rightarrow> k = KBool
   | VInt n \<Rightarrow> (case k of KInt b \<Rightarrow> - (2 ^ (bits_of b - 1)) \<le> n \<and> n < 2 ^ (bits_of b - 1) | _ \<Rightarrow> False)
   | VUint n \<Rightarrow> (case k of KUint b \<Rightarrow> n < 2 ^ bits_of b | _ \<Rightarrow> False)
   | VFloat _ \<Rightarrow> (case k of KFloat _ \<Rightarrow> True | _ \<Rightarrow> False)
   | VStrs _ \<Rightarrow> k \<in> {KSlice (KString True), KSlice (KString False)}
   | VOpaque _ \<Rightarrow> (case k of KSlice (KString _) \<Rightarrow> False | KSlice _ \<Rightarrow> True | KOther _ \<Rightarrow> True | _ \<Rightarrow> False))"

lemma leading_fraction_bounds:
  "0 \<le> x \<Longrightarrow> 1 \<le> scale \<Longrightarrow> 0 \<le> fst (leading_fraction cs x scale ov) \<and> 1 \<le> snd (leading_fraction cs x scale ov)"
  by (induction cs x scale ov rule: leading_fraction.induct) (simp_all add: Let_def)

lemma unit_pos:
  assumes "map_of unit_table u = Some unit"
  shows "0 < unit"
proof -
  have "unit \<in> snd ` set unit_table" using map_of_SomeD [OF assms] by force
  then show ?thesis by (auto simp: unit_table_def go_defs)
qed

lemma item_value_nonneg: "0 \<le> v \<Longrightarrow> 0 < unit \<Longrightarrow> 0 \<le> item_value v fs unit"
  using leading_fraction_bounds [of 0 1 fs False]
  by (auto simp: item_value_def pos_imp_zdiv_nonneg_iff split: prod.splits intro!: add_nonneg_nonneg)

lemma duration_item_nonneg: "duration_item quote orig s = Inr (v, r) \<Longrightarrow> 0 \<le> v"
  by (auto simp: duration_item_def Let_def intro!: item_value_nonneg dest: unit_pos split: if_splits option.splits)

lemma duration_sum_bounds: "duration_sum quote orig s d = Inr n \<Longrightarrow> 0 \<le> d \<Longrightarrow> d \<le> 2 ^ 63 \<Longrightarrow> 0 \<le> n \<and> n \<le> 2 ^ 63"
proof (induction quote orig s d rule: duration_sum.induct)
  case (1 quote orig s d)
  show ?case
  proof (cases "s = []")
    case True
    then show ?thesis using 1 by (simp add: duration_sum.simps)
  next
    case False
    then obtain v r where i: "duration_item quote orig s = Inr (v, r)" and le: "\<not> d + v > 2 ^ 63"
      and r: "duration_sum quote orig r (d + v) = Inr n"
      using 1(2) by (subst (asm) duration_sum.simps) (auto split: sum.splits if_splits prod.splits)
    show ?thesis using 1(1) [OF False i refl le r] duration_item_nonneg [OF i] 1(3) le by simp
  qed
qed

lemma ParseDuration_bounds:
  assumes "ParseDuration quote s = Inr n"
  shows "int64_min \<le> n \<and> n \<le> int64_max"
proof -
  have "n = 0 \<or> (\<exists>r d. duration_sum quote s r 0 = Inr d \<and> (n = - d \<or> n = d \<and> d \<le> 2 ^ 63 - 1))"
    using assms unfolding ParseDuration_def Let_def by (simp only: split: if_split_asm sum.split_asm) (auto, blast+)
  then show ?thesis using duration_sum_bounds [of quote s _ 0] by (force simp: int64_min_def int64_max_def)
qed

lemma signed_range:
  assumes "\<not> (\<not> neg \<and> un \<ge> 2 ^ k \<or> neg \<and> un > 2 ^ k)"
  shows "- (2 ^ k) \<le> (if neg then - int un else int un) \<and> (if neg then - int un else int un) < 2 ^ k"
proof -
  have "0 < (2::int) ^ k" by simp
  then have "- (2 ^ k) \<le> int un" "- int un < 2 ^ k" by linarith+
  then show ?thesis using assms by (cases neg) simp_all
qed

lemma two_guards: "(if A then Inl a else if B then Inl b else Inr c) = Inr n \<Longrightarrow> \<not> B \<and> c = n"
  by (simp split: if_splits)

lemma ParseInt_bits_range: "ParseInt_bits quote s b = Inr n \<Longrightarrow> - (2 ^ (bits_of b - 1)) \<le> n \<and> n < 2 ^ (bits_of b - 1)"
  unfolding ParseInt_bits_def Let_def
  by (drule two_guards) (elim conjE, erule subst, rule signed_range)

lemma ParseUint_bits_range: "ParseUint_bits quote s b = Inr n \<Longrightarrow> n < 2 ^ bits_of b"
  by (simp add: ParseUint_bits_def split: if_splits)

lemma set_of_Ok: "set_of mk r = SetOk v \<longleftrightarrow> (\<exists>x. r = Inr x \<and> v = mk x)"
  by (auto simp: set_of_def split: sum.splits)

lemma set_of_no_panic: "set_of mk r \<noteq> SetPanic"
  by (simp add: set_of_def split: sum.splits)

lemma setField_typed: "setField quote pf k raw = SetOk v \<Longrightarrow> has_kind k v"
proof (cases k)
  case (KString b)
  then show "setField quote pf k raw = SetOk v \<Longrightarrow> has_kind k v" by (cases b) (auto simp: has_kind_def)
next
  case (KSlice e)
  then show "setField quote pf k raw = SetOk v \<Longrightarrow> has_kind k v" by (auto simp: has_kind_def split: kind.splits if_splits)
qed (auto simp: set_of_Ok has_kind_def dest: ParseDuration_bounds ParseInt_bits_range ParseUint_bits_range)

lemma setField_panic: "setField quote pf k raw = SetPanic \<Longrightarrow> k = KSlice (KString False)"
  by (cases k) (auto simp: set_of_no_panic split: kind.splits if_splits)

text \<open>What the loop does with one field.\<close>

definition considered :: "env_vars \<Rightarrow> cfg_field \<Rightarrow> bool" where
  "considered env f \<longleftrightarrow> cf_tag f \<noteq> [] \<and> cf_settable f \<and> field_raw env f \<noteq> []"

definition field_after :: "(string \<Rightarrow> string) \<Rightarrow> (nat \<Rightarrow> string \<Rightarrow> string + rat) \<Rightarrow> env_vars \<Rightarrow> cfg_field \<Rightarrow> cfg_field" where
  "field_after quote pf env f =
     (if considered env f then (case setField quote pf (cf_kind f) (field_raw env f) of SetOk v \<Rightarrow> f\<lparr>cf_value := v\<rparr> | _ \<Rightarrow> f) else f)"

definition field_missing :: "env_vars \<Rightarrow> cfg_field \<Rightarrow> bool" where
  "field_missing env f \<longleftrightarrow> cf_tag f \<noteq> [] \<and> cf_settable f \<and> field_raw env f = [] \<and> cf_required f = ''true''"

definition field_errors :: "(string \<Rightarrow> string) \<Rightarrow> (nat \<Rightarrow> string \<Rightarrow> string + rat) \<Rightarrow> env_vars \<Rightarrow> cfg_field \<Rightarrow> string list" where
  "field_errors quote pf env f =
     (if considered env f
      then (case setField quote pf (cf_kind f) (field_raw env f) of SetErr e \<Rightarrow> [ToUpper (cf_tag f) @ '': '' @ e] | _ \<Rightarrow> [])
      else [])"

definition field_panics :: "(string \<Rightarrow> string) \<Rightarrow> (nat \<Rightarrow> string \<Rightarrow> string + rat) \<Rightarrow> env_vars \<Rightarrow> cfg_field \<Rightarrow> bool" where
  "field_panics quote pf env f \<longleftrightarrow> considered env f \<and> setField quote pf (cf_kind f) (field_raw env f) = SetPanic"

lemma load_fields_ok:
  "\<not> list_ex (field_panics quote pf env) fs \<Longrightarrow>
   load_fields quote pf env fs st =
     (st\<lparr>ls_done := ls_done st @ map (field_after quote pf env) fs,
        ls_missing := ls_missing st @ map (ToUpper \<circ> cf_tag) (filter (field_missing env) fs),
        ls_parse := ls_parse st @ concat (map (field_errors quote pf env) fs)\<rparr>, False)"
proof (induction fs arbitrary: st)
  case (Cons f fs)
  consider "cf_tag f = [] \<or> \<not> cf_settable f" | "cf_tag f \<noteq> []" "cf_settable f" "field_raw env f = []"
    | v where "considered env f" "setField quote pf (cf_kind f) (field_raw env f) = SetOk v"
    | e where "considered env f" "setField quote pf (cf_kind f) (field_raw env f) = SetErr e"
    using Cons.prems by (cases "setField quote pf (cf_kind f) (field_raw env f)") (auto simp: considered_def field_panics_def)
  then show ?case
    using Cons by cases (auto simp: Let_def considered_def field_after_def field_missing_def field_errors_def)
qed simp

lemma load_fields_panic:
  "list_ex (field_panics quote pf env) fs \<Longrightarrow>
   \<exists>pre f post st'. fs = pre @ f # post \<and> field_panics quote pf env f \<and>
     load_fields quote pf env fs st = (st', True) \<and> ls_done st' = ls_done st @ map (field_after quote pf env) pre @ f # post"
proof (induction fs arbitrary: st)
  case (Cons f fs)
  show ?case
  proof (cases "field_panics quote pf env f")
    case True
    then show ?thesis
      by (intro exI [of _ "[]"] exI [of _ f] exI [of _ fs] exI) (auto simp: field_panics_def considered_def Let_def)
  next
    case False
    then have ex: "list_ex (field_panics quote pf env) fs" using Cons.prems by simp
    consider "cf_tag f = [] \<or> \<not> cf_settable f" | "cf_tag f \<noteq> []" "cf_settable f" "field_raw env f = []"
      | v where "considered env f" "setField quote pf (cf_kind f) (field_raw env f) = SetOk v"
      | e where "considered env f" "setField quote pf (cf_kind f) (field_raw env f) = SetErr e"
      using False by (cases "setField quote pf (cf_kind f) (field_raw env f)") (auto simp: considered_def field_panics_def)
    then have "\<exists>st1. load_fields quote pf env (f # fs) st = load_fields quote pf env fs st1 \<and> ls_done st1 = ls_done st @ [field_after quote pf env f]"
      by cases (auto simp: Let_def considered_def field_after_def)
    then obtain st1 where st1: "load_fields quote pf env (f # fs) st = load_fields quote pf env fs st1"
      "ls_done st1 = ls_done st @ [field_after quote pf env f]" by blast
    obtain pre g post st' where "fs = pre @ g # post" "field_panics quote pf env g" "load_fields quote pf env fs st1 = (st', True)"
      "ls_done st' = ls_done st1 @ map (field_after quote pf env) pre @ g # post" using Cons.IH [OF ex, of st1] by blast
    then show ?thesis using st1 by (intro exI [of _ "f # pre"] exI [of _ g] exI [of _ post] exI [of _ st']) simp
  qed
qed simp

section \<open>Properties\<close>

text \<open>The environment after the \<open>.env\<close> file was read, when that went well.\<close>

definition effective_env :: "load_world \<Rightarrow> env_vars \<Rightarrow> env_vars option" where
  "effective_env w env =
     (case lw_getwd w of
        Inl e \<Rightarrow> None
      | Inr wd \<Rightarrow>
          (case lw_dotenv w (filepath_Clean (wd @ ''/.env'')) env of EnvError e \<Rightarrow> None | EnvLoaded v \<Rightarrow> Some v | EnvMissing \<Rightarrow> Some env))"

definition shape :: "cfg_field \<Rightarrow> cfg_field" where
  "shape f = f\<lparr>cf_value := VOpaque []\<rparr>"

definition typed :: "cfg_field \<Rightarrow> bool" where
  "typed f \<longleftrightarrow> has_kind (cf_kind f) (cf_value f)"

lemma field_after_shape: "shape (field_after quote pf env f) = shape f"
  by (simp add: field_after_def shape_def split: set_result.split)

lemma field_after_typed: "typed f \<Longrightarrow> typed (field_after quote pf env f)"
  by (auto simp: field_after_def typed_def setField_typed split: set_result.split)

lemma field_panics_kind: "field_panics quote pf env f \<Longrightarrow> cf_kind f = KSlice (KString False)"
  unfolding field_panics_def by (blast intro: setField_panic)

lemma field_loaded:
  assumes "\<not> field_missing env f" "field_errors quote pf env f = []" "\<not> field_panics quote pf env f"
  shows "if cf_tag f \<noteq> [] \<and> cf_settable f \<and> field_raw env f \<noteq> []
    then setField quote pf (cf_kind f) (field_raw env f) = SetOk (cf_value (field_after quote pf env f))
    else cf_value (field_after quote pf env f) = cf_value f \<and> \<not> (cf_tag f \<noteq> [] \<and> cf_settable f \<and> cf_required f = ''true'')"
proof (cases "considered env f")
  case True
  then show ?thesis using assms(2,3)
    by (cases "setField quote pf (cf_kind f) (field_raw env f)")
      (simp_all add: considered_def field_after_def field_errors_def field_panics_def)
next
  case False
  then have "field_after quote pf env f = f" by (simp add: field_after_def)
  then show ?thesis using assms(1) False unfolding considered_def field_missing_def
    by (cases "cf_tag f = []"; cases "field_raw env f = []"; cases "cf_settable f"; simp)
qed

lemma LoadConfig_struct:
  "LoadConfig w env (OutStruct fs) = (out, r) \<Longrightarrow>
     (\<exists>e. out = OutStruct fs \<and> r = LoadError e) \<or>
     (\<exists>env' fs'. effective_env w env = Some env' \<and> load_struct w env' fs = (fs', r) \<and> out = OutStruct fs')"
  by (auto simp: LoadConfig_def effective_env_def split: sum.splits dotenv_result.splits prod.splits)

lemma load_problems_Nil: "load_problems st = [] \<longleftrightarrow> ls_missing st = [] \<and> ls_parse st = []"
  unfolding load_problems_def by (cases "ls_missing st"; cases "ls_parse st"; simp)

lemma load_struct_outcome:
  assumes "load_struct w env fs = (fs', r)"
  shows "map shape fs' = map shape fs" "list_all typed fs \<Longrightarrow> list_all typed fs'"
    "r = LoadPanic \<Longrightarrow> \<exists>f\<in>set fs. cf_kind f = KSlice (KString False)"
    "r = Loaded \<Longrightarrow> fs' = map (field_after (lw_quote w) (lw_float w) env) fs \<and>
       (\<forall>f\<in>set fs. \<not> field_missing env f \<and> field_errors (lw_quote w) (lw_float w) env f = [] \<and> \<not> field_panics (lw_quote w) (lw_float w) env f)"
proof -
  let ?q = "lw_quote w" and ?p = "lw_float w" and ?st = "\<lparr>ls_done = [], ls_missing = [], ls_parse = []\<rparr>"
  have "map shape fs' = map shape fs \<and> (list_all typed fs \<longrightarrow> list_all typed fs') \<and>
    (r = LoadPanic \<longrightarrow> (\<exists>f\<in>set fs. cf_kind f = KSlice (KString False))) \<and>
    (r = Loaded \<longrightarrow> fs' = map (field_after ?q ?p env) fs \<and>
       (\<forall>f\<in>set fs. \<not> field_missing env f \<and> field_errors ?q ?p env f = [] \<and> \<not> field_panics ?q ?p env f))"
  proof (cases "list_ex (field_panics ?q ?p env) fs")
    case True
    obtain pre f post st' where s: "fs = pre @ f # post" "field_panics ?q ?p env f" "load_fields ?q ?p env fs ?st = (st', True)"
        "ls_done st' = map (field_after ?q ?p env) pre @ f # post"
      using load_fields_panic [OF True, of ?st] by auto
    then have "fs' = map (field_after ?q ?p env) pre @ f # post" "r = LoadPanic"
      using assms by (auto simp: load_struct_def)
    then show ?thesis using s(1) field_panics_kind [OF s(2)]
      by (auto simp: field_after_shape list_all_iff field_after_typed)
  next
    case False
    let ?ms = "filter (field_missing env) fs" and ?es = "concat (map (field_errors ?q ?p env) fs)"
    have st: "fs' = map (field_after ?q ?p env) fs" "r \<noteq> LoadPanic" "r = Loaded \<Longrightarrow> ?ms = [] \<and> ?es = []"
      using assms unfolding load_struct_def load_fields_ok [OF False] by (auto simp: load_problems_Nil split: if_splits)
    have "\<not> field_missing env f \<and> field_errors ?q ?p env f = [] \<and> \<not> field_panics ?q ?p env f" if "r = Loaded" "f \<in> set fs" for f
      using st(3) [OF that(1)] that(2) False unfolding filter_empty_conv concat_eq_Nil_conv list_ex_iff by simp
    moreover have "map shape fs' = map shape fs" by (simp add: st(1) field_after_shape)
    moreover have "list_all typed fs \<longrightarrow> list_all typed fs'" by (simp add: st(1) list_all_iff field_after_typed)
    ultimately show ?thesis using st(1,2) by blast
  qed
  then show "map shape fs' = map shape fs" "list_all typed fs \<Longrightarrow> list_all typed fs'"
    "r = LoadPanic \<Longrightarrow> \<exists>f\<in>set fs. cf_kind f = KSlice (KString False)"
    "r = Loaded \<Longrightarrow> fs' = map (field_after ?q ?p env) fs \<and>
       (\<forall>f\<in>set fs. \<not> field_missing env f \<and> field_errors ?q ?p env f = [] \<and> \<not> field_panics ?q ?p env f)"
    by blast+
qed


definition demo_world :: load_world where
  "demo_world = \<lparr>lw_getwd = Inr ''/srv'', lw_dotenv = (\<lambda>p e. if p = ''/srv/.env'' then EnvLoaded (e @ [(''TAGS'', ''a, b'')]) else EnvMissing),
     lw_quote = id, lw_float = (\<lambda>_ _. Inl ''no floats'')\<rparr>"

definition demo_fields :: "cfg_field list" where
  "demo_fields = [
     \<lparr>cf_tag = ''port'', cf_default = Some ''3'', cf_required = [], cf_settable = True, cf_kind = KUint 2, cf_value = VUint 0\<rparr>,
     \<lparr>cf_tag = ''tags'', cf_default = None, cf_required = ''true'', cf_settable = True, cf_kind = KSlice (KString True), cf_value = VStrs []\<rparr>]"

lemma demo_load:
  "case LoadConfig demo_world [] (OutStruct demo_fields) of
     (OutStruct [a, b], r) \<Rightarrow> r = Loaded \<and> cf_value a = VUint 3 \<and> cf_value b = VStrs [''a'', ''b''] | _ \<Rightarrow> False"
  by code_simp


text \<open>
  A field whose type is a slice of a named string type has elements of kind string, so it passes
  the check of the element kind, but \<open>reflect\<close> refuses to store a plain string slice in it: loading
  panics.
\<close>

lemma config_named_string_slice_panics:
  assumes "cf_kind f = KSlice (KString False)" "considered env f"
  shows "snd (load_struct w env [f]) = LoadPanic"
  using assms by (simp add: load_struct_def considered_def Let_def)

end
