(* ===== verification/Sse.thy ===== *)
theory Sse
  imports Api_Layer
begin

text \<open>
  Server-sent events (\<open>src/sse/sse.go\<close>) over a buffered writer, together with the reader of the
  event stream format that browsers implement, the specification the frames are checked against.
  The connection and the JSON encoder are parameters: the connection accepts a write or stops
  after some bytes with an error.
\<close>

section \<open>The buffered writer\<close>

text \<open>
  \<open>bufio.Writer\<close> with its default size. The connection maps what it has received and a chunk to
  \<open>None\<close> when it takes all of it, or to the number of bytes taken and the error.
\<close>

definition bufio_size :: nat where "bufio_size = 4096"

type_synonym conn_write = "string \<Rightarrow> string \<Rightarrow> (nat \<times> string) option"

record bwriter =
  bw_buf :: string
  bw_sent :: string
  bw_err :: "string option"

definition conn_put :: "conn_write \<Rightarrow> string \<Rightarrow> bwriter \<Rightarrow> bwriter \<times> nat" where
  "conn_put conn p w =
     (case conn (bw_sent w) p of
        None \<Rightarrow> (w\<lparr>bw_sent := bw_sent w @ p\<rparr>, length p)
      | Some (n, e) \<Rightarrow> (w\<lparr>bw_sent := bw_sent w @ take n p, bw_err := Some e\<rparr>, n))"

definition bufio_Flush :: "conn_write \<Rightarrow> bwriter \<Rightarrow> bwriter" where
  "bufio_Flush conn w =
     (if bw_err w \<noteq> None \<or> bw_buf w = [] then w
      else case conn_put conn (bw_buf w) w of (w', n) \<Rightarrow> w'\<lparr>bw_buf := drop n (bw_buf w)\<rparr>)"

text \<open>A write that does not fit fills the buffer and flushes it; the rest goes straight through or into it.\<close>

definition bufio_Write :: "conn_write \<Rightarrow> string \<Rightarrow> bwriter \<Rightarrow> bwriter" where
  "bufio_Write conn p w =
     (let avail = bufio_size - length (bw_buf w)
      in if bw_err w \<noteq> None then w
         else if length p \<le> avail then w\<lparr>bw_buf := bw_buf w @ p\<rparr>
         else if bw_buf w = [] then fst (conn_put conn p w)
         else let w1 = bufio_Flush conn (w\<lparr>bw_buf := bw_buf w @ take avail p\<rparr>); r = drop avail p
              in if bw_err w1 \<noteq> None then w1
                 else if length r \<le> bufio_size then w1\<lparr>bw_buf := r\<rparr>
                 else fst (conn_put conn r w1))"

section \<open>The stream\<close>

datatype sse_data = DNil | DRaw string | DStr string | DBytes string | DJson "string + string"

record sse_event =
  se_ID :: string
  se_Name :: string
  se_Data :: sse_data
  se_Retry :: int

fun sse_encode :: "sse_data \<Rightarrow> string + string" where
  "sse_encode DNil = Inr []"
| "sse_encode (DRaw s) = Inr s"
| "sse_encode (DStr s) = Inr s"
| "sse_encode (DBytes s) = Inr s"
| "sse_encode (DJson r) = r"

abbreviation LF :: char where "LF \<equiv> CHR 0x0A"

text \<open>The writes stop at the first error; each is one call of the writer.\<close>

fun write_all :: "conn_write \<Rightarrow> string list \<Rightarrow> bwriter \<Rightarrow> bwriter \<times> string option" where
  "write_all conn [] w = (w, None)"
| "write_all conn (p # ps) w =
     (let w' = bufio_Write conn p w
      in case bw_err w' of Some e \<Rightarrow> (w', Some e) | None \<Rightarrow> write_all conn ps w')"

definition event_head :: "sse_event \<Rightarrow> string list" where
  "event_head e =
     (if se_ID e \<noteq> [] then [''id: '' @ se_ID e @ [LF]] else []) @
     (if se_Name e \<noteq> [] then [''event: '' @ se_Name e @ [LF]] else []) @
     (if se_Retry e > 0 then [''retry: '' @ itoa (se_Retry e) @ [LF]] else [])"

definition data_lines :: "string \<Rightarrow> string list" where
  "data_lines payload = map (\<lambda>line. ''data: '' @ line @ [LF]) (Split LF payload)"

definition stream_Event :: "conn_write \<Rightarrow> sse_event \<Rightarrow> bwriter \<Rightarrow> bwriter \<times> string option" where
  "stream_Event conn e w =
     (case write_all conn (event_head e) w of
        (w1, Some err) \<Rightarrow> (w1, Some err)
      | (w1, None) \<Rightarrow>
          (case sse_encode (se_Data e) of
             Inl err \<Rightarrow> (w1, Some err)
           | Inr payload \<Rightarrow>
               (case write_all conn (data_lines payload @ [[LF]]) w1 of
                  (w2, Some err) \<Rightarrow> (w2, Some err)
                | (w2, None) \<Rightarrow> let w3 = bufio_Flush conn w2 in (w3, bw_err w3))))"

definition stream_Send :: "conn_write \<Rightarrow> string \<Rightarrow> sse_data \<Rightarrow> bwriter \<Rightarrow> bwriter \<times> string option" where
  "stream_Send conn name d = stream_Event conn \<lparr>se_ID = [], se_Name = name, se_Data = d, se_Retry = 0\<rparr>"

definition stream_SendRaw :: "conn_write \<Rightarrow> string \<Rightarrow> string \<Rightarrow> bwriter \<Rightarrow> bwriter \<times> string option" where
  "stream_SendRaw conn name s = stream_Event conn \<lparr>se_ID = [], se_Name = name, se_Data = DRaw s, se_Retry = 0\<rparr>"

definition stream_Comment :: "conn_write \<Rightarrow> string \<Rightarrow> bwriter \<Rightarrow> bwriter \<times> string option" where
  "stream_Comment conn text w =
     (case write_all conn ['': '' @ text @ [LF]] w of
        (w1, Some err) \<Rightarrow> (w1, Some err)
      | (w1, None) \<Rightarrow> let w2 = bufio_Flush conn w1 in (w2, bw_err w2))"

text \<open>The handler sets the headers; the stream function runs on the writer of the response body.\<close>

definition sse_Handler :: "(fctx \<Rightarrow> bwriter \<Rightarrow> bwriter) \<Rightarrow> fctx \<Rightarrow> fctx \<times> bwriter" where
  "sse_Handler fn c =
     (let c' = c\<lparr>f_resp := gm_put (gm_put (gm_put (f_resp c) ''Content-Type'' ''text/event-stream'') ''Cache-Control'' ''no-cache'')
          ''Connection'' ''keep-alive''\<rparr>
      in (c', bufio_Flush (\<lambda>_ _. None) (fn c' \<lparr>bw_buf = [], bw_sent = [], bw_err = None\<rparr>)))"

section \<open>The reader\<close>

text \<open>Lines end in a line feed, a carriage return or both; text after the last end is not a line yet.\<close>

fun to_lf :: "string \<Rightarrow> string" where
  "to_lf [] = []"
| "to_lf [c] = [if c = CHR 0x0D then LF else c]"
| "to_lf (c # d # s) =
     (if c = CHR 0x0D then (if d = LF then LF # to_lf s else LF # to_lf (d # s)) else c # to_lf (d # s))"

definition sse_lines :: "string \<Rightarrow> string list" where
  "sse_lines s = butlast (Split LF (to_lf s))"

record sse_client =
  sc_data :: string
  sc_type :: string
  sc_id :: string
  sc_retry :: "nat option"
  sc_events :: "(string \<times> string \<times> string) list"   \<comment> \<open>type, data, last event id\<close>

definition sse_client0 :: sse_client where
  "sse_client0 = \<lparr>sc_data = [], sc_type = [], sc_id = [], sc_retry = None, sc_events = []\<rparr>"

definition sse_field :: "string \<Rightarrow> string \<Rightarrow> sse_client \<Rightarrow> sse_client" where
  "sse_field name v c =
     (if name = ''event'' then c\<lparr>sc_type := v\<rparr>
      else if name = ''data'' then c\<lparr>sc_data := sc_data c @ v @ [LF]\<rparr>
      else if name = ''id'' then (if CHR 0x00 \<in> set v then c else c\<lparr>sc_id := v\<rparr>)
      else if name = ''retry'' \<and> v \<noteq> [] \<and> list_all is_digit v then c\<lparr>sc_retry := Some (digits_val v)\<rparr>
      else c)"

definition sse_dispatch :: "sse_client \<Rightarrow> sse_client" where
  "sse_dispatch c =
     (if sc_data c = [] then c\<lparr>sc_type := []\<rparr>
      else c\<lparr>sc_data := [], sc_type := [],
         sc_events := sc_events c @ [(if sc_type c = [] then ''message'' else sc_type c, butlast (sc_data c), sc_id c)]\<rparr>)"

definition sse_line :: "string \<Rightarrow> sse_client \<Rightarrow> sse_client" where
  "sse_line l c =
     (if l = [] then sse_dispatch c
      else case Cut CHR '':'' l of
        None \<Rightarrow> sse_field l [] c
      | Some (name, v) \<Rightarrow> if name = [] then c else sse_field name (TrimPrefix v '' '') c)"

definition sse_read :: "string \<Rightarrow> sse_client \<Rightarrow> sse_client" where
  "sse_read s c = fold sse_line (sse_lines s) c"

section \<open>Frames\<close>

definition frame_lines :: "sse_event \<Rightarrow> string \<Rightarrow> string list" where
  "frame_lines e payload =
     (if se_ID e \<noteq> [] then [''id: '' @ se_ID e] else []) @
     (if se_Name e \<noteq> [] then [''event: '' @ se_Name e] else []) @
     (if se_Retry e > 0 then [''retry: '' @ itoa (se_Retry e)] else []) @
     map (\<lambda>l. ''data: '' @ l) (Split LF payload) @ [[]]"

definition terminated :: "string list \<Rightarrow> string" where
  "terminated ls = concat (map (\<lambda>l. l @ [LF]) ls)"

definition frame :: "sse_event \<Rightarrow> string \<Rightarrow> string" where
  "frame e payload = terminated (frame_lines e payload)"

lemma terminated_append: "terminated (a @ b) = terminated a @ terminated b"
  by (simp add: terminated_def)

lemma frame_chunks: "concat (event_head e @ data_lines payload @ [[LF]]) = frame e payload"
  by (simp add: frame_def frame_lines_def event_head_def data_lines_def terminated_def comp_def)

text \<open>A connection that takes everything, on a writer whose flushes have succeeded.\<close>

lemma conn_put_ok: "conn_put (\<lambda>_ _. None) p w = (w\<lparr>bw_sent := bw_sent w @ p\<rparr>, length p)"
  by (simp add: conn_put_def)

lemma Flush_ok:
  assumes "bw_err w = None"
  shows "bufio_Flush (\<lambda>_ _. None) w = w\<lparr>bw_sent := bw_sent w @ bw_buf w, bw_buf := []\<rparr>"
  using assms by (cases "bw_buf w") (simp_all add: bufio_Flush_def conn_put_ok)

lemma Write_ok:
  assumes "bw_err w = None"
  shows "bw_err (bufio_Write (\<lambda>_ _. None) p w) = None \<and>
    bw_sent (bufio_Write (\<lambda>_ _. None) p w) @ bw_buf (bufio_Write (\<lambda>_ _. None) p w) = bw_sent w @ bw_buf w @ p"
  using assms by (simp add: bufio_Write_def Let_def Flush_ok conn_put_ok)

lemma write_all_ok:
  "bw_err w = None \<Longrightarrow> \<exists>w'. write_all (\<lambda>_ _. None) ps w = (w', None) \<and> bw_err w' = None \<and>
     bw_sent w' @ bw_buf w' = bw_sent w @ bw_buf w @ concat ps"
proof (induction ps arbitrary: w)
  case (Cons p ps)
  let ?w = "bufio_Write (\<lambda>_ _. None) p w"
  have w: "bw_err ?w = None" "bw_sent ?w @ bw_buf ?w = bw_sent w @ bw_buf w @ p" using Write_ok [OF Cons.prems] by blast+
  obtain w' where "write_all (\<lambda>_ _. None) ps ?w = (w', None)" "bw_err w' = None" "bw_sent w' @ bw_buf w' = bw_sent ?w @ bw_buf ?w @ concat ps"
    using Cons.IH [OF w(1)] by blast
  then show ?case using w by (intro exI [of _ w']) (simp add: Let_def flip: append_assoc)
qed simp

lemma Event_ok:
  assumes "bw_err w = None" "bw_buf w = []" "sse_encode (se_Data e) = Inr payload"
  shows "stream_Event (\<lambda>_ _. None) e w = (w\<lparr>bw_sent := bw_sent w @ frame e payload\<rparr>, None)"
proof -
  obtain w1 where w1: "write_all (\<lambda>_ _. None) (event_head e) w = (w1, None)" "bw_err w1 = None"
    "bw_sent w1 @ bw_buf w1 = bw_sent w @ concat (event_head e)" using write_all_ok [OF assms(1)] assms(2) by fastforce
  obtain w2 where w2: "write_all (\<lambda>_ _. None) (data_lines payload @ [[LF]]) w1 = (w2, None)" "bw_err w2 = None"
    "bw_sent w2 @ bw_buf w2 = bw_sent w1 @ bw_buf w1 @ concat (data_lines payload @ [[LF]])" using write_all_ok [OF w1(2)] by blast
  have "bw_sent w2 @ bw_buf w2 = bw_sent w @ frame e payload"
    unfolding w2(3) append_assoc [symmetric] w1(3) by (simp flip: frame_chunks)
  moreover have "w2\<lparr>bw_sent := x, bw_buf := []\<rparr> = w\<lparr>bw_sent := x\<rparr>" for x
    using assms(1,2) w2(2) by (intro bwriter.equality) simp_all
  ultimately show ?thesis by (simp add: stream_Event_def w1(1) w2(1) assms(1,3) Flush_ok [OF w2(2)] Let_def)
qed

section \<open>Reading frames back\<close>

lemma to_lf_id: "CHR 0x0D \<notin> set s \<Longrightarrow> to_lf s = s"
  by (induction s rule: to_lf.induct) auto

lemma Split_terminated: "\<forall>l\<in>set ls. LF \<notin> set l \<Longrightarrow> Split LF (terminated ls) = ls @ [[]]"
  by (induction ls) (auto simp: terminated_def Split_append)

lemma lines_terminated:
  assumes "\<forall>l\<in>set ls. LF \<notin> set l \<and> CHR 0x0D \<notin> set l"
  shows "sse_lines (terminated ls) = ls"
proof -
  have "CHR 0x0D \<notin> set (terminated ls)" using assms by (auto simp: terminated_def)
  then show ?thesis using Split_terminated [of ls] assms by (simp add: sse_lines_def to_lf_id)
qed

lemma line_data: "sse_line (''data: '' @ l) c = c\<lparr>sc_data := sc_data c @ l @ [LF]\<rparr>"
  by (simp add: sse_line_def sse_field_def TrimPrefix_def HasPrefix_def)

lemma line_event: "sse_line (''event: '' @ l) c = c\<lparr>sc_type := l\<rparr>"
  by (simp add: sse_line_def sse_field_def TrimPrefix_def HasPrefix_def)

lemma line_id: "CHR 0x00 \<notin> set l \<Longrightarrow> sse_line (''id: '' @ l) c = c\<lparr>sc_id := l\<rparr>"
  by (simp add: sse_line_def sse_field_def TrimPrefix_def HasPrefix_def)

lemma line_retry: "0 < n \<Longrightarrow> sse_line (''retry: '' @ itoa n) c = c\<lparr>sc_retry := Some (nat n)\<rparr>"
  using nat_digits_ok [of "nat n"]
  by (simp add: sse_line_def sse_field_def TrimPrefix_def HasPrefix_def itoa_def)

lemma fold_data: "fold sse_line (map (\<lambda>l. ''data: '' @ l) ls) c = c\<lparr>sc_data := sc_data c @ terminated ls\<rparr>"
  by (induction ls arbitrary: c) (simp_all add: line_data terminated_def del: append.simps(2))

lemma terminated_Split: "terminated (Split LF s) = s @ [LF]"
proof (induction s)
  case (Cons a s)
  then show ?case by (auto simp: terminated_def split: list.splits)
qed (simp add: terminated_def)

text \<open>What the reader knows after an event.\<close>

definition received :: "sse_event \<Rightarrow> string \<Rightarrow> sse_client \<Rightarrow> sse_client" where
  "received e payload c =
     (let i = (if se_ID e = [] then sc_id c else se_ID e)
      in c\<lparr>sc_id := i, sc_retry := (if se_Retry e > 0 then Some (nat (se_Retry e)) else sc_retry c),
         sc_events := sc_events c @ [(if se_Name e = [] then ''message'' else se_Name e, payload, i)]\<rparr>)"

lemma read_frame:
  assumes "sc_data c = []" "sc_type c = []" "CHR 0x00 \<notin> set (se_ID e)"
  shows "fold sse_line (frame_lines e payload) c = received e payload c"
proof -
  have d: "sse_line [] c = sse_dispatch c" for c by (simp add: sse_line_def)
  show ?thesis using assms
    by (cases "se_ID e = []"; cases "se_Name e = []"; cases "se_Retry e > 0")
      (simp_all add: frame_lines_def fold_data terminated_Split line_id line_event line_retry d sse_dispatch_def received_def Let_def
        del: append.simps(2))
qed

text \<open>Field values that keep to one line, and payloads without a carriage return.\<close>

definition sse_safe :: "sse_event \<Rightarrow> string \<Rightarrow> bool" where
  "sse_safe e payload \<longleftrightarrow> CHR 0x0D \<notin> set (se_ID e @ se_Name e @ payload) \<and> LF \<notin> set (se_ID e @ se_Name e) \<and> CHR 0x00 \<notin> set (se_ID e)"

lemma frame_lines_safe:
  assumes "sse_safe e payload"
  shows "\<forall>l\<in>set (frame_lines e payload). LF \<notin> set l \<and> CHR 0x0D \<notin> set l"
proof -
  have s: "LF \<notin> set w" if "w \<in> set (Split LF payload)" for w
    using that by (induction payload arbitrary: w) (auto split: if_splits list.splits)
  have "CHR 0x0D \<notin> set w" if "CHR 0x0D \<notin> set payload" "w \<in> set (Split LF payload)" for w
    using that by (induction payload arbitrary: w) (auto split: if_splits list.splits)
  moreover note s
  moreover have "LF \<notin> set (itoa n)" "CHR 0x0D \<notin> set (itoa n)" for n
    using itoa_chars [of LF n] itoa_chars [of "CHR 0x0D" n] by (auto simp: is_digit_def chr_code_def)
  ultimately show ?thesis using assms unfolding frame_lines_def sse_safe_def by (auto split: if_splits)
qed

fun stream_Events :: "conn_write \<Rightarrow> sse_event list \<Rightarrow> bwriter \<Rightarrow> bwriter \<times> string option" where
  "stream_Events conn [] w = (w, None)"
| "stream_Events conn (e # es) w =
     (case stream_Event conn e w of (w', Some err) \<Rightarrow> (w', Some err) | (w', None) \<Rightarrow> stream_Events conn es w')"

lemma Events_ok:
  assumes "list_all2 (\<lambda>e p. sse_encode (se_Data e) = Inr p) es ps" "bw_err w = None" "bw_buf w = []"
  shows "stream_Events (\<lambda>_ _. None) es w = (w\<lparr>bw_sent := bw_sent w @ concat (map (\<lambda>(e, p). frame e p) (zip es ps))\<rparr>, None)"
  using assms
proof (induction es ps arbitrary: w rule: list_all2_induct)
  case (Cons e es p ps)
  then show ?case using Event_ok [OF Cons.prems Cons.hyps(1)] by simp
qed simp

lemma read_frames:
  assumes "list_all2 sse_safe es ps" "sc_data c = []" "sc_type c = []"
  shows "fold sse_line (concat (map (\<lambda>(e, p). frame_lines e p) (zip es ps))) c = fold (\<lambda>(e, p). received e p) (zip es ps) c"
  using assms
proof (induction es ps arbitrary: c rule: list_all2_induct)
  case (Cons e es p ps)
  have "fold sse_line (frame_lines e p) c = received e p c"
    using read_frame Cons.prems Cons.hyps(1) by (simp add: sse_safe_def)
  moreover have "sc_data (received e p c) = []" "sc_type (received e p c) = []" using Cons.prems by (simp_all add: received_def Let_def)
  ultimately show ?case using Cons.IH by simp
qed simp

lemma frames_terminated: "concat (map (\<lambda>(e, p). frame e p) eps) = terminated (concat (map (\<lambda>(e, p). frame_lines e p) eps))"
  by (induction eps) (auto simp: frame_def terminated_append, simp add: terminated_def)

lemma received_events:
  assumes "list_all2 sse_safe es ps"
  shows "map (\<lambda>(t, d, _). (t, d)) (sc_events (fold (\<lambda>(e, p). received e p) (zip es ps) c)) =
      map (\<lambda>(t, d, _). (t, d)) (sc_events c) @ map2 (\<lambda>e p. (if se_Name e = [] then ''message'' else se_Name e, p)) es ps \<and>
    sc_id (fold (\<lambda>(e, p). received e p) (zip es ps) c) = last (sc_id c # filter (\<lambda>i. i \<noteq> []) (map se_ID es))"
  using assms by (induction es ps arbitrary: c rule: list_all2_induct) (simp_all add: received_def Let_def)

section \<open>Properties\<close>


definition demo_events :: "sse_event list" where
  "demo_events = [\<lparr>se_ID = ''7'', se_Name = ''tick'', se_Data = DStr (''a'' @ [LF] @ '' b''), se_Retry = 0\<rparr>,
     \<lparr>se_ID = [], se_Name = [], se_Data = DNil, se_Retry = 0\<rparr>]"


text \<open>
  A line break in the name of an event is written as it is: what follows it is read as another
  field, here a payload that nobody sent.
\<close>

lemma sse_name_injects_field:
  "map (\<lambda>(t, d, _). (t, d)) (sc_events (fold sse_line (sse_lines (frame
     \<lparr>se_ID = [], se_Name = ''x'' @ [LF] @ ''data: forged'', se_Data = DStr ''real'', se_Retry = 0\<rparr> ''real'')) sse_client0)) =
   [(''x'', ''forged'' @ [LF] @ ''real'')]"
  by code_simp

text \<open>
  The payload is only split at line feeds, so a carriage return in it ends the line for the reader
  and the rest of that line is lost.
\<close>

lemma sse_carriage_return_truncates:
  "map (\<lambda>(t, d, _). (t, d)) (sc_events (fold sse_line (sse_lines (frame
     \<lparr>se_ID = [], se_Name = [], se_Data = DStr (''a'' @ [CHR 0x0D] @ ''b''), se_Retry = 0\<rparr> (''a'' @ [CHR 0x0D] @ ''b''))) sse_client0)) =
   [(''message'', ''a'')]"
  by code_simp

end
