(* ===== verification/Uploader.thy ===== *)
theory Uploader
  imports Filepath
begin

text \<open>
  Uploads (\<open>src/uploader\<close>): sanitising the file name, the limits on size and type, and the local
  and S3 uploaders. The uploaded file has a position that seeking and reading move; what can go
  wrong with it, with the file system and with the bucket, and the detection of types, are
  parameters.
\<close>

section \<open>Configuration and files\<close>

record up_config =
  uc_maxSize :: int
  uc_allowedMime :: "string list"
  uc_baseURL :: string
  uc_keyPrefix :: string

datatype up_option = WithMaxSize int | WithAllowedMime "string list" | WithBaseURL string | WithKeyPrefix string

fun up_opt :: "up_option \<Rightarrow> up_config \<Rightarrow> up_config" where
  "up_opt (WithMaxSize n) c = c\<lparr>uc_maxSize := n\<rparr>"
| "up_opt (WithAllowedMime ms) c = c\<lparr>uc_allowedMime := ms\<rparr>"
| "up_opt (WithBaseURL u) c = c\<lparr>uc_baseURL := u\<rparr>"
| "up_opt (WithKeyPrefix p) c = c\<lparr>uc_keyPrefix := p\<rparr>"

definition up_newConfig :: "up_option list \<Rightarrow> up_config" where
  "up_newConfig opts = fold up_opt opts \<lparr>uc_maxSize = 0, uc_allowedMime = [], uc_baseURL = [], uc_keyPrefix = []\<rparr>"

text \<open>The open file: its content, its position and the seeks made so far, some of which may fail.\<close>

record mfile =
  mf_content :: string
  mf_pos :: nat
  mf_seeks :: nat

record up_env =
  ue_seek :: "nat \<Rightarrow> string option"
  ue_read :: nat                                \<comment> \<open>how many bytes the read of the head gives at most\<close>
  ue_detect :: "string \<Rightarrow> string"
  ue_is :: "string \<Rightarrow> string \<Rightarrow> bool"
  ue_faults :: os_faults
  ue_open :: "string option"
  ue_copy :: "(nat \<times> string) option"
  ue_close :: "string option"

definition seek_to :: "up_env \<Rightarrow> nat \<Rightarrow> mfile \<Rightarrow> mfile \<times> string option" where
  "seek_to env p f =
     (let f' = f\<lparr>mf_seeks := mf_seeks f + 1\<rparr>
      in case ue_seek env (mf_seeks f) of Some e \<Rightarrow> (f', Some e) | None \<Rightarrow> (f'\<lparr>mf_pos := p\<rparr>, None))"

definition read_head :: "up_env \<Rightarrow> mfile \<Rightarrow> mfile \<times> string" where
  "read_head env f =
     (let head = take (min 512 (ue_read env)) (drop (mf_pos f) (mf_content f))
      in (f\<lparr>mf_pos := mf_pos f + length head\<rparr>, head))"

section \<open>Validation\<close>

datatype up_err = InvalidName string | TooLarge int int | MimeNotAllowed string | SysErr string | PutErr string string

definition sanitizeFilename :: "string \<Rightarrow> up_err + string" where
  "sanitizeFilename name =
     (let clean = filepath_Base (filepath_Clean name)
      in if clean = ''.'' \<or> clean = ''..'' \<or> clean = [] \<or> clean = ''/'' then Inl (InvalidName name) else Inr clean)"

definition mimeAllowed :: "up_env \<Rightarrow> string \<Rightarrow> string list \<Rightarrow> bool" where
  "mimeAllowed env mt allowed \<longleftrightarrow> list_ex (ue_is env mt) allowed"

text \<open>The size check: the size when it is limited, the position back at the start.\<close>

definition check_size :: "up_env \<Rightarrow> up_config \<Rightarrow> mfile \<Rightarrow> mfile \<times> up_err option" where
  "check_size env c f =
     (if uc_maxSize c > 0
      then (case seek_to env (length (mf_content f)) f of
              (f1, Some e) \<Rightarrow> (f1, Some (SysErr e))
            | (f1, None) \<Rightarrow>
                (case seek_to env 0 f1 of
                   (f2, Some e) \<Rightarrow> (f2, Some (SysErr e))
                 | (f2, None) \<Rightarrow> (f2, if int (length (mf_content f)) > uc_maxSize c 
                     then Some (TooLarge (int (length (mf_content f))) (uc_maxSize c)) else None)))
      else (f, None))"

definition up_validate :: "up_env \<Rightarrow> up_config \<Rightarrow> mfile \<Rightarrow> string \<Rightarrow> mfile \<times> (up_err + string \<times> string)" where
  "up_validate env c f filename =
     (case sanitizeFilename filename of
        Inl e \<Rightarrow> (f, Inl e)
      | Inr safe \<Rightarrow>
          (case check_size env c f of
             (f1, Some e) \<Rightarrow> (f1, Inl e)
           | (f1, None) \<Rightarrow>
               (case read_head env f1 of (f2, head) \<Rightarrow>
                 (case seek_to env 0 f2 of
                    (f3, Some e) \<Rightarrow> (f3, Inl (SysErr e))
                  | (f3, None) \<Rightarrow>
                      let mt = ue_detect env head
                      in (f3, if uc_allowedMime c \<noteq> [] \<and> \<not> mimeAllowed env mt (uc_allowedMime c)
                              then Inl (MimeNotAllowed mt) else Inr (safe, mt))))))"

section \<open>The local uploader\<close>

record local_uploader =
  lu_Path :: string
  lu_cfg :: up_config

definition NewLocalUploader :: "string \<Rightarrow> up_option list \<Rightarrow> local_uploader" where
  "NewLocalUploader path opts = \<lparr>lu_Path = path, lu_cfg = up_newConfig opts\<rparr>"

text \<open>Opening for writing creates or truncates the file; nothing happens to a directory.\<close>

definition open_trunc :: "up_env \<Rightarrow> file_path \<Rightarrow> fs \<Rightarrow> fs \<times> string option" where
  "open_trunc env p t =
     (if butlast p \<noteq> [] \<and> gm_get t (butlast p) \<noteq> Some DirNode then (t, Some ''no such directory'')
      else if gm_get t p = Some DirNode then (t, Some ''is a directory'')
      else case ue_open env of Some e \<Rightarrow> (t, Some e) | None \<Rightarrow> (gm_put t p (FileNode []), None))"

text \<open>Copying writes the rest of the file, or some bytes of it before an error.\<close>

definition copy_rest :: "up_env \<Rightarrow> mfile \<Rightarrow> file_path \<Rightarrow> fs \<Rightarrow> fs \<times> string option" where
  "copy_rest env f p t =
     (let rest = drop (mf_pos f) (mf_content f)
      in case ue_copy env of
           Some (n, e) \<Rightarrow> (gm_put t p (FileNode (take n rest)), Some e)
         | None \<Rightarrow> (gm_put t p (FileNode rest), None))"

definition filepath_Join2 :: "string \<Rightarrow> string \<Rightarrow> string" where
  "filepath_Join2 a b = filepath_Clean (a @ ''/'' @ b)"

definition local_store :: "up_env \<Rightarrow> mfile \<Rightarrow> file_path \<Rightarrow> string \<Rightarrow> fs \<Rightarrow> fs \<times> (up_err + string)" where
  "local_store env f p dstPath t =
     (case open_trunc env p t of
        (t1, Some e) \<Rightarrow> (t1, Inl (SysErr e))
      | (t1, None) \<Rightarrow>
          (case copy_rest env f p t1 of
             (t2, Some e) \<Rightarrow> (os_Remove p t2, Inl (SysErr e))
           | (t2, None) \<Rightarrow> (case ue_close env of Some e \<Rightarrow> (os_Remove p t2, Inl (SysErr e)) | None \<Rightarrow> (t2, Inr dstPath))))"

definition local_Upload :: "up_env \<Rightarrow> local_uploader \<Rightarrow> mfile \<Rightarrow> string \<Rightarrow> fs \<Rightarrow> fs \<times> (up_err + string)" where
  "local_Upload env u f filename t =
     (case up_validate env (lu_cfg u) f filename of
        (_, Inl e) \<Rightarrow> (t, Inl e)
      | (f', Inr (safe, _)) \<Rightarrow>
          if lu_Path u = [] then (t, Inl (SysErr ''mkdir : no such file or directory''))
          else (case os_MkdirAll (ue_faults env) (path_of (lu_Path u)) t of
                  (t1, Some e) \<Rightarrow> (t1, Inl (SysErr e))
                | (t1, None) \<Rightarrow> local_store env f' (joined (path_of (lu_Path u)) safe) (filepath_Join2 (lu_Path u) safe) t1))"

section \<open>The S3 uploader\<close>

record s3_uploader =
  s3_bucket :: string
  s3_cfg :: up_config

definition NewS3Uploader :: "string \<Rightarrow> up_option list \<Rightarrow> s3_uploader" where
  "NewS3Uploader bucket opts = \<lparr>s3_bucket = bucket, s3_cfg = up_newConfig opts\<rparr>"

text \<open>A put: bucket, key, the bytes read from the file, the announced size and the type.\<close>

type_synonym s3_put = "string \<times> string \<times> string \<times> nat \<times> string"

definition s3_Upload ::
    "up_env \<Rightarrow> (s3_put \<Rightarrow> string option) \<Rightarrow> s3_uploader \<Rightarrow> mfile \<Rightarrow> string \<Rightarrow> s3_put list \<Rightarrow> s3_put list \<times> (up_err + string)" where
  "s3_Upload env put u f filename puts =
     (case up_validate env (s3_cfg u) f filename of
        (_, Inl e) \<Rightarrow> (puts, Inl e)
      | (f', Inr (safe, mimeType)) \<Rightarrow>
          (case seek_to env (length (mf_content f')) f' of
             (_, Some e) \<Rightarrow> (puts, Inl (SysErr e))
           | (f1, None) \<Rightarrow>
               (case seek_to env 0 f1 of
                  (_, Some e) \<Rightarrow> (puts, Inl (SysErr e))
                | (f2, None) \<Rightarrow>
                    let key = uc_keyPrefix (s3_cfg u) @ safe;
                        p = (s3_bucket u, key, drop (mf_pos f2) (mf_content f2), length (mf_content f'), mimeType)
                    in case put p of
                         Some e \<Rightarrow> (puts @ [p], Inl (PutErr key e))
                       | None \<Rightarrow> (puts @ [p], Inr (if uc_baseURL (s3_cfg u) \<noteq> [] then uc_baseURL (s3_cfg u) @ key else key)))))"

section \<open>Lemmas\<close>

definition plain_name :: "string \<Rightarrow> bool" where
  "plain_name s \<longleftrightarrow> s \<noteq> [] \<and> CHR ''/'' \<notin> set s \<and> s \<noteq> ''.'' \<and> s \<noteq> ''..''"

lemma last_Split: "sep \<notin> set (last (Split sep s))"
  by (induction s) (auto split: list.splits)

lemma sanitize_plain:
  assumes "sanitizeFilename name = Inr safe"
  shows "plain_name safe"
proof -
  have "filepath_Base s = ''.'' \<or> filepath_Base s = ''/'' \<or> CHR ''/'' \<notin> set (filepath_Base s)" for s
    using last_Split [of "CHR ''/''"] by (simp add: filepath_Base_def Let_def)
  then show ?thesis using assms unfolding sanitizeFilename_def Let_def plain_name_def by (auto split: if_splits)
qed

lemma plain_joined: "plain_name safe \<Longrightarrow> joined base safe = base @ [safe]"
  by (simp add: plain_name_def Split_no_sep)

lemma seek_to_ok: "seek_to env p f = (f', None) \<Longrightarrow> mf_pos f' = p \<and> mf_content f' = mf_content f"
  by (auto simp: seek_to_def Let_def split: option.splits)

lemma check_size_ok:
  assumes "check_size env c f = (f', None)"
  shows "mf_content f' = mf_content f" "uc_maxSize c > 0 \<longrightarrow> int (length (mf_content f)) \<le> uc_maxSize c"
    "mf_pos f = 0 \<Longrightarrow> mf_pos f' = 0"
proof -
  consider "f' = f" "\<not> uc_maxSize c > 0"
    | f1 where "seek_to env (length (mf_content f)) f = (f1, None)" "seek_to env 0 f1 = (f', None)"
        "int (length (mf_content f)) \<le> uc_maxSize c"
    using assms by (auto simp: check_size_def split: if_splits prod.splits option.splits)
  then show "mf_content f' = mf_content f" "uc_maxSize c > 0 \<longrightarrow> int (length (mf_content f)) \<le> uc_maxSize c"
    "mf_pos f = 0 \<Longrightarrow> mf_pos f' = 0"
    by (cases; auto dest!: seek_to_ok)+
qed

text \<open>An accepted file is at its start, within the limits, and has a plain name.\<close>

lemma validate_ok:
  assumes "up_validate env c f filename = (f', Inr (safe, mt))"
  shows "sanitizeFilename filename = Inr safe" "mf_pos f' = 0" "mf_content f' = mf_content f"
    "uc_maxSize c > 0 \<longrightarrow> int (length (mf_content f)) \<le> uc_maxSize c"
    "uc_allowedMime c \<noteq> [] \<longrightarrow> mimeAllowed env mt (uc_allowedMime c)"
    "mf_pos f = 0 \<longrightarrow> mt = ue_detect env (take (min 512 (ue_read env)) (mf_content f))"
proof -
  obtain f1 f2 head where s: "sanitizeFilename filename = Inr safe" and c: "check_size env c f = (f1, None)"
    and r: "read_head env f1 = (f2, head)" and k: "seek_to env 0 f2 = (f', None)" and h: "mt = ue_detect env head"
    and m: "uc_allowedMime c \<noteq> [] \<longrightarrow> mimeAllowed env mt (uc_allowedMime c)"
    using assms by (auto simp: up_validate_def Let_def split: sum.splits prod.splits option.splits if_splits)
  have "mf_content f2 = mf_content f1" "head = take (min 512 (ue_read env)) (drop (mf_pos f1) (mf_content f1))"
    using r by (auto simp: read_head_def Let_def)
  then show "sanitizeFilename filename = Inr safe" "mf_pos f' = 0" "mf_content f' = mf_content f"
    "uc_maxSize c > 0 \<longrightarrow> int (length (mf_content f)) \<le> uc_maxSize c"
    "uc_allowedMime c \<noteq> [] \<longrightarrow> mimeAllowed env mt (uc_allowedMime c)"
    "mf_pos f = 0 \<longrightarrow> mt = ue_detect env (take (min 512 (ue_read env)) (mf_content f))"
    using s seek_to_ok [OF k] check_size_ok [OF c] m h by simp_all
qed

lemma local_store_get:
  assumes "local_store env f p d t = (t', r)"
  shows "q \<noteq> p \<Longrightarrow> gm_get t' q = gm_get t q"
    "r = Inr x \<Longrightarrow> gm_get t' p = Some (FileNode (drop (mf_pos f) (mf_content f))) \<and> x = d"
    "r = Inl e \<Longrightarrow> gm_get t' p = gm_get t p \<or> gm_get t' p = None"
  using assms
  by (auto simp: local_store_def open_trunc_def copy_rest_def os_Remove_def Let_def split: if_splits option.splits prod.splits)

section \<open>Properties\<close>

text \<open>
  C25. Uploads stay in their directory. Whatever the file name a client sends, the only things a local
  upload changes are one file directly inside the configured directory, whose name has no
  separator and is not a dot, and missing directories on the way to it. A successful upload stored
  the whole file, within the limits on size and type; a failed one leaves no partial file behind.
\<close>

theorem local_upload_confined:
  assumes "local_Upload env u f filename t = (t', r)"
  shows "let base = path_of (lu_Path u)
    in (\<forall>q. gm_get t' q \<noteq> gm_get t q \<longrightarrow>
          (\<exists>safe. q = base @ [safe] \<and> plain_name safe \<and> sanitizeFilename filename = Inr safe) \<or>
          gm_get t q = None \<and> gm_get t' q = Some DirNode \<and> inside q base) \<and>
       (case r of
          Inr path \<Rightarrow> \<exists>safe. sanitizeFilename filename = Inr safe \<and> path = filepath_Clean (lu_Path u @ ''/'' @ safe) \<and>
            gm_get t' (base @ [safe]) = Some (FileNode (mf_content f)) \<and>
            (uc_maxSize (lu_cfg u) > 0 \<longrightarrow> int (length (mf_content f)) \<le> uc_maxSize (lu_cfg u)) \<and>
            (uc_allowedMime (lu_cfg u) \<noteq> [] \<and> mf_pos f = 0 \<longrightarrow>
               mimeAllowed env (ue_detect env (take (min 512 (ue_read env)) (mf_content f))) (uc_allowedMime (lu_cfg u)))
        | Inl e \<Rightarrow> \<forall>q x. gm_get t' q = Some (FileNode x) \<longrightarrow> gm_get t q = Some (FileNode x))"
proof -
  let ?base = "path_of (lu_Path u)"
  obtain f' v where v: "up_validate env (lu_cfg u) f filename = (f', v)" by fastforce
  show ?thesis
  proof (cases v)
    case (Inl e)
    then show ?thesis using assms v by (auto simp: local_Upload_def)
  next
    case (Inr sm)
    then obtain safe mt where sm: "v = Inr (safe, mt)" by (cases sm) auto
    note ok = validate_ok [OF v [unfolded sm]]
    note plain = sanitize_plain [OF ok(1)]
    obtain t1 e1 where m: "os_MkdirAll (ue_faults env) ?base t = (t1, e1)" by fastforce
    have mk: "gm_get t1 q = gm_get t q \<or> gm_get t q = None \<and> gm_get t1 q = Some DirNode \<and> inside q ?base" for q
      using m mk_dirs_get [of "[]" ?base t t1 e1 q] by (auto simp: os_MkdirAll_def split: option.splits)
    consider (early) "t' = t" "\<exists>e. r = Inl e" | (mkdir) e where "t' = t1" "r = Inl e"
      | (store) "local_store env f' (?base @ [safe]) (filepath_Join2 (lu_Path u) safe) t1 = (t', r)"
      using assms m by (auto simp: local_Upload_def v sm plain_joined [OF plain] split: if_splits option.splits)
    then show ?thesis
    proof cases
      case early
      then show ?thesis by auto
    next
      case mkdir
      then show ?thesis using mk by (auto simp: Let_def) (metis node.distinct(1) option.inject)+
    next
      case store
      note g = local_store_get [OF store]
      have q: "(\<exists>safe. q = ?base @ [safe] \<and> plain_name safe \<and> sanitizeFilename filename = Inr safe) \<or>
          gm_get t q = None \<and> gm_get t' q = Some DirNode \<and> inside q ?base" if "gm_get t' q \<noteq> gm_get t q" for q
        using g(1) [of q] mk [of q] plain ok(1) that by auto
      show ?thesis
      proof (cases r)
        case (Inl e)
        have "gm_get t q = Some (FileNode x)" if "gm_get t' q = Some (FileNode x)" for q x
          using g(1) [of q] g(3) [OF Inl] mk [of q] that by (cases "q = ?base @ [safe]") auto
        then show ?thesis using q Inl by (simp add: Let_def)
      next
        case (Inr path)
        then show ?thesis using q g(2) [OF Inr] ok by (auto simp: Let_def filepath_Join2_def)
      qed
    qed
  qed
qed

definition demo_upload_env :: up_env where
  "demo_upload_env = \<lparr>ue_seek = (\<lambda>_. None), ue_read = 512, ue_detect = (\<lambda>_. ''text/plain''), ue_is = (=),
     ue_faults = \<lparr>mkdir_fault = (\<lambda>_. None), write_fault = (\<lambda>_. None)\<rparr>, ue_open = None, ue_copy = None, ue_close = None\<rparr>"

theorem local_upload_confined_witness:
  "case local_Upload demo_upload_env (NewLocalUploader ''up'' [WithMaxSize 9]) \<lparr>mf_content = ''hi'', mf_pos = 0, mf_seeks = 0\<rparr> ''../../etc/x'' [] of
     (t', r) \<Rightarrow> r = Inr ''up/x'' \<and> gm_get t' [''up'', ''x''] = Some (FileNode ''hi'') \<and> gm_get t' [''etc''] = None"
proof -
  let ?f = "\<lparr>mf_content = ''hi'', mf_pos = 0, mf_seeks = 0\<rparr> :: mfile" and ?u = "NewLocalUploader ''up'' [WithMaxSize 9]"
  obtain t' r where l: "local_Upload demo_upload_env ?u ?f ''../../etc/x'' [] = (t', r)" by fastforce
  have r: "r = Inr ''up/x''"
  proof -
    have "snd (local_Upload demo_upload_env ?u ?f ''../../etc/x'' []) = Inr ''up/x''" by code_simp
    then show ?thesis by (simp add: l)
  qed
  have s: "sanitizeFilename ''../../etc/x'' = Inr ''x''" "path_of ''up'' = [''up'']" "lu_Path ?u = ''up''" by code_simp+
  show ?thesis using local_upload_confined [OF l] unfolding l r Let_def s by (force simp: inside_def)
qed

text \<open>
  The destination is truncated before the copy, so when an upload over an existing file fails the
  earlier upload is removed with it.
\<close>

lemma failed_upload_removes_previous:
  assumes "gm_get t p = Some (FileNode old)" "butlast p = [] \<or> gm_get t (butlast p) = Some DirNode" "ue_open env = None" "ue_copy env = Some (n, e)"
  shows "gm_get (fst (local_store env f p d t)) p = None"
  using assms by (auto simp: local_store_def open_trunc_def copy_rest_def os_Remove_def Let_def)

text \<open>An S3 upload puts the whole file under the prefixed plain name and announces its length.\<close>

lemma s3_upload_puts:
  assumes "s3_Upload env put u f filename puts = (puts', Inr x)"
  shows "\<exists>safe mt. sanitizeFilename filename = Inr safe \<and> plain_name safe \<and>
    puts' = puts @ [(s3_bucket u, uc_keyPrefix (s3_cfg u) @ safe, mf_content f, length (mf_content f), mt)] \<and>
    x = uc_baseURL (s3_cfg u) @ uc_keyPrefix (s3_cfg u) @ safe"
proof -
  obtain f' safe mt where v: "up_validate env (s3_cfg u) f filename = (f', Inr (safe, mt))"
    using assms by (auto simp: s3_Upload_def split: sum.splits prod.splits)
  note ok = validate_ok [OF v]
  obtain f1 r1 where f1: "seek_to env (length (mf_content f)) f' = (f1, r1)" by fastforce
  have r1: "r1 = None" using assms by (cases r1) (auto simp: s3_Upload_def v ok(3) f1)
  obtain f2 r2 where f2: "seek_to env 0 f1 = (f2, r2)" by fastforce
  have r2: "r2 = None" using assms by (cases r2) (auto simp: s3_Upload_def v ok(3) f1 r1 f2)
  have c: "mf_pos f2 = 0" "mf_content f2 = mf_content f"
    using seek_to_ok [OF f1 [unfolded r1]] seek_to_ok [OF f2 [unfolded r2]] ok(3) by simp_all
  have "s3_Upload env put u f filename puts =
    (let key = uc_keyPrefix (s3_cfg u) @ safe; p = (s3_bucket u, key, mf_content f, length (mf_content f), mt)
     in case put p of
          Some e \<Rightarrow> (puts @ [p], Inl (PutErr key e))
        | None \<Rightarrow> (puts @ [p], Inr (if uc_baseURL (s3_cfg u) \<noteq> [] then uc_baseURL (s3_cfg u) @ key else key)))"
    by (simp add: s3_Upload_def v ok(3) f1 r1 f2 r2 c Let_def split: option.split)
  then show ?thesis using assms ok(1) sanitize_plain [OF ok(1)] by (auto simp: Let_def split: option.splits if_splits)
qed

end
