(* ===== verification/Redis_Client.thy ===== *)
theory Redis_Client
  imports Redis_Iface Go_Strings
begin

text \<open>
  The Redis helpers (\<open>src/redis\<close>): JSON values, the cache-aside \<open>Remember\<close>, the
  pipelined and bulk operations, publishing and subscribing, and the \<open>fiber.Storage\<close>
  adapter. The server is that of \<open>Redis_Iface\<close> with the commands on several keys; the JSON coder,
  the order of a map and the pages of a scan are parameters.
\<close>

section \<open>Commands on several keys\<close>

record 's redis_multi =
  rm_del :: "time \<Rightarrow> string list \<Rightarrow> 's \<Rightarrow> 's \<times> (string + int)"
  rm_get :: "time \<Rightarrow> string list \<Rightarrow> 's \<Rightarrow> 's \<times> (string + string option list)"
  rm_pipe :: "time \<Rightarrow> (string \<times> string) list \<Rightarrow> duration \<Rightarrow> 's \<Rightarrow> 's \<times> string option"

definition deleted_all :: "('s \<Rightarrow> string \<Rightarrow> time \<Rightarrow> string option) \<Rightarrow> time \<Rightarrow> string set \<Rightarrow> 's \<Rightarrow> 's \<Rightarrow> bool" where
  "deleted_all val now ks s s' \<longleftrightarrow> (\<forall>k t. now \<le> t \<longrightarrow> val s' k t = (if k \<in> ks then None else val s k t))"

text \<open>A pipeline that succeeds has set its pairs one after the other.\<close>

definition stored_all ::
    "('s \<Rightarrow> string \<Rightarrow> time \<Rightarrow> string option) \<Rightarrow> time \<Rightarrow> (string \<times> string) list \<Rightarrow> time option \<Rightarrow> 's \<Rightarrow> 's \<Rightarrow> bool" where
  "stored_all val now kvs x s s' \<longleftrightarrow>
     (\<forall>k t. now \<le> t \<longrightarrow> val s' k t =
        (case map_of (rev kvs) k of
           None \<Rightarrow> val s k t
         | Some v \<Rightarrow> (case x of None \<Rightarrow> Some v | Some e \<Rightarrow> if t < e then Some v else None)))"

locale redis_multi_server = redis_server r val
  for r :: "'s redis" and val :: "'s \<Rightarrow> string \<Rightarrow> time \<Rightarrow> string option" +
  fixes m :: "'s redis_multi"
  assumes mdel_ok: "rm_del m now ks s = (s', Inr n) \<Longrightarrow> deleted_all val now (set ks) s s'"
    and mget_ok: "rm_get m now ks s = (s', Inr vs) \<Longrightarrow> same_from val now s s' \<and> vs = map (\<lambda>k. val s k now) ks"
    and pipe_ok: "ttl \<ge> 0 \<Longrightarrow> rm_pipe m now kvs ttl s = (s', None) \<Longrightarrow> stored_all val now kvs (set_expiry now ttl) s s'"

definition ks_multi :: "keyspace redis_multi" where
  "ks_multi =
     \<lparr>rm_del = (\<lambda>now ks s. (\<lambda>k. if k \<in> set ks then None else s k, Inr (int (length (filter (\<lambda>k. ks_val s k now \<noteq> None) (remdups ks)))))),
      rm_get = (\<lambda>now ks s. (s, Inr (map (\<lambda>k. ks_val s k now) ks))),
      rm_pipe = (\<lambda>now kvs ttl s. (\<lambda>k. case map_of (rev kvs) k of None \<Rightarrow> s k | Some v \<Rightarrow> Some (v, set_expiry now ttl), None))\<rparr>"

interpretation ksm: redis_multi_server ks_redis ks_val ks_multi
  by unfold_locales
     (auto simp: ks_multi_def ks_val_def same_from_def deleted_all_def stored_all_def split: option.splits)

section \<open>JSON values\<close>

record 'v json_coder =
  jc_Marshal :: "'v \<Rightarrow> string + string"
  jc_Unmarshal :: "string \<Rightarrow> string + 'v"

definition redis_Set :: "'s redis \<Rightarrow> 'v json_coder \<Rightarrow> time \<Rightarrow> string \<Rightarrow> 'v \<Rightarrow> duration \<Rightarrow> 's \<Rightarrow> 's \<times> string option" where
  "redis_Set r j now key v ttl s =
     (case jc_Marshal j v of
        Inl e \<Rightarrow> (s, Some e)
      | Inr p \<Rightarrow> (case rd_set r now key p ttl s of (s', Inl e) \<Rightarrow> (s', Some e) | (s', Inr _) \<Rightarrow> (s', None)))"

definition redis_Get :: "'s redis \<Rightarrow> 'v json_coder \<Rightarrow> time \<Rightarrow> string \<Rightarrow> 's \<Rightarrow> 's \<times> (string + 'v)" where
  "redis_Get r j now key s =
     (case rd_get r now key s of
        (s', Inl e) \<Rightarrow> (s', Inl e)
      | (s', Inr None) \<Rightarrow> (s', Inl ''redis: nil'')
      | (s', Inr (Some p)) \<Rightarrow> (s', jc_Unmarshal j p))"

text \<open>
  A call that misses either joins a flight of the same key that is under way, and gets its result,
  or makes its own. The last component tells whether this call ran the loader.
\<close>

definition remember_flight ::
    "'s redis \<Rightarrow> 'v json_coder \<Rightarrow> time \<Rightarrow> string \<Rightarrow> duration \<Rightarrow> string + 'v \<Rightarrow> 's \<Rightarrow> 's \<times> (string + 'v) \<times> bool" where
  "remember_flight r j now key ttl loader s =
     (case redis_Get r j now key s of
        (s1, Inr v) \<Rightarrow> (s1, Inr v, False)
      | (s1, Inl _) \<Rightarrow>
          (case loader of
             Inl e \<Rightarrow> (s1, Inl e, True)
           | Inr v \<Rightarrow> (case redis_Set r j now key v ttl s1 of (s2, _) \<Rightarrow> (s2, Inr v, True))))"

definition Remember ::
    "'s redis \<Rightarrow> 'v json_coder \<Rightarrow> time \<Rightarrow> string \<Rightarrow> duration \<Rightarrow> string + 'v \<Rightarrow> (string + 'v) option \<Rightarrow> 's \<Rightarrow> 's \<times> (string + 'v) \<times> bool" where
  "Remember r j now key ttl loader joined_flight s =
     (case redis_Get r j now key s of
        (s1, Inr v) \<Rightarrow> (s1, Inr v, False)
      | (s1, Inl _) \<Rightarrow>
          (case joined_flight of
             Some res \<Rightarrow> (s1, res, False)
           | None \<Rightarrow> remember_flight r j now key ttl loader s1))"

definition redis_Delete :: "'s redis_multi \<Rightarrow> time \<Rightarrow> string list \<Rightarrow> 's \<Rightarrow> 's \<times> string option" where
  "redis_Delete m now keys s =
     (if keys = [] then (s, None)
      else case rm_del m now keys s of (s', Inl e) \<Rightarrow> (s', Some e) | (s', Inr _) \<Rightarrow> (s', None))"

definition redis_Exists :: "'s redis \<Rightarrow> time \<Rightarrow> string \<Rightarrow> 's \<Rightarrow> 's \<times> (string + bool)" where
  "redis_Exists r now key s = (case rd_exists r now key s of (s', Inl e) \<Rightarrow> (s', Inl e) | (s', Inr n) \<Rightarrow> (s', Inr (n > 0)))"

section \<open>Bulk operations\<close>

fun encode_pairs :: "'v json_coder \<Rightarrow> (string \<times> 'v) list \<Rightarrow> string + (string \<times> string) list" where
  "encode_pairs j [] = Inr []"
| "encode_pairs j ((k, v) # kvs) =
     (case jc_Marshal j v of
        Inl e \<Rightarrow> Inl (''redis: encode '' @ k @ '': '' @ e)
      | Inr p \<Rightarrow> (case encode_pairs j kvs of Inl e \<Rightarrow> Inl e | Inr ps \<Rightarrow> Inr ((k, p) # ps)))"

definition redis_MSet :: "'s redis_multi \<Rightarrow> 'v json_coder \<Rightarrow> time \<Rightarrow> (string \<times> 'v) list \<Rightarrow> duration \<Rightarrow> 's \<Rightarrow> 's \<times> string option" where
  "redis_MSet m j now pairs ttl s =
     (if pairs = [] then (s, None)
      else case encode_pairs j pairs of Inl e \<Rightarrow> (s, Some e) | Inr ps \<Rightarrow> rm_pipe m now ps ttl s)"

definition redis_MGet :: "'s redis_multi \<Rightarrow> time \<Rightarrow> string list \<Rightarrow> 's \<Rightarrow> 's \<times> (string + (string, string) gomap)" where
  "redis_MGet m now keys s =
     (if keys = [] then (s, Inr [])
      else case rm_get m now keys s of
        (s', Inl e) \<Rightarrow> (s', Inl e)
      | (s', Inr vals) \<Rightarrow>
          (s', Inr (fold (\<lambda>(k, v) out. case v of None \<Rightarrow> out | Some x \<Rightarrow> gm_put out k x) (zip keys vals) [])))"

definition redis_SetNX :: "'s redis \<Rightarrow> 'v json_coder \<Rightarrow> time \<Rightarrow> string \<Rightarrow> 'v \<Rightarrow> duration \<Rightarrow> 's \<Rightarrow> 's \<times> (string + bool)" where
  "redis_SetNX r j now key v ttl s =
     (case jc_Marshal j v of Inl e \<Rightarrow> (s, Inl (''redis: encode: '' @ e)) | Inr p \<Rightarrow> rd_setnx r now key p ttl s)"

text \<open>\<open>setGet\<close> is the command that stores a value and returns the previous one.\<close>

definition redis_GetSet ::
    "('s \<Rightarrow> string \<Rightarrow> string \<Rightarrow> 's \<times> (string + string)) \<Rightarrow> 'v json_coder \<Rightarrow> string \<Rightarrow> 'v \<Rightarrow> 's \<Rightarrow> 's \<times> (string + string)" where
  "redis_GetSet setGet j key v s =
     (case jc_Marshal j v of
        Inl e \<Rightarrow> (s, Inl (''redis: encode: '' @ e))
      | Inr p \<Rightarrow> setGet s key p)"

definition ParseRedisOptions :: "(string \<Rightarrow> string + 'o) \<Rightarrow> string \<Rightarrow> string + 'o" where
  "ParseRedisOptions parseURL url =
     (case parseURL url of Inl e \<Rightarrow> Inl (''redis: invalid url: '' @ e) | Inr opt \<Rightarrow> Inr opt)"

section \<open>Publish and subscribe\<close>

definition redis_Publish :: "('s \<Rightarrow> string \<Rightarrow> string \<Rightarrow> 's \<times> string option) \<Rightarrow> 'v json_coder \<Rightarrow> string \<Rightarrow> 'v \<Rightarrow> 's \<Rightarrow> 's \<times> string option" where
  "redis_Publish publish j channel v s =
     (case jc_Marshal j v of Inl e \<Rightarrow> (s, Some (''redis: encode publish payload: '' @ e)) | Inr b \<Rightarrow> publish s channel b)"

text \<open>
  The goroutine of a subscription over the messages that arrive before it ends: a message that
  does not decode is logged and skipped, an error of the handler is logged.
\<close>

fun subscription_loop ::
    "'v json_coder \<Rightarrow> ('h \<Rightarrow> 'v \<Rightarrow> 'h \<times> string option) \<Rightarrow> string list \<Rightarrow> 'h \<Rightarrow> string list \<Rightarrow> 'h \<times> string list" where
  "subscription_loop j h [] st lg = (st, lg)"
| "subscription_loop j h (msg # msgs) st lg =
     (case jc_Unmarshal j msg of
        Inl e \<Rightarrow> subscription_loop j h msgs st (lg @ [''redis: decode pubsub message''])
      | Inr v \<Rightarrow>
          (case h st v of
             (st', None) \<Rightarrow> subscription_loop j h msgs st' lg
           | (st', Some e) \<Rightarrow> subscription_loop j h msgs st' (lg @ [''redis: pubsub handler''])))"

text \<open>Without the confirmation of the server there is no goroutine.\<close>

definition redis_Subscribe ::
    "'v json_coder \<Rightarrow> ('h \<Rightarrow> 'v \<Rightarrow> 'h \<times> string option) \<Rightarrow> string \<Rightarrow> string option \<Rightarrow> string list \<Rightarrow> 'h \<Rightarrow> 'h \<times> string list \<times> string option" where
  "redis_Subscribe j h channel receive msgs st =
     (case receive of
        Some e \<Rightarrow> (st, [], Some (''redis: subscribe '' @ channel @ '': '' @ e))
      | None \<Rightarrow> (case subscription_loop j h msgs st [] of (st', lg) \<Rightarrow> (st', lg, None)))"

section \<open>The storage adapter\<close>

record storage =
  sg_prefix :: string

datatype storage_option = WithPrefix string

fun storage_opt :: "storage_option \<Rightarrow> storage \<Rightarrow> storage" where
  "storage_opt (WithPrefix p) g = g\<lparr>sg_prefix := p\<rparr>"

definition NewStorage :: "storage_option list \<Rightarrow> storage" where
  "NewStorage opts = fold storage_opt opts \<lparr>sg_prefix = ''fiber:storage:''\<rparr>"

definition storage_Get :: "'s redis \<Rightarrow> storage \<Rightarrow> time \<Rightarrow> string \<Rightarrow> 's \<Rightarrow> 's \<times> (string + string option)" where
  "storage_Get r g now key s = (if key = [] then (s, Inr None) else rd_get r now (sg_prefix g @ key) s)"

definition storage_Set :: "'s redis \<Rightarrow> storage \<Rightarrow> time \<Rightarrow> string \<Rightarrow> string \<Rightarrow> duration \<Rightarrow> 's \<Rightarrow> 's \<times> string option" where
  "storage_Set r g now key v ttl s =
     (if key = [] \<or> v = [] then (s, None)
      else case rd_set r now (sg_prefix g @ key) v ttl s of (s', Inl e) \<Rightarrow> (s', Some e) | (s', Inr _) \<Rightarrow> (s', None))"

definition storage_Delete :: "'s redis \<Rightarrow> storage \<Rightarrow> time \<Rightarrow> string \<Rightarrow> 's \<Rightarrow> 's \<times> string option" where
  "storage_Delete r g now key s =
     (if key = [] then (s, None)
      else case rd_del r now (sg_prefix g @ key) s of (s', Inl e) \<Rightarrow> (s', Some e) | (s', Inr _) \<Rightarrow> (s', None))"

text \<open>What the iterator of a scan delivers: keys, and at most one error, which ends it.\<close>

datatype scan_item = ScanKey string | ScanErr string

definition reset_batch :: nat where "reset_batch = 500"

fun reset_loop :: "'s redis_multi \<Rightarrow> time \<Rightarrow> scan_item list \<Rightarrow> string list \<Rightarrow> 's \<Rightarrow> 's \<times> string option" where
  "reset_loop m now [] batch s =
     (if batch = [] then (s, None)
      else case rm_del m now batch s of (s', Inl e) \<Rightarrow> (s', Some e) | (s', Inr _) \<Rightarrow> (s', None))"
| "reset_loop m now (ScanErr e # items) batch s = (s, Some e)"
| "reset_loop m now (ScanKey k # items) batch s =
     (let batch' = batch @ [k]
      in if length batch' \<ge> reset_batch
         then (case rm_del m now batch' s of
                 (s', Inl e) \<Rightarrow> (s', Some e)
               | (s', Inr _) \<Rightarrow> reset_loop m now items [] s')
         else reset_loop m now items batch' s)"

definition reset_pattern :: "storage \<Rightarrow> string" where
  "reset_pattern g = sg_prefix g @ ''*''"

definition storage_Reset :: "'s redis_multi \<Rightarrow> (string \<Rightarrow> 's \<Rightarrow> scan_item list) \<Rightarrow> storage \<Rightarrow> time \<Rightarrow> 's \<Rightarrow> 's \<times> string option" where
  "storage_Reset m scan g now s = reset_loop m now (scan (reset_pattern g) s) [] s"

text \<open>Glob patterns as Redis matches them, without classes and escapes.\<close>

fun redis_glob :: "string \<Rightarrow> string \<Rightarrow> bool" where
  "redis_glob [] s \<longleftrightarrow> s = []"
| "redis_glob (c # p) [] \<longleftrightarrow> c = CHR ''*'' \<and> redis_glob p []"
| "redis_glob (c # p) (d # s) \<longleftrightarrow>
     (if c = CHR ''*'' then redis_glob p (d # s) \<or> redis_glob (c # p) s else (c = CHR ''?'' \<or> c = d) \<and> redis_glob p s)"

definition glob_plain :: "string \<Rightarrow> bool" where
  "glob_plain p \<longleftrightarrow> set p \<inter> {CHR ''*'', CHR ''?'', CHR ''['', CHR 0x5C} = {}"

lemma redis_glob_star: "redis_glob ''*'' s"
  by (induction s) auto

lemma redis_glob_prefix: "glob_plain p \<Longrightarrow> redis_glob (p @ ''*'') s \<longleftrightarrow> HasPrefix s p"
proof (induction p arbitrary: s)
  case Nil
  then show ?case using redis_glob_star [of s] by (simp add: HasPrefix_def)
next
  case (Cons c p)
  then show ?case by (cases s) (auto simp: glob_plain_def HasPrefix_def)
qed

text \<open>
  The documented guarantee of a scan: when it ends without an error it has delivered every key
  stored under a matching name, and nothing that does not match.
\<close>

definition scan_errors :: "scan_item list \<Rightarrow> string list" where
  "scan_errors items = concat (map (\<lambda>i. case i of ScanErr e \<Rightarrow> [e] | ScanKey _ \<Rightarrow> []) items)"

definition scan_keys :: "scan_item list \<Rightarrow> string list" where
  "scan_keys items = concat (map (\<lambda>i. case i of ScanErr _ \<Rightarrow> [] | ScanKey k \<Rightarrow> [k]) items)"

definition scans :: "('s \<Rightarrow> string \<Rightarrow> time \<Rightarrow> string option) \<Rightarrow> time \<Rightarrow> (string \<Rightarrow> 's \<Rightarrow> scan_item list) \<Rightarrow> bool" where
  "scans val now scan \<longleftrightarrow>
     (\<forall>p s. scan_errors (scan p s) = [] \<longrightarrow>
        (\<forall>k t. now \<le> t \<and> val s k t \<noteq> None \<and> redis_glob p k \<longrightarrow> k \<in> set (scan_keys (scan p s))) \<and>
        (\<forall>k\<in>set (scan_keys (scan p s)). redis_glob p k))"

section \<open>Lemmas\<close>

context redis_multi_server
begin

lemma deleted_all_trans: "deleted_all val now a s s1 \<Longrightarrow> deleted_all val now b s1 s2 \<Longrightarrow> deleted_all val now (a \<union> b) s s2"
  by (auto simp: deleted_all_def)

lemma mdel_done:
  assumes "(case rm_del m now ks s of (s', Inl e) \<Rightarrow> (s', Some e) | (s', Inr _) \<Rightarrow> (s', None)) = (s1, None)"
  shows "deleted_all val now (set ks) s s1"
  using assms mdel_ok [of now ks s] by (auto split: prod.splits sum.splits)

lemma reset_loop_deletes:
  "reset_loop m now items batch s = (s', None) \<Longrightarrow>
     scan_errors items = [] \<and> deleted_all val now (set batch \<union> set (scan_keys items)) s s'"
proof (induction items arbitrary: batch s)
  case Nil
  then show ?case
    using mdel_done [of now batch s s'] by (cases "batch = []") (auto simp: scan_errors_def scan_keys_def deleted_all_def)
next
  case (Cons i items)
  obtain k where i: "i = ScanKey k" using Cons.prems by (cases i) auto
  have e: "scan_errors (i # items) = scan_errors items" "scan_keys (i # items) = k # scan_keys items"
    by (simp_all add: i scan_errors_def scan_keys_def)
  show ?case
  proof (cases "length (batch @ [k]) \<ge> reset_batch")
    case True
    obtain s1 n where d: "rm_del m now (batch @ [k]) s = (s1, Inr n)" and r: "reset_loop m now items [] s1 = (s', None)"
      using Cons.prems True by (auto simp: i Let_def split: prod.splits sum.splits)
    have "deleted_all val now (insert k (set batch)) s s1" using mdel_ok [OF d] by simp
    moreover note Cons.IH [OF r]
    ultimately show ?thesis using deleted_all_trans [of now "insert k (set batch)" s s1 "set (scan_keys items)" s'] by (simp add: e)
  next
    case False
    then have "reset_loop m now items (batch @ [k]) s = (s', None)" using Cons.prems by (simp add: i Let_def)
    then show ?thesis using Cons.IH [of "batch @ [k]" s] by (simp add: e)
  qed
qed

lemma storage_Reset_scoped:
  assumes "storage_Reset m scan g now s = (s', None)" "scans val now scan" "glob_plain (sg_prefix g)" "now \<le> t"
  shows "val s' k t = (if HasPrefix k (sg_prefix g) then None else val s k t)"
proof -
  let ?items = "scan (reset_pattern g) s"
  have d: "scan_errors ?items = []" "deleted_all val now (set (scan_keys ?items)) s s'"
    using reset_loop_deletes [of now ?items "[]" s s'] assms(1) by (simp_all add: storage_Reset_def)
  have keys: "redis_glob (reset_pattern g) k \<longleftrightarrow> HasPrefix k (sg_prefix g)"
    using redis_glob_prefix [OF assms(3)] by (simp add: reset_pattern_def)
  have all: "redis_glob (reset_pattern g) k \<Longrightarrow> val s k t \<noteq> None \<Longrightarrow> k \<in> set (scan_keys ?items)"
    and only: "k \<in> set (scan_keys ?items) \<Longrightarrow> redis_glob (reset_pattern g) k"
    using assms(2,4) d(1) unfolding scans_def by blast+
  have "val s' k t = (if k \<in> set (scan_keys ?items) then None else val s k t)" using d(2) assms(4) by (simp add: deleted_all_def)
  then show ?thesis using all only unfolding keys by (cases "HasPrefix k (sg_prefix g)"; cases "val s k t") auto
qed

lemma storage_Set_stores:
  assumes "storage_Set r g now key v ttl s = (s', None)" "key \<noteq> []" "v \<noteq> []" "0 \<le> ttl"
  shows "stored_from val now (sg_prefix g @ key) v (set_expiry now ttl) s s'"
  using assms set_ok [OF assms(4), of now "sg_prefix g @ key" v s] by (auto simp: storage_Set_def split: prod.splits sum.splits)

lemma storage_Get_reads:
  assumes "storage_Get r g t key s = (s', Inr w)"
  shows "w = (if key = [] then None else val s (sg_prefix g @ key) t)"
  using assms get_ok [of t "sg_prefix g @ key" s s' w] by (auto simp: storage_Get_def split: if_splits)

lemma storage_Delete_deletes:
  assumes "storage_Delete r g now key s = (s', None)" "key \<noteq> []"
  shows "deleted_from val now (sg_prefix g @ key) s s'"
  using assms del_ok [of now "sg_prefix g @ key" s] by (auto simp: storage_Delete_def split: prod.splits sum.splits)

lemma remember_once:
  assumes j: "\<And>x p. jc_Marshal j x = Inr p \<Longrightarrow> jc_Unmarshal j p = Inr x" and ttl: "0 \<le> ttl" and t: "now \<le> t"
    and get: "\<And>s k u. \<exists>s' w. rd_get r u k s = (s', Inr w)" and none: "\<And>u. now \<le> u \<Longrightarrow> val s key u = None"
    and rem: "Remember r j now key ttl (Inr v) None s = (s1, res, loaded)"
  shows "res = Inr v \<and> loaded \<and> (\<exists>s0. Remember r j now key ttl (Inl e) None s = (s0, Inl e, True) \<and> same_from val now s s0) \<and>
    (val s1 key t \<noteq> None \<longrightarrow> (\<exists>s2. Remember r j t key ttl' loader fl s1 = (s2, Inr v, False)))"
proof -
  have miss: "\<exists>s'. redis_Get r j now key u = (s', Inl ''redis: nil'') \<and> same_from val now u s'" if "val u key now = None" for u
  proof -
    obtain s' w where g: "rd_get r now key u = (s', Inr w)" using get by blast
    then show ?thesis using get_ok [OF g] that by (simp add: redis_Get_def)
  qed
  obtain a where a: "redis_Get r j now key s = (a, Inl ''redis: nil'')" "same_from val now s a" using miss none by blast
  have na: "val a key u = None" if "now \<le> u" for u using a(2) none that by (simp add: same_from_def)
  obtain b where b: "redis_Get r j now key a = (b, Inl ''redis: nil'')" "same_from val now a b" using miss na by blast
  have nb: "val b key u = None" if "now \<le> u" for u using b(2) na that by (simp add: same_from_def)
  obtain c e1 where c: "redis_Set r j now key v ttl b = (c, e1)" by fastforce
  have run: "Remember r j now key ttl (Inr v) None s = (c, Inr v, True)" "Remember r j now key ttl (Inl e) None s = (b, Inl e, True)"
    by (simp_all add: Remember_def remember_flight_def a(1) b(1) c)
  have ab: "same_from val now s b" using a(2) b(2) by (simp add: same_from_def)
  have "\<exists>s2. Remember r j t key ttl' loader fl c = (s2, Inr v, False)" if hit: "val c key t \<noteq> None"
  proof -
    have changed: "\<not> same_from val now b c" using hit nb [OF t] t unfolding same_from_def by metis
    then obtain p where p: "jc_Marshal j v = Inr p" using c by (cases "jc_Marshal j v") (auto simp: redis_Set_def same_from_def)
    obtain o' where "rd_set r now key p ttl b = (c, o')" using c p by (auto simp: redis_Set_def split: prod.splits sum.splits)
    then have "stored_from val now key p (set_expiry now ttl) b c"
      using set_ok [OF ttl, of now key p b] set_err [OF ttl, of now key p b] changed by (cases o') auto
    with p obtain p where p: "jc_Marshal j v = Inr p" "val c key t = Some p"
      using hit t by (auto simp: stored_from_def split: option.splits if_splits)
    obtain s2 w where g: "rd_get r t key c = (s2, Inr w)" using get by blast
    then show ?thesis using get_ok [OF g] p j by (simp add: Remember_def redis_Get_def)
  qed
  then show ?thesis using rem run ab by simp
qed

lemma redis_Set_Get:
  assumes "\<And>x p. jc_Marshal j x = Inr p \<Longrightarrow> jc_Unmarshal j p = Inr x" "0 \<le> ttl" "now \<le> t"
    and "redis_Set r j now key v ttl s = (s1, None)" "redis_Get r j t key s1 = (s2, res)"
    and "\<And>e. set_expiry now ttl = Some e \<Longrightarrow> t < e" "\<And>s' e. rd_get r t key s1 \<noteq> (s', Inl e)"
  shows "res = Inr v"
proof -
  obtain p u where p: "jc_Marshal j v = Inr p" and u: "rd_set r now key p ttl s = (s1, Inr u)"
    using assms(4) by (auto simp: redis_Set_def split: prod.splits sum.splits)
  have "val s1 key t = Some p"
    using set_ok [OF assms(2) u] assms(3,6) by (auto simp: stored_from_def split: option.splits)
  moreover obtain s' w where g: "rd_get r t key s1 = (s', Inr w)" using assms(7) by (metis sum.exhaust surj_pair)
  ultimately have "w = Some p" using get_ok [OF g] by simp
  then show ?thesis using assms(5) assms(1) [OF p] by (simp add: redis_Get_def g)
qed

end

section \<open>Properties\<close>



text \<open>
  Remember loads once. A call that finds no value and joins no other flight runs the loader, and
  when it succeeds returns its value whatever becomes of storing it; once the value is stored every
  later call returns it without loading. A failing loader stores nothing, and a call that joins a
  flight or finds a value loads nothing.
\<close>

theorem redis_remember_loads_once:
  assumes "redis_multi_server r val m" "\<And>x p. jc_Marshal j x = Inr p \<Longrightarrow> jc_Unmarshal j p = Inr x" "0 \<le> ttl" "now \<le> t"
    and "\<And>s k u. \<exists>s' w. rd_get r u k s = (s', Inr w)" "\<And>u. now \<le> u \<Longrightarrow> val s key u = None"
    and "Remember r j now key ttl (Inr v) None s = (s1, res, loaded)"
  shows "res = Inr v \<and> loaded \<and> (\<exists>s0. Remember r j now key ttl (Inl e) None s = (s0, Inl e, True) \<and> same_from val now s s0) \<and>
    (val s1 key t \<noteq> None \<longrightarrow> (\<exists>s2. Remember r j t key ttl' loader fl s1 = (s2, Inr v, False)))"
  by (rule redis_multi_server.remember_once [OF assms])

theorem redis_remember_loads_once_witness:
  "\<exists>s1 s2. Remember ks_redis \<lparr>jc_Marshal = Inr, jc_Unmarshal = Inr\<rparr> 0 ''k'' second (Inr ''v'') None Map.empty = (s1, Inr ''v'', True) \<and>
     Remember ks_redis \<lparr>jc_Marshal = Inr, jc_Unmarshal = Inr\<rparr> 1 ''k'' second (Inl ''unused'') None s1 = (s2, Inr ''v'', False)"
proof -
  let ?j = "\<lparr>jc_Marshal = Inr, jc_Unmarshal = Inr\<rparr> :: string json_coder"
  obtain s1 res loaded where r: "Remember ks_redis ?j 0 ''k'' second (Inr ''v'') None Map.empty = (s1, res, loaded)" by (metis surj_pair)
  have v: "ks_val s1 ''k'' 1 \<noteq> None"
    using r by (auto simp: Remember_def remember_flight_def redis_Get_def redis_Set_def ks_redis_def ks_val_def set_expiry_def redis_ttl_def go_defs)
  have g: "\<exists>s' w. rd_get ks_redis u k s = (s', Inr w)" for u k s by (simp add: ks_redis_def)
  show ?thesis
    using redis_remember_loads_once [OF ksm.redis_multi_server_axioms _ _ _ g _ r, of 1] v r by (fastforce simp: ks_val_def go_defs)
qed

text \<open>
  The prefix is put into the scan pattern as it is, so with a pattern character in it a reset
  also deletes keys of other namespaces.
\<close>

lemma storage_reset_pattern_unescaped:
  "redis_glob (reset_pattern (NewStorage [WithPrefix ''app?:''])) ''app2:session'' \<and> \<not> HasPrefix ''app2:session'' ''app?:''"
  by code_simp

end
