(* ===== verification/Toolkit.thy ===== *)
theory Toolkit
  imports Service Redis_Client
begin

text \<open>
  The smaller services: the audit trail (\<open>src/audit\<close>), background jobs (\<open>src/jobs\<close>), mail
  (\<open>src/mailer\<close>), validation (\<open>src/validator\<close>), migrations (\<open>src/migrate\<close>) and opening a database
  (\<open>src/database\<close>). The database driver, the queue, the SMTP client, the validation and template
  libraries are parameters; the audit table is a list of rows with an increasing key.
\<close>

section \<open>Audit trail\<close>

text \<open>\<open>None\<close> is the zero time.\<close>

record audit_entry =
  ae_ID :: int
  ae_Actor :: string
  ae_Action :: string
  ae_Target :: string
  ae_TargetID :: string
  ae_Metadata :: "(string, string) gomap"
  ae_IP :: string
  ae_RequestID :: string
  ae_CreatedAt :: "time option"

record audit_table =
  at_rows :: "audit_entry list"
  at_next :: int

type_synonym 's audit_sink = "audit_entry \<Rightarrow> 's \<Rightarrow> 's \<times> string option"

record 's recorder =
  rc_sink :: "'s audit_sink"
  rc_actor :: "(fctx \<Rightarrow> string) option"

datatype recorder_option = WithActor "fctx \<Rightarrow> string"

fun recorder_opt :: "recorder_option \<Rightarrow> 's recorder \<Rightarrow> 's recorder" where
  "recorder_opt (WithActor fn) r = r\<lparr>rc_actor := Some fn\<rparr>"

definition audit_New :: "'s audit_sink \<Rightarrow> recorder_option list \<Rightarrow> 's recorder" where
  "audit_New sink opts = fold recorder_opt opts \<lparr>rc_sink = sink, rc_actor = None\<rparr>"

definition recorder_Record :: "'s recorder \<Rightarrow> time \<Rightarrow> audit_entry \<Rightarrow> 's \<Rightarrow> 's \<times> string option" where
  "recorder_Record r now e s = rc_sink r (if ae_CreatedAt e = None then e\<lparr>ae_CreatedAt := Some now\<rparr> else e) s"

definition recorder_FromRequest :: "'s recorder \<Rightarrow> string \<Rightarrow> fctx \<Rightarrow> audit_entry" where
  "recorder_FromRequest r ip c =
     (let e = \<lparr>ae_ID = 0, ae_Actor = [], ae_Action = [], ae_Target = [], ae_TargetID = [], ae_Metadata = [], ae_IP = ip,
        ae_RequestID = GetRequestID c, ae_CreatedAt = None\<rparr>
      in case rc_actor r of None \<Rightarrow> e | Some fn \<Rightarrow> e\<lparr>ae_Actor := fn c\<rparr>)"

text \<open>An insert without a key takes the next one; the database may refuse it.\<close>

definition bunSink_Record :: "(audit_table \<Rightarrow> string option) \<Rightarrow> audit_table audit_sink" where
  "bunSink_Record fault e t =
     (case fault t of
        Some err \<Rightarrow> (t, Some (''audit: insert entry: '' @ err))
      | None \<Rightarrow> (t\<lparr>at_rows := at_rows t @ [e\<lparr>ae_ID := at_next t\<rparr>], at_next := at_next t + 1\<rparr>, None))"

record audit_filter =
  af_Actor :: string
  af_Action :: string
  af_Target :: string
  af_Limit :: int

definition audit_where :: "audit_filter \<Rightarrow> audit_entry \<Rightarrow> bool" where
  "audit_where f e \<longleftrightarrow>
     (af_Actor f \<noteq> [] \<longrightarrow> ae_Actor e = af_Actor f) \<and> (af_Action f \<noteq> [] \<longrightarrow> ae_Action e = af_Action f) \<and>
     (af_Target f \<noteq> [] \<longrightarrow> ae_Target e = af_Target f)"

definition defaultListLimit :: int where "defaultListLimit = 100"

definition audit_List :: "string option \<Rightarrow> audit_filter \<Rightarrow> audit_table \<Rightarrow> string + audit_entry list" where
  "audit_List fault f t =
     (let limit = (if af_Limit f \<le> 0 then defaultListLimit else af_Limit f)
      in case fault of
           Some err \<Rightarrow> Inl (''audit: list entries: '' @ err)
         | None \<Rightarrow> Inr (take (nat limit) (rev (sort_key ae_ID (filter (audit_where f) (at_rows t))))))"

text \<open>Creating the table and then its index.\<close>

definition audit_Migrate :: "('s \<Rightarrow> 's \<times> string option) \<Rightarrow> ('s \<Rightarrow> 's \<times> string option) \<Rightarrow> 's \<Rightarrow> 's \<times> string option" where
  "audit_Migrate createTable createIndex s =
     (case createTable s of
        (s1, Some e) \<Rightarrow> (s1, Some (''audit: create table: '' @ e))
      | (s1, None) \<Rightarrow> (case createIndex s1 of (s2, Some e) \<Rightarrow> (s2, Some (''audit: create index: '' @ e)) | (s2, None) \<Rightarrow> (s2, None)))"

text \<open>The tables of the outbox and of the inbox are created in the same way.\<close>

definition outbox_Migrate :: "('s \<Rightarrow> 's \<times> string option) \<Rightarrow> ('s \<Rightarrow> 's \<times> string option) \<Rightarrow> 's \<Rightarrow> 's \<times> string option" where
  "outbox_Migrate createTable createIndex s =
     (case createTable s of
        (s1, Some e) \<Rightarrow> (s1, Some (''outbox: create table: '' @ e))
      | (s1, None) \<Rightarrow> (case createIndex s1 of (s2, Some e) \<Rightarrow> (s2, Some (''outbox: create index: '' @ e)) | (s2, None) \<Rightarrow> (s2, None)))"

definition inbox_Migrate :: "('s \<Rightarrow> 's \<times> string option) \<Rightarrow> 's \<Rightarrow> 's \<times> string option" where
  "inbox_Migrate createTable s =
     (case createTable s of (s1, Some e) \<Rightarrow> (s1, Some (''inbox: create table: '' @ e)) | (s1, None) \<Rightarrow> (s1, None))"

section \<open>Registering the metrics\<close>

text \<open>
  The state is what the first registration created, if there was one: the names of the counter and
  of the histogram, with the labels of both.
\<close>

type_synonym metric_vectors = "string \<times> string \<times> string list"

definition metric_name :: "string \<Rightarrow> string \<Rightarrow> string" where
  "metric_name ns name = (if ns = [] then name else ns @ ''_'' @ name)"

definition metrics_register :: "string \<Rightarrow> metric_vectors option \<Rightarrow> metric_vectors option" where
  "metrics_register ns registered =
     (case registered of
        Some vs \<Rightarrow> Some vs
      | None \<Rightarrow> Some (metric_name ns ''http_requests_total'', metric_name ns ''http_request_duration_seconds'',
                      [''method'', ''path'', ''status'']))"

text \<open>The options of the middleware; the first call fixes the namespace. The page is the library's handler.\<close>

datatype metrics_option = WithNamespace string

fun metrics_opt :: "metrics_option \<Rightarrow> string \<Rightarrow> string" where
  "metrics_opt (WithNamespace ns) c = ns"

definition metrics_setup :: "metrics_option list \<Rightarrow> metric_vectors option \<Rightarrow> metric_vectors option" where
  "metrics_setup opts registered = metrics_register (apply_opts metrics_opt opts []) registered"

definition metrics_Handler :: "('h \<Rightarrow> 'w handler) \<Rightarrow> 'h \<Rightarrow> 'w handler" where
  "metrics_Handler adaptor_HTTPHandler promhttp_Handler = adaptor_HTTPHandler promhttp_Handler"

lemma metrics_namespace_fixed:
  "metrics_setup opts None = Some vs \<Longrightarrow> metrics_setup opts' (metrics_setup opts None) = Some vs"
  by (simp add: metrics_setup_def metrics_register_def)

section \<open>Background jobs\<close>

record task =
  tk_Type :: string
  tk_Payload :: string

datatype job_err = SkipRetry string | JobErr string

text \<open>The options of a task, its information and the mux are the queue library's.\<close>

definition jobs_Enqueue :: "'v json_coder \<Rightarrow> ('s \<Rightarrow> task \<Rightarrow> 'p list \<Rightarrow> 's \<times> (string + 'i)) \<Rightarrow> string \<Rightarrow> 'v \<Rightarrow> 'p list \<Rightarrow> 's \<Rightarrow> 's \<times> (string + 'i)" where
  "jobs_Enqueue j enqueue typename payload opts s =
     (case jc_Marshal j payload of
        Inl e \<Rightarrow> (s, Inl (''jobs: encode '' @ typename @ '' payload: '' @ e))
      | Inr b \<Rightarrow> enqueue s \<lparr>tk_Type = typename, tk_Payload = b\<rparr> opts)"

type_synonym 's job_handler = "'s \<Rightarrow> task \<Rightarrow> 's \<times> job_err option"

definition typed_handler :: "'v json_coder \<Rightarrow> string \<Rightarrow> ('s \<Rightarrow> 'v \<Rightarrow> 's \<times> job_err option) \<Rightarrow> 's job_handler" where
  "typed_handler j typename fn s t =
     (case jc_Unmarshal j (tk_Payload t) of
        Inl e \<Rightarrow> (s, Some (SkipRetry (''jobs: decode '' @ typename @ '' payload: '' @ e)))
      | Inr p \<Rightarrow> fn s p)"

text \<open>The mux is the queue library's: registering a pattern (which may panic) and routing a task are its operations.\<close>

definition jobs_Handle ::
    "'v json_coder \<Rightarrow> ('m \<Rightarrow> string \<Rightarrow> 's job_handler \<Rightarrow> 'm option) \<Rightarrow> string \<Rightarrow> ('s \<Rightarrow> 'v \<Rightarrow> 's \<times> job_err option) \<Rightarrow> 'm \<Rightarrow> 'm option" where
  "jobs_Handle j handleFunc typename fn mux = handleFunc mux typename (typed_handler j typename fn)"

definition server_ProcessTask :: "('m \<Rightarrow> 's job_handler) \<Rightarrow> 'm \<Rightarrow> 's job_handler" where
  "server_ProcessTask processTask mux = processTask mux"

definition scheduler_Register :: "'v json_coder \<Rightarrow> ('s \<Rightarrow> string \<Rightarrow> task \<Rightarrow> 'p list \<Rightarrow> 's \<times> (string + string)) \<Rightarrow> string \<Rightarrow> string \<Rightarrow> 'v \<Rightarrow> 'p list \<Rightarrow> 's \<Rightarrow> 's \<times> (string + string)" where
  "scheduler_Register j register cronspec typename payload opts s =
     (case jc_Marshal j payload of
        Inl e \<Rightarrow> (s, Inl (''jobs: encode '' @ typename @ '' payload: '' @ e))
      | Inr b \<Rightarrow> register s cronspec \<lparr>tk_Type = typename, tk_Payload = b\<rparr> opts)"

section \<open>Mail\<close>

record mail_message =
  mm_To :: "string list"
  mm_Subject :: string
  mm_HTML :: string
  mm_Text :: string

text \<open>What is handed to the SMTP client: addresses, subject, body and alternatives with their types.\<close>

record mail_out =
  mo_From :: string
  mo_To :: "string list"
  mo_Subject :: string
  mo_Parts :: "(string \<times> string) list"

definition mail_parts :: "mail_message \<Rightarrow> (string \<times> string) list" where
  "mail_parts msg =
     (if mm_Text msg \<noteq> [] \<and> mm_HTML msg \<noteq> [] then [(''text/plain'', mm_Text msg), (''text/html'', mm_HTML msg)]
      else if mm_HTML msg \<noteq> [] then [(''text/html'', mm_HTML msg)]
      else [(''text/plain'', mm_Text msg)])"

definition smtp_Send ::
    "(string \<Rightarrow> string option) \<Rightarrow> (string list \<Rightarrow> string option) \<Rightarrow> ('s \<Rightarrow> mail_out \<Rightarrow> 's \<times> string option) \<Rightarrow> string \<Rightarrow> mail_message \<Rightarrow> 's \<Rightarrow> 's \<times> string option" where
  "smtp_Send badFrom badTo dialAndSend from_addr msg s =
     (case badFrom from_addr of
        Some e \<Rightarrow> (s, Some (''mailer: from: '' @ e))
      | None \<Rightarrow>
          (case badTo (mm_To msg) of
             Some e \<Rightarrow> (s, Some (''mailer: to: '' @ e))
           | None \<Rightarrow> dialAndSend s \<lparr>mo_From = from_addr, mo_To = mm_To msg, mo_Subject = mm_Subject msg, mo_Parts = mail_parts msg\<rparr>))"

definition log_Send :: "mail_message \<Rightarrow> (string list \<times> string) list \<Rightarrow> (string list \<times> string) list \<times> string option" where
  "log_Send msg lg = (lg @ [(mm_To msg, mm_Subject msg)], None)"

definition memory_Send :: "mail_message \<Rightarrow> mail_message list \<Rightarrow> mail_message list \<times> string option" where
  "memory_Send msg sent = (sent @ [msg], None)"

text \<open>The captured messages, as a copy.\<close>

definition memory_Messages :: "mail_message list \<Rightarrow> mail_message list" where
  "memory_Messages sent = sent"

datatype mail_sender = LogSender | SMTPSender string int "(string \<times> string) option" string

record smtp_config =
  sm_Host :: string
  sm_Port :: int
  sm_Username :: string
  sm_Password :: string
  sm_From :: string

definition mailer_NewSMTP :: "(string \<Rightarrow> string option) \<Rightarrow> smtp_config \<Rightarrow> string + mail_sender" where
  "mailer_NewSMTP badClient cfg =
     (case badClient (sm_Host cfg) of
        Some e \<Rightarrow> Inl (''mailer: smtp client: '' @ e)
      | None \<Rightarrow> Inr (SMTPSender (sm_Host cfg) (sm_Port cfg)
          (if sm_Username cfg \<noteq> [] then Some (sm_Username cfg, sm_Password cfg) else None) (sm_From cfg)))"

definition mailer_New :: "(string \<Rightarrow> string option) \<Rightarrow> smtp_config \<Rightarrow> string + mail_sender" where
  "mailer_New badClient cfg = (if sm_Host cfg = [] then Inr LogSender else mailer_NewSMTP badClient cfg)"

text \<open>A template engine parses a source and executes it on data.\<close>

type_synonym ('t, 'd) engine = "(string \<Rightarrow> string + 't) \<times> ('t \<Rightarrow> 'd \<Rightarrow> string + string)"

definition mailer_Render :: "('t, 'd) engine \<Rightarrow> ('u, 'd) engine \<Rightarrow> string \<Rightarrow> string \<Rightarrow> 'd \<Rightarrow> string + string \<times> string" where
  "mailer_Render html txt htmlSrc textSrc data =
     (case fst html htmlSrc of
        Inl e \<Rightarrow> Inl (''mailer: parse html: '' @ e)
      | Inr ht \<Rightarrow>
     (case snd html ht data of
        Inl e \<Rightarrow> Inl (''mailer: exec html: '' @ e)
      | Inr hb \<Rightarrow>
     (case fst txt textSrc of
        Inl e \<Rightarrow> Inl (''mailer: parse text: '' @ e)
      | Inr tt \<Rightarrow>
     (case snd txt tt data of
        Inl e \<Rightarrow> Inl (''mailer: exec text: '' @ e)
      | Inr tb \<Rightarrow> Inr (hb, tb)))))"

section \<open>Validation\<close>

record validation_error =
  ve_Field :: string
  ve_Tag :: string
  ve_Param :: string
  ve_Value :: string

text \<open>The name of a field in error messages: that of its \<open>json\<close> tag, unless it is empty or a dash.\<close>

definition json_field_name :: "string \<Rightarrow> string \<Rightarrow> string" where
  "json_field_name goName tag =
     (let name = (case Cut CHR '','' tag of Some (b, _) \<Rightarrow> b | None \<Rightarrow> tag)
      in if name = ''-'' \<or> name = [] then goName else name)"

text \<open>What the library reports: nothing, the failed rules, or that the value is no struct.\<close>

datatype validation = Valid | Failed "validation_error list" | Invalid string

definition ValidateStruct :: "validation \<Rightarrow> validation_error list" where
  "ValidateStruct r =
     (case r of
        Valid \<Rightarrow> []
      | Failed es \<Rightarrow> es
      | Invalid e \<Rightarrow> [\<lparr>ve_Field = [], ve_Tag = ''invalid'', ve_Param = [], ve_Value = e\<rparr>])"

definition ErrorsToString :: "validation_error list \<Rightarrow> string" where
  "ErrorsToString errs =
     Join '', '' (map (\<lambda>e. ''field '' @ [CHR 0x27] @ ve_Field e @ [CHR 0x27] @ '' failed on the '' @ [CHR 0x27] @ ve_Tag e @ [CHR 0x27] @ '' tag'') errs)"

text \<open>
  Custom rules are registered with the library's validator, here the rules it knows by tag; an empty
  tag is refused.
\<close>

type_synonym 'f validator_rules = "(string, 'f) gomap"

definition validator_Register :: "('f validator_rules \<Rightarrow> string \<Rightarrow> 'f \<Rightarrow> 'f validator_rules \<times> string option) \<Rightarrow> string \<Rightarrow> 'f \<Rightarrow> 'f validator_rules \<Rightarrow> 'f validator_rules \<times> string option" where
  "validator_Register registerValidation tag fn rules = registerValidation rules tag fn"

section \<open>Migrations\<close>

text \<open>The migrator of the library: its calls, and the group a run applied or rolled back.\<close>

datatype migrator_call = MInit | MLock | MUnlock | MMigrate | MRollback | MStatus

record migrator =
  mg_init :: "string option"
  mg_lock :: "string option"
  mg_migrate :: "string + string option"
  mg_rollback :: "string + string option"
  mg_status :: "string + string \<times> string"

text \<open>The calls made, in order, and the result; the deferred unlock comes last and its error is dropped.\<close>

definition with_lock :: "migrator \<Rightarrow> migrator_call \<Rightarrow> string + string option \<Rightarrow> string \<Rightarrow> string \<Rightarrow> migrator_call list \<times> (string + string)" where
  "with_lock m call run none_msg some_msg =
     (case mg_init m of
        Some e \<Rightarrow> ([MInit], Inl e)
      | None \<Rightarrow>
          (case mg_lock m of
             Some e \<Rightarrow> ([MInit, MLock], Inl e)
           | None \<Rightarrow>
               ([MInit, MLock, call, MUnlock],
                case run of
                  Inl e \<Rightarrow> Inl e
                | Inr None \<Rightarrow> Inr none_msg
                | Inr (Some grp) \<Rightarrow> Inr (some_msg @ grp))))"

definition migrate_Up :: "migrator \<Rightarrow> migrator_call list \<times> (string + string)" where
  "migrate_Up m = with_lock m MMigrate (mg_migrate m) ''no new migrations to run'' ''migrated: ''"

definition migrate_Down :: "migrator \<Rightarrow> migrator_call list \<times> (string + string)" where
  "migrate_Down m = with_lock m MRollback (mg_rollback m) ''nothing to roll back'' ''rolled back: ''"

definition migrate_Status :: "migrator \<Rightarrow> migrator_call list \<times> (string + string)" where
  "migrate_Status m =
     (case mg_init m of
        Some e \<Rightarrow> ([MInit], Inl e)
      | None \<Rightarrow>
          ([MInit, MStatus],
           case mg_status m of Inl e \<Rightarrow> Inl e | Inr (applied, pending) \<Rightarrow> Inr (''applied: '' @ applied @ [CHR 0x0A] @ ''pending: '' @ pending)))"

text \<open>
  A subcommand opens the database, runs and closes it again: what it printed, whether the
  database was opened and closed, and its error.
\<close>

datatype opened_db = DbErr string | DbNil | DbOpen migrator

definition migrate_run :: "(migrator \<Rightarrow> migrator_call list \<times> (string + string)) \<Rightarrow> opened_db \<Rightarrow> string list \<times> bool \<times> bool \<times> string option" where
  "migrate_run fn db =
     (case db of
        DbErr e \<Rightarrow> ([], False, False, Some e)
      | DbNil \<Rightarrow> ([], False, False, Some ''migrate: DBProvider returned a nil database'')
      | DbOpen m \<Rightarrow> (case snd (fn m) of Inl e \<Rightarrow> ([], True, True, Some e) | Inr msg \<Rightarrow> ([msg], True, True, None)))"

text \<open>
  A collection is the library's; \<open>Create\<close> asks its migrator, without a database, for the file of a
  new migration and returns the path of the file.
\<close>

definition NewMigrations :: "('o list \<Rightarrow> 'm) \<Rightarrow> 'o list \<Rightarrow> 'm" where
  "NewMigrations bun_NewMigrations opts = bun_NewMigrations opts"

definition migrate_Create :: "('m \<Rightarrow> string \<Rightarrow> string + string) \<Rightarrow> 'm \<Rightarrow> string \<Rightarrow> string + string" where
  "migrate_Create createGoMigration ms name =
     (case createGoMigration ms name of Inl e \<Rightarrow> Inl e | Inr path \<Rightarrow> Inr path)"

text \<open>
  The command's children by name. The database is opened by those that use it; \<open>create\<close> takes
  exactly one argument, as the command library checks it.
\<close>

definition migrate_create_cmd :: "('m \<Rightarrow> string \<Rightarrow> string + string) \<Rightarrow> 'm \<Rightarrow> string list \<Rightarrow> string list \<times> bool \<times> bool \<times> string option" where
  "migrate_create_cmd create ms args =
     (case args of
        [name] \<Rightarrow> (case migrate_Create create ms name of
            Inl e \<Rightarrow> ([], False, False, Some e)
          | Inr path \<Rightarrow> ([''created '' @ path], False, False, None))
      | _ \<Rightarrow> ([], False, False, Some (''accepts 1 arg(s), received '' @ itoa (int (length args)))))"

definition migrate_NewCommand ::
  "opened_db \<Rightarrow> ('m \<Rightarrow> string \<Rightarrow> string + string) \<Rightarrow> 'm \<Rightarrow> (string, string list \<Rightarrow> string list \<times> bool \<times> bool \<times> string option) gomap" where
  "migrate_NewCommand db create ms =
     [(''up'', \<lambda>_. migrate_run migrate_Up db), (''down'', \<lambda>_. migrate_run migrate_Down db),
      (''status'', \<lambda>_. migrate_run migrate_Status db), (''create'', migrate_create_cmd create ms)]"

text \<open>
  Every subcommand closes the database it opened; \<open>create\<close> opens none; a line is printed exactly when there
  is no error.
\<close>

lemma migrate_command_closes:
  assumes "gm_get (migrate_NewCommand db create ms) name = Some run" "run args = (lines, op, cl, err)"
  shows "op = cl \<and> (name = ''create'' \<longrightarrow> \<not> op) \<and> (err = None \<longleftrightarrow> length lines = 1) \<and> (err \<noteq> None \<longleftrightarrow> lines = [])"
  using assms
  by (auto simp: migrate_NewCommand_def migrate_create_cmd_def migrate_run_def split: if_splits opened_db.splits sum.splits list.splits)

section \<open>Opening a database\<close>

record db_config =
  dc_maxOpenConns :: int
  dc_maxIdleConns :: int
  dc_connMaxLifetime :: duration
  dc_pingTimeout :: duration
  dc_skipPing :: bool
  dc_tracing :: bool

datatype db_option =
    WithMaxOpenConns int
  | WithMaxIdleConns int
  | WithConnMaxLifetime duration
  | WithPingTimeout duration
  | WithoutPing
  | WithTracing

fun db_opt :: "db_option \<Rightarrow> db_config \<Rightarrow> db_config" where
  "db_opt (WithMaxOpenConns n) c = c\<lparr>dc_maxOpenConns := n\<rparr>"
| "db_opt (WithMaxIdleConns n) c = c\<lparr>dc_maxIdleConns := n\<rparr>"
| "db_opt (WithConnMaxLifetime d) c = c\<lparr>dc_connMaxLifetime := d\<rparr>"
| "db_opt (WithPingTimeout d) c = c\<lparr>dc_pingTimeout := d\<rparr>"
| "db_opt WithoutPing c = c\<lparr>dc_skipPing := True\<rparr>"
| "db_opt WithTracing c = c\<lparr>dc_tracing := True\<rparr>"

text \<open>
  The calls made on the driver, in order. Opening a PostgreSQL pool cannot fail; \<open>openSqlite\<close> is
  the outcome of opening SQLite and \<open>ping\<close> that of pinging with the given time limit.
\<close>

datatype db_call =
    OpenPostgres string
  | OpenSqlite string
  | SetMaxOpenConns int
  | SetMaxIdleConns int
  | SetConnMaxLifetime duration
  | AddQueryHook
  | DbPing duration
  | DbClose

datatype newbun_err = DialectErr dialect_err | OpenSqliteErr string | UnsupportedDialect | PingErr string

definition db_configure :: "db_config \<Rightarrow> db_call list" where
  "db_configure cfg =
     (if dc_maxOpenConns cfg > 0 then [SetMaxOpenConns (dc_maxOpenConns cfg)] else []) @
     (if dc_maxIdleConns cfg > 0 then [SetMaxIdleConns (dc_maxIdleConns cfg)] else []) @
     (if dc_connMaxLifetime cfg > 0 then [SetConnMaxLifetime (dc_connMaxLifetime cfg)] else []) @
     (if dc_tracing cfg then [AddQueryHook] else [])"

definition db_finish :: "(duration \<Rightarrow> string option) \<Rightarrow> db_config \<Rightarrow> dialectKind \<Rightarrow> db_call list \<Rightarrow> db_call list \<times> (newbun_err + dialectKind)" where
  "db_finish ping cfg kind calls =
     (if dc_skipPing cfg then (calls, Inr kind)
      else case ping (dc_pingTimeout cfg) of
             Some e \<Rightarrow> (calls @ [DbPing (dc_pingTimeout cfg), DbClose], Inl (PingErr e))
           | None \<Rightarrow> (calls @ [DbPing (dc_pingTimeout cfg)], Inr kind))"

definition NewBun :: "(string \<Rightarrow> string option) \<Rightarrow> (duration \<Rightarrow> string option) \<Rightarrow> string \<Rightarrow> db_option list \<Rightarrow> db_call list \<times> (newbun_err + dialectKind)" where
  "NewBun openSqlite ping dsn opts =
     (let cfg = apply_opts db_opt opts
            \<lparr>dc_maxOpenConns = 0, dc_maxIdleConns = 0, dc_connMaxLifetime = 0, dc_pingTimeout = 5000000000,
             dc_skipPing = False, dc_tracing = False\<rparr>
      in case detectDialect dsn of
           (kind, Some e) \<Rightarrow> ([], Inl (DialectErr e))
         | (kind, None) \<Rightarrow>
             (case kind of
                dialectPostgres \<Rightarrow> db_finish ping cfg kind (OpenPostgres dsn # db_configure cfg)
              | dialectSQLite \<Rightarrow>
                  (case openSqlite dsn of
                     Some e \<Rightarrow> ([], Inl (OpenSqliteErr e))
                   | None \<Rightarrow> db_finish ping cfg kind (OpenSqlite dsn # db_configure cfg))
              | dialectUnknown \<Rightarrow> ([], Inl UnsupportedDialect)))"

section \<open>Lemmas\<close>

lemma mail_parts_nonempty: "mail_parts msg \<noteq> []"
  by (simp add: mail_parts_def)

lemma audit_sorted_append:
  assumes "sorted (map ae_ID rows)"
  shows "sort_key ae_ID (filter P rows) = filter P rows"
  using assms by (intro sort_key_id_if_sorted) (simp add: sorted_filter)

text \<open>The keys of the table increase and stay below the next one.\<close>

definition audit_ok :: "audit_table \<Rightarrow> bool" where
  "audit_ok t \<longleftrightarrow> sorted_wrt (<) (map ae_ID (at_rows t)) \<and> (\<forall>e\<in>set (at_rows t). ae_ID e < at_next t)"

lemma audit_ok_Record: "audit_ok t \<Longrightarrow> audit_ok (fst (bunSink_Record fault e t))"
  by (auto simp: audit_ok_def bunSink_Record_def sorted_wrt_append split: option.splits)

text \<open>
  The trail is listed newest first: recording an entry puts it, with its time filled in, in front of
  what a matching list returned before, and changes nothing for a filter it does not match.
\<close>

lemma audit_List_Record:
  assumes "audit_ok t" "recorder_Record (audit_New (bunSink_Record fault) opts) now e t = (t', None)" "af_Limit f > 0"
  shows "\<exists>e'. e' = e\<lparr>ae_ID := at_next t, ae_CreatedAt := (case ae_CreatedAt e of None \<Rightarrow> Some now | x \<Rightarrow> x)\<rparr> \<and>
    projr (audit_List None f t') =
      (if audit_where f e then take (nat (af_Limit f)) (e' # projr (audit_List None f t)) else projr (audit_List None f t))"
proof -
  let ?e = "e\<lparr>ae_ID := at_next t, ae_CreatedAt := (case ae_CreatedAt e of None \<Rightarrow> Some now | x \<Rightarrow> x)\<rparr>"
  have sink: "rc_sink (fold recorder_opt opts r) = rc_sink r" for r :: "audit_table recorder"
  proof (induction opts arbitrary: r)
    case (Cons a opts)
    then show ?case by (cases a) simp
  qed simp
  have t': "at_rows t' = at_rows t @ [?e]"
    using assms(2) by (auto simp: recorder_Record_def audit_New_def sink bunSink_Record_def split: option.splits if_splits)
  have s: "sorted (map ae_ID (at_rows t))" using assms(1) unfolding audit_ok_def by (blast intro: strict_sorted_imp_sorted)
  have s': "sorted (map ae_ID (at_rows t @ [?e]))"
    using s assms(1) by (auto simp: audit_ok_def sorted_append less_imp_le)
  have w: "audit_where f ?e = audit_where f e" by (simp add: audit_where_def)
  have l: "projr (audit_List None f t) = take (nat (af_Limit f)) (rev (filter (audit_where f) (at_rows t)))"
    using assms(3) by (simp add: audit_List_def Let_def audit_sorted_append [OF s])
  have l': "projr (audit_List None f t') = take (nat (af_Limit f)) (rev (filter (audit_where f) (at_rows t @ [?e])))"
    using assms(3) unfolding audit_List_def Let_def t' by (simp del: filter_append add: audit_sorted_append [OF s'])
  obtain n where n: "nat (af_Limit f) = Suc n" using assms(3) by (cases "nat (af_Limit f)") auto
  show ?thesis unfolding l l' n using w by (auto simp: take_Suc_conv_app_nth min_def)
qed

text \<open>
  Migrations hold the lock: every call that changes the schema comes between locking and
  unlocking, and a run that could not lock changes nothing.
\<close>

lemma migrate_locked:
  assumes "fn \<in> {migrate_Up, migrate_Down}"
  shows "fst (fn m) \<in> {[MInit], [MInit, MLock]} \<and> (\<exists>e. snd (fn m) = Inl e) \<or>
    (\<exists>call\<in>{MMigrate, MRollback}. fst (fn m) = [MInit, MLock, call, MUnlock])"
  using assms by (auto simp: migrate_Up_def migrate_Down_def with_lock_def split: option.splits)

text \<open>
  A job arrives as it was enqueued: the handler registered for its type gets the payload the caller
  gave; a payload that does not decode never reaches a handler and is not retried.
\<close>

lemma job_delivered:
  assumes "\<And>x b. jc_Marshal j x = Inr b \<Longrightarrow> jc_Unmarshal j b = Inr x"
    and "\<And>mux mux' h s t. handleFunc mux typename h = Some mux' \<Longrightarrow> tk_Type t = typename \<Longrightarrow> processTask mux' s t = h s t"
    and "jobs_Handle j handleFunc typename fn mux = Some mux'"
    and "jobs_Enqueue j (\<lambda>q t ps. (q @ [t], Inr i)) typename payload opts q = (q', Inr i)"
  shows "\<exists>t. q' = q @ [t] \<and> server_ProcessTask processTask mux' s t = fn s payload \<and>
    (jc_Unmarshal j bad = Inl e \<longrightarrow> (\<exists>m. server_ProcessTask processTask mux' s (t\<lparr>tk_Payload := bad\<rparr>) = (s, Some (SkipRetry m))))"
proof -
  obtain b where b: "jc_Marshal j payload = Inr b" "q' = q @ [\<lparr>tk_Type = typename, tk_Payload = b\<rparr>]"
    using assms(4) by (auto simp: jobs_Enqueue_def split: sum.splits)
  have run: "processTask mux' s t = typed_handler j typename fn s t" if "tk_Type t = typename" for s t
    using assms(2) [OF assms(3) [unfolded jobs_Handle_def] that] .
  show ?thesis using b assms(1) [OF b(1)] by (auto simp: server_ProcessTask_def run typed_handler_def)
qed

text \<open>
  Opening a database leaks no connection: a failed call has closed every pool it opened, a
  successful one leaves one open pool of the dialect the connection string names, and unless the
  caller asked otherwise that pool has answered a ping.
\<close>

definition db_is_open :: "db_call \<Rightarrow> bool" where
  "db_is_open c \<longleftrightarrow> (\<exists>d. c = OpenPostgres d \<or> c = OpenSqlite d)"

lemma db_configure_neutral [simp]:
  "filter db_is_open (db_configure cfg) = []" "filter ((=) DbClose) (db_configure cfg) = []"
  by (auto simp: db_configure_def db_is_open_def)

lemma db_finish_balanced:
  assumes "db_is_open c" "db_finish ping cfg kind (c # db_configure cfg) = (calls, r)"
  shows "case r of Inl _ \<Rightarrow> length (filter db_is_open calls) = length (filter ((=) DbClose) calls)
    | Inr k \<Rightarrow> k = kind \<and> filter db_is_open calls = [c] \<and> DbClose \<notin> set calls \<and>
        (dc_skipPing cfg \<or> DbPing (dc_pingTimeout cfg) \<in> set calls \<and> ping (dc_pingTimeout cfg) = None)"
proof -
  have "DbClose \<notin> set (db_configure cfg)" by (auto simp: db_configure_def)
  moreover have "c \<noteq> DbClose" using assms(1) by (auto simp: db_is_open_def)
  ultimately show ?thesis using assms by (auto simp: db_finish_def db_is_open_def split: if_splits option.splits)
qed

theorem newbun_no_leak:
  "case NewBun openSqlite ping dsn opts of
     (calls, Inl e) \<Rightarrow> length (filter db_is_open calls) = length (filter ((=) DbClose) calls)
   | (calls, Inr k) \<Rightarrow> k = fst (detectDialect dsn) \<and> k \<noteq> dialectUnknown \<and> length (filter db_is_open calls) = 1 \<and> DbClose \<notin> set calls"
proof -
  have o: "db_is_open (OpenPostgres dsn)" "db_is_open (OpenSqlite dsn)" by (auto simp: db_is_open_def)
  show ?thesis
    unfolding NewBun_def Let_def
    by (auto split: prod.splits option.splits dialectKind.splits sum.splits
        dest: db_finish_balanced [OF o(1)] db_finish_balanced [OF o(2)])
qed

end
