(* ===== verification/Fibr_Test.thy ===== *)
theory Fibr_Test
  imports Toolkit "HOL-Library.List_Lexorder" "HOL-Library.Char_ord"
begin

text \<open>
  The test client (\<open>src/fibrtest\<close>): clients with default headers, requests built step by step, what
  is sent to the application, and the assertions on responses. What \<open>Fatalf\<close> has been called with
  is a list, the calls coming back as they do for a recording \<open>TB\<close>. Header names are made canonical
  and queries encoded as Go's \<open>net/textproto\<close> and \<open>net/url\<close> do; the application and the JSON
  encoder are parameters.
\<close>

section \<open>Header names and query strings\<close>

definition is_alnum :: "char \<Rightarrow> bool" where
  "is_alnum c \<longleftrightarrow> is_digit c \<or> is_lower c \<or> is_upper c"

definition is_token_char :: "char \<Rightarrow> bool" where
  "is_token_char c \<longleftrightarrow> is_alnum c \<or> c \<in> set (CHR 0x27 # ''!#$%&*+-.^_`|~'')"

fun canonical_from :: "bool \<Rightarrow> string \<Rightarrow> string" where
  "canonical_from upper [] = []"
| "canonical_from upper (c # cs) =
     (let c' = (if upper then to_upper c else to_lower c) in c' # canonical_from (c' = CHR ''-'') cs)"

definition CanonicalHeaderKey :: "string \<Rightarrow> string" where
  "CanonicalHeaderKey k = (if list_all is_token_char k then canonical_from True k else k)"

type_synonym header = "(string, string list) gomap"

definition header_Set :: "header \<Rightarrow> string \<Rightarrow> string \<Rightarrow> header" where
  "header_Set h k v = gm_put h (CanonicalHeaderKey k) [v]"

definition unreserved :: "char \<Rightarrow> bool" where
  "unreserved c \<longleftrightarrow> is_alnum c \<or> c \<in> set ''-_.~''"

definition escape_char :: "char \<Rightarrow> string" where
  "escape_char c =
     (if unreserved c then [c]
      else if c = CHR '' '' then ''+''
      else [CHR ''%'', to_upper (hex_char (chr_code c div 16)), to_upper (hex_char (chr_code c mod 16))])"

definition QueryEscape :: "string \<Rightarrow> string" where
  "QueryEscape s = concat (map escape_char s)"

fun QueryUnescape :: "string \<Rightarrow> string option" where
  "QueryUnescape [] = Some []"
| "QueryUnescape (c # cs) =
     (if c = CHR ''%'' then
        (case cs of
           a # b # rest \<Rightarrow>
             (case (hex_val a, hex_val b) of
                (Some x, Some y) \<Rightarrow> map_option ((#) (char_of (16 * x + y))) (QueryUnescape rest)
              | _ \<Rightarrow> None)
         | _ \<Rightarrow> None)
      else map_option ((#) (if c = CHR ''+'' then CHR '' '' else c)) (QueryUnescape cs))"

definition encode_param :: "string \<Rightarrow> string \<Rightarrow> string" where
  "encode_param k v = QueryEscape k @ ''='' @ QueryEscape v"

definition query_pairs :: "(string, string list) gomap \<Rightarrow> (string \<times> string) list" where
  "query_pairs q = concat (map (\<lambda>k. map (Pair k) (the (gm_get q k))) (sort (gm_keys q)))"

definition values_Encode :: "(string, string list) gomap \<Rightarrow> string" where
  "values_Encode q = Join ''&'' (map (\<lambda>(k, v). encode_param k v) (query_pairs q))"

section \<open>Clients and requests\<close>

datatype failure =
    MarshalFailed string
  | TestFailed string string string
  | ReadFailed string
  | StatusMismatch int int string
  | DecodeFailed string string
  | OpenDbFailed string
  | TokenFailed string

record test_client =
  tc_headers :: header
  tc_timeout :: duration

definition fibrtest_New :: test_client where
  "fibrtest_New = \<lparr>tc_headers = [], tc_timeout = 10000000000\<rparr>"

definition client_clone :: "test_client \<Rightarrow> test_client" where
  "client_clone c = \<lparr>tc_headers = map (\<lambda>(k, v). (k, [] @ v)) (tc_headers c), tc_timeout = tc_timeout c\<rparr>"

definition client_WithBearer :: "string \<Rightarrow> test_client \<Rightarrow> test_client" where
  "client_WithBearer token c =
     (let nc = client_clone c in nc\<lparr>tc_headers := header_Set (tc_headers nc) ''Authorization'' (''Bearer '' @ token)\<rparr>)"

definition client_WithHeader :: "string \<Rightarrow> string \<Rightarrow> test_client \<Rightarrow> test_client" where
  "client_WithHeader k v c = (let nc = client_clone c in nc\<lparr>tc_headers := header_Set (tc_headers nc) k v\<rparr>)"

definition client_WithTimeout :: "duration \<Rightarrow> test_client \<Rightarrow> test_client" where
  "client_WithTimeout d c = (client_clone c)\<lparr>tc_timeout := d\<rparr>"

record test_request =
  tr_client :: test_client
  tr_method :: string
  tr_path :: string
  tr_header :: header
  tr_query :: "(string, string list) gomap"
  tr_body :: "string option"
  tr_contentType :: string

definition client_Request :: "string \<Rightarrow> string \<Rightarrow> test_client \<Rightarrow> test_request" where
  "client_Request meth path c =
     \<lparr>tr_client = c, tr_method = meth, tr_path = path, tr_header = [], tr_query = [], tr_body = None, tr_contentType = []\<rparr>"

definition request_Body :: "string \<Rightarrow> string \<Rightarrow> test_request \<Rightarrow> test_request" where
  "request_Body raw contentType r = r\<lparr>tr_body := Some raw, tr_contentType := contentType\<rparr>"

definition request_JSON :: "string + string \<Rightarrow> test_request \<Rightarrow> failure list \<Rightarrow> failure list \<times> test_request" where
  "request_JSON encoded r fs =
     (case encoded of
        Inl e \<Rightarrow> (fs @ [MarshalFailed e], r)
      | Inr b \<Rightarrow> (fs, r\<lparr>tr_body := Some b, tr_contentType := ''application/json''\<rparr>))"

definition request_Header :: "string \<Rightarrow> string \<Rightarrow> test_request \<Rightarrow> test_request" where
  "request_Header k v r = r\<lparr>tr_header := header_Set (tr_header r) k v\<rparr>"

definition request_Bearer :: "string \<Rightarrow> test_request \<Rightarrow> test_request" where
  "request_Bearer token r = r\<lparr>tr_header := header_Set (tr_header r) ''Authorization'' (''Bearer '' @ token)\<rparr>"

definition request_Query :: "string \<Rightarrow> string \<Rightarrow> test_request \<Rightarrow> test_request" where
  "request_Query k v r =
     r\<lparr>tr_query := gm_put (tr_query r) k ((case gm_get (tr_query r) k of None \<Rightarrow> [] | Some vs \<Rightarrow> vs) @ [v])\<rparr>"

section \<open>Sending\<close>

record sent_request =
  sr_method :: string
  sr_target :: string
  sr_header :: header
  sr_body :: "string option"

definition copy_headers :: "header \<Rightarrow> header \<Rightarrow> header" where
  "copy_headers src dst = fold (\<lambda>(k, vs) h. fold (\<lambda>v h. header_Set h k v) vs h) src dst"

definition request_target :: "test_request \<Rightarrow> string" where
  "request_target r =
     (if gm_len (tr_query r) > 0
      then tr_path r @ (if CHR ''?'' \<in> set (tr_path r) then ''&'' else ''?'') @ values_Encode (tr_query r)
      else tr_path r)"

text \<open>\<open>initial\<close> is the header a new request of the library starts with.\<close>

definition request_build :: "header \<Rightarrow> test_request \<Rightarrow> sent_request" where
  "request_build initial r =
     (let h = copy_headers (tr_header r) (copy_headers (tc_headers (tr_client r)) initial)
      in \<lparr>sr_method = tr_method r, sr_target = request_target r,
          sr_header = (if tr_contentType r \<noteq> [] then header_Set h ''Content-Type'' (tr_contentType r) else h),
          sr_body = tr_body r\<rparr>)"

record test_response =
  ts_Raw :: "int option"
  ts_Body :: string

text \<open>
  The application answers within the time limit, in milliseconds, with a status and a body whose
  reading may fail. Building the request panics when the method or the target is malformed; then
  there is no result.
\<close>

definition request_Do ::
    "(string \<Rightarrow> string \<Rightarrow> header option) \<Rightarrow> (sent_request \<Rightarrow> int \<Rightarrow> 's \<Rightarrow> 's \<times> (string + int \<times> (string + string))) \<Rightarrow>
     test_request \<Rightarrow> 's \<Rightarrow> failure list \<Rightarrow> ('s \<times> failure list \<times> test_response) option" where
  "request_Do newRequest app r s fs =
     (case newRequest (tr_method r) (request_target r) of
        None \<Rightarrow> None
      | Some initial \<Rightarrow>
          (case app (request_build initial r) (go_div (tc_timeout (tr_client r)) millisecond) s of
             (s', Inl e) \<Rightarrow> Some (s', fs @ [TestFailed (tr_method r) (tr_path r) e], \<lparr>ts_Raw = None, ts_Body = []\<rparr>)
           | (s', Inr (status, Inl e)) \<Rightarrow> Some (s', fs @ [ReadFailed e], \<lparr>ts_Raw = Some status, ts_Body = []\<rparr>)
           | (s', Inr (status, Inr body)) \<Rightarrow> Some (s', fs, \<lparr>ts_Raw = Some status, ts_Body = body\<rparr>)))"

definition client_bodyRequest where
  "client_bodyRequest newRequest app meth path body c s fs =
     (let r = client_Request meth path c
      in case body of
           None \<Rightarrow> request_Do newRequest app r s fs
         | Some encoded \<Rightarrow> (case request_JSON encoded r fs of (fs', r') \<Rightarrow> request_Do newRequest app r' s fs'))"

definition client_Get where
  "client_Get newRequest app path c s fs = request_Do newRequest app (client_Request ''GET'' path c) s fs"

definition client_Post where
  "client_Post newRequest app path body c s fs = client_bodyRequest newRequest app ''POST'' path body c s fs"

definition client_Put where
  "client_Put newRequest app path body c s fs = client_bodyRequest newRequest app ''PUT'' path body c s fs"

definition client_Patch where
  "client_Patch newRequest app path body c s fs = client_bodyRequest newRequest app ''PATCH'' path body c s fs"

definition client_Delete where
  "client_Delete newRequest app path c s fs = request_Do newRequest app (client_Request ''DELETE'' path c) s fs"

section \<open>Responses, databases and tokens\<close>

definition response_Status :: "test_response \<Rightarrow> int" where
  "response_Status r = (case ts_Raw r of None \<Rightarrow> 0 | Some status \<Rightarrow> status)"

definition response_ExpectStatus :: "int \<Rightarrow> test_response \<Rightarrow> failure list \<Rightarrow> failure list" where
  "response_ExpectStatus code r fs =
     (let got = response_Status r in if got \<noteq> code then fs @ [StatusMismatch code got (ts_Body r)] else fs)"

definition response_JSON :: "(string \<Rightarrow> string + 'v) \<Rightarrow> test_response \<Rightarrow> failure list \<Rightarrow> failure list \<times> 'v option" where
  "response_JSON unmarshal r fs =
     (case unmarshal (ts_Body r) of Inl e \<Rightarrow> (fs @ [DecodeFailed e (ts_Body r)], None) | Inr v \<Rightarrow> (fs, Some v))"

definition response_Text :: "test_response \<Rightarrow> string" where
  "response_Text r = ts_Body r"

text \<open>The database is the connection string the driver opened; \<open>cleanup\<close> tells whether the test closes it.\<close>

definition fibrtest_NewDB :: "(string \<Rightarrow> string option) \<Rightarrow> bool \<Rightarrow> failure list \<Rightarrow> failure list \<times> (string \<times> bool) option" where
  "fibrtest_NewDB openSqlite cleanup fs =
     (case openSqlite ''file::memory:?cache=shared'' of
        Some e \<Rightarrow> (fs @ [OpenDbFailed e], None)
      | None \<Rightarrow> (fs, Some (''file::memory:?cache=shared'', cleanup)))"

definition fibrtest_Token :: "('c \<Rightarrow> string \<Rightarrow> string + string) \<Rightarrow> string \<Rightarrow> 'c \<Rightarrow> failure list \<Rightarrow> failure list \<times> string" where
  "fibrtest_Token generateToken secret claims fs =
     (case generateToken claims secret of Inl e \<Rightarrow> (fs @ [TokenFailed e], []) | Inr tok \<Rightarrow> (fs, tok))"

section \<open>What the application receives\<close>

lemma hex_val_upper: "d < 16 \<Longrightarrow> hex_val (to_upper (hex_char d)) = Some d"
  by (auto simp: hex_val_def hex_char_def to_upper_def is_digit_def is_lower_def)

lemma special_not_unreserved: "\<not> unreserved CHR ''%''" "\<not> unreserved CHR ''+''" "\<not> unreserved CHR ''&''" "\<not> unreserved CHR ''=''"
  "\<not> unreserved CHR '' ''" "\<not> unreserved CHR ''?''"
  by (simp_all add: unreserved_def is_alnum_def is_digit_def is_lower_def is_upper_def chr_code_def)

lemma unescape_char: "QueryUnescape (escape_char c @ s) = map_option ((#) c) (QueryUnescape s)"
proof -
  have "chr_code c div 16 < 16" using chr_code_less [of c] by simp
  moreover have "char_of (16 * (chr_code c div 16) + chr_code c mod 16) = c" by (simp add: chr_code_def)
  ultimately show ?thesis
    using special_not_unreserved by (auto simp: escape_char_def hex_val_upper)
qed

lemma QueryUnescape_Escape: "QueryUnescape (QueryEscape s) = Some s"
  by (induction s) (simp_all add: QueryEscape_def unescape_char)

lemma upper_hex_safe:
  assumes "d < 16" "c \<in> {CHR ''&'', CHR ''='', CHR ''?''}"
  shows "to_upper (hex_char d) \<noteq> c"
proof -
  have "hex_val c = None" using assms(2) by (auto simp: hex_val_def is_digit_def chr_code_def)
  then show ?thesis using hex_val_upper [OF assms(1)] by auto
qed

lemma QueryEscape_safe:
  assumes "c \<in> {CHR ''&'', CHR ''='', CHR ''?''}"
  shows "c \<notin> set (QueryEscape s)"
proof -
  have "c \<notin> set (escape_char x)" for x
  proof -
    have "chr_code x div 16 < 16" using chr_code_less [of x] by simp
    then show ?thesis
      using assms special_not_unreserved upper_hex_safe [OF _ assms, of "chr_code x div 16"]
        upper_hex_safe [OF _ assms, of "chr_code x mod 16"]
      by (auto simp: escape_char_def)
  qed
  then show ?thesis by (auto simp: QueryEscape_def)
qed

text \<open>Reading a query, as \<open>net/url.ParseQuery\<close> does: the parameters in order.\<close>

definition read_param :: "string \<Rightarrow> (string \<times> string) option" where
  "read_param s =
     (case Cut CHR ''='' s of
        None \<Rightarrow> map_option (\<lambda>k. (k, [])) (QueryUnescape s)
      | Some (a, b) \<Rightarrow>
          (case (QueryUnescape a, QueryUnescape b) of (Some k, Some v) \<Rightarrow> Some (k, v) | _ \<Rightarrow> None))"

definition ParseQuery :: "string \<Rightarrow> (string \<times> string) option list" where
  "ParseQuery s = (if s = [] then [] else map read_param (Split CHR ''&'' s))"

lemma read_param_encode: "read_param (encode_param k v) = Some (k, v)"
  using Cut_append [OF QueryEscape_safe, of "CHR ''=''" k "QueryEscape v"]
  by (simp add: read_param_def encode_param_def QueryUnescape_Escape)

lemma ParseQuery_Join:
  assumes "kvs \<noteq> []"
  shows "ParseQuery (Join ''&'' (map (\<lambda>(k, v). encode_param k v) kvs)) = map Some kvs"
proof -
  let ?ws = "map (\<lambda>(k, v). encode_param k v) kvs"
  have safe: "CHR ''&'' \<notin> set (encode_param k v)" for k v
    using QueryEscape_safe [of "CHR ''&''"] by (simp add: encode_param_def)
  have split: "Split CHR ''&'' (Join ''&'' ?ws) = ?ws"
    using assms safe by (intro Split_Join) auto
  then have "Join ''&'' ?ws \<noteq> []"
    using assms by (cases kvs) (auto simp: encode_param_def split: prod.splits)
  moreover have "map read_param ?ws = map Some kvs" by (simp add: read_param_encode case_prod_unfold o_def)
  ultimately show ?thesis unfolding ParseQuery_def split by simp
qed

lemma ParseQuery_Encode: "ParseQuery (values_Encode q) = map Some (query_pairs q)"
proof (cases "query_pairs q = []")
  case True
  then show ?thesis by (simp add: values_Encode_def ParseQuery_def)
next
  case False
  then show ?thesis unfolding values_Encode_def by (rule ParseQuery_Join)
qed

lemma query_pairs_key:
  assumes "gm_ok q"
  shows "map snd (filter (\<lambda>p. fst p = k) (query_pairs q)) = (case gm_get q k of None \<Rightarrow> [] | Some vs \<Rightarrow> vs)"
proof -
  have sel: "map snd (filter (\<lambda>p. fst p = k) (concat (map (\<lambda>k. map (Pair k) (f k)) ks))) = (if k \<in> set ks then f k else [])"
    if "distinct ks" for ks and f :: "string \<Rightarrow> string list"
    using that by (induction ks) (auto simp: filter_map o_def filter_empty_conv)
  have "distinct (sort (gm_keys q))" using gm_distinct_keys [OF assms] by simp
  from sel [OF this, of "\<lambda>k. the (gm_get q k)"] show ?thesis
    using gm_keys_get [of k q] gm_get_keys [of q k] by (auto simp: query_pairs_def split: option.splits)
qed

lemma query_added:
  assumes "gm_ok q"
  shows "gm_ok (tr_query (fold (\<lambda>(k, v). request_Query k v) kvs (r\<lparr>tr_query := q\<rparr>))) \<and>
    (case gm_get (tr_query (fold (\<lambda>(k, v). request_Query k v) kvs (r\<lparr>tr_query := q\<rparr>))) k of None \<Rightarrow> [] | Some vs \<Rightarrow> vs) =
      (case gm_get q k of None \<Rightarrow> [] | Some vs \<Rightarrow> vs) @ map snd (filter (\<lambda>p. fst p = k) kvs)"
  using assms
proof (induction kvs arbitrary: q)
  case (Cons p kvs)
  let ?q = "gm_put q (fst p) ((case gm_get q (fst p) of None \<Rightarrow> [] | Some vs \<Rightarrow> vs) @ [snd p])"
  have "(\<lambda>(k, v). request_Query k v) p (r\<lparr>tr_query := q\<rparr>) = r\<lparr>tr_query := ?q\<rparr>"
    by (simp add: request_Query_def case_prod_unfold)
  then show ?case using Cons.IH [of ?q] Cons.prems by (auto split: option.splits)
qed simp

lemma query_path: "tr_path (fold (\<lambda>(k, v). request_Query k v) kvs r) = tr_path r"
  by (induction kvs arbitrary: r) (auto simp: request_Query_def)

text \<open>
  The application receives the query parameters a test asked for: cutting the target at the
  question mark and reading the query gives, for every name, its values in the order they were
  added, whatever bytes they hold.
\<close>

theorem fibrtest_query_received:
  assumes "CHR ''?'' \<notin> set path" "kvs \<noteq> []" "r = fold (\<lambda>(k, v). request_Query k v) kvs (client_Request meth path c)"
  shows "\<exists>q ps. Cut CHR ''?'' (request_target r) = Some (path, q) \<and> ParseQuery q = map Some ps \<and>
    map snd (filter (\<lambda>p. fst p = k) ps) = map snd (filter (\<lambda>p. fst p = k) kvs)"
proof -
  let ?q = "tr_query r"
  have r: "r = fold (\<lambda>(k, v). request_Query k v) kvs ((client_Request meth path c)\<lparr>tr_query := []\<rparr>)"
    by (simp add: assms(3) client_Request_def)
  have q: "gm_ok ?q" "\<And>k. (case gm_get ?q k of None \<Rightarrow> [] | Some vs \<Rightarrow> vs) = map snd (filter (\<lambda>p. fst p = k) kvs)"
    using query_added [of "[]" kvs "client_Request meth path c"] unfolding r by simp_all
  have p: "tr_path r = path" unfolding assms(3) query_path by (simp add: client_Request_def)
  have "?q \<noteq> []" using q(2) [of "fst (hd kvs)"] assms(2) by (cases kvs) auto
  then have t: "request_target r = path @ CHR ''?'' # values_Encode ?q"
    using p assms(1) gm_len_0 [of ?q] by (simp add: request_target_def)
  have "Cut CHR ''?'' (request_target r) = Some (path, values_Encode ?q)"
    unfolding t using assms(1) by (rule Cut_append)
  moreover have "ParseQuery (values_Encode ?q) = map Some (query_pairs ?q)" by (rule ParseQuery_Encode)
  moreover have "map snd (filter (\<lambda>p. fst p = k) (query_pairs ?q)) = map snd (filter (\<lambda>p. fst p = k) kvs)"
    unfolding query_pairs_key [OF q(1)] by (rule q(2))
  ultimately show ?thesis by blast
qed

theorem fibrtest_query_received_witness:
  "\<exists>q ps. Cut CHR ''?'' (request_target (fold (\<lambda>(k, v). request_Query k v) [(''q'', ''a&b''), (''q'', '' '')]
      (client_Request ''GET'' ''/x'' fibrtest_New))) = Some (''/x'', q) \<and> ParseQuery q = map Some ps \<and>
    map snd (filter (\<lambda>p. fst p = ''q'') ps) = [''a&b'', '' '']"
  using fibrtest_query_received [of "''/x''" "[(''q'', ''a&b''), (''q'', '' '')]" _ "''GET''" fibrtest_New "''q''", OF _ _ refl] by simp

section \<open>Which headers are sent\<close>

lemma case_idem [simp]: "to_upper (to_upper c) = to_upper c" "to_lower (to_lower c) = to_lower c"
  by (auto simp: to_upper_def to_lower_def is_lower_def is_upper_def)

lemma canonical_from_idem: "canonical_from u (canonical_from u s) = canonical_from u s"
  by (induction s arbitrary: u) (auto simp: Let_def)

lemma token_case: "is_token_char c \<Longrightarrow> is_token_char (to_upper c) \<and> is_token_char (to_lower c)"
  by (auto simp: is_token_char_def is_alnum_def to_upper_def to_lower_def is_lower_def is_upper_def)

lemma token_canonical: "list_all is_token_char s \<Longrightarrow> list_all is_token_char (canonical_from u s)"
  by (induction s arbitrary: u) (auto simp: Let_def token_case)

lemma CanonicalHeaderKey_idem [simp]: "CanonicalHeaderKey (CanonicalHeaderKey k) = CanonicalHeaderKey k"
  by (auto simp: CanonicalHeaderKey_def canonical_from_idem token_canonical)

text \<open>Headers that were built with \<open>Set\<close>: canonical names, each with one value.\<close>

definition header_ok :: "header \<Rightarrow> bool" where
  "header_ok h \<longleftrightarrow> gm_ok h \<and> (\<forall>(k, vs)\<in>set h. CanonicalHeaderKey k = k \<and> (\<exists>v. vs = [v]))"

lemma header_ok_Nil [simp]: "header_ok []"
  by (simp add: header_ok_def)

lemma header_put_set: "set (gm_put m k v) \<subseteq> insert (k, v) (set m)"
  unfolding gm_put_def by (induction m) auto

lemma header_ok_Set [simp]: "header_ok h \<Longrightarrow> header_ok (header_Set h k v)"
proof -
  assume h: "header_ok h"
  have "CanonicalHeaderKey k' = k' \<and> (\<exists>v. vs = [v])" if "(k', vs) \<in> set (header_Set h k v)" for k' vs
  proof -
    have "(k', vs) = (CanonicalHeaderKey k, [v]) \<or> (k', vs) \<in> set h"
      using that header_put_set [of h "CanonicalHeaderKey k" "[v]"] unfolding header_Set_def by blast
    then show ?thesis using h unfolding header_ok_def by auto
  qed
  moreover have "gm_ok (header_Set h k v)" using h by (simp add: header_ok_def header_Set_def)
  ultimately show ?thesis unfolding header_ok_def by blast
qed

lemma client_ok:
  "header_ok (tc_headers fibrtest_New)"
  "header_ok (tc_headers c) \<Longrightarrow> header_ok (tc_headers (client_WithHeader k v c))"
  "header_ok (tc_headers c) \<Longrightarrow> header_ok (tc_headers (client_WithBearer tok c))"
  "header_ok (tr_header r) \<Longrightarrow> header_ok (tr_header (request_Header k v r))"
  "header_ok (tr_header r) \<Longrightarrow> header_ok (tr_header (request_Bearer tok r))"
  by (simp_all add: fibrtest_New_def client_WithHeader_def client_WithBearer_def client_clone_def Let_def
      request_Header_def request_Bearer_def)

lemma copy_headers_get:
  assumes "header_ok src"
  shows "gm_get (copy_headers src dst) k = (case gm_get src k of None \<Rightarrow> gm_get dst k | Some vs \<Rightarrow> Some vs)"
  using assms
proof (induction src arbitrary: dst)
  case (Cons p src)
  obtain k' v where p: "p = (k', [v])" "CanonicalHeaderKey k' = k'" using Cons.prems by (cases p) (auto simp: header_ok_def)
  have ok: "header_ok src" "k' \<notin> set (gm_keys src)" using Cons.prems p by (auto simp: header_ok_def gm_ok_def gm_keys_def)
  have "copy_headers (p # src) dst = copy_headers src (header_Set dst k' v)" by (simp add: copy_headers_def p)
  then show ?case using Cons.IH [OF ok(1), of "header_Set dst k' v"] ok(2) gm_get_keys [of src k'] p
    by (auto simp: header_Set_def split: option.splits)
qed (simp add: copy_headers_def)

text \<open>
  Which value a header is sent with: the content type of the body first, then what the request sets,
  then what the client sets, then the library's default.
\<close>

theorem fibrtest_header_precedence:
  assumes "header_ok (tc_headers (tr_client r))" "header_ok (tr_header r)"
  shows "gm_get (sr_header (request_build initial r)) k =
    (if tr_contentType r \<noteq> [] \<and> k = ''Content-Type'' then Some [tr_contentType r]
     else case gm_get (tr_header r) k of
            Some vs \<Rightarrow> Some vs
          | None \<Rightarrow> (case gm_get (tc_headers (tr_client r)) k of Some vs \<Rightarrow> Some vs | None \<Rightarrow> gm_get initial k))"
proof -
  have ct: "CanonicalHeaderKey ''Content-Type'' = ''Content-Type''" by code_simp
  have "gm_get (header_Set h ''Content-Type'' v) k = (if k = ''Content-Type'' then Some [v] else gm_get h k)" for h v
    unfolding header_Set_def ct by simp
  then show ?thesis
    using copy_headers_get [OF assms(1)] copy_headers_get [OF assms(2)]
    by (auto simp: request_build_def Let_def split: option.splits)
qed

theorem fibrtest_header_precedence_witness:
  "gm_get (sr_header (request_build [] (request_Bearer ''b'' (client_Request ''GET'' ''/'' (client_WithBearer ''a'' fibrtest_New)))))
     ''Authorization'' = Some [''Bearer b'']"
proof -
  let ?r = "request_Bearer ''b'' (client_Request ''GET'' ''/'' (client_WithBearer ''a'' fibrtest_New))"
  have h: "header_ok (tc_headers (tr_client ?r))" "header_ok (tr_header ?r)"
    by (auto simp: request_Bearer_def client_Request_def client_ok)
  have k: "CanonicalHeaderKey ''Authorization'' = ''Authorization''" by code_simp
  have "tr_contentType ?r = []" "gm_get (tr_header ?r) ''Authorization'' = Some [''Bearer b'']"
    by (simp_all add: request_Bearer_def client_Request_def header_Set_def k)
  then show ?thesis using fibrtest_header_precedence [OF h, of "[]" "''Authorization''"] by simp
qed

text \<open>
  \<open>NewDB\<close> promises a fresh database, but every call opens the same shared in-memory database: two
  of them that are open at the same time see each other's tables.
\<close>

theorem newdb_not_fresh:
  assumes "openSqlite ''file::memory:?cache=shared'' = None"
  shows "snd (fibrtest_NewDB openSqlite cl1 fs1) = Some (dsn, cl1) \<longleftrightarrow> snd (fibrtest_NewDB openSqlite cl2 fs2) = Some (dsn, cl2)"
  using assms by (simp add: fibrtest_NewDB_def)

theorem newdb_not_fresh_witness:
  "snd (fibrtest_NewDB (\<lambda>_. None) True []) = Some (''file::memory:?cache=shared'', True) \<longleftrightarrow>
   snd (fibrtest_NewDB (\<lambda>_. None) False []) = Some (''file::memory:?cache=shared'', False)"
  by (rule newdb_not_fresh) simp

end
