(* ===== verification/Command.thy ===== *)
theory Command
  imports Generator_Props
begin

text \<open>
  The commands of the generator (\<open>src/cmd/fibr/main.go\<close>): the flags of \<open>fibr new\<close> and \<open>fibr add module\<close>
  with their defaults, and the composition of resolving options with generating. The command
  line itself is parsed by its library: here it is a sub-command with its arguments and the flags
  that were given, in order.
\<close>

section \<open>Flags\<close>

datatype new_flag =
    FlagModule string
  | FlagDB string
  | FlagLayout string
  | FlagSample bool
  | FlagAuth bool
  | FlagTeam bool
  | FlagQueue bool
  | FlagMailer bool
  | FlagRealtime bool
  | FlagI18n bool
  | FlagDir string
  | FlagNoGit bool
  | FlagNoTidy bool
  | FlagHelpersVersion string
  | FlagLocal string

fun flag_name :: "new_flag \<Rightarrow> string" where
  "flag_name (FlagModule x) = ''module''"
| "flag_name (FlagDB x) = ''db''"
| "flag_name (FlagLayout x) = ''layout''"
| "flag_name (FlagSample x) = ''sample''"
| "flag_name (FlagAuth x) = ''auth''"
| "flag_name (FlagTeam x) = ''auth-with-team''"
| "flag_name (FlagQueue x) = ''queue''"
| "flag_name (FlagMailer x) = ''mailer''"
| "flag_name (FlagRealtime x) = ''realtime''"
| "flag_name (FlagI18n x) = ''i18n''"
| "flag_name (FlagDir x) = ''dir''"
| "flag_name (FlagNoGit x) = ''no-git''"
| "flag_name (FlagNoTidy x) = ''no-tidy''"
| "flag_name (FlagHelpersVersion x) = ''helpers-version''"
| "flag_name (FlagLocal x) = ''local''"

fun set_flag :: "new_flag \<Rightarrow> gen_options \<Rightarrow> gen_options" where
  "set_flag (FlagModule x) opts = opts\<lparr>go_Module := x\<rparr>"
| "set_flag (FlagDB x) opts = opts\<lparr>go_DB := x\<rparr>"
| "set_flag (FlagLayout x) opts = opts\<lparr>go_Layout := x\<rparr>"
| "set_flag (FlagSample x) opts = opts\<lparr>go_Sample := x\<rparr>"
| "set_flag (FlagAuth x) opts = opts\<lparr>go_Auth := x\<rparr>"
| "set_flag (FlagTeam x) opts = opts\<lparr>go_Team := x\<rparr>"
| "set_flag (FlagQueue x) opts = opts\<lparr>go_Queue := x\<rparr>"
| "set_flag (FlagMailer x) opts = opts\<lparr>go_Mailer := x\<rparr>"
| "set_flag (FlagRealtime x) opts = opts\<lparr>go_Realtime := x\<rparr>"
| "set_flag (FlagI18n x) opts = opts\<lparr>go_I18n := x\<rparr>"
| "set_flag (FlagDir x) opts = opts\<lparr>go_Dir := x\<rparr>"
| "set_flag (FlagNoGit x) opts = opts\<lparr>go_NoGit := x\<rparr>"
| "set_flag (FlagNoTidy x) opts = opts\<lparr>go_NoTidy := x\<rparr>"
| "set_flag (FlagHelpersVersion x) opts = opts\<lparr>go_HelpersVersion := x\<rparr>"
| "set_flag (FlagLocal x) opts = opts\<lparr>go_Local := x\<rparr>"

definition flag_defaults :: gen_options where
  "flag_defaults =
     \<lparr>go_Name = [], go_Module = [], go_DB = ''postgres'', go_Layout = ''ddd'', go_Sample = False, go_Auth = False,
      go_Team = False, go_Queue = False, go_Mailer = False, go_Realtime = False, go_I18n = False, go_Dir = [],
      go_NoGit = False, go_NoTidy = False, go_HelpersVersion = ''latest'', go_Local = []\<rparr>"

section \<open>Commands\<close>

datatype cmd_err = UsageErr | OptionErr opt_err | GenErr gen_err

definition newNewCmd ::
    "gen_env \<Rightarrow> bool \<Rightarrow> string list \<Rightarrow> new_flag list \<Rightarrow> terminal \<Rightarrow> gen_world \<Rightarrow> terminal \<times> gen_world \<times> cmd_err option" where
  "newNewCmd env tty args flags io w =
     (if length args > 1 then (io, w, Some UsageErr)
      else
        let o0 = fold set_flag flags flag_defaults;
            o1 = (case args of [name] \<Rightarrow> o0\<lparr>go_Name := name\<rparr> | _ \<Rightarrow> o0)
        in case options_Resolve tty (Some (\<lambda>n. n \<in> set (map flag_name flags))) o1 io of
             ((o2, Some e), io') \<Rightarrow> (io', w, Some (OptionErr e))
           | ((o2, None), io') \<Rightarrow> (case Generate env o2 w of (w', e) \<Rightarrow> (io', w', map_option GenErr e)))"

datatype add_flag = AddDir string | AddLayout string

fun set_add_flag :: "add_flag \<Rightarrow> add_options \<Rightarrow> add_options" where
  "set_add_flag (AddDir x) a = a\<lparr>ao_Dir := x\<rparr>"
| "set_add_flag (AddLayout x) a = a\<lparr>ao_Layout := x\<rparr>"

definition newAddModuleCmd :: "gen_env \<Rightarrow> string list \<Rightarrow> add_flag list \<Rightarrow> gen_world \<Rightarrow> gen_world \<times> cmd_err option" where
  "newAddModuleCmd env args flags w =
     (case args of
        [name] \<Rightarrow>
          (case AddModule env (fold set_add_flag flags \<lparr>ao_Name = name, ao_Dir = ''.'', ao_Layout = []\<rparr>) w of
             (w', e) \<Rightarrow> (w', map_option GenErr e))
      | _ \<Rightarrow> (w, Some UsageErr))"

datatype command = CmdNew "string list" "new_flag list" | CmdAddModule "string list" "add_flag list"

text \<open>The exit status of the process; an error goes to the standard error.\<close>

definition fibr_main :: "gen_env \<Rightarrow> bool \<Rightarrow> command \<Rightarrow> terminal \<Rightarrow> gen_world \<Rightarrow> terminal \<times> gen_world \<times> cmd_err option \<times> int" where
  "fibr_main env tty c io w =
     (case (case c of
              CmdNew args flags \<Rightarrow> newNewCmd env tty args flags io w
            | CmdAddModule args flags \<Rightarrow> (case newAddModuleCmd env args flags w of (w', e) \<Rightarrow> (io, w', e))) of
        (io', w', e) \<Rightarrow> (io', w', e, if e = None then 0 else 1))"

section \<open>What a run of the command does\<close>

lemma fold_set_flag_name: "go_Name (fold set_flag flags opts) = go_Name opts"
proof (induction flags arbitrary: opts)
  case (Cons f flags)
  then show ?case by (cases f) simp_all
qed simp

lemma options_Validate_name: "go_Name (fst (options_Validate opts)) = go_Name opts"
  by (simp add: options_Validate_def Let_def)

text \<open>
  Without a terminal nothing is asked: the project has the name of the argument, the process fails
  exactly when options are refused or generating fails, and refused options leave the file tree
  as it was and run no command.
\<close>

theorem fibr_new_batch:
  assumes "fibr_main env False (CmdNew [name] flags) io w = (io', w', e, status)"
  shows "io' = io \<and> (status = 0 \<longleftrightarrow> e = None) \<and>
    (case options_Validate ((fold set_flag flags flag_defaults)\<lparr>go_Name := name\<rparr>) of
       (opts, Some err) \<Rightarrow> w' = w \<and> e = Some (OptionErr err)
     | (opts, None) \<Rightarrow> go_Name opts = name \<and> Generate env opts w = (w', case e of Some (GenErr g) \<Rightarrow> Some g | _ \<Rightarrow> None))"
proof -
  let ?o = "(fold set_flag flags flag_defaults)\<lparr>go_Name := name\<rparr>"
  obtain opts err where v: "options_Validate ?o = (opts, err)" by fastforce
  have n: "go_Name opts = name" using options_Validate_name [of ?o] by (simp add: v)
  have r: "options_Resolve False (Some ch) ?o io = ((opts, err), io)" for ch
    by (simp add: options_Resolve_def v)
  show ?thesis
    using assms by (auto simp: fibr_main_def newNewCmd_def Let_def r v n split: option.splits prod.splits if_splits)
qed

theorem fibr_new_batch_witness:
  "options_Validate ((fold set_flag [] flag_defaults)\<lparr>go_Name := ''shop''\<rparr>) = (flag_defaults\<lparr>go_Name := ''shop''\<rparr>, Some ModuleRequired) \<and>
   snd (snd (fibr_main env False (CmdNew [''shop''] []) ([], []) demo_gen_world)) = (Some (OptionErr ModuleRequired), 1)"
proof -
  obtain io' w' e status where m: "fibr_main env False (CmdNew [''shop''] []) ([], []) demo_gen_world = (io', w', e, status)"
    using prod_cases4 by blast
  have v: "options_Validate ((fold set_flag [] flag_defaults)\<lparr>go_Name := ''shop''\<rparr>) = (flag_defaults\<lparr>go_Name := ''shop''\<rparr>, Some ModuleRequired)"
    by (simp add: options_Validate_def flag_defaults_def contains_dotdot_def)
  from fibr_new_batch [OF m] m v show ?thesis by (auto simp: fibr_main_def split: prod.splits)
qed

end
