(* ===== verification/Delivery.thy ===== *)
theory Delivery
  imports Outbox
begin

text \<open>
  The outbox and the inbox composed (\<open>src/outbox\<close> and \<open>src/inbox\<close>, ``end-to-end exactly-once-effect
  processing over an at-least-once transport''). Producers, any number of relays and a consumer
  run interleaved at the grain of one database statement or one publication; a relay may stop
  between any two of its statements and loads a fresh batch later. The runs of
  \<open>relay_process\<close> are runs of these steps.
\<close>

section \<open>The interleaved system\<close>

text \<open>
  A relay is where its loop is: the events of the loaded batch it has not finished, and whether
  the first of them is already published. The consumer gives every message an id and has
  acknowledged the messages for which \<open>Once\<close> returned no error.
\<close>

record ('d, 'p, 'c) delivery =
  dl_db :: 'd
  dl_broker :: 'p
  dl_relays :: "nat \<Rightarrow> event list \<times> bool"
  dl_consumer :: 'c
  dl_acked :: "(string \<times> string) list"

inductive dl_step ::
  "'d outbox_db \<Rightarrow> 'p publisher \<Rightarrow> ('p \<Rightarrow> (string \<times> string) list) \<Rightarrow> 'c inbox_db \<Rightarrow> (string \<times> string \<Rightarrow> string)
   \<Rightarrow> (string \<times> string \<Rightarrow> 'c \<Rightarrow> 'c \<times> string option) \<Rightarrow> ('d, 'p, 'c) delivery \<Rightarrow> ('d, 'p, 'c) delivery \<Rightarrow> bool"
  for D pub mlog I mid h where
  produce: "outbox_Enqueue D mar now topic (payload :: string) (dl_db s) = (d', res) \<Longrightarrow>
      dl_step D pub mlog I mid h s (s\<lparr>dl_db := d'\<rparr>)"
| load: "0 < batchSize (r :: relay) \<Longrightarrow> dl_relays s i = ([], False) \<Longrightarrow> db_pending D (batchSize r) (dl_db s) = (d', res) \<Longrightarrow>
      dl_step D pub mlog I mid h s
        (s\<lparr>dl_db := d', dl_relays := (dl_relays s)(i := (case res of Inl _ \<Rightarrow> [] | Inr es \<Rightarrow> es, False))\<rparr>)"
| publish: "dl_relays s i = (e # es, False) \<Longrightarrow> pub (ev_Topic e) (ev_Payload e) (dl_broker s) = (p', res) \<Longrightarrow>
      dl_step D pub mlog I mid h s
        (s\<lparr>dl_broker := p', dl_relays := (dl_relays s)(i := (if res = None then (e # es, True) else ([], False)))\<rparr>)"
| marked: "dl_relays s i = (e # es, True) \<Longrightarrow> db_mark D (ev_ID e) t (dl_db s) = (d', res) \<Longrightarrow>
      dl_step D pub mlog I mid h s
        (s\<lparr>dl_db := d', dl_relays := (dl_relays s)(i := (case res of Inl _ \<Rightarrow> [] | Inr _ \<Rightarrow> es, False))\<rparr>)"
| crash: "dl_step D pub mlog I mid h s (s\<lparr>dl_relays := (dl_relays s)(i := ([], False))\<rparr>)"
| deliver: "x \<in> set (mlog (dl_broker s)) \<Longrightarrow> inbox_Once I t (mid x) (h x) (dl_consumer s) = (c', res) \<Longrightarrow>
      dl_step D pub mlog I mid h s
        (s\<lparr>dl_consumer := c', dl_acked := (if res = None then x # dl_acked s else dl_acked s)\<rparr>)"

definition dl_init :: "'d \<Rightarrow> 'p \<Rightarrow> 'c \<Rightarrow> ('d, 'p, 'c) delivery" where
  "dl_init d p c = \<lparr>dl_db = d, dl_broker = p, dl_relays = (\<lambda>_. ([], False)), dl_consumer = c, dl_acked = []\<rparr>"

section \<open>The invariant\<close>

locale delivery_env = relay_env D rows pub mlog + inbox_table I marked work
  for D :: "'d outbox_db" and rows and pub :: "'p publisher" and mlog
    and I :: "'c inbox_db" and marked and work :: "'c \<Rightarrow> 'w" +
  fixes mid :: "string \<times> string \<Rightarrow> string" and h :: "string \<times> string \<Rightarrow> 'c \<Rightarrow> 'c \<times> string option"
    and eff :: "string \<times> string \<Rightarrow> 'w \<Rightarrow> 'w"
  assumes handler: "h x c = (c', None) \<Longrightarrow> work c' = eff x (work c) \<and> marked c' = marked c"
begin

definition keys :: "'d \<Rightarrow> (int \<times> string \<times> string) set" where
  "keys d = (\<lambda>e. (ev_ID e, msg e)) ` set (rows d)"

definition applied :: "'p \<Rightarrow> 'w \<Rightarrow> 'c \<Rightarrow> (string \<times> string) list \<Rightarrow> bool" where
  "applied p w0 c xs \<longleftrightarrow> (\<exists>ds. distinct (map mid ds) \<and> set ds \<subseteq> set (mlog p) \<and> marked c = mid ` set ds \<and>
     work c = fold eff ds w0 \<and> mid ` set xs \<subseteq> mid ` set ds)"

definition relay_inv :: "'d \<Rightarrow> 'p \<Rightarrow> event list \<times> bool \<Rightarrow> bool" where
  "relay_inv d p r \<longleftrightarrow> (\<forall>e\<in>set (fst r). (ev_ID e, msg e) \<in> keys d) \<and>
     (snd r \<longrightarrow> fst r \<noteq> [] \<and> msg (hd (fst r)) \<in> set (mlog p))"

definition dl_inv :: "'w \<Rightarrow> ('d, 'p, 'c) delivery \<Rightarrow> bool" where
  "dl_inv w0 s \<longleftrightarrow> sound (dl_db s) (dl_broker s) \<and> set (mlog (dl_broker s)) \<subseteq> msg ` set (rows (dl_db s)) \<and>
     (\<forall>i. relay_inv (dl_db s) (dl_broker s) (dl_relays s i)) \<and> applied (dl_broker s) w0 (dl_consumer s) (dl_acked s)"

lemma keys_msg: "keys d \<subseteq> keys d' \<Longrightarrow> msg ` set (rows d) \<subseteq> msg ` set (rows d')"
  unfolding keys_def by force

lemma keys_mark:
  assumes "rows d' = mark i t (rows d)"
  shows "keys d' = keys d"
proof -
  let ?k = "\<lambda>e. (ev_ID e, msg e)"
  have "map ?k (mark i t es) = map ?k es" for es by (induction es) (simp_all add: mark_def)
  then have "set (map ?k (mark i t (rows d))) = set (map ?k (rows d))" by simp
  then show ?thesis by (simp only: keys_def assms set_map)
qed

lemma relay_inv_mono: "relay_inv d p r \<Longrightarrow> keys d \<subseteq> keys d' \<Longrightarrow> set (mlog p) \<subseteq> set (mlog p') \<Longrightarrow> relay_inv d' p' r"
  by (auto simp: relay_inv_def)

lemma relay_inv_idle [simp]: "relay_inv d p ([], False)"
  by (simp add: relay_inv_def)

lemma applied_mono: "applied p w0 c xs \<Longrightarrow> set (mlog p) \<subseteq> set (mlog p') \<Longrightarrow> applied p' w0 c xs"
  unfolding applied_def by (meson order_trans)

lemma applied_deliver:
  assumes "applied p w0 c xs" "x \<in> set (mlog p)" "inbox_Once I t (mid x) (h x) c = (c', res)"
  shows "applied p w0 c' (if res = None then x # xs else xs)"
proof -
  obtain ds where ds: "distinct (map mid ds)" "set ds \<subseteq> set (mlog p)" "marked c = mid ` set ds"
    "work c = fold eff ds w0" "mid ` set xs \<subseteq> mid ` set ds" using assms(1) by (auto simp: applied_def)
  have hd: "handles (\<lambda>_. h x) (\<lambda>_. eff x)" using handler by (auto simp: handles_def)
  have o: "inbox_Once I t (mid x) ((\<lambda>_. h x) (mid x)) c = (c', res)" using assms(3) by simp
  note cases = Once_cases [OF hd o]
  have ack: "mid ` set (if res = None then x # xs else xs) \<subseteq> marked c'" if "marked c \<subseteq> marked c'"
    using order_trans [OF ds(5), of "marked c'"] that ds(3) cases(2) by (cases res) simp_all
  show ?thesis
  proof (cases "mid x \<in> marked c \<or> c' = c")
    case True
    then have "marked c' = marked c" "work c' = work c" using cases(1) by auto
    then show ?thesis using ds ack unfolding applied_def by (intro exI [of _ ds]) auto
  next
    case False
    then have "marked c' = insert (mid x) (marked c)" "work c' = eff x (work c)" using cases(1) by auto
    moreover have "mid x \<notin> set (map mid ds)" using False ds(3) by auto
    ultimately show ?thesis using ds ack assms(2) unfolding applied_def by (intro exI [of _ "ds @ [x]"]) auto
  qed
qed

text \<open>What the three kinds of change preserve: of the table, of the broker, of the consumer.\<close>

lemma inv_db:
  assumes "dl_inv w0 s" "keys (dl_db s) \<subseteq> keys d'" "sound d' (dl_broker s)" "relay_inv d' (dl_broker s) r"
  shows "dl_inv w0 (s\<lparr>dl_db := d', dl_relays := (dl_relays s)(i := r)\<rparr>)"
  using assms keys_msg [OF assms(2)] relay_inv_mono [OF _ assms(2) subset_refl] by (auto simp: dl_inv_def)

lemma inv_broker:
  assumes "dl_inv w0 s" "mlog p' = mlog (dl_broker s) \<or> mlog p' = mlog (dl_broker s) @ [msg e]"
    "(ev_ID e, msg e) \<in> keys (dl_db s)" "relay_inv (dl_db s) p' r"
  shows "dl_inv w0 (s\<lparr>dl_broker := p', dl_relays := (dl_relays s)(i := r)\<rparr>)"
proof -
  have sub: "set (mlog (dl_broker s)) \<subseteq> set (mlog p')" using assms(2) by auto
  have "msg e \<in> msg ` set (rows (dl_db s))" using assms(3) by (auto simp: keys_def)
  then show ?thesis
    using assms sound_log [OF _ sub] relay_inv_mono [OF _ subset_refl sub] applied_mono [OF _ sub]
    by (auto simp: dl_inv_def)
qed

lemma load_keys:
  assumes "db_pending D n d = (d', res)" "0 < n"
  shows "rows d' = rows d" "\<forall>e\<in>set (case res of Inl _ \<Rightarrow> [] | Inr es \<Rightarrow> es). (ev_ID e, msg e) \<in> keys d'"
proof -
  show r: "rows d' = rows d" using assms pending_ok pending_err by (cases res) blast+
  show "\<forall>e\<in>set (case res of Inl _ \<Rightarrow> [] | Inr es \<Rightarrow> es). (ev_ID e, msg e) \<in> keys d'"
    using assms pending_ok [of n d d'] r
    by (cases res) (auto simp: keys_def pending_def dest!: in_set_takeD)
qed

lemma enqueue_keys:
  assumes "outbox_Enqueue D mar now topic payload d = (d', res)" "sound d p"
  shows "keys d \<subseteq> keys d'" "sound d' p"
  using enqueue_rows(1) [OF assms(1)] assms(2) by (auto simp: keys_def sound_def set_insort_key)

lemma mark_keys:
  assumes "db_mark D (ev_ID e) t d = (d', res)" "sound d p" "(ev_ID e, msg e) \<in> keys d" "msg e \<in> set (mlog p)"
  shows "keys d' = keys d \<and> sound d' p"
proof -
  have r: "rows d' = rows d \<or> rows d' = mark (ev_ID e) t (rows d)"
    using assms(1) mark_ok mark_err by (cases res) blast+
  obtain e' where e': "e' \<in> set (rows d)" "ev_ID e' = ev_ID e" "msg e' = msg e" using assms(3) by (auto simp: keys_def)
  show ?thesis
  proof (cases "rows d' = rows d")
    case True
    then show ?thesis using assms(2) by (simp add: keys_def sound_def)
  next
    case False
    then have "rows d' = mark (ev_ID e') t (rows d)" using r e'(2) by simp
    then show ?thesis using mark_sound [OF assms(2) _ e'(1)] assms(4) e'(3) keys_mark by simp
  qed
qed

lemma dl_step_inv:
  assumes "dl_step D pub mlog I mid h s s'" "dl_inv w0 s"
  shows "dl_inv w0 s'"
  using assms(1)
proof cases
  case (produce mar now topic payload d' res)
  have snd: "sound (dl_db s) (dl_broker s)" using assms(2) by (simp add: dl_inv_def)
  show ?thesis
    using inv_db [OF assms(2) enqueue_keys [OF produce(2) snd], of "dl_relays s 0" 0]
      relay_inv_mono [OF _ enqueue_keys(1) [OF produce(2) snd] subset_refl] assms(2)
    by (simp add: produce(1) dl_inv_def)
next
  case (load r i d' res)
  have "sound d' (dl_broker s)" "keys (dl_db s) \<subseteq> keys d'"
    using load_keys(1) [OF load(4,2)] assms(2) by (auto simp: dl_inv_def sound_def keys_def)
  then show ?thesis unfolding load(1)
    by (intro inv_db [OF assms(2)]) (use load_keys(2) [OF load(4,2)] in \<open>simp_all add: relay_inv_def\<close>)
next
  case (publish i e es p' res)
  have r: "relay_inv (dl_db s) (dl_broker s) (e # es, False)" using assms(2) publish(2) by (metis dl_inv_def)
  have m: "mlog p' = mlog (dl_broker s) \<or> mlog p' = mlog (dl_broker s) @ [msg e]"
    "res = None \<Longrightarrow> msg e \<in> set (mlog p')"
    using publish(3) publish_ok publish_err by (cases res; force)+
  show ?thesis unfolding publish(1)
    by (intro inv_broker [OF assms(2) m(1)]) (use r m(2) in \<open>auto simp: relay_inv_def\<close>)
next
  case (marked i e es t d' res)
  have r: "relay_inv (dl_db s) (dl_broker s) (e # es, True)" using assms(2) marked(2) by (metis dl_inv_def)
  have k: "keys d' = keys (dl_db s) \<and> sound d' (dl_broker s)"
    using mark_keys [OF marked(3)] r assms(2) by (auto simp: relay_inv_def dl_inv_def)
  show ?thesis unfolding marked(1)
    by (intro inv_db [OF assms(2)]) (use r k in \<open>auto simp: relay_inv_def split: sum.splits\<close>)
next
  case (crash i)
  then show ?thesis using assms(2) by (auto simp: dl_inv_def)
next
  case (deliver x t c' res)
  then show ?thesis using assms(2) applied_deliver [OF _ deliver(2,3)] by (auto simp: dl_inv_def)
qed

lemma dl_run_inv: "(dl_step D pub mlog I mid h)\<^sup>*\<^sup>* s s' \<Longrightarrow> dl_inv w0 s \<Longrightarrow> dl_inv w0 s'"
  by (induction rule: rtranclp_induct) (auto intro: dl_step_inv)

lemma dl_init_inv:
  assumes "\<forall>e\<in>set (rows d). ev_PublishedAt e = None" "mlog p = []" "marked c = {}"
  shows "dl_inv (work c) (dl_init d p c)"
  using assms by (auto simp: dl_inv_def dl_init_def sound_def applied_def intro: exI [of _ "[]"])

text \<open>No event is forgotten: the rows keep their ids, topics and payloads along every run.\<close>

lemma dl_step_keys:
  assumes "dl_step D pub mlog I mid h s s'" "dl_inv w0 s"
  shows "keys (dl_db s) \<subseteq> keys (dl_db s')"
  using assms(1)
proof cases
  case (produce mar now topic payload d' res)
  then show ?thesis using enqueue_keys(1) [OF produce(2)] assms(2) by (auto simp: dl_inv_def)
next
  case (load r i d' res)
  then show ?thesis using load_keys(1) [OF load(4,2)] by (simp add: keys_def)
next
  case (marked i e es t d' res)
  have "relay_inv (dl_db s) (dl_broker s) (e # es, True)" using assms(2) marked(2) by (metis dl_inv_def)
  then show ?thesis using mark_keys [OF marked(3)] assms(2) marked(1) by (auto simp: relay_inv_def dl_inv_def)
qed auto

lemma dl_run_keys:
  assumes "(dl_step D pub mlog I mid h)\<^sup>*\<^sup>* s s'" "dl_inv w0 s"
  shows "keys (dl_db s) \<subseteq> keys (dl_db s')"
  using assms(1)
proof (induction rule: rtranclp_induct)
  case (step y z)
  then show ?case using dl_step_keys dl_run_inv [OF step.hyps(1) assms(2)] by blast
qed simp

text \<open>
  When every row is published and every broker message is acknowledged, the effects applied are
  exactly those of the rows.
\<close>

lemma inv_effects:
  assumes "dl_inv w0 s"
  shows "\<exists>ds. distinct (map mid ds) \<and> set ds \<subseteq> msg ` set (rows (dl_db s)) \<and> work (dl_consumer s) = fold eff ds w0 \<and>
    ((\<forall>e\<in>set (rows (dl_db s)). ev_PublishedAt e \<noteq> None) \<and> set (mlog (dl_broker s)) \<subseteq> set (dl_acked s) \<and>
     inj_on mid (msg ` set (rows (dl_db s))) \<longrightarrow> set ds = msg ` set (rows (dl_db s)))"
proof -
  let ?M = "msg ` set (rows (dl_db s))"
  obtain ds where ds: "distinct (map mid ds)" "set ds \<subseteq> set (mlog (dl_broker s))"
    "work (dl_consumer s) = fold eff ds w0" "mid ` set (dl_acked s) \<subseteq> mid ` set ds"
    using assms by (auto simp: dl_inv_def applied_def)
  have sub: "set ds \<subseteq> ?M" using ds(2) assms by (auto simp: dl_inv_def)
  have "set ds = ?M" if c: "\<forall>e\<in>set (rows (dl_db s)). ev_PublishedAt e \<noteq> None"
    "set (mlog (dl_broker s)) \<subseteq> set (dl_acked s)" "inj_on mid ?M"
  proof -
    have "?M \<subseteq> set (mlog (dl_broker s))" using assms c(1) by (auto simp: dl_inv_def sound_def)
    then have "mid ` ?M \<subseteq> mid ` set ds" using c(2) ds(4) by blast
    then have "mid ` set ds = mid ` ?M" using image_mono [OF sub] by (rule subset_antisym [rotated])
    then show ?thesis using inj_on_image_eq_iff [OF c(3) sub subset_refl] by simp
  qed
  then show ?thesis using ds(1,3) sub by blast
qed

end

section \<open>Runs of the relay are runs of the steps\<close>

definition relay_at :: "nat \<Rightarrow> 'd \<Rightarrow> 'p \<Rightarrow> event list \<times> bool \<Rightarrow> ('d, 'p, 'c) delivery \<Rightarrow> ('d, 'p, 'c) delivery" where
  "relay_at i d p r s = s\<lparr>dl_db := d, dl_broker := p, dl_relays := (dl_relays s)(i := r)\<rparr>"

lemma relay_at_simps [simp]:
  "dl_relays (relay_at i d p r s) i = r" "dl_db (relay_at i d p r s) = d" "dl_broker (relay_at i d p r s) = p"
  by (simp_all add: relay_at_def)

lemma relay_at_upd:
  "(relay_at i d p r s)\<lparr>dl_db := d', dl_relays := (dl_relays (relay_at i d p r s))(i := r')\<rparr> = relay_at i d' p r' s"
  "(relay_at i d p r s)\<lparr>dl_broker := p', dl_relays := (dl_relays (relay_at i d p r s))(i := r')\<rparr> = relay_at i d p' r' s"
  by (simp_all add: relay_at_def)

lemma publish_at:
  assumes "pub (ev_Topic e) (ev_Payload e) p = (p', res)"
  shows "dl_step D pub mlog I mid h (relay_at i d p (e # es, False) s)
    (relay_at i d p' (if res = None then (e # es, True) else ([], False)) s)"
  using dl_step.publish [of "relay_at i d p (e # es, False) s" i e es pub p' res] assms by (simp only: relay_at_upd relay_at_simps)

lemma marked_at:
  assumes "db_mark D (ev_ID e) t d = (d', res)"
  shows "dl_step D pub mlog I mid h (relay_at i d p (e # es, True) s)
    (relay_at i d' p (case res of Inl _ \<Rightarrow> [] | Inr _ \<Rightarrow> es, False) s)"
  using dl_step.marked [of "relay_at i d p (e # es, True) s" i e es D t d' res] assms by (simp only: relay_at_upd relay_at_simps)

lemma relay_loop_steps:
  assumes "relay_loop D pub clk es n d p = (d', p', n', err)"
  shows "(dl_step D pub mlog I mid h)\<^sup>*\<^sup>* (relay_at i d p (es, False) s) (relay_at i d' p' ([], False) s)"
  using assms
proof (induction es arbitrary: n d p)
  case (Cons e es)
  obtain p1 r where pb: "pub (ev_Topic e) (ev_Payload e) p = (p1, r)" by fastforce
  have s1: "dl_step D pub mlog I mid h (relay_at i d p (e # es, False) s)
      (relay_at i d p1 (if r = None then (e # es, True) else ([], False)) s)" by (rule publish_at) (rule pb)
  show ?case
  proof (cases r)
    case (Some x)
    then have "d' = d" "p' = p1" using Cons.prems pb by auto
    then show ?thesis using s1 Some by (simp add: r_into_rtranclp)
  next
    case None
    obtain d1 m where mk: "db_mark D (ev_ID e) (clk n) d = (d1, m)" by fastforce
    have s2: "dl_step D pub mlog I mid h (relay_at i d p1 (e # es, True) s)
        (relay_at i d1 p1 (case m of Inl _ \<Rightarrow> [] | Inr _ \<Rightarrow> es, False) s)" by (rule marked_at) (rule mk)
    have "(dl_step D pub mlog I mid h)\<^sup>*\<^sup>* (relay_at i d1 p1 (case m of Inl _ \<Rightarrow> [] | Inr _ \<Rightarrow> es, False) s) (relay_at i d' p' ([], False) s)"
      using Cons.prems Cons.IH [of "n + 1" d1 p1] pb None mk by (cases m) auto
    then show ?thesis using s1 s2 None by (simp add: converse_rtranclp_into_rtranclp)
  qed
qed simp

lemma relay_process_run:
  assumes "dl_relays s i = ([], False)" "0 < batchSize r"
    and "relay_process D pub r clk (dl_db s) (dl_broker s) = (d', p', n, err)"
  shows "(dl_step D pub mlog I mid h)\<^sup>*\<^sup>* s (s\<lparr>dl_db := d', dl_broker := p'\<rparr>)"
proof -
  obtain d1 res where ld: "db_pending D (batchSize r) (dl_db s) = (d1, res)" by fastforce
  let ?es = "case res of Inl _ \<Rightarrow> [] | Inr es \<Rightarrow> es"
  have idle: "relay_at i d' p' ([], False) s = s\<lparr>dl_db := d', dl_broker := p'\<rparr>"
    using assms(1) fun_upd_triv [of "dl_relays s" i] by (simp add: relay_at_def)
  have "dl_step D pub mlog I mid h s (relay_at i d1 (dl_broker s) (?es, False) s)"
    using dl_step.load [OF assms(2,1) ld] by (simp add: relay_at_def)
  moreover have "(dl_step D pub mlog I mid h)\<^sup>*\<^sup>* (relay_at i d1 (dl_broker s) (?es, False) s) (relay_at i d' p' ([], False) s)"
    using assms(3) ld by (cases res) (auto simp: relay_process_def intro: relay_loop_steps)
  ultimately show ?thesis unfolding idle by (rule converse_rtranclp_into_rtranclp)
qed


section \<open>Completing a run\<close>

lemma relay_loop_ok:
  assumes "\<forall>t b p. \<exists>p'. pub t b p = (p', None)" "\<forall>i t d. \<exists>d'. db_mark D i t d = (d', Inr ())"
  shows "\<exists>d' p'. relay_loop D pub clk es n d p = (d', p', n + int (length es), None)"
proof (induction es arbitrary: n d p)
  case (Cons e es)
  obtain p1 d1 where "pub (ev_Topic e) (ev_Payload e) p = (p1, None)" "db_mark D (ev_ID e) (clk n) d = (d1, Inr ())"
    using assms by metis
  with Cons.IH [of "n + 1" d1 p1] show ?case by (auto simp: add.assoc)
qed simp

lemma deliver_all:
  assumes "\<forall>x c t. snd (inbox_Once I t (mid x) (h x) c) = None" "set xs \<subseteq> set (mlog (dl_broker s))"
  shows "\<exists>c. (dl_step D pub mlog I mid h)\<^sup>*\<^sup>* s (s\<lparr>dl_consumer := c, dl_acked := xs @ dl_acked s\<rparr>)"
  using assms(2)
proof (induction xs)
  case Nil
  show ?case by (rule exI [of _ "dl_consumer s"]) simp
next
  case (Cons x xs)
  obtain c where c: "(dl_step D pub mlog I mid h)\<^sup>*\<^sup>* s (s\<lparr>dl_consumer := c, dl_acked := xs @ dl_acked s\<rparr>)"
    using Cons by auto
  obtain c' where "inbox_Once I 0 (mid x) (h x) c = (c', None)"
    using assms(1) by (metis prod.collapse)
  then have "dl_step D pub mlog I mid h (s\<lparr>dl_consumer := c, dl_acked := xs @ dl_acked s\<rparr>)
      (s\<lparr>dl_consumer := c', dl_acked := (x # xs) @ dl_acked s\<rparr>)"
    using dl_step.deliver [of x mlog "s\<lparr>dl_consumer := c, dl_acked := xs @ dl_acked s\<rparr>" I 0 mid h c' None D pub] Cons.prems
    by simp
  with c show ?case by (blast intro: rtranclp.rtrancl_into_rtrancl)
qed

context delivery_env
begin

lemma dl_completes:
  assumes "dl_inv w0 s" "\<forall>t b p. \<exists>p'. pub t b p = (p', None)" "\<forall>i t d. \<exists>d'. db_mark D i t d = (d', Inr ())"
    "\<forall>n d. \<exists>d' es. db_pending D n d = (d', Inr es)" "\<forall>x c t. snd (inbox_Once I t (mid x) (h x) c) = None"
  shows "\<exists>s'. (dl_step D pub mlog I mid h)\<^sup>*\<^sup>* s s' \<and> (\<forall>e\<in>set (rows (dl_db s')). ev_PublishedAt e \<noteq> None) \<and>
    set (mlog (dl_broker s')) \<subseteq> set (dl_acked s') \<and> map msg (rows (dl_db s')) = map msg (rows (dl_db s))"
proof -
  let ?s0 = "s\<lparr>dl_relays := (dl_relays s)(0 := ([], False))\<rparr>" and ?P = "pending (rows (dl_db s))"
  define r where "r = NewRelay [WithBatchSize (int (length ?P) + 1)]"
  have b: "batchSize r = int (length ?P) + 1" by (simp add: r_def NewRelay_def)
  obtain d1 es where ld: "db_pending D (batchSize r) (dl_db s) = (d1, Inr es)" using assms(4) by blast
  obtain d2 p2 where "relay_loop D pub (\<lambda>_. 0) es 0 d1 (dl_broker s) = (d2, p2, 0 + int (length es), None)"
    using relay_loop_ok [OF assms(2,3)] by blast
  then have pr: "relay_process D pub r (\<lambda>_. 0) (dl_db s) (dl_broker s) = (d2, p2, int (length es), None)"
    using ld by (simp add: relay_process_def)
  have "sound (dl_db s) (dl_broker s)" using assms(1) by (simp add: dl_inv_def)
  from process_spec [OF pr _ this] b have sp: "pending (rows d2) = []" "map msg (rows d2) = map msg (rows (dl_db s))"
    by (auto simp: min_def)
  have "dl_step D pub mlog I mid h s ?s0" by (rule dl_step.crash)
  moreover have "(dl_step D pub mlog I mid h)\<^sup>*\<^sup>* ?s0 (?s0\<lparr>dl_db := d2, dl_broker := p2\<rparr>)"
    by (rule relay_process_run [of _ 0 r _ _ "\<lambda>_. 0" d2 p2 "int (length es)" None]) (use b pr in simp_all)
  moreover obtain c where "(dl_step D pub mlog I mid h)\<^sup>*\<^sup>* (?s0\<lparr>dl_db := d2, dl_broker := p2\<rparr>)
      (?s0\<lparr>dl_db := d2, dl_broker := p2, dl_consumer := c, dl_acked := mlog p2 @ dl_acked s\<rparr>)"
    using deliver_all [OF assms(5), of "mlog p2" mlog "?s0\<lparr>dl_db := d2, dl_broker := p2\<rparr>" D pub] by auto
  ultimately have "(dl_step D pub mlog I mid h)\<^sup>*\<^sup>* s
      (?s0\<lparr>dl_db := d2, dl_broker := p2, dl_consumer := c, dl_acked := mlog p2 @ dl_acked s\<rparr>)"
    by (meson converse_rtranclp_into_rtranclp rtranclp_trans)
  then show ?thesis using sp 
    by (intro exI [of _ "?s0\<lparr>dl_db := d2, dl_broker := p2, dl_consumer := c, dl_acked := mlog p2 @ dl_acked s\<rparr>"] conjI)
       (auto simp: pending_def filter_empty_conv)
qed

end


section \<open>A system\<close>

text \<open>
  The environment on the concrete table, channel and inbox: the consumer appends the payload of
  each message to its list and takes the payload as the message's id.
\<close>

definition append_handler :: "string \<times> string \<Rightarrow> string list \<times> string list \<Rightarrow> (string list \<times> string list) \<times> string option" where
  "append_handler x c = ((fst c, snd c @ [snd x]), None)"

interpretation dlv: delivery_env table_db table_rows "redisPublisher_Publish channel_client" fst
  list_inbox "\<lambda>d. set (fst d)" snd snd append_handler "\<lambda>x w. w @ [snd x]"
  by unfold_locales (auto simp: append_handler_def)

type_synonym demo_delivery = "(table, (string \<times> string) list \<times> string option list, string list \<times> string list) delivery"

abbreviation demo_step :: "demo_delivery \<Rightarrow> demo_delivery \<Rightarrow> bool" where
  "demo_step \<equiv> dl_step table_db (redisPublisher_Publish channel_client) fst list_inbox snd append_handler"

lemma delivery_process:
  "relay_process table_db (redisPublisher_Publish channel_client) (NewRelay []) (\<lambda>_. 5) outbox_demo ([], [None])
     = (table_mark 1 5 outbox_demo, ([(''t'', ''b'')], []), 1, None)"
  by (simp add: relay_process_def table_db_def outbox_demo_rows pending_def NewRelay_def redisPublisher_Publish_def channel_client_def)

lemma delivery_marked_rows: "table_rows (table_mark 1 5 outbox_demo) =
    [\<lparr>ev_ID = 1, ev_Topic = ''t'', ev_Payload = ''b'', ev_CreatedAt = 0, ev_PublishedAt = Some 5\<rparr>]"
  using outbox_demo_rows by (simp add: table_mark.rep_eq table_rows.rep_eq mark_def)

text \<open>A producer enqueues, the relay publishes and marks, the message is delivered twice.\<close>

lemma delivery_run:
  "demo_step\<^sup>*\<^sup>* (dl_init table_empty ([], [None]) ([], []))
     \<lparr>dl_db = table_mark 1 5 outbox_demo, dl_broker = ([(''t'', ''b'')], []), dl_relays = (\<lambda>_. ([], False)),
      dl_consumer = ([''b''], [''b'']), dl_acked = [(''t'', ''b''), (''t'', ''b'')]\<rparr>"
proof -
  let ?s = "dl_init table_empty ([], [None]) ([], []) :: demo_delivery"
  let ?s1 = "?s\<lparr>dl_db := outbox_demo\<rparr>"
  let ?s2 = "?s1\<lparr>dl_db := table_mark 1 5 outbox_demo, dl_broker := ([(''t'', ''b'')], [])\<rparr>"
  let ?s3 = "?s2\<lparr>dl_consumer := ([''b''], [''b'']), dl_acked := [(''t'', ''b'')]\<rparr>"
  have "outbox_Enqueue table_db Inr 0 ''t'' ''b'' table_empty = (outbox_demo, None)"
    by (simp add: outbox_Enqueue_def table_db_def outbox_demo_def)
  then have 1: "demo_step ?s ?s1"
    using dl_step.produce [of table_db Inr 0 "''t''" "''b''" ?s outbox_demo None] by (simp add: dl_init_def)
  have 2: "demo_step\<^sup>*\<^sup>* ?s1 ?s2"
    by (rule relay_process_run [of _ 0 "NewRelay []" _ _ "\<lambda>_. 5" _ _ 1 None])
       (use delivery_process NewRelay_batch in \<open>simp_all add: dl_init_def\<close>)
  have 3: "demo_step ?s2 ?s3" "demo_step ?s3 (?s3\<lparr>dl_acked := [(''t'', ''b''), (''t'', ''b'')]\<rparr>)"
    using dl_step.deliver [of "(''t'', ''b'')" fst ?s2 list_inbox 0 snd append_handler "([''b''], [''b''])" None]
      dl_step.deliver [of "(''t'', ''b'')" fst ?s3 list_inbox 0 snd append_handler "([''b''], [''b''])" None]
    by (simp_all add: dl_init_def inbox_Once_def list_inbox_def append_handler_def)
  from 1 2 3 have "demo_step\<^sup>*\<^sup>* ?s (?s3\<lparr>dl_acked := [(''t'', ''b''), (''t'', ''b'')]\<rparr>)"
    by (meson converse_rtranclp_into_rtranclp rtranclp.rtrancl_into_rtrancl)
  then show ?thesis by (simp add: dl_init_def)
qed

section \<open>Properties\<close>

text \<open>
  C4. Exactly-once effect from end to end. Whatever the interleaving of producers, relays and
  redeliveries and whatever fails, the consumer's data is that of handling some of the enqueued
  events, each message id at most once; and once every row is marked as published and every message
  of the broker has been acknowledged, it has handled every enqueued event exactly once,
  provided different events have different ids.
\<close>

theorem delivery_exactly_once:
  assumes "delivery_env D rows pub mlog I marked work h eff"
    and "\<forall>e\<in>set (rows d). ev_PublishedAt e = None" "mlog p = []" "marked c = {}"
    and "(dl_step D pub mlog I mid h)\<^sup>*\<^sup>* (dl_init d p c) s"
    and "M = (\<lambda>e. (ev_Topic e, ev_Payload e)) ` set (rows (dl_db s))"
  shows "\<exists>ds. distinct (map mid ds) \<and> set ds \<subseteq> M \<and> work (dl_consumer s) = fold eff ds (work c) \<and>
      ((\<forall>e\<in>set (rows (dl_db s)). ev_PublishedAt e \<noteq> None) \<and> set (mlog (dl_broker s)) \<subseteq> set (dl_acked s) \<and> inj_on mid M
       \<longrightarrow> set ds = M)"
proof -
  have "delivery_env.dl_inv rows mlog marked work mid eff (work c) s"
    using delivery_env.dl_run_inv [OF assms(1,5)] delivery_env.dl_init_inv [where rows = rows, OF assms(1-4)] by blast
  from delivery_env.inv_effects [OF assms(1) this] show ?thesis unfolding assms(6) .
qed

theorem delivery_exactly_once_witness:
  "\<exists>s. demo_step\<^sup>*\<^sup>* (dl_init table_empty ([], [None]) ([], [])) s \<and>
     length (dl_acked s) = 2 \<and> snd (dl_consumer s) = [''b'']"
proof -
  obtain s :: demo_delivery where s: "s = \<lparr>dl_db = table_mark 1 5 outbox_demo, dl_broker = ([(''t'', ''b'')], []), dl_relays = (\<lambda>_. ([], False)),
      dl_consumer = ([''b''], [''b'']), dl_acked = [(''t'', ''b''), (''t'', ''b'')]\<rparr>" by simp
  have run: "demo_step\<^sup>*\<^sup>* (dl_init table_empty ([], [None]) ([], [])) s" using delivery_run s by simp
  have init: "\<forall>e\<in>set (table_rows table_empty). ev_PublishedAt e = None" by (simp add: table_empty.rep_eq table_rows.rep_eq)
  from delivery_exactly_once [where rows = table_rows, OF dlv.delivery_env_axioms init _ _ run refl]
  obtain ds where "distinct (map snd ds)" "set ds = {(''t'', ''b'')}" "snd (dl_consumer s) = fold (\<lambda>x w. w @ [snd x]) ds []"
    by (auto simp: s delivery_marked_rows)
  moreover from this have "ds = [(''t'', ''b'')]"
    by (cases ds) (auto simp: distinct_map subset_singleton_iff insert_eq_iff)
  ultimately show ?thesis using run s by (intro exI [of _ s]) simp
qed


definition log_client :: "(string \<times> string) list publisher" where
  "log_client topic payload p = (p @ [(topic, payload)], None)"

interpretation dll: delivery_env table_db table_rows "redisPublisher_Publish log_client" "\<lambda>p. p"
  list_inbox "\<lambda>d. set (fst d)" snd snd append_handler "\<lambda>x w. w @ [snd x]"
  by unfold_locales (auto simp: redisPublisher_Publish_def log_client_def append_handler_def)


text \<open>
  C27. A refinement of the relay's code. Every call of \<open>process\<close>, whatever it returns, is a run of
  the single steps of one relay, so what holds of all interleavings of those steps holds of any
  number of relays calling \<open>process\<close> at the same time.
\<close>

theorem relay_process_steps:
  assumes "dl_relays s i = ([], False)" "0 < batchSize r"
    and "relay_process D pub r clk (dl_db s) (dl_broker s) = (d', p', n, err)"
  shows "(dl_step D pub mlog I mid h)\<^sup>*\<^sup>* s (s\<lparr>dl_db := d', dl_broker := p'\<rparr>)"
  by (rule relay_process_run [OF assms])

theorem relay_process_steps_witness:
  "demo_step\<^sup>*\<^sup>* (dl_init outbox_demo ([], [None]) ([], []))
     ((dl_init outbox_demo ([], [None]) ([], []))\<lparr>dl_db := table_mark 1 5 outbox_demo, dl_broker := ([(''t'', ''b'')], [])\<rparr>)"
  by (rule relay_process_steps [of _ 0 "NewRelay []" _ _ "\<lambda>_. 5" _ _ 1 None])
     (use delivery_process NewRelay_batch in \<open>simp_all add: dl_init_def\<close>)

text \<open>
  Redis delivers a message to the clients subscribed at the moment and answers with their number,
  which \<open>redisPublisher\<close> does not read. What a subscriber receives is then not the log of a
  \<open>broker\<close>: with nobody subscribed the relay marks as published an event that no consumer gets.
\<close>

definition pubsub_client :: "(string \<times> string) list list publisher" where
  "pubsub_client topic payload subs = (map (\<lambda>got. got @ [(topic, payload)]) subs, None)"

theorem outbox_published_without_subscriber:
  "\<exists>d'. relay_process table_db (redisPublisher_Publish pubsub_client) (NewRelay []) (\<lambda>_. 5) outbox_demo [] = (d', [], 1, None) \<and>
     pending (table_rows d') = [] \<and> \<not> broker (redisPublisher_Publish pubsub_client) concat"
proof -
  have "redisPublisher_Publish pubsub_client ''t'' ''b'' [] = ([], None)"
    by (simp add: redisPublisher_Publish_def pubsub_client_def)
  then have "\<not> broker (redisPublisher_Publish pubsub_client) concat" using broker.publish_ok by fastforce
  then show ?thesis
    by (simp add: relay_process_def table_db_def outbox_demo_rows pending_def NewRelay_def redisPublisher_Publish_def
        pubsub_client_def table_mark.rep_eq [unfolded table_rows.rep_eq [symmetric]] mark_def)
qed

end
