(* ===== verification/Session.thy ===== *)
theory Session
  imports Auth
begin

text \<open>
  Sessions under concurrency. \<open>Issuer.Refresh\<close> (\<open>src/auth/issuer.go\<close>) makes up to three calls of
  the token store, and its comment says that the check and the rotation are not atomic. Here
  it is split at those calls, and any number of refreshes, logins, logouts and revocation
  checks run interleaved over a store that does not fail, while the clock advances.
\<close>

section \<open>Refresh in phases\<close>

datatype refresh_phase =
    Revoking claims              \<comment> \<open>a superseded token was presented, \<open>RevokeFamily\<close> comes next\<close>
  | Minting claims               \<comment> \<open>the token was the active one, \<open>mint\<close> comes next\<close>
  | Blocking claims token_pair   \<comment> \<open>rotated, \<open>Block\<close> of the old identifier comes next\<close>
  | Finished "auth_err + token_pair"

definition refresh_start :: "jwtlib \<Rightarrow> 's tstore \<Rightarrow> issuer \<Rightarrow> time \<Rightarrow> string \<Rightarrow> 's \<Rightarrow> 's \<times> refresh_phase" where
  "refresh_start lib ts i now refreshToken s =
     (case issuer_parseValid lib i now refreshToken of
        Inl _ \<Rightarrow> (s, Finished (Inl ErrInvalidToken))
      | Inr c \<Rightarrow>
          if claim_str c ''type'' \<noteq> ''refresh'' then (s, Finished (Inl ErrInvalidToken))
          else if claim_str c ''fid'' = [] \<or> claim_str c ''jti'' = [] then (s, Finished (Inl ErrInvalidToken))
          else
            (case ts_Family ts now (claim_str c ''fid'') s of
               (s1, Inl e) \<Rightarrow> (s1, Finished (Inl (StoreFailed e)))
             | (s1, Inr None) \<Rightarrow> (s1, Finished (Inl ErrInvalidToken))
             | (s1, Inr (Some active)) \<Rightarrow> (s1, if active \<noteq> claim_str c ''jti'' then Revoking c else Minting c)))"

fun refresh_next ::
  "jwtlib \<Rightarrow> 's tstore \<Rightarrow> issuer \<Rightarrow> time \<Rightarrow> string + string \<Rightarrow> string + string \<Rightarrow> refresh_phase \<Rightarrow> 's \<Rightarrow> 's \<times> refresh_phase" where
  "refresh_next lib ts i now id1 id2 (Revoking c) s =
     (fst (ts_RevokeFamily ts now (claim_str c ''fid'') s), Finished (Inl ErrTokenReuse))"
| "refresh_next lib ts i now id1 id2 (Minting c) s =
     (case issuer_mint lib ts i now id1 id2 c (claim_str c ''fid'') s of
        (s', Inl e) \<Rightarrow> (s', Finished (Inl e))
      | (s', Inr pair) \<Rightarrow> (s', Blocking c pair))"
| "refresh_next lib ts i now id1 id2 (Blocking c pair) s =
     (if remainingTTL now c > 0 then fst (ts_Block ts now (claim_str c ''jti'') (remainingTTL now c) s) else s,
      Finished (Inr pair))"
| "refresh_next lib ts i now id1 id2 (Finished r) s = (s, Finished r)"

text \<open>A call that is not interrupted is \<open>Refresh\<close>.\<close>

lemma refresh_uninterrupted:
  "refresh_start lib ts i now tok s = (s1, p1) \<Longrightarrow> refresh_next lib ts i now id1 id2 p1 s1 = (s2, p2) \<Longrightarrow>
   refresh_next lib ts i now id1 id2 p2 s2 = (s3, p3) \<Longrightarrow>
   \<exists>r. p3 = Finished r \<and> issuer_Refresh lib ts i now id1 id2 tok s = (s3, r)"
  by (auto simp: refresh_start_def issuer_Refresh_def split: sum.splits if_splits prod.splits option.splits)

section \<open>Interleaved sessions\<close>

text \<open>
  The calls of \<open>Refresh\<close> that are under way, by number, and the family identifiers drawn so far;
  a login draws a new one (16 random bytes).
\<close>

record 's sessions =
  se_now :: time
  se_store :: 's
  se_calls :: "nat \<Rightarrow> refresh_phase option"
  se_fids :: "string set"

inductive se_step :: "jwtlib \<Rightarrow> 's tstore \<Rightarrow> issuer \<Rightarrow> 's sessions \<Rightarrow> 's sessions \<Rightarrow> bool" for lib ts i where
  tick: "se_now x \<le> t \<Longrightarrow> se_step lib ts i x (x\<lparr>se_now := t\<rparr>)"
| issue: "idf \<notin> Inr ` se_fids x \<Longrightarrow> issuer_Issue lib ts i (se_now x) idf id1 id2 c (se_store x) = (s', res) \<Longrightarrow>
    se_step lib ts i x (x\<lparr>se_store := s', se_fids := se_fids x \<union> {f. idf = Inr f}\<rparr>)"
| start: "se_calls x n = None \<Longrightarrow> refresh_start lib ts i (se_now x) tok (se_store x) = (s', p) \<Longrightarrow>
    se_step lib ts i x (x\<lparr>se_store := s', se_calls := (se_calls x)(n \<mapsto> p)\<rparr>)"
| proceed: "se_calls x n = Some p \<Longrightarrow> refresh_next lib ts i (se_now x) id1 id2 p (se_store x) = (s', p') \<Longrightarrow>
    se_step lib ts i x (x\<lparr>se_store := s', se_calls := (se_calls x)(n \<mapsto> p')\<rparr>)"
| return: "se_calls x n = Some (Finished r) \<Longrightarrow> se_step lib ts i x (x\<lparr>se_calls := (se_calls x)(n := None)\<rparr>)"
| logout: "issuer_Logout lib ts i (se_now x) atok rtok (se_store x) = (s', e) \<Longrightarrow>
    se_step lib ts i x (x\<lparr>se_store := s'\<rparr>)"
| check: "auth_RequireAuth lib (se_now x) secret [WithBlocklist ts] q (se_store x) = (s', q', r) \<Longrightarrow>
    se_step lib ts i x (x\<lparr>se_store := s'\<rparr>)"

text \<open>
  A family is over when the store does not know it from now on and no call is about to set it.
\<close>

definition family_over :: "('s \<Rightarrow> string \<Rightarrow> time \<Rightarrow> string option) \<Rightarrow> string \<Rightarrow> 's sessions \<Rightarrow> bool" where
  "family_over fam f x \<longleftrightarrow> (\<forall>t\<ge>se_now x. fam (se_store x) f t = None) \<and>
     (\<forall>n c. se_calls x n = Some (Minting c) \<longrightarrow> claim_str c ''fid'' \<noteq> f) \<and> f \<in> se_fids x"

context reliable_store
begin

abbreviation fam_off where
  "fam_off f (now :: time) s \<equiv> \<forall>t\<ge>now. fam s f t = None"

lemma views_fam: "views_eq blocked fam now B F s s' \<Longrightarrow> f \<notin> F \<Longrightarrow> fam_off f now s \<Longrightarrow> fam_off f now s'"
  by (simp add: views_eq_def)

lemma block_off: "fam_off f now s \<Longrightarrow> fam_off f now (fst (ts_Block ts now j ttl s))"
  by (simp add: Block_frame)

lemma read_off: "ts_Family ts now g s = (s', r) \<Longrightarrow> fam_off f now s \<Longrightarrow> fam_off f now s'"
  using Family_ok [of now g s s'] Family_total [of now g s] views_fam [of now "{}" "{}" s s' f] by auto

lemma revoke_off:
  assumes "fam_off f now s"
  shows "fam_off f now (fst (ts_RevokeFamily ts now g s))"
proof -
  obtain s' where s': "ts_RevokeFamily ts now g s = (s', None)" using revoke_total by blast
  then show ?thesis using Revoke_ok [OF s'] assms views_fam [of now "{}" "{g}" s s' f] by (cases "f = g") auto
qed

lemma mint_off:
  assumes "issuer_mint lib ts i now id1 id2 c g s = (s', r)" "fam_off f now s" "g \<noteq> f" "refreshTTL i \<ge> millisecond"
  shows "fam_off f now s'"
proof -
  have set: "fam_off f now (fst (ts_SetFamily ts now g j (refreshTTL i) s))" for j
  proof -
    obtain s1 where s1: "ts_SetFamily ts now g j (refreshTTL i) s = (s1, None)"
      using SetFamily_total [of now g j "refreshTTL i" s] by (cases "ts_SetFamily ts now g j (refreshTTL i) s") auto
    then show ?thesis using SetFamily_ok [OF s1 assms(4)] views_fam [of now "{}" "{g}" s s1 f] assms(2,3) by simp
  qed
  have "s' = s \<or> (\<exists>j. s' = fst (ts_SetFamily ts now g j (refreshTTL i) s))"
    using assms(1) by (auto simp: issuer_mint_def Let_def split: sum.splits prod.splits option.splits) (metis fst_conv)+
  then show ?thesis using set assms(2) by auto
qed

lemma start_off:
  assumes "refresh_start lib ts i now tok s = (s', p)" "fam_off f now s"
  shows "fam_off f now s'" and "\<forall>c. p = Minting c \<longrightarrow> claim_str c ''fid'' \<noteq> f"
proof -
  have "s' = s \<and> (\<forall>c. p \<noteq> Minting c) \<or> (\<exists>c r. ts_Family ts now (claim_str c ''fid'') s = (s', r) \<and>
      (\<forall>c'. p = Minting c' \<longrightarrow> c' = c \<and> (\<exists>a. r = Inr (Some a))))"
    using assms(1) by (auto simp: refresh_start_def split: sum.splits if_splits prod.splits option.splits)
  then show "fam_off f now s'" "\<forall>c. p = Minting c \<longrightarrow> claim_str c ''fid'' \<noteq> f"
    using read_off [of now _ s s' _ f] assms(2) Family_ok [of now _ s s'] by fastforce+
qed

lemma next_off:
  assumes "refresh_next lib ts i now id1 id2 p s = (s', p')" "fam_off f now s" "refreshTTL i \<ge> millisecond"
    and "\<forall>c. p = Minting c \<longrightarrow> claim_str c ''fid'' \<noteq> f"
  shows "fam_off f now s'" and "p' \<noteq> Minting c"
  using assms revoke_off [OF assms(2)] block_off [OF assms(2)] mint_off [OF _ assms(2) _ assms(3)]
  by (cases p; fastforce split: prod.splits sum.splits if_splits)+

lemma logout_off:
  assumes "fam_off f now s"
  shows "fam_off f now (fst (issuer_Logout lib ts i now atok rtok s))"
proof -
  have a: "fam_off f now (fst (logout_access lib ts i now atok s))"
    using assms block_off [OF assms] by (simp add: logout_access_def split: sum.split)
  have "fam_off f now (fst (logout_refresh lib ts i now rtok s1))" if "fam_off f now s1" for s1
    using that revoke_off [OF that] by (simp add: logout_refresh_def split: sum.split)
  from this [OF a] show ?thesis by (simp add: issuer_Logout_def case_prod_beta)
qed

lemma check_off:
  assumes "auth_RequireAuth lib now secret opts q s = (s', q', r)" "store (auth_newConfig opts) = Some ts" "fam_off f now s"
  shows "fam_off f now s'"
proof -
  have "fam_off f now (fst (ts_IsBlocked ts now j s))" for j
    using IsBlocked_ok [of now j s] IsBlocked_total [of now j s] views_fam [of now "{}" "{}" s _ f] assms(3)
    by (cases "ts_IsBlocked ts now j s") auto
  moreover have "s' = s \<or> (\<exists>j. s' = fst (ts_IsBlocked ts now j s))"
    using assms(1,2) by (auto simp: auth_RequireAuth_def auth_blocklisted_def Let_def
        split: option.splits if_splits prod.splits sum.splits bool.splits) (metis fst_conv)+
  ultimately show ?thesis using assms(3) by auto
qed

lemma se_step_over:
  assumes "se_step lib ts i x x'" "family_over fam f x" "refreshTTL i \<ge> millisecond"
  shows "family_over fam f x'"
proof -
  have off: "fam_off f (se_now x) (se_store x)" using assms(2) by (simp add: family_over_def)
  show ?thesis using assms(1)
  proof cases
    case (tick t)
    then show ?thesis using assms(2) by (simp add: family_over_def)
  next
    case (issue idf id1 id2 c s' res)
    have "s' = se_store x \<or> (\<exists>g r. g \<noteq> f \<and> issuer_mint lib ts i (se_now x) id1 id2 c g (se_store x) = (s', r))"
      using issue(2,3) assms(2) by (auto simp: issuer_Issue_def family_over_def split: if_splits sum.splits)
    then have "fam_off f (se_now x) s'"
    proof (elim disjE exE conjE)
      fix g r assume "g \<noteq> f" "issuer_mint lib ts i (se_now x) id1 id2 c g (se_store x) = (s', r)"
      then show ?thesis using mint_off [OF _ off _ assms(3)] by metis
    qed (use off in simp)
    then show ?thesis using assms(2) issue(1) by (simp add: family_over_def)
  next
    case (start n tok s' p)
    then show ?thesis using assms(2) start_off [OF start(3) off] by (simp add: family_over_def)
  next
    case (proceed n p id1 id2 s' p')
    have p: "\<forall>c. p = Minting c \<longrightarrow> claim_str c ''fid'' \<noteq> f" using proceed(2) assms(2) by (auto simp: family_over_def)
    show ?thesis using proceed(1) assms(2) next_off [OF proceed(3) off assms(3) p] by (auto simp: family_over_def)
  next
    case (return n r)
    then show ?thesis using assms(2) by (simp add: family_over_def)
  next
    case (logout atok rtok s' e)
    then show ?thesis using assms(2) logout_off [OF off, of lib i atok rtok] by (simp add: family_over_def)
  next
    case (check secret q s' q' r)
    then show ?thesis using assms(2) check_off [OF check(2) _ off] by (simp add: family_over_def auth_newConfig_def)
  qed
qed

lemma se_run_over:
  assumes "(se_step lib ts i)\<^sup>*\<^sup>* x x'" "family_over fam f x" "refreshTTL i \<ge> millisecond"
  shows "family_over fam f x'"
  using assms by (induction rule: rtranclp_induct) (auto intro: se_step_over)

lemma over_rejected:
  assumes "family_over fam f x" "issuer_parseValid lib i (se_now x) tok = Inr c" "claim_str c ''fid'' = f"
  shows "snd (refresh_start lib ts i (se_now x) tok (se_store x)) = Finished (Inl ErrInvalidToken)"
proof -
  obtain s1 where "ts_Family ts (se_now x) f (se_store x) = (s1, Inr None)"
    using family_read [of "se_now x" f "se_store x"] assms(1) by (auto simp: family_over_def)
  with assms(2,3) show ?thesis by (simp add: refresh_start_def)
qed

end

section \<open>Sample sessions\<close>

definition rotated_refresh :: claims where
  "rotated_refresh = [(''sub'', JStr ''u1''), (''type'', JStr ''refresh''), (''fid'', JStr ''f''), (''jti'', JStr ''R2''),
     (''exp'', JFloat 100)]"

definition rotating_lib :: jwtlib where
  "rotating_lib = table_lib [(''R'', 100 * second, sample_refresh), (''A'', 100 * second, sample_access),
     (''R2'', 100 * second, rotated_refresh)]"

lemma rotating_parse:
  "t < 100 * second \<Longrightarrow> issuer_parseValid rotating_lib (NewIssuer ''k'' []) t ''R'' = Inr sample_refresh"
  "t < 100 * second \<Longrightarrow> issuer_parseValid rotating_lib (NewIssuer ''k'' []) t ''A'' = Inr sample_access"
  "t < 100 * second \<Longrightarrow> issuer_parseValid rotating_lib (NewIssuer ''k'' []) t ''R2'' = Inr rotated_refresh"
  by (simp_all add: sample_defs rotating_lib_def rotated_refresh_def)

lemmas rotating_defs = rotating_lib_def rotated_refresh_def sample_defs memory_store_def memory_Family_def memory_SetFamily_def
  memory_RevokeFamily_def memory_Block_def NewMemoryStore_def go_defs issuer_mint_def copy_claims_def
  jwt_GenerateTokenWithExpiry_def

lemma rotating_start:
  "refresh_start rotating_lib memory_store (NewIssuer ''k'' []) 1 ''R'' sample_store = (sample_store, Minting sample_refresh)"
  by (simp add: refresh_start_def rotating_defs)

section \<open>Properties\<close>

text \<open>
  C5. Revocation is final. Once a family of refresh tokens is over, because a logout or a
  detected reuse has revoked it or its time has passed, and no call of \<open>Refresh\<close> for it is between
  its check and its rotation, no later call accepts any of its tokens, whatever any number of
  clients do in whatever interleaving.
\<close>

theorem revocation_is_final:
  assumes "reliable_store ts blocked fam" "refreshTTL i \<ge> millisecond"
    and "family_over fam f x" "(se_step lib ts i)\<^sup>*\<^sup>* x x'"
    and "issuer_parseValid lib i (se_now x') tok = Inr c" "claim_str c ''fid'' = f"
  shows "snd (refresh_start lib ts i (se_now x') tok (se_store x')) = Finished (Inl ErrInvalidToken) \<and>
    (\<forall>n c'. se_calls x' n = Some (Minting c') \<longrightarrow> claim_str c' ''fid'' \<noteq> f)"
proof -
  have over: "family_over fam f x'" using reliable_store.se_run_over [OF assms(1,4,3,2)] .
  then show ?thesis using reliable_store.over_rejected [OF assms(1) over assms(5,6)] by (simp add: family_over_def)
qed

theorem revocation_is_final_witness:
  "\<exists>x'. (se_step rotating_lib memory_store (NewIssuer ''k'' []))\<^sup>*\<^sup>*
       \<lparr>se_now = 1, se_store = NewMemoryStore, se_calls = (\<lambda>_. None), se_fids = {''f''}\<rparr> x' \<and> se_calls x' 0 \<noteq> None \<and>
     snd (refresh_start rotating_lib memory_store (NewIssuer ''k'' []) 1 ''R'' (se_store x')) = Finished (Inl ErrInvalidToken)"
proof -
  let ?x = "\<lparr>se_now = 1, se_store = NewMemoryStore, se_calls = (\<lambda>_. None), se_fids = {''f''}\<rparr>"
  obtain s1 p where st: "refresh_start rotating_lib memory_store (NewIssuer ''k'' []) 1 ''R'' NewMemoryStore = (s1, p)" by fastforce
  let ?x' = "?x\<lparr>se_store := s1, se_calls := (se_calls ?x)(0 \<mapsto> p)\<rparr>"
  have run: "(se_step rotating_lib memory_store (NewIssuer ''k'' []))\<^sup>*\<^sup>* ?x ?x'"
    using se_step.start [of ?x 0 rotating_lib memory_store "NewIssuer ''k'' []" "''R''" s1 p] st by simp
  have over: "family_over memory_fam ''f'' ?x" by (simp add: family_over_def memory_fam_def NewMemoryStore_def)
  have ttl: "refreshTTL (NewIssuer ''k'' []) \<ge> millisecond" by (rule sample_ttl)
  have tok: "issuer_parseValid rotating_lib (NewIssuer ''k'' []) (se_now ?x') ''R'' = Inr sample_refresh"
    by (simp add: rotating_parse go_defs)
  have "claim_str sample_refresh ''fid'' = ''f''" by (simp add: claim_str_def sample_refresh_def)
  from revocation_is_final [OF mem.reliable_store_axioms ttl over run tok this]
  show ?thesis using run by (intro exI [of _ ?x']) simp
qed

text \<open>
  The race that the comment of \<open>Refresh\<close> describes: two calls with the same token that both pass the
  check both return a pair, and the token of the one that rotated first is then superseded;
  presenting it is reported as reuse and ends the family.
\<close>

theorem refresh_race:
  assumes "issuer_parseValid lib i now tok = Inr c"
    and "refresh_start lib memory_store i now tok s = (s1, Minting c)"
    and "issuer_mint lib memory_store i now id1 (Inr r1) c (claim_str c ''fid'') s1 = (s2, Inr pair1)"
    and "issuer_mint lib memory_store i now id3 (Inr r2) c (claim_str c ''fid'') s2 = (s3, Inr pair2)"
    and "r1 \<noteq> r2" "refreshTTL i \<ge> millisecond" "now \<le> t" "t < now + redis_ttl (refreshTTL i)"
    and "issuer_parseValid lib i t tok1 = Inr c1" "refresh_claims c1"
    and "claim_str c1 ''fid'' = claim_str c ''fid''" "claim_str c1 ''jti'' = r1"
  shows "snd (refresh_start lib memory_store i now tok s1) = Minting c \<and>
    (\<exists>s4. issuer_Refresh lib memory_store i t id5 id6 tok1 s3 = (s4, Inl ErrTokenReuse) \<and>
      (\<forall>t'\<ge>t. memory_fam s4 (claim_str c ''fid'') t' = None))"
proof -
  have c: "claim_str c ''type'' = ''refresh''" "claim_str c ''fid'' \<noteq> []" "claim_str c ''jti'' \<noteq> []"
    and f: "memory_Family now (claim_str c ''fid'') s = (s1, Inr (Some (claim_str c ''jti'')))"
    using assms(1,2) by (auto simp: refresh_start_def memory_store_def split: if_splits prod.splits sum.splits option.splits)
  have "memory_Family now (claim_str c ''fid'') s1 = (s1, Inr (Some (claim_str c ''jti'')))"
    using f by (auto simp: memory_Family_def split: option.splits if_splits)
  then have again: "snd (refresh_start lib memory_store i now tok s1) = Minting c"
    using assms(1) c by (simp add: refresh_start_def memory_store_def)
  have sf: "ts_SetFamily memory_store now (claim_str c ''fid'') r2 (refreshTTL i) s2 = (s3, None)"
    using mint_ok [OF assms(4)] by (metis sum.inject(2))
  have "memory_fam s3 (claim_str c1 ''fid'') t = Some r2" using mem.SetFamily_ok [OF sf assms(6)] assms(7,8,11) by simp
  from mem.reuse_revokes [OF assms(9,10) this, of id5 id6] assms(5,11,12) again show ?thesis by auto
qed

theorem refresh_race_witness:
  "\<exists>s2 s3 s4 p1 p2. issuer_mint rotating_lib memory_store (NewIssuer ''k'' []) 1 (Inr ''A1'') (Inr ''R2'') sample_refresh ''f'' sample_store = (s2, Inr p1) \<and>
     issuer_mint rotating_lib memory_store (NewIssuer ''k'' []) 1 (Inr ''A3'') (Inr ''R3'') sample_refresh ''f'' s2 = (s3, Inr p2) \<and>
     issuer_Refresh rotating_lib memory_store (NewIssuer ''k'' []) 2 (Inr ''A4'') (Inr ''R4'') ''R2'' s3 = (s4, Inl ErrTokenReuse)"
proof -
  let ?i = "NewIssuer ''k'' []"
  have f: "claim_str sample_refresh ''fid'' = ''f''" "claim_str rotated_refresh ''fid'' = ''f''"
    "claim_str rotated_refresh ''jti'' = ''R2''" "refresh_claims rotated_refresh"
    by (simp_all add: claim_str_def sample_refresh_def rotated_refresh_def refresh_claims_def)
  obtain s2 p1 where m1: "issuer_mint rotating_lib memory_store ?i 1 (Inr ''A1'') (Inr ''R2'') sample_refresh (claim_str sample_refresh ''fid'') sample_store = (s2, Inr p1)"
    by (simp add: rotating_defs)
  obtain s3 p2 where m2: "issuer_mint rotating_lib memory_store ?i 1 (Inr ''A3'') (Inr ''R3'') sample_refresh (claim_str sample_refresh ''fid'') s2 = (s3, Inr p2)"
    by (simp add: rotating_defs)
  from refresh_race [OF rotating_parse(1) rotating_start m1 m2 _ sample_ttl rotating_parse(3) f(4) _ f(3), of "Inr ''A4''" "Inr ''R4''"]
  show ?thesis using m1 m2 by (simp add: f(1,2) go_defs) blast
qed

text \<open>
  The premise on calls under way is needed. A refresh that has passed its check sets the
  family after a logout has revoked it: \<open>Logout\<close> has answered without an error, and
  the refresh token of the late pair is accepted.
\<close>

theorem logout_undone_by_refresh:
  "\<exists>s2 s3 s4 pair pair'.
     refresh_start rotating_lib memory_store (NewIssuer ''k'' []) 1 ''R'' sample_store = (sample_store, Minting sample_refresh) \<and>
     issuer_Logout rotating_lib memory_store (NewIssuer ''k'' []) 2 ''A'' ''R'' sample_store = (s2, None) \<and>
     memory_fam s2 ''f'' 2 = None \<and>
     refresh_next rotating_lib memory_store (NewIssuer ''k'' []) 3 (Inr ''A2'') (Inr ''R2'') (Minting sample_refresh) s2
       = (s3, Blocking sample_refresh pair) \<and> RefreshToken pair = ''R2'' \<and>
     issuer_Refresh rotating_lib memory_store (NewIssuer ''k'' []) 4 (Inr ''A3'') (Inr ''R3'') ''R2'' s3 = (s4, Inr pair')"
proof -
  let ?i = "NewIssuer ''k'' []"
  obtain s2 where lo: "issuer_Logout rotating_lib memory_store ?i 2 ''A'' ''R'' sample_store = (s2, None)" "ms_family s2 = []"
  proof -
    have "remainingTTL 2 sample_access = 100 * second - 2"
      by (simp add: remainingTTL_def sample_access_def trunc_rat_def go_defs)
    then have "\<exists>s1. logout_access rotating_lib memory_store ?i 2 ''A'' sample_store = (s1, None) \<and> ms_family s1 = ms_family sample_store"
      using rotating_parse(2) [of 2] sample_ids(2) by (simp add: logout_access_def memory_store_def memory_Block_def go_defs)
    then obtain s1 where a: "logout_access rotating_lib memory_store ?i 2 ''A'' sample_store = (s1, None)"
      "ms_family s1 = ms_family sample_store" by blast
    have "claim_str sample_refresh ''fid'' = ''f''" by (simp add: claim_str_def sample_refresh_def)
    then have "logout_refresh rotating_lib memory_store ?i 2 ''R'' s1 = (s1\<lparr>ms_family := []\<rparr>, None)"
      using rotating_parse(1) [of 2] a(2)
      by (simp add: logout_refresh_def memory_store_def memory_RevokeFamily_def sample_store_def memory_SetFamily_def NewMemoryStore_def go_defs
          gm_put_def gm_del_def)
    with a(1) show ?thesis by (intro that [of "s1\<lparr>ms_family := []\<rparr>"]) (simp_all add: issuer_Logout_def)
  qed
  have off: "memory_fam s2 ''f'' 2 = None" using lo(2) by (simp add: memory_fam_def)
  obtain s3 pair where nx: "refresh_next rotating_lib memory_store ?i 3 (Inr ''A2'') (Inr ''R2'') (Minting sample_refresh) s2
       = (s3, Blocking sample_refresh pair)" "RefreshToken pair = ''R2''" "ms_family s3 = [(''f'', \<lparr>fe_jti = ''R2'', fe_exp = 3 + 168 * hour\<rparr>)]"
    using lo(2) by (simp add: rotating_defs gm_put_def)
  obtain s4 pair' where "issuer_Refresh rotating_lib memory_store ?i 4 (Inr ''A3'') (Inr ''R3'') ''R2'' s3 = (s4, Inr pair')"
    using nx(3) by (simp add: issuer_Refresh_def rotating_defs)
  then show ?thesis using rotating_start lo(1) off nx(1,2) by blast
qed

text \<open>
  A rotation revokes no access token: the only identifier it can add to the block list is that of the
  refresh token presented.
\<close>

theorem refresh_blocks_no_access_token:
  assumes "issuer_Refresh lib memory_store i now id1 id2 tok s = (s', res)"
    and "issuer_parseValid lib i now tok = Inr c" "j \<noteq> claim_str c ''jti''"
  shows "memory_blocked s' j t = memory_blocked s j t"
proof -
  have fam: "ms_block s1 = ms_block s0" if "memory_Family now f s0 = (s1, r)" for f s0 s1 r
    using that by (auto simp: memory_Family_def split: option.splits if_splits)
  have mint: "ms_block s1 = ms_block s0" if "issuer_mint lib memory_store i now id1 id2 c f s0 = (s1, r)" for f s0 s1 r
    using that by (auto simp: issuer_mint_def memory_store_def memory_SetFamily_def Let_def split: sum.splits)
  have rev: "ms_block (fst (memory_RevokeFamily now f s0)) = ms_block s0" for f s0 by (simp add: memory_RevokeFamily_def)
  have blk: "ms_block (fst (memory_Block now k ttl s0)) = gm_put (ms_block s0) k (now + ttl)" for k ttl s0
    by (simp add: memory_Block_def)
  have "ms_block s' = ms_block s \<or> (\<exists>x. ms_block s' = gm_put (ms_block s) (claim_str c ''jti'') x)"
    using assms(1,2)
    by (auto simp: issuer_Refresh_def memory_store_def [symmetric] rev blk dest!: mint fam
        split: if_splits prod.splits sum.splits option.splits)
       (auto simp: memory_store_def rev blk dest!: mint fam)
  then show ?thesis using assms(3) by (auto simp: memory_blocked_def)
qed

end
