(* ===== verification/Event_Bus.thy ===== *)
theory Event_Bus
  imports Service "HOL-Library.Multiset"
begin

text \<open>
  The asynchronous mode of the event bus (\<open>src/events/events.go\<close>): every handler of a published
  event runs in a goroutine of its own, in any order and interleaved with further subscriptions
  and publications. A handler's run is one step; its error is logged.
\<close>

section \<open>Goroutines\<close>

text \<open>
  A task is the type and the value of an event with the handler to run. The history of the
  finished runs and of the publications with the handlers registered at that moment is kept.
\<close>

type_synonym ('s, 'v) bus_task = "string \<times> 'v \<times> ('s, 'v) event_handler"

record ('s, 'v, 'w) async_bus =
  ab_bus :: "('s, 'v) bus"
  ab_world :: 's
  ab_log :: 'w
  ab_tasks :: "('s, 'v) bus_task list"
  ab_runs :: "(('s, 'v) bus_task \<times> string option) list"
  ab_sent :: "('s, 'v) bus_task list"

definition bus_tasks :: "string \<Rightarrow> 'v \<Rightarrow> ('s, 'v) event_handler list \<Rightarrow> ('s, 'v) bus_task list" where
  "bus_tasks ty v hs = map (\<lambda>h. (ty, v, h)) hs"

definition async_run :: "'w zerolog_emit \<Rightarrow> logger \<Rightarrow> ('s, 'v) bus_task \<Rightarrow> 's \<Rightarrow> 'w \<Rightarrow> 's \<times> 'w \<times> string option" where
  "async_run emit lg task s w =
     (case task of (ty, v, fn) \<Rightarrow>
        (case fn v s of
           (s', None) \<Rightarrow> (s', w, None)
         | (s', Some e) \<Rightarrow> (s', fst (logger_Error emit lg (Some e) ''events: async handler failed'' [''type'', ty] w), Some e)))"

inductive ab_step :: "'w zerolog_emit \<Rightarrow> ('s, 'v, 'w) async_bus \<Rightarrow> ('s, 'v, 'w) async_bus \<Rightarrow> bool" for emit where
  subscribe: "ab_step emit b (b\<lparr>ab_bus := events_Subscribe ty h (ab_bus b)\<rparr>)"
| publish: "events_Publish ty v (ab_bus b) (ab_world b) = (s', res, gs) \<Longrightarrow>
    ab_step emit b (b\<lparr>ab_world := s', ab_tasks := ab_tasks b @ bus_tasks ty v gs,
      ab_sent := ab_sent b @ bus_tasks ty v (bus_handlers ty (ab_bus b))\<rparr>)"
| run: "ab_tasks b = xs @ task # ys \<Longrightarrow> b_logger (ab_bus b) = Some lg \<Longrightarrow> async_run emit lg task (ab_world b) (ab_log b) = (s', w', err) \<Longrightarrow>
    ab_step emit b (b\<lparr>ab_world := s', ab_log := w', ab_tasks := xs @ ys, ab_runs := ab_runs b @ [(task, err)]\<rparr>)"

definition ab_init :: "('s, 'v) bus \<Rightarrow> 's \<Rightarrow> 'w \<Rightarrow> ('s, 'v, 'w) async_bus" where
  "ab_init b s w = \<lparr>ab_bus = b, ab_world = s, ab_log = w, ab_tasks = [], ab_runs = [], ab_sent = []\<rparr>"

section \<open>Every handler runs once\<close>

definition failure_lines :: "(('s, 'v) bus_task \<times> string option) list \<Rightarrow> log_line list" where
  "failure_lines rs = List.map_filter (\<lambda>((ty, v, h), err). case err of None \<Rightarrow> None
     | Some e \<Rightarrow> Some \<lparr>ln_level = ErrorLevel, ln_err = Some e, ln_fields = [''type'', ty], ln_msg = ''events: async handler failed''\<rparr>) rs"

context zerolog
begin

definition ab_inv :: "logger \<Rightarrow> 'w \<Rightarrow> ('s, 'v, 'w) async_bus \<Rightarrow> bool" where
  "ab_inv lg w0 b \<longleftrightarrow> b_async (ab_bus b) \<and> b_logger (ab_bus b) = Some lg \<and> mset (map fst (ab_runs b)) + mset (ab_tasks b) = mset (ab_sent b) \<and>
     out (ab_log b) = out w0 @ failure_lines (ab_runs b)"

lemma async_run_log:
  assumes "async_run emit lg task s w = (s', w', err)" "lg_level lg \<le> ErrorLevel"
  shows "out w' = out w @ failure_lines [(task, err)]"
  using assms by (auto simp: async_run_def failure_lines_def map_filter_simps logger_Error_def out_emit
      split: prod.splits option.splits)

lemma failure_lines_append: "failure_lines (xs @ ys) = failure_lines xs @ failure_lines ys"
  by (simp add: failure_lines_def List.map_filter_def)

lemma ab_step_inv:
  assumes "ab_step emit b b'" "ab_inv lg w0 b" "lg_level lg \<le> ErrorLevel"
  shows "ab_inv lg w0 b'"
  using assms(1)
proof cases
  case (subscribe ty h)
  then show ?thesis using assms(2) by (simp add: ab_inv_def events_Subscribe_def)
next
  case (publish ty v s' res gs)
  then show ?thesis using assms(2) by (auto simp: ab_inv_def events_Publish_def add.assoc [symmetric])
next
  case (run xs task ys lg' s' w' err)
  then have "lg' = lg" using assms(2) by (simp add: ab_inv_def)
  with run show ?thesis using assms(2) async_run_log [OF run(4)] assms(3)
    by (auto simp: ab_inv_def failure_lines_append ac_simps)
qed

lemma ab_run_inv: "(ab_step emit)\<^sup>*\<^sup>* b b' \<Longrightarrow> lg_level lg \<le> ErrorLevel \<Longrightarrow> ab_inv lg w0 b \<Longrightarrow> ab_inv lg w0 b'"
  by (induction rule: rtranclp_induct) (auto intro: ab_step_inv)

end

lemma bus_opts_async: "b_async c \<Longrightarrow> b_async (fold bus_opt opts c)"
proof (induction opts arbitrary: c)
  case (Cons x opts)
  then show ?case by (cases x) auto
qed simp

text \<open>The tasks under way can finish in any order.\<close>

lemma ab_drain:
  "mset ts = mset (ab_tasks b) \<Longrightarrow> b_logger (ab_bus b) = Some lg \<Longrightarrow>
   \<exists>b'. (ab_step emit)\<^sup>*\<^sup>* b b' \<and> ab_tasks b' = [] \<and> map fst (ab_runs b') = map fst (ab_runs b) @ ts \<and> ab_bus b' = ab_bus b"
proof (induction ts arbitrary: b)
  case Nil
  then show ?case by (intro exI [of _ b]) simp
next
  case (Cons t ts)
  then have "t \<in> set (ab_tasks b)" by (metis list.set_intros(1) mset_eq_setD)
  then obtain xs ys where sp: "ab_tasks b = xs @ t # ys" by (metis split_list)
  obtain s' w' err where r: "async_run emit lg t (ab_world b) (ab_log b) = (s', w', err)" by (metis prod.exhaust)
  let ?b = "b\<lparr>ab_world := s', ab_log := w', ab_tasks := xs @ ys, ab_runs := ab_runs b @ [(t, err)]\<rparr>"
  have "mset ts = mset (ab_tasks ?b)" using Cons.prems sp by simp
  from Cons.IH [OF this] Cons.prems(2) obtain b' where "(ab_step emit)\<^sup>*\<^sup>* ?b b'" "ab_tasks b' = []"
    "map fst (ab_runs b') = map fst (ab_runs ?b) @ ts" "ab_bus b' = ab_bus ?b" by auto
  moreover have "ab_step emit b ?b" by (rule ab_step.run [OF sp Cons.prems(2) r])
  ultimately show ?case by (intro exI [of _ b']) (auto intro: converse_rtranclp_into_rtranclp)
qed

section \<open>Properties\<close>

text \<open>
  Asynchronous publication. Whatever the interleaving of subscriptions, publications and goroutines,
  the handlers that have run and those still to run are together exactly those registered for the type of each
  event when it was published, once each; every error is logged with the type, in the order the runs
  ended; and what is still to run can finish in any order.
\<close>

theorem events_async_once:
  assumes "zerolog emit out" "b_logger (events_New (WithAsync # opts) :: ('s, 'v) bus) = Some lg" "lg_level lg \<le> ErrorLevel"
    and "(ab_step emit)\<^sup>*\<^sup>* (ab_init (events_New (WithAsync # opts) :: ('s, 'v) bus) s w) b"
  shows "mset (map fst (ab_runs b)) + mset (ab_tasks b) = mset (ab_sent b) \<and>
    out (ab_log b) = out w @ failure_lines (ab_runs b) \<and>
    (mset ts = mset (ab_tasks b) \<longrightarrow>
      (\<exists>b'. (ab_step emit)\<^sup>*\<^sup>* b b' \<and> ab_tasks b' = [] \<and> map fst (ab_runs b') = map fst (ab_runs b) @ ts))"
proof -
  have "b_async (events_New (WithAsync # opts) :: ('s, 'v) bus)"
    using bus_opts_async [of "\<lparr>b_handlers = [], b_async = True, b_logger = None\<rparr> :: ('s, 'v) bus"]
    by (simp add: events_New_def apply_opts_def Let_def)
  then have "zerolog.ab_inv out lg w (ab_init (events_New (WithAsync # opts) :: ('s, 'v) bus) s w)"
    using assms(2) by (simp add: zerolog.ab_inv_def [OF assms(1)] ab_init_def failure_lines_def map_filter_simps)
  from zerolog.ab_run_inv [OF assms(1,4,3) this] show ?thesis
    using ab_drain [of ts b lg emit] by (auto simp: zerolog.ab_inv_def [OF assms(1)])
qed

end
