(* ===== verification/Jobs.thy ===== *)
theory Jobs
  imports Toolkit
begin

text \<open>
  Background jobs from end to end (\<open>src/jobs\<close>): the client that encodes and enqueues, the worker
  whose typed handlers decode, the task options, the scheduler and the monitoring page. The queue is
  the \<open>asynq\<close> library: its constructors are parameters, and the locale \<open>asynq\<close> states what
  its documentation says of a task's retries.
\<close>

section \<open>Connections, options and constructors\<close>

definition jobs_RedisConnOpt :: "(string \<Rightarrow> string + 'o) \<Rightarrow> string \<Rightarrow> string + 'o" where
  "jobs_RedisConnOpt parseRedisURI redisURL =
     (case parseRedisURI redisURL of
        Inl e \<Rightarrow> Inl (''jobs: invalid redis url: '' @ e)
      | Inr opt \<Rightarrow> Inr opt)"

text \<open>The options of a task as the library's values.\<close>

datatype asynq_option = MaxRetry int | Queue string | ProcessIn duration | Deadline time

definition jobs_WithRetry :: "int \<Rightarrow> asynq_option" where "jobs_WithRetry n = MaxRetry n"
definition jobs_WithPriority :: "string \<Rightarrow> asynq_option" where "jobs_WithPriority queue = Queue queue"
definition jobs_WithProcessIn :: "duration \<Rightarrow> asynq_option" where "jobs_WithProcessIn d = ProcessIn d"
definition jobs_WithDeadline :: "time \<Rightarrow> asynq_option" where "jobs_WithDeadline t = Deadline t"

record 'c jobs_client =
  jc_inner :: 'c

definition jobs_NewClient :: "('o \<Rightarrow> 'c) \<Rightarrow> 'o \<Rightarrow> 'c jobs_client" where
  "jobs_NewClient asynq_NewClient opt = \<lparr>jc_inner = asynq_NewClient opt\<rparr>"

definition client_Close :: "('c \<Rightarrow> 's \<Rightarrow> 's \<times> string option) \<Rightarrow> 'c jobs_client \<Rightarrow> 's \<Rightarrow> 's \<times> string option" where
  "client_Close asynq_Close c = asynq_Close (jc_inner c)"

record worker_config =
  wc_Concurrency :: int
  wc_Queues :: "(string, int) gomap option"

record ('v, 'm) jobs_server =
  js_inner :: 'v
  js_mux :: 'm

definition jobs_NewServer :: "('o \<Rightarrow> int \<times> (string, int) gomap option \<Rightarrow> 'v) \<Rightarrow> 'm \<Rightarrow> 'o \<Rightarrow> worker_config \<Rightarrow> ('v, 'm) jobs_server" where
  "jobs_NewServer asynq_NewServer newServeMux opt cfg =
     \<lparr>js_inner = asynq_NewServer opt (wc_Concurrency cfg, wc_Queues cfg), js_mux = newServeMux\<rparr>"

definition worker_Run :: "('v \<Rightarrow> 'm \<Rightarrow> 's \<Rightarrow> 's \<times> string option) \<Rightarrow> ('v, 'm) jobs_server \<Rightarrow> 's \<Rightarrow> 's \<times> string option" where
  "worker_Run asynq_Run s = asynq_Run (js_inner s) (js_mux s)"

definition MonitoringHandler :: "(string \<Rightarrow> 'o \<Rightarrow> 'h) \<Rightarrow> 'o \<Rightarrow> string \<Rightarrow> 'h" where
  "MonitoringHandler asynqmon_New opt rootPath = asynqmon_New rootPath opt"

text \<open>The scheduler's options hold the time zone, when one is given.\<close>

datatype 'z scheduler_option = WithLocation "'z option"

fun scheduler_opt :: "'z scheduler_option \<Rightarrow> 'z option \<Rightarrow> 'z option" where
  "scheduler_opt (WithLocation loc) z = loc"

record 'q scheduler =
  sch_inner :: 'q

definition NewScheduler :: "('o \<Rightarrow> 'z option \<Rightarrow> 'q) \<Rightarrow> 'o \<Rightarrow> 'z scheduler_option list \<Rightarrow> 'q scheduler" where
  "NewScheduler asynq_NewScheduler opt opts =
     \<lparr>sch_inner = asynq_NewScheduler opt (apply_opts scheduler_opt opts None)\<rparr>"

definition scheduler_Unregister :: "('q \<Rightarrow> string \<Rightarrow> 's \<Rightarrow> 's \<times> string option) \<Rightarrow> 'q scheduler \<Rightarrow> string \<Rightarrow> 's \<Rightarrow> 's \<times> string option" where
  "scheduler_Unregister asynq_Unregister s entryID = asynq_Unregister (sch_inner s) entryID"

definition scheduler_Run :: "('q \<Rightarrow> 's \<Rightarrow> 's \<times> string option) \<Rightarrow> 'q scheduler \<Rightarrow> 's \<Rightarrow> 's \<times> string option" where
  "scheduler_Run asynq_Run s = asynq_Run (sch_inner s)"

definition scheduler_Shutdown :: "('q \<Rightarrow> 's \<Rightarrow> 's) \<Rightarrow> 'q scheduler \<Rightarrow> 's \<Rightarrow> 's" where
  "scheduler_Shutdown asynq_Shutdown s = asynq_Shutdown (sch_inner s)"

section \<open>The queue\<close>

text \<open>
  What the library documents: a mux routes a task to the handler registered for its type; a task whose
  handler fails is retried as often as its maximum, unless the error wraps \<open>SkipRetry\<close>;
  \<open>work\<close> runs a task to its end and tells whether it has completed. \<open>handler_of\<close> is the
  handler registered for a type.
\<close>

fun wraps_SkipRetry :: "job_err \<Rightarrow> bool" where
  "wraps_SkipRetry (SkipRetry _) = True"
| "wraps_SkipRetry (JobErr _) = False"

locale asynq =
  fixes handler_of :: "'m \<Rightarrow> string \<Rightarrow> 's job_handler option"
    and handleFunc :: "'m \<Rightarrow> string \<Rightarrow> 's job_handler \<Rightarrow> 'm option"
    and processTask :: "'m \<Rightarrow> 's job_handler"
    and work :: "'m \<Rightarrow> nat \<Rightarrow> task \<Rightarrow> 's \<Rightarrow> 's \<times> bool"
  assumes handle_ok: "handleFunc m ty h = Some m' \<Longrightarrow>
      handler_of m' ty = Some h \<and> (\<forall>ty'. ty' \<noteq> ty \<longrightarrow> handler_of m' ty' = handler_of m ty')"
    and route: "handler_of m (tk_Type t) = Some h \<Longrightarrow> processTask m s t = h s t"
    and work_ok: "processTask m s t = (s', None) \<Longrightarrow> work m n t s = (s', True)"
    and work_retry: "processTask m s t = (s', Some e) \<Longrightarrow>
      work m n t s = (if wraps_SkipRetry e \<or> n = 0 then (s', False) else work m (n - 1) t s')"

text \<open>Running a handler until it succeeds, at most \<open>n\<close> more times after the first.\<close>

fun tries :: "('s \<Rightarrow> 's \<times> job_err option) \<Rightarrow> nat \<Rightarrow> 's \<Rightarrow> 's \<times> bool" where
  "tries f n s =
     (case f s of
        (s', None) \<Rightarrow> (s', True)
      | (s', Some e) \<Rightarrow> if wraps_SkipRetry e \<or> n = 0 then (s', False) else tries f (n - 1) s')"

declare tries.simps [simp del]

context asynq
begin

lemma work_tries:
  assumes "handler_of m (tk_Type t) = Some h"
  shows "work m n t s = tries (\<lambda>s. h s t) n s"
proof (induction n arbitrary: s)
  case 0
  show ?case using work_ok [of m s t _ 0] work_retry [of m s t _ _ 0] route [OF assms, of s]
    by (subst tries.simps) (auto split: prod.split option.split)
next
  case (Suc n)
  show ?case using work_ok [of m s t _ "Suc n"] work_retry [of m s t _ _ "Suc n"] route [OF assms, of s] Suc.IH
    by (subst tries.simps) (auto split: prod.split option.split)
qed

lemma handled:
  assumes "jobs_Handle j handleFunc ty fn m = Some m'" "tk_Type t = ty"
  shows "work m' n t s = tries (\<lambda>s. typed_handler j ty fn s t) n s"
  using assms handle_ok work_tries unfolding jobs_Handle_def by blast

end

type_synonym 's demo_mux = "(string, 's job_handler) gomap"

definition demo_processTask :: "'s demo_mux \<Rightarrow> 's job_handler" where
  "demo_processTask m s t = (case gm_get m (tk_Type t) of None \<Rightarrow> (s, Some (JobErr ''asynq: task handler not found'')) | Some h \<Rightarrow> h s t)"

definition demo_handleFunc :: "'s demo_mux \<Rightarrow> string \<Rightarrow> 's job_handler \<Rightarrow> 's demo_mux option" where
  "demo_handleFunc m ty h = (if gm_get m ty = None then Some (gm_put m ty h) else None)"

interpretation dasynq: asynq gm_get demo_handleFunc demo_processTask "\<lambda>m n t s. tries (\<lambda>s. demo_processTask m s t) n s"
  by unfold_locales (auto simp: demo_handleFunc_def demo_processTask_def tries.simps split: if_splits)

section \<open>Properties\<close>

text \<open>
  A job arrives as it was sent. The task that \<open>Enqueue\<close> hands to the queue for a value that survives the
  encoding makes the worker run the handler registered for its type on that value, again while it
  fails and as often as the maximum allows, and not at all on anything else. A payload that does not
  decode is given up without running the handler and without a retry.
\<close>

theorem jobs_end_to_end:
  assumes "asynq handler_of handleFunc processTask work" "jobs_Handle j handleFunc ty fn m = Some m'"
    and "jc_Marshal j v = Inr b" "jc_Unmarshal j b = Inr v" "jc_Unmarshal j bad = Inl e"
  shows "jobs_Enqueue j (\<lambda>q t ps. (q @ [(t, ps)], Inr i)) ty v opts q = (q @ [(\<lparr>tk_Type = ty, tk_Payload = b\<rparr>, opts)], Inr i) \<and>
    work m' n \<lparr>tk_Type = ty, tk_Payload = b\<rparr> s = tries (\<lambda>s. fn s v) n s \<and>
    work m' n \<lparr>tk_Type = ty, tk_Payload = bad\<rparr> s = (s, False)"
proof (intro conjI)
  show "jobs_Enqueue j (\<lambda>q t ps. (q @ [(t, ps)], Inr i)) ty v opts q = (q @ [(\<lparr>tk_Type = ty, tk_Payload = b\<rparr>, opts)], Inr i)"
    using assms(3) by (simp add: jobs_Enqueue_def)
  show "work m' n \<lparr>tk_Type = ty, tk_Payload = b\<rparr> s = tries (\<lambda>s. fn s v) n s"
    using asynq.handled [OF assms(1,2)] assms(4) by (simp add: typed_handler_def)
  show "work m' n \<lparr>tk_Type = ty, tk_Payload = bad\<rparr> s = (s, False)"
    using asynq.handled [OF assms(1,2), of "\<lparr>tk_Type = ty, tk_Payload = bad\<rparr>" n s] assms(5)
    by (simp add: typed_handler_def tries.simps)
qed

definition word_coder :: "string json_coder" where
  "word_coder = \<lparr>jc_Marshal = (\<lambda>v. Inr (CHR 0x22 # v)),
     jc_Unmarshal = (\<lambda>b. case b of c # v \<Rightarrow> if c = CHR 0x22 then Inr v else Inl ''syntax'' | [] \<Rightarrow> Inl ''eof'')\<rparr>"

text \<open>A handler that fails the first time it runs.\<close>

definition second_try :: "string list \<Rightarrow> string \<Rightarrow> string list \<times> job_err option" where
  "second_try s v = (s @ [v], if s = [] then Some (JobErr ''later'') else None)"

theorem jobs_end_to_end_witness:
  "\<exists>m'. jobs_Handle word_coder demo_handleFunc ''mail'' second_try [] = Some m' \<and>
     tries (\<lambda>s. demo_processTask m' s \<lparr>tk_Type = ''mail'', tk_Payload = CHR 0x22 # ''hi''\<rparr>) 3 [] = ([''hi'', ''hi''], True)"
proof -
  obtain m' where m': "jobs_Handle word_coder demo_handleFunc ''mail'' second_try [] = Some m'"
    by (simp add: jobs_Handle_def demo_handleFunc_def)
  from jobs_end_to_end [OF dasynq.asynq_axioms m', where v = "''hi''" and b = "CHR 0x22 # ''hi''" and bad = "[]" and e = "''eof''" and i = "()" and opts = "[] :: unit list" and q = "[]" and n = 3 and s = "[]"]
  have "tries (\<lambda>s. demo_processTask m' s \<lparr>tk_Type = ''mail'', tk_Payload = CHR 0x22 # ''hi''\<rparr>) 3 [] = tries (\<lambda>s. second_try s ''hi'') 3 []"
    by (simp add: word_coder_def)
  then show ?thesis using m' by (simp add: tries.simps second_try_def)
qed

end
