(* ===== verification/Redis_Counter.thy ===== *)
theory Redis_Counter
  imports Redis_Client
begin

text \<open>
  The counters and lifetimes of the Redis wrapper (\<open>Incr\<close>, \<open>Decr\<close> in \<open>src/redis/bulk.go\<close>,
  \<open>Expire\<close>, \<open>TTL\<close>, \<open>New\<close> in \<open>src/redis/redis.go\<close>). They forward to the client, so what they
  promise is the documented behaviour of the commands, stated by a locale that extends that of the server.
\<close>

section \<open>Commands\<close>

record 's redis_counters =
  rc_incr :: "time \<Rightarrow> string \<Rightarrow> 's \<Rightarrow> 's \<times> (string + int)"
  rc_decr :: "time \<Rightarrow> string \<Rightarrow> 's \<Rightarrow> 's \<times> (string + int)"
  rc_expire :: "time \<Rightarrow> string \<Rightarrow> duration \<Rightarrow> 's \<Rightarrow> 's \<times> (string + bool)"
  rc_ttl :: "time \<Rightarrow> string \<Rightarrow> 's \<Rightarrow> 's \<times> (string + duration)"

record 'c redis_wrapper =
  rw_Client :: 'c

definition redis_New :: "'c \<Rightarrow> 'c redis_wrapper" where
  "redis_New client = \<lparr>rw_Client = client\<rparr>"

definition redis_Incr :: "'s redis_counters redis_wrapper \<Rightarrow> time \<Rightarrow> string \<Rightarrow> 's \<Rightarrow> 's \<times> (string + int)" where
  "redis_Incr r = rc_incr (rw_Client r)"

definition redis_Decr :: "'s redis_counters redis_wrapper \<Rightarrow> time \<Rightarrow> string \<Rightarrow> 's \<Rightarrow> 's \<times> (string + int)" where
  "redis_Decr r = rc_decr (rw_Client r)"

definition redis_Expire :: "'s redis_counters redis_wrapper \<Rightarrow> time \<Rightarrow> string \<Rightarrow> duration \<Rightarrow> 's \<Rightarrow> 's \<times> (string + bool)" where
  "redis_Expire r = rc_expire (rw_Client r)"

definition redis_TTL :: "'s redis_counters redis_wrapper \<Rightarrow> time \<Rightarrow> string \<Rightarrow> 's \<Rightarrow> 's \<times> (string + duration)" where
  "redis_TTL r = rc_ttl (rw_Client r)"

text \<open>
  A counter holds the decimal form of a 64-bit number, a missing one counts as zero; counting keeps its
  lifetime. \<open>Expire\<close> sends whole seconds, at least one for a positive duration.
\<close>

definition counted :: "('s \<Rightarrow> string \<Rightarrow> time \<Rightarrow> string option) \<Rightarrow> time \<Rightarrow> string \<Rightarrow> int \<Rightarrow> int \<Rightarrow> 's \<Rightarrow> 's \<Rightarrow> bool" where
  "counted val now k d n s s' \<longleftrightarrow>
     (case val s k now of
        None \<Rightarrow> n = d \<and> (\<forall>t. now \<le> t \<longrightarrow> val s' k t = Some (itoa n))
      | Some v \<Rightarrow> int64_min \<le> n \<and> n \<le> int64_max \<and> ParseInt v = Some (n - d) \<and>
          (\<forall>t. now \<le> t \<longrightarrow> val s' k t = map_option (\<lambda>_. itoa n) (val s k t))) \<and>
     (\<forall>k' t. k' \<noteq> k \<longrightarrow> now \<le> t \<longrightarrow> val s' k' t = val s k' t)"

definition redis_sec :: "duration \<Rightarrow> duration" where
  "redis_sec d = (if 0 < d \<and> d < second then second else (d div second) * second)"

locale redis_counter_server = redis_server r val
  for r :: "'s redis" and val :: "'s \<Rightarrow> string \<Rightarrow> time \<Rightarrow> string option" +
  fixes c :: "'s redis_counters"
  assumes incr_ok: "rc_incr c now k s = (s', Inr n) \<Longrightarrow> counted val now k 1 n s s'"
    and decr_ok: "rc_decr c now k s = (s', Inr n) \<Longrightarrow> counted val now k (-1) n s s'"
    and expire_ok: "rc_expire c now k ttl s = (s', Inr b) \<Longrightarrow> ttl > 0 \<Longrightarrow>
       (case val s k now of
          None \<Rightarrow> \<not> b \<and> same_from val now s s'
        | Some v \<Rightarrow> b \<and> stored_from val now k v (Some (now + redis_sec ttl)) s s')"
    and ttl_missing: "rc_ttl c now k s = (s', Inr d) \<Longrightarrow> val s k now = None \<Longrightarrow> d = -2"
    and ttl_forever: "rc_ttl c now k s = (s', Inr d) \<Longrightarrow> \<forall>t\<ge>now. val s k t \<noteq> None \<Longrightarrow> d = -1"
    and ttl_until: "rc_ttl c now k s = (s', Inr d) \<Longrightarrow> now < e \<Longrightarrow> \<forall>t\<ge>now. (val s k t \<noteq> None) = (t < e) \<Longrightarrow>
       d = ((e - now + 500 * millisecond) div second) * second"
    and ttl_frame: "rc_ttl c now k s = (s', Inr d) \<Longrightarrow> same_from val now s s'"

section \<open>The key space\<close>

definition ks_count :: "int \<Rightarrow> time \<Rightarrow> string \<Rightarrow> keyspace \<Rightarrow> keyspace \<times> (string + int)" where
  "ks_count d now k s =
     (case ks_val s k now of
        None \<Rightarrow> (s(k \<mapsto> (itoa d, None)), Inr d)
      | Some v \<Rightarrow>
          (case ParseInt v of
             None \<Rightarrow> (s, Inl ''ERR value is not an integer or out of range'')
           | Some m \<Rightarrow>
               if int64_min \<le> m + d \<and> m + d \<le> int64_max
               then (s(k \<mapsto> (itoa (m + d), snd (the (s k)))), Inr (m + d))
               else (s, Inl ''ERR increment or decrement would overflow'')))"

definition ks_counters :: "keyspace redis_counters" where
  "ks_counters =
     \<lparr>rc_incr = ks_count 1, rc_decr = ks_count (-1),
      rc_expire = (\<lambda>now k ttl s. case ks_val s k now of
          None \<Rightarrow> (s, Inr False)
        | Some v \<Rightarrow> (if redis_sec ttl > 0 then s(k \<mapsto> (v, Some (now + redis_sec ttl))) else s(k := None), Inr True)),
      rc_ttl = (\<lambda>now k s. (s, Inr (case ks_val s k now of
          None \<Rightarrow> -2
        | Some v \<Rightarrow> (case snd (the (s k)) of None \<Rightarrow> -1 | Some e \<Rightarrow> ((e - now + 500 * millisecond) div second) * second))))\<rparr>"

lemma redis_sec_pos: "0 < d \<Longrightarrow> 0 < redis_sec d"
  by (auto simp: redis_sec_def second_def millisecond_def pos_imp_zdiv_pos_iff)

lemma ks_count_ok:
  assumes "ks_count d now k s = (s', Inr n)"
  shows "counted ks_val now k d n s s'"
proof (cases "ks_val s k now")
  case None
  then show ?thesis using assms by (auto simp: ks_count_def counted_def ks_val_def)
next
  case (Some v)
  then show ?thesis using assms
    by (auto simp: ks_count_def counted_def ks_val_def split: option.splits if_splits)
qed

lemma ks_ttl_unique:
  assumes "\<forall>t\<ge>now. (ks_val s k t \<noteq> None) = (t < e)" "(now :: time) < e"
  shows "\<exists>v. s k = Some (v, Some e)"
proof -
  obtain v x where s: "s k = Some (v, x)" using assms by (auto simp: ks_val_def split: option.splits)
  obtain e' where x: "x = Some e'"
  proof (cases x)
    case None
    then have "ks_val s k e \<noteq> None" using s by (simp add: ks_val_def)
    then show ?thesis using assms by (auto dest: spec [of _ e])
  qed
  have iff: "t < e' \<longleftrightarrow> t < e" if "t \<ge> now" for t using assms(1) that s x by (auto simp: ks_val_def split: if_splits)
  have "e' = e" using iff [of e] iff [of e'] iff [of now] assms(2) by auto
  then show ?thesis using s x by blast
qed

interpretation ksc: redis_counter_server ks_redis ks_val ks_counters
proof unfold_locales
  fix now k ttl s s' b
  assume "rc_expire ks_counters now k ttl s = (s', Inr b)" "ttl > 0"
  then show "case ks_val s k now of None \<Rightarrow> \<not> b \<and> same_from ks_val now s s'
      | Some v \<Rightarrow> b \<and> stored_from ks_val now k v (Some (now + redis_sec ttl)) s s'"
    using redis_sec_pos [of ttl] by (auto simp: ks_counters_def redis_effects ks_val_def split: option.splits)
next
  fix now k s s' d e
  assume "rc_ttl ks_counters now k s = (s', Inr d)" "now < e" "\<forall>t\<ge>now. (ks_val s k t \<noteq> None) = (t < e)"
  moreover from this(3,2) obtain v where "s k = Some (v, Some e)" using ks_ttl_unique by blast
  ultimately show "d = (e - now + 500 * millisecond) div second * second"
    by (auto simp: ks_counters_def ks_val_def split: option.splits)
next
  fix now k s s' d
  assume "rc_ttl ks_counters now k s = (s', Inr d)" and a: "\<forall>t\<ge>now. ks_val s k t \<noteq> None"
  moreover have "snd (the (s k)) = None"
  proof (rule ccontr)
    assume "snd (the (s k)) \<noteq> None"
    then obtain e where "snd (the (s k)) = Some e" by blast
    then have "ks_val s k (max now e) = None" by (auto simp: ks_val_def split: option.splits)
    then show False using a by auto
  qed
  ultimately show "d = -1" using a by (auto simp: ks_counters_def split: option.splits)
qed (auto simp: ks_counters_def ks_count_ok same_from_def)

section \<open>Counting\<close>

datatype count_op = OpIncr string | OpDecr string

fun op_key :: "count_op \<Rightarrow> string" where
  "op_key (OpIncr k) = k" | "op_key (OpDecr k) = k"

fun op_delta :: "count_op \<Rightarrow> int" where
  "op_delta (OpIncr _) = 1" | "op_delta (OpDecr _) = -1"

fun count_op_run :: "'s redis_counters redis_wrapper \<Rightarrow> time \<Rightarrow> count_op \<Rightarrow> 's \<Rightarrow> 's \<times> (string + int)" where
  "count_op_run w now (OpIncr k) s = redis_Incr w now k s"
| "count_op_run w now (OpDecr k) s = redis_Decr w now k s"

text \<open>Calls of any clients on any counters, in the order the server takes them, with their results.\<close>

fun count_run :: "'s redis_counters redis_wrapper \<Rightarrow> (time \<times> count_op) list \<Rightarrow> 's \<Rightarrow> 's \<times> (string + int) list" where
  "count_run w [] s = (s, [])"
| "count_run w ((now, op) # ops) s =
     (case count_op_run w now op s of
        (s', res) \<Rightarrow> (case count_run w ops s' of (s'', rs) \<Rightarrow> (s'', res # rs)))"

definition counter_at :: "('s \<Rightarrow> string \<Rightarrow> time \<Rightarrow> string option) \<Rightarrow> 's \<Rightarrow> time \<Rightarrow> string \<Rightarrow> int \<Rightarrow> bool" where
  "counter_at val s now k m \<longleftrightarrow> int64_min \<le> m \<and> m \<le> int64_max \<and>
     ((\<forall>t\<ge>now. val s k t = Some (itoa m)) \<or> m = 0 \<and> (\<forall>t\<ge>now. val s k t = None))"

fun tally :: "string \<Rightarrow> int \<Rightarrow> (time \<times> count_op) list \<Rightarrow> int list" where
  "tally k m [] = []"
| "tally k m ((now, op) # ops) =
     (if op_key op = k then (m + op_delta op) # tally k (m + op_delta op) ops else tally k m ops)"

context redis_counter_server
begin

lemma counted_step:
  assumes "counted val now k d n s s'" "counter_at val s now k m" "d = 1 \<or> d = -1"
  shows "n = m + d \<and> counter_at val s' now k n"
proof -
  have rng: "int64_min \<le> m" "m \<le> int64_max" using assms(2) by (auto simp: counter_at_def)
  have small: "int64_min \<le> d" "d \<le> int64_max" using assms(3) by (auto simp: int64_min_def int64_max_def)
  show ?thesis
  proof (cases "val s k now")
    case None
    then show ?thesis using assms small by (auto simp: counted_def counter_at_def)
  next
    case (Some v)
    then have v: "\<forall>t\<ge>now. val s k t = Some (itoa m)" using assms(2) by (auto simp: counter_at_def)
    then show ?thesis using assms(1) Some ParseInt_itoa [OF rng] by (auto simp: counted_def counter_at_def)
  qed
qed

lemma counted_frame: "counted val now k d n s s' \<Longrightarrow> k' \<noteq> k \<Longrightarrow> counter_at val s now k' m \<Longrightarrow> counter_at val s' now k' m"
  by (auto simp: counted_def counter_at_def split: option.splits)

lemma op_counted:
  "count_op_run (redis_New c) now op s = (s', Inr n) \<Longrightarrow> counted val now (op_key op) (op_delta op) n s s'"
  using incr_ok decr_ok by (cases op) (auto simp: redis_Incr_def redis_Decr_def redis_New_def)

lemma count_run_tally:
  assumes "count_run (redis_New c) ops s = (s', map Inr ns)" "counter_at val s now k m" "sorted (now # map fst ops)"
  shows "map snd (filter (\<lambda>((_, op), _). op_key op = k) (zip ops ns)) = tally k m ops \<and>
    counter_at val s' (last (now # map fst ops)) k (last (m # tally k m ops))"
  using assms
proof (induction ops arbitrary: s now m ns)
  case Nil
  then show ?case by auto
next
  case (Cons x ops)
  obtain t op where x: "x = (t, op)" by (cases x)
  obtain s1 r rs where o: "count_op_run (redis_New c) t op s = (s1, r)" and rest: "count_run (redis_New c) ops s1 = (s', rs)"
    and rs: "map Inr ns = r # rs" using Cons.prems(1) by (auto simp: x split: prod.splits)
  obtain n ns' where ns: "ns = n # ns'" "r = Inr n" "rs = map Inr ns'" using rs by (cases ns) auto
  note cnt = op_counted [OF o [unfolded ns(2)]]
  have at: "counter_at val s t k m" using Cons.prems(2,3) by (auto simp: counter_at_def x)
  have dl: "op_delta op = 1 \<or> op_delta op = -1" by (cases op) auto
  have srt: "sorted (t # map fst ops)" using Cons.prems(3) by (simp add: x)
  show ?case
  proof (cases "op_key op = k")
    case True
    with counted_step [OF cnt _ dl] at have "n = m + op_delta op" "counter_at val s1 t k n" by auto
    with Cons.IH [OF rest [unfolded ns(3)] _ srt, of n] True show ?thesis by (simp add: x ns(1))
  next
    case False
    with counted_frame [OF cnt _ at] have "counter_at val s1 t k m" by auto
    with Cons.IH [OF rest [unfolded ns(3)] _ srt, of m] False show ?thesis by (simp add: x ns(1))
  qed
qed

end

section \<open>Properties\<close>

text \<open>
  Counters are exact. Whatever counters any clients increase and decrease, in the order the server takes
  the calls, the calls on one counter get its running totals: no two clients that only increase a counter
  get the same number.
\<close>

theorem redis_counters_exact:
  assumes "redis_counter_server r val c" "count_run (redis_New c) ops s = (s', map Inr ns)"
    and "counter_at val s now k m" "sorted (now # map fst ops)"
  shows "map snd (filter (\<lambda>((_, op), _). op_key op = k) (zip ops ns)) = tally k m ops \<and>
    ((\<forall>(t, op)\<in>set ops. op_key op = k \<longrightarrow> op = OpIncr k) \<longrightarrow>
      map snd (filter (\<lambda>((_, op), _). op_key op = k) (zip ops ns)) =
        map (\<lambda>i. m + int i) [1..<1 + length (filter (\<lambda>(_, op). op_key op = k) ops)])"
proof -
  have up: "tally k m ops = map (\<lambda>i. m + int i) [1..<1 + length (filter (\<lambda>(_, op). op_key op = k) ops)]"
    if "\<forall>(t, op)\<in>set ops. op_key op = k \<longrightarrow> op = OpIncr k" for ops m using that
  proof (induction ops arbitrary: m)
    case (Cons x ops)
    have shift: "map (\<lambda>i. m + int i) [2..<2 + l] = map (\<lambda>i. m + 1 + int i) [1..<1 + l]" for l
    proof -
      have "[2..<2 + l] = map Suc [1..<1 + l]" by (simp only: map_Suc_upt) (simp add: numeral_2_eq_2)
      then show ?thesis by (simp add: comp_def del: upt_Suc)
    qed
    show ?case
    proof (cases x)
      case (Pair t op)
      show ?thesis
      proof (cases "op_key op = k")
        case True
        then have "op_delta op = 1" using Cons.prems Pair by auto
        then show ?thesis using True Cons shift [of "length (filter (\<lambda>(_, op). op_key op = k) ops)"]
          by (simp add: Pair upt_conv_Cons numeral_2_eq_2 del: upt_Suc)
      next
        case False
        then show ?thesis using Cons by (simp add: Pair)
      qed
    qed
  qed simp
  show ?thesis using redis_counter_server.count_run_tally [OF assms(1-4)] up by simp
qed

theorem redis_counters_exact_witness:
  "snd (count_run (redis_New ks_counters) [(1, OpIncr ''a''), (2, OpDecr ''b''), (2, OpIncr ''a'')] (\<lambda>_. None)) = [Inr 1, Inr (-1), Inr 2] \<and>
   tally ''a'' 0 [(1, OpIncr ''a''), (2, OpDecr ''b''), (2, OpIncr ''a'')] = [1, 2]"
proof -
  have i: "ParseInt (itoa 1) = Some 1" by (rule ParseInt_itoa) (simp_all add: int64_min_def int64_max_def)
  obtain s' where r: "count_run (redis_New ks_counters) [(1, OpIncr ''a''), (2, OpDecr ''b''), (2, OpIncr ''a'')] (\<lambda>_. None) = (s', map Inr [1, -1, 2])"
    using i by (simp add: redis_New_def redis_Incr_def redis_Decr_def ks_counters_def ks_count_def ks_val_def int64_min_def int64_max_def)
  have "counter_at ks_val (\<lambda>_. None) 0 ''a'' 0" by (simp add: counter_at_def ks_val_def int64_min_def int64_max_def)
  from redis_counters_exact [OF ksc.redis_counter_server_axioms r this] r show ?thesis by simp
qed

text \<open>
  A lifetime set by \<open>Expire\<close> is one of whole seconds: the key is gone that many seconds later, less than
  a second short of what was asked for (and a positive duration below a second becomes one), and \<open>TTL\<close>
  reports it; a missing key is reported as -2.
\<close>

theorem redis_expire_seconds:
  assumes "redis_counter_server r val c" "redis_Expire (redis_New c) now k ttl s = (s1, Inr b)" "0 < ttl"
    and "redis_TTL (redis_New c) now k s1 = (s2, Inr d)"
  shows "b = (val s k now \<noteq> None) \<and> (b \<longrightarrow> d = redis_sec ttl \<and> (\<forall>t\<ge>now. val s1 k t = (if t < now + redis_sec ttl then val s k now else None))) \<and>
    (\<not> b \<longrightarrow> d = -2) \<and> (ttl \<ge> second \<longrightarrow> redis_sec ttl \<le> ttl \<and> ttl < redis_sec ttl + second)"
proof -
  note ex = redis_counter_server.expire_ok [OF assms(1), of now k ttl s s1 b]
  have e: "rc_expire c now k ttl s = (s1, Inr b)" and tl: "rc_ttl c now k s1 = (s2, Inr d)"
    using assms(2,4) by (simp_all add: redis_Expire_def redis_TTL_def redis_New_def)
  have pos: "0 < redis_sec ttl" by (rule redis_sec_pos [OF assms(3)])
  have sec: "redis_sec ttl \<le> ttl \<and> ttl < redis_sec ttl + second" if "ttl \<ge> second"
    using that minus_mod_eq_div_mult [of ttl second] pos_mod_bound [of second ttl] pos_mod_sign [of second ttl]
    by (auto simp: redis_sec_def second_def millisecond_def)
  show ?thesis
  proof (cases "val s k now")
    case None
    then have "\<not> b" "val s1 k now = None" using ex e assms(3) by (auto simp: same_from_def)
    then show ?thesis using redis_counter_server.ttl_missing [OF assms(1) tl] None sec by simp
  next
    case (Some v)
    then have b: "b" and st: "\<forall>t\<ge>now. val s1 k t = (if t < now + redis_sec ttl then Some v else None)"
      using ex e assms(3) by (auto simp: stored_from_def)
    have "d = ((now + redis_sec ttl - now + 500 * millisecond) div second) * second"
      by (rule redis_counter_server.ttl_until [OF assms(1) tl]) (use pos st in auto)
    moreover have "redis_sec ttl = second \<or> redis_sec ttl = (ttl div second) * second" by (simp add: redis_sec_def)
    ultimately have "d = redis_sec ttl" by (auto simp: second_def millisecond_def)
    then show ?thesis using b st Some sec by auto
  qed
qed

end
