(* ===== verification/Serving.thy ===== *)
theory Serving
  imports Bootstrap
begin

text \<open>
  The ends of a service: mounting the health endpoints with checks that are fixed or provided
  (\<open>src/health/health.go\<close>), and running until a signal or a listen error arrives
  (\<open>RunGracefulWithConfig\<close> in \<open>src/server/server.go\<close>), on the routes of the assembled
  application and the shutdown sequence of \<open>Service\<close>.
\<close>

section \<open>Health endpoints\<close>

definition health_Check :: "string \<Rightarrow> check_outcome \<Rightarrow> named_check" where
  "health_Check name fn = (name, fn)"

text \<open>Registering fixed checks hands a provider that ignores what the application collects later.\<close>

definition health_RegisterAt :: "string \<Rightarrow> string \<Rightarrow> named_check list \<Rightarrow> route list" where
  "health_RegisterAt livez readyz checks =
     [RouteGet livez (\<lambda>env _. livez_handler), RouteGet readyz (\<lambda>env _. readyz_handler env checks)]"

definition health_Register :: "named_check list \<Rightarrow> route list" where
  "health_Register checks = health_RegisterAt ''/livez'' ''/readyz'' checks"

text \<open>
  Liveness is answered 200 whatever the checks say, and readiness by the checks captured at registration;
  registered with a provider it is answered by the checks known at the time of the request. A
  liveness path equal to the readiness path hides it.
\<close>

theorem health_endpoints:
  "gm livez c \<Longrightarrow> dispatch pm gm env now (health_RegisterAt livez readyz cs @ rs) w c =
      (w, c\<lparr>f_route := livez, f_body := Some (StatusReport ''ok'' None)\<rparr>, Ret None)"
  "\<not> gm livez c \<Longrightarrow> gm readyz c \<Longrightarrow> dispatch pm gm env now (health_RegisterAt livez readyz cs @ rs) w c =
      readyz_handler env cs w (c\<lparr>f_route := readyz\<rparr>)"
  "\<not> gm livez c \<Longrightarrow> gm readyz c \<Longrightarrow> dispatch pm gm env now (health_RegisterProviderAt livez readyz @ rs) w c =
      readyz_handler env now w (c\<lparr>f_route := readyz\<rparr>)"
  "\<not> gm livez c \<Longrightarrow> \<not> gm readyz c \<Longrightarrow> dispatch pm gm env now (health_RegisterAt livez readyz cs @ rs) w c =
      dispatch pm gm env now rs w c"
  by (simp_all add: health_RegisterAt_def health_RegisterProviderAt_def livez_handler_def)

section \<open>Running until a signal\<close>

text \<open>
  What reaches the process, in order: \<open>SIGINT\<close> or \<open>SIGTERM\<close> at some time, and the return of
  \<open>Listen\<close>, with an error or (when the app was shut down elsewhere) without.
\<close>

datatype serve_event = Signal time | ListenFailed string | ListenReturned

text \<open>
  The first signal closes the shutdown channel, a listen error ends the wait, and \<open>Listen\<close>
  returning nil sends nothing. \<open>None\<close>: still waiting.
\<close>

fun graceful_wait :: "serve_event list \<Rightarrow> (string + time) option" where
  "graceful_wait [] = None"
| "graceful_wait (Signal t # es) = Some (Inr t)"
| "graceful_wait (ListenFailed e # es) = Some (Inl e)"
| "graceful_wait (ListenReturned # es) = graceful_wait es"

definition RunGracefulWithConfig ::
  "'s server_config \<Rightarrow> serve_event list \<Rightarrow> (time \<Rightarrow> duration \<Rightarrow> 's \<Rightarrow> 's) \<Rightarrow> 's ctx_hook \<Rightarrow> 's \<Rightarrow> ('s \<times> string list option) option" where
  "RunGracefulWithConfig cfg es drain shutdown s =
     (case graceful_wait es of
        None \<Rightarrow> None
      | Some (Inl e) \<Rightarrow> Some (server_run cfg (Some e) 0 drain shutdown s)
      | Some (Inr t) \<Rightarrow> Some (server_run cfg None t drain shutdown s))"

lemma graceful_wait_skip: "graceful_wait (replicate n ListenReturned @ es) = graceful_wait es"
  by (induction n) simp_all

text \<open>The steps of a shutdown signalled at \<open>t\<close>: hooks, drain, the server itself, cleanup.\<close>

definition shutdown_steps :: "'s server_config \<Rightarrow> time \<Rightarrow> (time \<Rightarrow> duration \<Rightarrow> 's \<Rightarrow> 's) \<Rightarrow> 's ctx_hook \<Rightarrow> 's hook list" where
  "shutdown_steps cfg t drain shutdown =
     map (\<lambda>fn. fn (t + Timeout cfg)) (PreShutdown cfg) @
     (if DrainDelay cfg > 0 then [\<lambda>s. (drain (t + Timeout cfg) (DrainDelay cfg) s, None)] else []) @
     [shutdown (t + Timeout cfg)] @ map (\<lambda>fn. fn (t + Timeout cfg)) (Cleanup cfg)"


end
