(* ===== verification/Password.thy ===== *)
theory Password
  imports Fibr_Prelude
begin

text \<open>
  Password hashing (\<open>Hash\<close>, \<open>Compare\<close> in \<open>src/auth/auth.go\<close>). The bcrypt functions of
  \<open>golang.org/x/crypto\<close> are outside the repository; the random salt is an argument. The locale states
  what their documentation says, two different passwords being told apart when neither holds a NUL byte.
\<close>

record bcrypt_lib =
  bc_GenerateFromPassword :: "string \<Rightarrow> int \<Rightarrow> string \<Rightarrow> string + string"   \<comment> \<open>salt, cost, password\<close>
  bc_CompareHashAndPassword :: "string \<Rightarrow> string \<Rightarrow> string option"
  bc_DefaultCost :: int

definition auth_Hash :: "bcrypt_lib \<Rightarrow> string \<Rightarrow> string \<Rightarrow> string + string" where
  "auth_Hash bc salt password =
     (case bc_GenerateFromPassword bc salt (bc_DefaultCost bc) password of
        Inl e \<Rightarrow> Inl e
      | Inr b \<Rightarrow> Inr b)"

definition auth_Compare :: "bcrypt_lib \<Rightarrow> string \<Rightarrow> string \<Rightarrow> string option" where
  "auth_Compare bc hash password = bc_CompareHashAndPassword bc hash password"

locale bcrypt =
  fixes bc :: bcrypt_lib
  assumes gen_short: "length p \<le> 72 \<Longrightarrow> \<exists>h. bc_GenerateFromPassword bc salt cost p = Inr h"
    and gen_long: "length p > 72 \<Longrightarrow> bc_GenerateFromPassword bc salt cost p = Inl ''bcrypt: password length exceeds 72 bytes''"
    and compare_same: "bc_GenerateFromPassword bc salt cost p = Inr h \<Longrightarrow> bc_CompareHashAndPassword bc h p = None"
    and compare_other: "bc_GenerateFromPassword bc salt cost p = Inr h \<Longrightarrow> q \<noteq> p \<Longrightarrow> length q \<le> 72 \<Longrightarrow>
      CHR 0x00 \<notin> set p \<union> set q \<Longrightarrow> bc_CompareHashAndPassword bc h q \<noteq> None"

definition clear_bcrypt :: bcrypt_lib where
  "clear_bcrypt = \<lparr>bc_GenerateFromPassword = (\<lambda>salt cost p. if length p > 72 then Inl ''bcrypt: password length exceeds 72 bytes'' else Inr p),
     bc_CompareHashAndPassword = (\<lambda>h p. if h = p then None else Some ''bcrypt: hashedPassword is not the hash of the given password''),
     bc_DefaultCost = 10\<rparr>"

interpretation clear: bcrypt clear_bcrypt
  by unfold_locales (auto simp: clear_bcrypt_def split: if_splits)

text \<open>
  A hash accepts the password it was made from and no other. The comment of \<open>Hash\<close> says that only the
  first 72 bytes of a password count; a longer one is refused with an error instead.
\<close>

theorem password_hashing:
  assumes "bcrypt bc"
  shows "(length p \<le> 72 \<longrightarrow> (\<exists>h. auth_Hash bc salt p = Inr h \<and> auth_Compare bc h p = None \<and>
      (\<forall>q. q \<noteq> p \<and> length q \<le> 72 \<and> CHR 0x00 \<notin> set p \<union> set q \<longrightarrow> auth_Compare bc h q \<noteq> None))) \<and>
    (length p > 72 \<longrightarrow> (\<exists>e. auth_Hash bc salt p = Inl e))"
proof (intro conjI impI)
  assume "length p \<le> 72"
  then obtain h where h: "bc_GenerateFromPassword bc salt (bc_DefaultCost bc) p = Inr h" using bcrypt.gen_short [OF assms] by blast
  then show "\<exists>h. auth_Hash bc salt p = Inr h \<and> auth_Compare bc h p = None \<and>
      (\<forall>q. q \<noteq> p \<and> length q \<le> 72 \<and> CHR 0x00 \<notin> set p \<union> set q \<longrightarrow> auth_Compare bc h q \<noteq> None)"
    using bcrypt.compare_same [OF assms h] bcrypt.compare_other [OF assms h] by (auto simp: auth_Hash_def auth_Compare_def)
next
  assume "length p > 72"
  then show "\<exists>e. auth_Hash bc salt p = Inl e" using bcrypt.gen_long [OF assms] by (simp add: auth_Hash_def)
qed

end
