(* ===== verification/Example_Api.thy ===== *)
theory Example_Api
  imports Cache Toolkit Feature_Flag
begin

text \<open>
  The sample service of \<open>src/examples/api/main.go\<close>: API keys, feature flags, the cache, the event
  bus and the audit trail composed behind one route, on the models of those packages. The
  world is what they keep; one request is a run of the middleware chain.
\<close>

section \<open>The service\<close>

record widget =
  w_ID :: string
  w_Name :: string

record ex_world =
  ew_cache :: "widget cache"
  ew_audit :: audit_table
  ew_log :: "string list"

text \<open>What a request brings besides its context: clock readings, the address, the path parameter.\<close>

record ex_env =
  xe_t1 :: time
  xe_t2 :: time
  xe_t3 :: time
  xe_t4 :: time
  xe_ip :: string
  xe_id :: string

definition actorOf :: "fctx \<Rightarrow> string" where
  "actorOf c = (case apikey_FromContext c of Some i \<Rightarrow> id_ID i | None \<Rightarrow> [])"

definition example_keys :: "string \<Rightarrow> key_store" where
  "example_keys hash = MapStore_Lookup [(hash, \<lparr>id_ID = ''demo-user'', id_Scopes = [''widgets:read'']\<rparr>)]"

definition example_flags :: "provider option option" where
  "example_flags = Some (Some (Rules [(''fancy_widget_name'', \<lparr>r_Enabled = True, Percentage = 0, r_Users = [], r_Groups = []\<rparr>)]))"

definition example_rec :: "(audit_table \<Rightarrow> string option) \<Rightarrow> audit_table recorder" where
  "example_rec fault = audit_New (bunSink_Record fault) [WithActor actorOf]"

definition example_widgets :: "widget cache" where
  "example_widgets = cache_New [WithDefaultTTL minute, WithMaxSize 1024]"

text \<open>The event is the widget's identifier and the actor; its handler logs a line.\<close>

definition viewed_handler :: "(string list, string \<times> string) event_handler" where
  "viewed_handler e l = (l @ [''event: widget '' @ fst e @ '' viewed by '' @ snd e], None)"

definition example_bus :: "(string list, string \<times> string) bus" where
  "example_bus = events_Subscribe ''WidgetViewed'' viewed_handler (events_New [])"

text \<open>The name that the loader makes; the flag puts a sparkle (three bytes) and a space before it.\<close>

definition sparkle :: string where "sparkle = [CHR 0xE2, CHR 0x9C, CHR 0xA8, CHR '' '']"

definition load_widget :: "bound option \<Rightarrow> string \<Rightarrow> widget" where
  "load_widget b i =
     (let name = ''widget-'' @ i
      in \<lparr>w_ID = i, w_Name = (if fiber_Enabled b ''fancy_widget_name'' then sparkle @ name else name)\<rparr>)"

type_synonym load_result = "string + widget"

definition widget_handler ::
  "(string \<Rightarrow> (widget cache \<Rightarrow> load_result \<times> widget cache) \<Rightarrow> widget cache \<Rightarrow> load_result \<times> widget cache) \<Rightarrow>
   (audit_table \<Rightarrow> string option) \<Rightarrow> (widget \<Rightarrow> string) \<Rightarrow> ex_env \<Rightarrow> bound option \<Rightarrow> ex_world handler" where
  "widget_handler group_Do fault render env b w c =
     (let i = xe_id env
      in case cache_GetOrLoad group_Do (xe_t1 env) (xe_t2 env) (xe_t3 env) (''widget:'' @ i) (Inr (load_widget b i)) (ew_cache w) of
           (Inl e, ca) \<Rightarrow> (w\<lparr>ew_cache := ca\<rparr>, c, Ret (Some (Internal ''load widget'')))
         | (Inr wd, ca) \<Rightarrow>
             (case events_Publish ''WidgetViewed'' (i, actorOf c) example_bus (ew_log w) of
                (l, _, _) \<Rightarrow>
                  let e = (recorder_FromRequest (example_rec fault) (xe_ip env) c)
                            \<lparr>ae_Action := ''widget.view'', ae_Target := ''widget'', ae_TargetID := i\<rparr>
                  in case recorder_Record (example_rec fault) (xe_t4 env) e (ew_audit w) of
                       (t, _) \<Rightarrow> (\<lparr>ew_cache = ca, ew_audit = t, ew_log = l\<rparr>, SendSuccess (Some (render wd)) ''widget'' [] c, Ret None)))"

definition flags_eval :: "fctx \<Rightarrow> eval" where
  "flags_eval c = \<lparr>UserID = actorOf c, Groups = [], Attrs = []\<rparr>"

text \<open>\<open>GET /widgets/:id\<close> behind the API key, the flags and the scope, and \<open>GET /me\<close>.\<close>

definition example_widget_route where
  "example_widget_route sha256 hash group_Do fault render env =
     apikey_Middleware sha256 (example_keys hash) []
       (\<lambda>w c. apikey_RequireScope ''widgets:read''
          (widget_handler group_Do fault render env (Flags_Middleware example_flags (Some flags_eval) c)) w c)"

definition example_me_route :: "(string \<Rightarrow> string) \<Rightarrow> string \<Rightarrow> (identity option \<Rightarrow> string) \<Rightarrow> ex_world handler" where
  "example_me_route sha256 hash render =
     apikey_Middleware sha256 (example_keys hash) []
       (\<lambda>w c. (w, SendSuccess (Some (render (apikey_FromContext c))) ''identity'' [] c, Ret None))"

definition example_public_route :: "string \<Rightarrow> ex_world handler" where
  "example_public_route body w c = (w, SendSuccess (Some body) ''public'' [] c, Ret None)"

fun example_run where
  "example_run sha256 hash group_Do fault render [] w = (w, [])"
| "example_run sha256 hash group_Do fault render ((env, c) # rs) w =
     (case serve (example_widget_route sha256 hash group_Do fault render env) w c of
        (w1, c1, _) \<Rightarrow> (case example_run sha256 hash group_Do fault render rs w1 of (w2, cs) \<Rightarrow> (w2, c1 # cs)))"

section \<open>One request\<close>

text \<open>The widget every loader of an identified user makes, and what the cache may hold.\<close>

definition fancy :: "string \<Rightarrow> widget" where
  "fancy i = \<lparr>w_ID = i, w_Name = sparkle @ ''widget-'' @ i\<rparr>"

definition cache_fancy :: "widget cache \<Rightarrow> bool" where
  "cache_fancy ca \<longleftrightarrow> cache_reach ca \<and> (\<forall>(k, v, x)\<in>set (cache_abs ca). \<exists>i. k = ''widget:'' @ i \<and> v = fancy i)"

definition accepted :: "(string \<Rightarrow> string) \<Rightarrow> string \<Rightarrow> fctx \<Rightarrow> bool" where
  "accepted sha256 hash c \<longleftrightarrow> req_header c ''X-API-Key'' \<noteq> [] \<and> apikey_Hash sha256 (req_header c ''X-API-Key'') = hash"

lemma load_fancy: "load_widget (Flags_Middleware example_flags (Some flags_eval) c) i = fancy i"
  by (simp add: load_widget_def fancy_def Flags_Middleware_def fiber_Enabled_def Flags_Enabled_def example_flags_def Rules_def rule_eval_def)

lemma GetOrLoad_reach:
  assumes "\<And>f s. group_Do k f s = f s" "cache_reach c"
  shows "cache_reach (snd (cache_GetOrLoad group_Do t1 t2 t3 k loader c))"
proof -
  have g: "cache_reach (snd (cache_Get t k' c'))" if "cache_reach c'" for t k' and c' :: "'a cache"
    using cache_reach.Step [OF that cache_step.Get] .
  have l: "cache_reach (snd (cache_load t2 t3 k loader c'))" if "cache_reach c'" for c'
    using g [OF that, of t2 k] cache_reach.Step [OF _ cache_step.Set]
    by (auto simp: cache_load_def split: prod.splits option.splits sum.splits)
  show ?thesis using g [OF assms(2), of t1 k] l
    by (auto simp: cache_GetOrLoad_def assms(1) split: prod.splits option.splits)
qed

lemma spec_subset:
  "set (snd (spec_get t k xs)) \<subseteq> set xs"
  "set (spec_set sz k v x xs) \<subseteq> insert (k, v, x) (set xs)"
  by (auto simp: spec_get_def spec_set_def spec_drop_def Let_def split: option.splits if_splits dest!: map_of_SomeD in_set_butlastD)

lemma GetOrLoad_fancy:
  assumes "\<And>k f s. group_Do k f s = f s" "cache_fancy ca"
    and "cache_GetOrLoad group_Do t1 t2 t3 (''widget:'' @ i) (Inr (fancy i) :: load_result) ca = (r, ca')"
  shows "r = Inr (fancy i) \<and> cache_fancy ca'"
proof -
  have reach: "cache_reach ca" and all: "\<forall>(k, v, x)\<in>set (cache_abs ca). \<exists>i. k = ''widget:'' @ i \<and> v = fancy i"
    using assms(2) by (auto simp: cache_fancy_def)
  note spec = cache_GetOrLoad_abs [where group_Do = group_Do and ?t1.0 = t1 and ?t2.0 = t2 and ?t3.0 = t3
      and loader = "Inr (fancy i)" and k = "''widget:'' @ i", OF assms(1) reach]
  have reach': "cache_reach ca'"
    using GetOrLoad_reach [where group_Do = group_Do and k = "''widget:'' @ i" and ?t1.0 = t1 and ?t2.0 = t2 and ?t3.0 = t3
        and loader = "Inr (fancy i) :: load_result", OF assms(1) reach] assms(3) by simp
  obtain g xs where g: "spec_get t1 (''widget:'' @ i) (cache_abs ca) = (g, xs)" by fastforce
  have xs: "set xs \<subseteq> set (cache_abs ca)" using spec_subset(1) [of t1 "''widget:'' @ i" "cache_abs ca"] g by simp
  show ?thesis
  proof (cases g)
    case (Some v)
    then have "(''widget:'' @ i, v) \<in> (\<lambda>(k, v, x). (k, v)) ` set (cache_abs ca)"
      using g by (force simp: spec_get_def split: option.splits if_splits dest!: map_of_SomeD)
    then have "v = fancy i" using all by fastforce
    moreover have "r = Inr v" "cache_abs ca' = xs" using spec g Some assms(3) by (auto simp: apsnd_def map_prod_def)
    ultimately show ?thesis using reach' all xs by (auto simp: cache_fancy_def)
  next
    case None
    then have "r = Inr (fancy i)" and a: "cache_abs ca' = spec_set (maxSize ca) (''widget:'' @ i) (fancy i)
        (if defaultTTL ca > 0 then Some (t3 + defaultTTL ca) else None) xs"
      using spec g assms(3) by (auto simp: apsnd_def map_prod_def)
    moreover obtain x where sub: "set (cache_abs ca') \<subseteq> insert (''widget:'' @ i, fancy i, x) (set (cache_abs ca))"
      using order_trans [OF spec_subset(2) [of "maxSize ca" "''widget:'' @ i" "fancy i" _ xs] insert_mono [OF xs]] unfolding a by blast
    moreover have "case (''widget:'' @ i, fancy i, x) of (k, v, x) \<Rightarrow> \<exists>i. k = ''widget:'' @ i \<and> v = fancy i" by auto
    ultimately show ?thesis using reach' all unfolding cache_fancy_def by blast
  qed
qed

lemma identified: "apikey_FromContext (SetLocal apikey_localsKey (LIdentity x) c) = Some x"
  by (simp add: apikey_FromContext_def SetLocal_def)

lemma bus_run: "events_Publish ''WidgetViewed'' e example_bus l = (l @ [''event: widget '' @ fst e @ '' viewed by '' @ snd e], None, [])"
  by (simp add: events_Publish_def example_bus_def events_Subscribe_def events_New_def apply_opts_def bus_handlers_def
      viewed_handler_def errors_Join_def)

text \<open>A row of the audit table as the sample writes it.\<close>

definition view_row :: "audit_entry \<Rightarrow> string \<times> string \<times> string \<times> string" where
  "view_row e = (ae_Actor e, ae_Action e, ae_Target e, ae_TargetID e)"

lemma widget_request:
  assumes "\<And>k f s. group_Do k f s = f s" "cache_fancy (ew_cache w)"
    and "serve (example_widget_route sha256 hash group_Do (\<lambda>_. None) render env) w c = (w', c', p)"
  shows "if accepted sha256 hash c
    then f_status c' = 200 \<and> (\<exists>x. f_body c' = Some (Envelope x) \<and> r_Data x = Some (render (fancy (xe_id env)))) \<and>
      cache_fancy (ew_cache w') \<and> ew_log w' = ew_log w @ [''event: widget '' @ xe_id env @ '' viewed by demo-user''] \<and>
      map view_row (at_rows (ew_audit w')) = map view_row (at_rows (ew_audit w)) @ [(''demo-user'', ''widget.view'', ''widget'', xe_id env)]
    else f_status c' = 401 \<and> w' = w"
proof (cases "accepted sha256 hash c")
  case False
  then show ?thesis using assms(3)
    by (cases "req_header c ''X-API-Key'' = []") (auto simp: accepted_def serve_def example_widget_route_def apikey_Middleware_def example_keys_def MapStore_Lookup_def
        apikey_header_def Unauthorized_def apierror_New_def apierror_Handler_def send_def Let_def)
next
  case True
  let ?i = "\<lparr>id_ID = ''demo-user'', id_Scopes = [''widgets:read'']\<rparr>"
  let ?c = "SetLocal apikey_localsKey (LIdentity ?i) c"
  obtain r ca where g: "cache_GetOrLoad group_Do (xe_t1 env) (xe_t2 env) (xe_t3 env) (''widget:'' @ xe_id env)
      (Inr (fancy (xe_id env)) :: load_result) (ew_cache w) = (r, ca)" by fastforce
  from GetOrLoad_fancy [OF assms(1,2) g] have r: "r = Inr (fancy (xe_id env))" "cache_fancy ca" by auto
  have a: "actorOf ?c = ''demo-user''" by (simp add: actorOf_def identified)
  have "serve (example_widget_route sha256 hash group_Do (\<lambda>_. None) render env) w c =
      (case widget_handler group_Do (\<lambda>_. None) render env (Flags_Middleware example_flags (Some flags_eval) ?c) w ?c of
         (w', c', Ret None) \<Rightarrow> (w', c', None) | (w', c', Ret (Some e)) \<Rightarrow> (w', apierror_Handler e c', None) | (w', c', Panic r) \<Rightarrow> (w', c', Some r))"
    using True by (simp add: accepted_def serve_def example_widget_route_def apikey_Middleware_def example_keys_def MapStore_Lookup_def
        apikey_header_def apikey_RequireScope_def identified Let_def)
  then show ?thesis using assms(3) True g r a
    by (auto simp: widget_handler_def load_fancy bus_run recorder_Record_def recorder_FromRequest_def example_rec_def audit_New_def
        bunSink_Record_def SendSuccess_def send_def view_row_def Let_def)
qed

section \<open>Properties\<close>

text \<open>What a response must be for a request.\<close>

definition answered where
  "answered sha256 hash render q c' \<longleftrightarrow>
     (case q of (env, c) \<Rightarrow>
        if accepted sha256 hash c
        then f_status c' = 200 \<and> (\<exists>x. f_body c' = Some (Envelope x) \<and> r_Data x = Some (render (fancy (xe_id env))))
        else f_status c' = 401)"



end
