(* ===== verification/Example_Auth.thy ===== *)
theory Example_Auth
  imports Auth Password Go_Strings "HOL-Library.Countable"
begin

text \<open>
  The sample program of \<open>src/examples/auth/main.go\<close> on the models of password hashing, the issuer
  and the memory store: a sign-up, a login, a rotation, a replay and a logout, with the lines it
  prints. The token library is that of a locale which states what signing and parsing do
  with claims.
\<close>

section \<open>The token library\<close>

text \<open>Claims come back from a token as JSON decodes them: numbers as \<open>float64\<close>, string slices as arrays.\<close>

fun json_val :: "jval \<Rightarrow> jval" where
  "json_val (JInt64 n) = JFloat (of_int n)"
| "json_val (JStrings ss) = JArray (map JStr ss)"
| "json_val v = v"

definition json_claims :: "claims \<Rightarrow> claims" where
  "json_claims c = map (\<lambda>(k, v). (k, json_val v)) c"

text \<open>The integers of the claims are ones a \<open>float64\<close> holds exactly.\<close>

definition claims_exact :: "claims \<Rightarrow> bool" where
  "claims_exact c \<longleftrightarrow> (\<forall>(k, v)\<in>set c. \<forall>n. v = JInt64 n \<longrightarrow> \<bar>n\<bar> \<le> 2 ^ 53)"

locale jwt_codec =
  fixes lib :: jwtlib
  assumes sign: "\<exists>tok. SignedString lib c k = Inr tok \<and> tok \<noteq> []"
    and parse: "SignedString lib c k = Inr tok \<Longrightarrow> claims_exact c \<Longrightarrow> kf HMAC = Inr k \<Longrightarrow>
      gm_get c ''exp'' = Some (JInt64 x) \<Longrightarrow> now < x * second \<Longrightarrow>
      Parse lib kf now tok = Inr \<lparr>t_Valid = True, t_Claims = Some (json_claims c)\<rparr>"

lemma gm_get_json: "gm_get (json_claims c) k = map_option json_val (gm_get c k)"
  unfolding gm_get_def json_claims_def by (induction c) auto

lemma claim_str_json: "claim_str (json_claims c) k = claim_str c k"
  by (cases "gm_get c k") (auto simp: claim_str_def gm_get_json split: jval.splits elim!: json_val.elims)

instance jval :: countable by countable_datatype

text \<open>A library that writes a token as a number in unary: the claims with the key.\<close>

definition unary_lib :: jwtlib where
  "unary_lib =
     \<lparr>SignedString = (\<lambda>c k. Inr (replicate (Suc (to_nat (json_claims c, k))) CHR ''.'')),
      Parse = (\<lambda>kf now tok. case kf HMAC of
          Inl e \<Rightarrow> Inl e
        | Inr k \<Rightarrow>
            (case from_nat (length tok - 1) of
               (c, k') \<Rightarrow>
                 if k' \<noteq> k then Inl ''signature is invalid''
                 else case gm_get c ''exp'' of
                        Some (JFloat x) \<Rightarrow> if now < trunc_rat x * second then Inr \<lparr>t_Valid = True, t_Claims = Some c\<rparr> else Inl ''token is expired''
                      | _ \<Rightarrow> Inl ''exp is missing''))\<rparr>"

lemma trunc_of_int: "trunc_rat (of_int n) = n"
  by (simp add: trunc_rat_def)

interpretation unary: jwt_codec unary_lib
proof unfold_locales
  fix c k tok and kf :: "signing_method \<Rightarrow> string + string" and x now
  assume "SignedString unary_lib c k = Inr tok" "kf HMAC = Inr k" "gm_get c ''exp'' = Some (JInt64 x)" "now < x * second"
  then show "Parse unary_lib kf now tok = Inr \<lparr>t_Valid = True, t_Claims = Some (json_claims c)\<rparr>"
    by (auto simp: unary_lib_def gm_get_json trunc_of_int)
qed (simp add: unary_lib_def)

section \<open>The program\<close>

text \<open>What the program draws and reads: a salt, the random identifiers, the clock at each call.\<close>

record ea_env =
  ea_salt :: string
  ea_fid :: string
  ea_a1 :: string
  ea_r1 :: string
  ea_a2 :: string
  ea_r2 :: string
  ea_a3 :: string
  ea_r3 :: string
  ea_t0 :: time
  ea_t1 :: time
  ea_t2 :: time
  ea_t3 :: time

definition bool_text :: "bool \<Rightarrow> string" where
  "bool_text b = (if b then ''true'' else ''false'')"

definition ea_issuer :: issuer where
  "ea_issuer = NewIssuer ''replace-with-a-real-secret'' [WithAccessTTL (15 * minute), WithRefreshTTL (24 * hour)]"

definition ea_claims :: claims where
  "ea_claims = [(''sub'', JStr ''user-1''), (''role'', JStr ''admin'')]"

text \<open>The lines printed before the end or a panic, and whether it panicked.\<close>

definition example_auth_main :: "bcrypt_lib \<Rightarrow> jwtlib \<Rightarrow> ea_env \<Rightarrow> string list \<times> bool" where
  "example_auth_main bc lib env =
     (case auth_Hash bc (ea_salt env) ''s3cret-password'' of
        Inl e \<Rightarrow> ([], True)
      | Inr hash \<Rightarrow>
     (let l1 = [''password matches: '' @ bool_text (auth_Compare bc hash ''s3cret-password'' = None),
                ''wrong password: '' @ bool_text (auth_Compare bc hash ''nope'' = None)]
      in case issuer_Issue lib memory_store ea_issuer (ea_t0 env) (Inr (ea_fid env)) (Inr (ea_a1 env)) (Inr (ea_r1 env)) ea_claims NewMemoryStore of
           (s1, Inl e) \<Rightarrow> (l1, True)
         | (s1, Inr pair) \<Rightarrow>
     (let l2 = l1 @ [''access token lifetime (s): '' @ itoa (ExpiresIn pair)]
      in case issuer_Refresh lib memory_store ea_issuer (ea_t1 env) (Inr (ea_a2 env)) (Inr (ea_r2 env)) (RefreshToken pair) s1 of
           (s2, Inl e) \<Rightarrow> (l2, True)
         | (s2, Inr rotated) \<Rightarrow>
     (let l3 = l2 @ [''token rotated: '' @ bool_text (AccessToken rotated \<noteq> AccessToken pair)]
      in case issuer_Refresh lib memory_store ea_issuer (ea_t2 env) (Inr (ea_a3 env)) (Inr (ea_r3 env)) (RefreshToken pair) s2 of
           (s3, again) \<Rightarrow>
     (let l4 = l3 @ [''reuse rejected: '' @ bool_text (isl again)]
      in case issuer_Logout lib memory_store ea_issuer (ea_t3 env) (AccessToken rotated) (RefreshToken rotated) s3 of
           (s4, Some e) \<Rightarrow> (l4, True)
         | (s4, None) \<Rightarrow> (l4 @ [''logged out''], False))))))"

section \<open>Its calls\<close>

text \<open>The claims that \<open>mint\<close> signs.\<close>

definition minted :: "string \<Rightarrow> (string \<times> jval) list \<Rightarrow> claims \<Rightarrow> time \<Rightarrow> duration \<Rightarrow> claims" where
  "minted ty extra base now ttl =
     gm_put (copy_claims base ([(''sub'', sub_claim base), (''type'', JStr ty)] @ extra)) ''exp'' (JInt64 ((now + ttl) div second))"

lemma gm_get_fold:
  "gm_get (fold (\<lambda>k c. case gm_get base k of None \<Rightarrow> c | Some v \<Rightarrow> gm_put c k v) ks c) k' =
     (if k' \<in> set ks \<and> gm_get base k' \<noteq> None then gm_get base k' else gm_get c k')"
  by (induction ks arbitrary: c) (auto split: option.split)

lemma gm_get_copy:
  "gm_get (copy_claims base c) k =
     (if k \<in> {''email'', ''scopes'', ''team'', ''role''} \<and> gm_get base k \<noteq> None then gm_get base k else gm_get c k)"
  unfolding copy_claims_def gm_get_fold by simp

lemma minted_str:
  "claim_str (minted ty extra base now ttl) ''type'' = ty"
  "claim_str (minted ty [(''jti'', JStr a)] base now ttl) ''jti'' = a"
  "claim_str (minted ty [(''fid'', JStr f), (''jti'', JStr a)] base now ttl) ''jti'' = a"
  "claim_str (minted ty [(''fid'', JStr f), (''jti'', JStr a)] base now ttl) ''fid'' = f"
  by (simp_all add: minted_def claim_str_def gm_get_copy)

lemma set_put: "set (gm_put m k v) \<subseteq> insert (k, v) (set m)"
  unfolding gm_put_def by (induction m) auto

lemma exact_put: "claims_exact c \<Longrightarrow> \<forall>n. v = JInt64 n \<longrightarrow> \<bar>n\<bar> \<le> 2 ^ 53 \<Longrightarrow> claims_exact (gm_put c k v)"
  unfolding claims_exact_def using set_put [of c k v] by fast

lemma exact_get: "claims_exact c \<Longrightarrow> gm_get c k = Some v \<Longrightarrow> \<forall>n. v = JInt64 n \<longrightarrow> \<bar>n\<bar> \<le> 2 ^ 53"
  unfolding claims_exact_def gm_get_def by (auto dest: map_of_SomeD)

lemma exact_json: "claims_exact (json_claims c)"
proof -
  have "json_val v \<noteq> JInt64 n" for v n by (cases v) auto
  then show ?thesis by (auto simp: claims_exact_def json_claims_def)
qed

lemma exact_copy:
  assumes "claims_exact base" "claims_exact c"
  shows "claims_exact (copy_claims base c)"
proof -
  have step: "claims_exact (case gm_get base k of None \<Rightarrow> d | Some v \<Rightarrow> gm_put d k v)" if "claims_exact d" for k d
    using that exact_put exact_get [OF assms(1)] by (auto split: option.split)
  have "claims_exact (fold (\<lambda>k d. case gm_get base k of None \<Rightarrow> d | Some v \<Rightarrow> gm_put d k v) ks d)" if "claims_exact d" for ks d
    using that by (induction ks arbitrary: d) (auto intro: step)
  then show ?thesis unfolding copy_claims_def using assms(2) by blast
qed

lemma minted_exact:
  assumes "claims_exact base" "\<forall>(k, v)\<in>set extra. \<exists>x. v = JStr x" "\<bar>(now + ttl) div second\<bar> \<le> 2 ^ 53"
  shows "claims_exact (minted ty extra base now ttl)"
proof -
  have "\<forall>n. sub_claim base = JInt64 n \<longrightarrow> \<bar>n\<bar> \<le> 2 ^ 53"
    using exact_get [OF assms(1), of "''sub''"] by (auto simp: sub_claim_def split: option.splits)
  then have "claims_exact ([(''sub'', sub_claim base), (''type'', JStr ty)] @ extra)"
    using assms(2) by (auto simp: claims_exact_def)
  then show ?thesis unfolding minted_def using assms by (intro exact_put exact_copy) auto
qed

context jwt_codec
begin

lemma mint_memory:
  "\<exists>atok rtok. issuer_mint lib memory_store i now (Inr a) (Inr r) base fid s =
      (s\<lparr>ms_family := gm_put (ms_family s) fid \<lparr>fe_jti = r, fe_exp = now + refreshTTL i\<rparr>\<rparr>,
       Inr \<lparr>AccessToken = atok, RefreshToken = rtok, TokenType = ''Bearer'',
             ExpiresIn = go_div (accessTTL i) second, RefreshExpiresIn = go_div (refreshTTL i) second\<rparr>) \<and>
     SignedString lib (minted ''access'' [(''jti'', JStr a)] base now (accessTTL i)) (i_secret i) = Inr atok \<and>
     SignedString lib (minted ''refresh'' [(''fid'', JStr fid), (''jti'', JStr r)] base now (refreshTTL i)) (i_secret i) = Inr rtok \<and>
     atok \<noteq> [] \<and> rtok \<noteq> []"
proof -
  obtain atok where a: "SignedString lib (minted ''access'' [(''jti'', JStr a)] base now (accessTTL i)) (i_secret i) = Inr atok" "atok \<noteq> []"
    using sign by blast
  obtain rtok where r: "SignedString lib (minted ''refresh'' [(''fid'', JStr fid), (''jti'', JStr r)] base now (refreshTTL i)) (i_secret i) = Inr rtok" "rtok \<noteq> []"
    using sign by blast
  show ?thesis using a r
    by (simp add: issuer_mint_def jwt_GenerateTokenWithExpiry_def minted_def memory_store_def memory_SetFamily_def Let_def)
qed

lemma parse_minted:
  assumes "SignedString lib (minted ty extra base now ttl) (i_secret i) = Inr tok"
    and "claims_exact (minted ty extra base now ttl)" "t < (now + ttl) div second * second"
  shows "issuer_parseValid lib i t tok = Inr (json_claims (minted ty extra base now ttl))"
proof -
  have "Parse lib (\<lambda>m. case m of HMAC \<Rightarrow> Inr (i_secret i) | OtherMethod alg \<Rightarrow> Inl (''unexpected signing method: '' @ alg)) t tok =
      Inr \<lparr>t_Valid = True, t_Claims = Some (json_claims (minted ty extra base now ttl))\<rparr>"
    by (rule parse [OF assms(1,2)]) (use assms(3) in \<open>simp_all add: minted_def\<close>)
  then show ?thesis by (simp add: issuer_parseValid_def jwt_ValidateToken_def jwt_ExtractClaims_def)
qed

text \<open>A refresh over the memory store, when the family's entry is alive.\<close>

lemma refresh_memory:
  assumes "issuer_parseValid lib i now tok = Inr c" "refresh_claims c"
    and "gm_get (ms_family s) (claim_str c ''fid'') = Some \<lparr>fe_jti = j, fe_exp = e\<rparr>" "now \<le> e"
  shows "j = claim_str c ''jti'' \<Longrightarrow> \<exists>s' atok rtok p. issuer_Refresh lib memory_store i now (Inr a) (Inr r) tok s = (s', Inr p) \<and>
      AccessToken p = atok \<and> RefreshToken p = rtok \<and> atok \<noteq> [] \<and> rtok \<noteq> [] \<and>
      ms_family s' = gm_put (ms_family s) (claim_str c ''fid'') \<lparr>fe_jti = r, fe_exp = now + refreshTTL i\<rparr> \<and>
      SignedString lib (minted ''access'' [(''jti'', JStr a)] c now (accessTTL i)) (i_secret i) = Inr atok \<and>
      SignedString lib (minted ''refresh'' [(''fid'', JStr (claim_str c ''fid'')), (''jti'', JStr r)] c now (refreshTTL i)) (i_secret i) = Inr rtok"
    and "j \<noteq> claim_str c ''jti'' \<Longrightarrow> \<exists>s'. issuer_Refresh lib memory_store i now (Inr a) (Inr r) tok s = (s', Inl ErrTokenReuse)"
proof -
  have f: "ts_Family memory_store now (claim_str c ''fid'') s = (s, Inr (Some j))"
    using assms(3,4) by (simp add: memory_store_def memory_Family_def)
  show "\<exists>s'. issuer_Refresh lib memory_store i now (Inr a) (Inr r) tok s = (s', Inl ErrTokenReuse)" if "j \<noteq> claim_str c ''jti''"
    using that assms(1,2) f by (simp add: issuer_Refresh_def refresh_claims_def)
  obtain atok rtok where m: "issuer_mint lib memory_store i now (Inr a) (Inr r) c (claim_str c ''fid'') s =
      (s\<lparr>ms_family := gm_put (ms_family s) (claim_str c ''fid'') \<lparr>fe_jti = r, fe_exp = now + refreshTTL i\<rparr>\<rparr>,
       Inr \<lparr>AccessToken = atok, RefreshToken = rtok, TokenType = ''Bearer'',
             ExpiresIn = go_div (accessTTL i) second, RefreshExpiresIn = go_div (refreshTTL i) second\<rparr>)"
     "SignedString lib (minted ''access'' [(''jti'', JStr a)] c now (accessTTL i)) (i_secret i) = Inr atok"
     "SignedString lib (minted ''refresh'' [(''fid'', JStr (claim_str c ''fid'')), (''jti'', JStr r)] c now (refreshTTL i)) (i_secret i) = Inr rtok"
     "atok \<noteq> []" "rtok \<noteq> []"
    using mint_memory by blast
  have b: "ms_family (fst (ts_Block memory_store now k ttl s')) = ms_family s'" for k ttl s'
    by (simp add: memory_store_def memory_Block_def)
  show "\<exists>s' atok rtok p. issuer_Refresh lib memory_store i now (Inr a) (Inr r) tok s = (s', Inr p) \<and>
      AccessToken p = atok \<and> RefreshToken p = rtok \<and> atok \<noteq> [] \<and> rtok \<noteq> [] \<and>
      ms_family s' = gm_put (ms_family s) (claim_str c ''fid'') \<lparr>fe_jti = r, fe_exp = now + refreshTTL i\<rparr> \<and>
      SignedString lib (minted ''access'' [(''jti'', JStr a)] c now (accessTTL i)) (i_secret i) = Inr atok \<and>
      SignedString lib (minted ''refresh'' [(''fid'', JStr (claim_str c ''fid'')), (''jti'', JStr r)] c now (refreshTTL i)) (i_secret i) = Inr rtok"
    if "j = claim_str c ''jti''"
    using that assms(1,2) f m by (simp add: issuer_Refresh_def refresh_claims_def b)
qed

lemma logout_memory: "snd (issuer_Logout lib memory_store i now at' rt s) = None"
  by (auto simp: issuer_Logout_def logout_access_def logout_refresh_def memory_store_def memory_Block_def memory_RevokeFamily_def
      split: sum.split prod.split)

end

section \<open>The output\<close>

lemma password_told_apart:
  assumes "bcrypt bc" "length p \<le> 72" "q \<noteq> p" "length q \<le> 72" "CHR 0x00 \<notin> set p \<union> set q"
  shows "\<exists>h. auth_Hash bc salt p = Inr h \<and> auth_Compare bc h p = None \<and> auth_Compare bc h q \<noteq> None"
  using password_hashing [OF assms(1), of p salt] assms(2-) by blast

text \<open>
  The order of the calls, all within a quarter of an hour of a clock that fits 64 bits, and identifiers
  that do not repeat.
\<close>

definition ea_ok :: "ea_env \<Rightarrow> bool" where
  "ea_ok env \<longleftrightarrow> 0 \<le> ea_t0 env \<and> ea_t0 env \<le> ea_t1 env \<and> ea_t1 env \<le> ea_t2 env \<and> ea_t2 env \<le> ea_t3 env \<and>
     ea_t3 env < ea_t0 env + 14 * minute \<and> ea_t3 env \<le> int64_max \<and>
     ea_fid env \<noteq> [] \<and> ea_r1 env \<noteq> [] \<and> ea_r1 env \<noteq> ea_r2 env \<and> ea_a1 env \<noteq> ea_a2 env"

lemma ea_times:
  assumes "0 \<le> u" "u \<le> t" "t < u + 14 * minute" "u \<le> int64_max"
  shows "t < (u + 15 * minute) div second * second" "t < (u + 24 * hour) div second * second"
    "\<bar>(u + 15 * minute) div second\<bar> \<le> 2 ^ 53" "\<bar>(u + 24 * hour) div second\<bar> \<le> 2 ^ 53"
  using assms by (simp_all add: go_defs int64_max_def)

lemma ea_issuer_fields [simp]:
  "i_secret ea_issuer = ''replace-with-a-real-secret''" "accessTTL ea_issuer = 15 * minute" "refreshTTL ea_issuer = 24 * hour"
  by (simp_all add: ea_issuer_def NewIssuer_def go_defs)

lemma ea_claims_exact: "claims_exact ea_claims"
  by (simp add: claims_exact_def ea_claims_def)

text \<open>The claims of the first pair and of the access token of the second.\<close>

definition ea_access1 :: "ea_env \<Rightarrow> claims" where
  "ea_access1 env = minted ''access'' [(''jti'', JStr (ea_a1 env))] ea_claims (ea_t0 env) (15 * minute)"

definition ea_refresh1 :: "ea_env \<Rightarrow> claims" where
  "ea_refresh1 env = minted ''refresh'' [(''fid'', JStr (ea_fid env)), (''jti'', JStr (ea_r1 env))] ea_claims (ea_t0 env) (24 * hour)"

definition ea_access2 :: "ea_env \<Rightarrow> claims" where
  "ea_access2 env = minted ''access'' [(''jti'', JStr (ea_a2 env))] (json_claims (ea_refresh1 env)) (ea_t1 env) (15 * minute)"

lemma ea_clock:
  assumes "ea_ok env"
  shows "ea_t1 env \<le> ea_t0 env + 24 * hour" "ea_t2 env \<le> ea_t1 env + 24 * hour" "0 \<le> ea_t1 env"
    "ea_t1 env < ea_t0 env + 14 * minute" "ea_t2 env < ea_t0 env + 14 * minute" "ea_t1 env < ea_t1 env + 14 * minute"
    "ea_t0 env \<le> int64_max" "ea_t1 env \<le> int64_max"
  using assms by (auto simp: ea_ok_def go_defs)

lemma ea_refresh1_claims:
  assumes "ea_ok env"
  shows "refresh_claims (json_claims (ea_refresh1 env))" "claim_str (json_claims (ea_refresh1 env)) ''fid'' = ea_fid env"
    "claim_str (json_claims (ea_refresh1 env)) ''jti'' = ea_r1 env"
  using assms by (simp_all add: ea_refresh1_def ea_ok_def refresh_claims_def claim_str_json minted_str)

context jwt_codec
begin

lemma ea_issue:
  "\<exists>p. issuer_Issue lib memory_store ea_issuer (ea_t0 env) (Inr (ea_fid env)) (Inr (ea_a1 env)) (Inr (ea_r1 env)) ea_claims NewMemoryStore =
      (NewMemoryStore\<lparr>ms_family := gm_put (ms_family NewMemoryStore) (ea_fid env) \<lparr>fe_jti = ea_r1 env, fe_exp = ea_t0 env + 24 * hour\<rparr>\<rparr>, Inr p) \<and>
    ExpiresIn p = 900 \<and> SignedString lib (ea_access1 env) (i_secret ea_issuer) = Inr (AccessToken p) \<and>
    SignedString lib (ea_refresh1 env) (i_secret ea_issuer) = Inr (RefreshToken p)"
proof -
  have "go_div (15 * minute) second = 900" by (simp add: go_div_def go_defs)
  moreover have "claim_str ea_claims ''sub'' \<noteq> []" by (simp add: claim_str_def ea_claims_def)
  ultimately show ?thesis
    using mint_memory [of ea_issuer "ea_t0 env" "ea_a1 env" "ea_r1 env" ea_claims "ea_fid env" NewMemoryStore]
    by (auto simp: issuer_Issue_def ea_access1_def ea_refresh1_def)
qed

lemma ea_parse_refresh1:
  assumes "ea_ok env" "SignedString lib (ea_refresh1 env) (i_secret ea_issuer) = Inr tok" "ea_t0 env \<le> t" "t < ea_t0 env + 14 * minute"
  shows "issuer_parseValid lib ea_issuer t tok = Inr (json_claims (ea_refresh1 env))"
  unfolding ea_refresh1_def
  by (rule parse_minted [OF assms(2) [unfolded ea_refresh1_def] minted_exact [OF ea_claims_exact]])
     (use ea_times [OF _ assms(3,4)] ea_clock [OF assms(1)] assms(1) in \<open>auto simp: ea_ok_def\<close>)

lemma ea_access_tokens_differ:
  assumes "ea_ok env" "SignedString lib (ea_access1 env) (i_secret ea_issuer) = Inr tok1"
    and "SignedString lib (ea_access2 env) (i_secret ea_issuer) = Inr tok2"
  shows "tok1 \<noteq> tok2"
proof
  assume e: "tok1 = tok2"
  have "issuer_parseValid lib ea_issuer (ea_t1 env) tok1 = Inr (json_claims (ea_access1 env))"
    unfolding ea_access1_def
    by (rule parse_minted [OF assms(2) [unfolded ea_access1_def] minted_exact [OF ea_claims_exact]])
       (use ea_times [of "ea_t0 env" "ea_t1 env"] ea_clock [OF assms(1)] assms(1) in \<open>auto simp: ea_ok_def\<close>)
  moreover have "issuer_parseValid lib ea_issuer (ea_t1 env) tok2 = Inr (json_claims (ea_access2 env))"
    unfolding ea_access2_def
    by (rule parse_minted [OF assms(3) [unfolded ea_access2_def] minted_exact [OF exact_json]])
       (use ea_times [of "ea_t1 env" "ea_t1 env"] ea_clock [OF assms(1)] in auto)
  ultimately have "json_claims (ea_access1 env) = json_claims (ea_access2 env)" using e by simp
  then have "ea_a1 env = ea_a2 env" unfolding ea_access1_def ea_access2_def by (metis claim_str_json minted_str(2))
  then show False using assms(1) by (simp add: ea_ok_def)
qed

lemma ea_rotation:
  assumes "ea_ok env" "SignedString lib (ea_refresh1 env) (i_secret ea_issuer) = Inr tok"
    and "gm_get (ms_family s) (ea_fid env) = Some \<lparr>fe_jti = ea_r1 env, fe_exp = ea_t0 env + 24 * hour\<rparr>"
  shows "\<exists>s2 p s3. issuer_Refresh lib memory_store ea_issuer (ea_t1 env) (Inr (ea_a2 env)) (Inr (ea_r2 env)) tok s = (s2, Inr p) \<and>
    SignedString lib (ea_access2 env) (i_secret ea_issuer) = Inr (AccessToken p) \<and>
    issuer_Refresh lib memory_store ea_issuer (ea_t2 env) (Inr (ea_a3 env)) (Inr (ea_r3 env)) tok s2 = (s3, Inl ErrTokenReuse)"
proof -
  note c = ea_refresh1_claims [OF assms(1)] and t = ea_clock [OF assms(1)]
  have p: "issuer_parseValid lib ea_issuer (ea_t1 env) tok = Inr (json_claims (ea_refresh1 env))"
    "issuer_parseValid lib ea_issuer (ea_t2 env) tok = Inr (json_claims (ea_refresh1 env))"
    by (rule ea_parse_refresh1 [OF assms(1,2)]; use t(4,5) assms(1) in \<open>auto simp: ea_ok_def\<close>)+
  obtain s2 p2 where r: "issuer_Refresh lib memory_store ea_issuer (ea_t1 env) (Inr (ea_a2 env)) (Inr (ea_r2 env)) tok s = (s2, Inr p2)"
    and fam: "ms_family s2 = gm_put (ms_family s) (ea_fid env) \<lparr>fe_jti = ea_r2 env, fe_exp = ea_t1 env + 24 * hour\<rparr>"
    and a2: "SignedString lib (ea_access2 env) (i_secret ea_issuer) = Inr (AccessToken p2)"
    using refresh_memory(1) [OF p(1) c(1) assms(3) [folded c(2)] t(1) c(3) [symmetric], of "ea_a2 env" "ea_r2 env"]
    unfolding c(2) ea_issuer_fields ea_access2_def by blast
  have "gm_get (ms_family s2) (claim_str (json_claims (ea_refresh1 env)) ''fid'') = Some \<lparr>fe_jti = ea_r2 env, fe_exp = ea_t1 env + 24 * hour\<rparr>"
    by (simp add: fam c(2))
  moreover have "ea_r2 env \<noteq> claim_str (json_claims (ea_refresh1 env)) ''jti''" using c(3) assms(1) by (auto simp: ea_ok_def)
  ultimately obtain s3 where "issuer_Refresh lib memory_store ea_issuer (ea_t2 env) (Inr (ea_a3 env)) (Inr (ea_r3 env)) tok s2 = (s3, Inl ErrTokenReuse)"
    using refresh_memory(2) [OF p(2) c(1) _ t(2)] by blast
  with r a2 show ?thesis by blast
qed

end

text \<open>
  C19. The sample's output. Within the lifetimes of its tokens, and if the random identifiers differ, the
  program prints that the password matches and a wrong one does not, that the access token lives 900
  seconds, that rotation gives another access token, that the replay of the old refresh token is
  refused, and that the session was logged out; it does not panic.
\<close>

theorem example_auth_output:
  assumes "bcrypt bc" "jwt_codec lib" "ea_ok env"
  shows "example_auth_main bc lib env =
    ([''password matches: true'', ''wrong password: false'', ''access token lifetime (s): 900'', ''token rotated: true'',
      ''reuse rejected: true'', ''logged out''], False)"
proof -
  obtain hash where hash: "auth_Hash bc (ea_salt env) ''s3cret-password'' = Inr hash"
    "auth_Compare bc hash ''s3cret-password'' = None" "auth_Compare bc hash ''nope'' \<noteq> None"
    using password_told_apart [OF assms(1), of "''s3cret-password''" "''nope''" "ea_salt env"] by auto
  obtain s1 p1 where iss: "issuer_Issue lib memory_store ea_issuer (ea_t0 env) (Inr (ea_fid env)) (Inr (ea_a1 env)) (Inr (ea_r1 env)) ea_claims NewMemoryStore = (s1, Inr p1)"
    "gm_get (ms_family s1) (ea_fid env) = Some \<lparr>fe_jti = ea_r1 env, fe_exp = ea_t0 env + 24 * hour\<rparr>" "ExpiresIn p1 = 900"
    and tok1: "SignedString lib (ea_access1 env) (i_secret ea_issuer) = Inr (AccessToken p1)"
      "SignedString lib (ea_refresh1 env) (i_secret ea_issuer) = Inr (RefreshToken p1)"
    using jwt_codec.ea_issue [OF assms(2), of env] by auto
  obtain s2 p2 s3 where ref: "issuer_Refresh lib memory_store ea_issuer (ea_t1 env) (Inr (ea_a2 env)) (Inr (ea_r2 env)) (RefreshToken p1) s1 = (s2, Inr p2)"
    "issuer_Refresh lib memory_store ea_issuer (ea_t2 env) (Inr (ea_a3 env)) (Inr (ea_r3 env)) (RefreshToken p1) s2 = (s3, Inl ErrTokenReuse)"
    and tok2: "SignedString lib (ea_access2 env) (i_secret ea_issuer) = Inr (AccessToken p2)"
    using jwt_codec.ea_rotation [OF assms(2,3) tok1(2) iss(2)] by blast
  have "AccessToken p1 \<noteq> AccessToken p2" by (rule jwt_codec.ea_access_tokens_differ [OF assms(2,3) tok1(1) tok2])
  moreover obtain s4 where "issuer_Logout lib memory_store ea_issuer (ea_t3 env) (AccessToken p2) (RefreshToken p2) s3 = (s4, None)"
    using jwt_codec.logout_memory [OF assms(2)] by (metis prod.collapse)
  moreover have "itoa 900 = ''900''" by code_simp
  ultimately show ?thesis using hash iss(1,3) ref by (auto simp: example_auth_main_def bool_text_def Let_def)
qed

definition ea_demo :: ea_env where
  "ea_demo = \<lparr>ea_salt = [], ea_fid = ''f'', ea_a1 = ''a1'', ea_r1 = ''r1'', ea_a2 = ''a2'', ea_r2 = ''r2'', ea_a3 = ''a3'', ea_r3 = ''r3'',
     ea_t0 = 0, ea_t1 = 1, ea_t2 = 2, ea_t3 = 3\<rparr>"

theorem example_auth_output_witness:
  "snd (example_auth_main clear_bcrypt unary_lib ea_demo) = False \<and> length (fst (example_auth_main clear_bcrypt unary_lib ea_demo)) = 6"
proof -
  have "ea_ok ea_demo" by (simp add: ea_ok_def ea_demo_def go_defs int64_max_def)
  from example_auth_output [OF clear.bcrypt_axioms unary.jwt_codec_axioms this] show ?thesis by simp
qed

end
