(* ===== verification/Example_Jobs.thy ===== *)
theory Example_Jobs
  imports Jobs
begin

text \<open>
  The sample programs of \<open>src/examples/mailer/main.go\<close> and \<open>src/examples/queue/main.go\<close>, on the
  models of the mailer and the jobs. The template engines and the queue are parameters; the locale
  \<open>asynq_worker\<close> adds to the laws of the queue that a worker takes the pending task.
\<close>

section \<open>Mail from templates\<close>

definition htmlTmpl :: string where
  "htmlTmpl = ''<h1>Welcome, {{.Name}}!</h1><p>Thanks for joining {{.App}}.</p>''"

definition textTmpl :: string where
  "textTmpl = ''Welcome, {{.Name}}! Thanks for joining {{.App}}.''"

text \<open>The lines printed, and whether the program panicked; a list of strings prints in brackets.\<close>

definition example_mailer_main ::
  "('t, (string \<times> string) list) engine \<Rightarrow> ('u, (string \<times> string) list) engine \<Rightarrow> string list \<times> bool" where
  "example_mailer_main html txt =
     (case mailer_Render html txt htmlTmpl textTmpl [(''Name'', ''Ada''), (''App'', ''fibr'')] of
        Inl e \<Rightarrow> ([], True)
      | Inr (hb, tb) \<Rightarrow>
          (case memory_Send \<lparr>mm_To = [''ada@example.com''], mm_Subject = ''Welcome aboard'', mm_HTML = hb, mm_Text = tb\<rparr> [] of
             (sent, Some e) \<Rightarrow> ([], True)
           | (sent, None) \<Rightarrow>
               (concat (map (\<lambda>m. [''sent to: ['' @ Join '' '' (mm_To m) @ '']'', ''subject: '' @ mm_Subject m, ''text: '' @ mm_Text m])
                  (memory_Messages sent)), False)))"

lemma example_mailer_output:
  assumes "fst html htmlTmpl = Inr ht" "fst txt textTmpl = Inr tt"
  shows "example_mailer_main html txt =
    (case (snd html ht [(''Name'', ''Ada''), (''App'', ''fibr'')], snd txt tt [(''Name'', ''Ada''), (''App'', ''fibr'')]) of
       (Inr _, Inr tb) \<Rightarrow> ([''sent to: [ada@example.com]'', ''subject: Welcome aboard'', ''text: '' @ tb], False)
     | _ \<Rightarrow> ([], True))"
  using assms
  by (auto simp: example_mailer_main_def mailer_Render_def memory_Send_def memory_Messages_def split: sum.splits)

section \<open>A job and its worker\<close>

definition taskWelcomeEmail :: string where "taskWelcomeEmail = ''email:welcome''"

record welcome_payload =
  wp_UserID :: int
  wp_Email :: string

text \<open>The queue's server and the lines written to the log.\<close>

record 'q queue_world =
  qw_redis :: 'q
  qw_lines :: "string list"

definition say :: "string \<Rightarrow> 'q queue_world \<Rightarrow> 'q queue_world" where
  "say l s = s\<lparr>qw_lines := qw_lines s @ [l]\<rparr>"

definition welcome_handler :: "'q queue_world \<Rightarrow> welcome_payload \<Rightarrow> 'q queue_world \<times> job_err option" where
  "welcome_handler s p = (say (''sending welcome email to user '' @ itoa (wp_UserID p) @ '' at '' @ wp_Email p) s, None)"

record ('o, 'c, 'v, 'm, 'q) asynq_lib =
  al_parse :: "string \<Rightarrow> string + 'o"
  al_newClient :: "'o \<Rightarrow> 'c"
  al_enqueue :: "'c \<Rightarrow> 'q queue_world \<Rightarrow> task \<Rightarrow> asynq_option list \<Rightarrow> 'q queue_world \<times> (string + string \<times> string)"
  al_close :: "'c \<Rightarrow> 'q queue_world \<Rightarrow> 'q queue_world \<times> string option"
  al_newServer :: "'o \<Rightarrow> int \<times> (string, int) gomap option \<Rightarrow> 'v"
  al_newMux :: 'm
  al_handleFunc :: "'m \<Rightarrow> string \<Rightarrow> 'q queue_world job_handler \<Rightarrow> 'm option"
  al_run :: "'v \<Rightarrow> 'm \<Rightarrow> 'q queue_world \<Rightarrow> 'q queue_world \<times> string option"

text \<open>How the program ends: normally, by a fatal log line, or by the mux's panic.\<close>

datatype ending = Exited | Fatally | Panicked

definition example_queue_main ::
  "('o, 'c, 'v, 'm, 'q) asynq_lib \<Rightarrow> welcome_payload json_coder \<Rightarrow> string \<Rightarrow> 'q queue_world \<Rightarrow> 'q queue_world \<times> ending" where
  "example_queue_main lib json env s =
     (let redisURL = (if env = [] then ''redis://localhost:6379'' else env)
      in case jobs_RedisConnOpt (al_parse lib) redisURL of
           Inl e \<Rightarrow> (say (''redis: '' @ e) s, Fatally)
         | Inr opt \<Rightarrow>
             (let client = jobs_NewClient (al_newClient lib) opt
              in case jobs_Enqueue json (al_enqueue lib (jc_inner client)) taskWelcomeEmail
                        \<lparr>wp_UserID = 1, wp_Email = ''ada@example.com''\<rparr> [] s of
                   (s1, Inl e) \<Rightarrow> (say (''enqueue: '' @ e) s1, Fatally)
                 | (s1, Inr (ident, queue)) \<Rightarrow>
                     (let s2 = fst (client_Close (al_close lib) client s1);
                          s3 = say (''enqueued task id='' @ ident @ '' queue='' @ queue) s2;
                          srv = jobs_NewServer (al_newServer lib) (al_newMux lib) opt \<lparr>wc_Concurrency = 10, wc_Queues = None\<rparr>
                      in case jobs_Handle json (al_handleFunc lib) taskWelcomeEmail welcome_handler (js_mux srv) of
                           None \<Rightarrow> (s3, Panicked)
                         | Some mux \<Rightarrow>
                             (case worker_Run (al_run lib) (srv\<lparr>js_mux := mux\<rparr>) (say ''worker started; press Ctrl+C to stop'' s3) of
                                (s4, Some e) \<Rightarrow> (say (''worker: '' @ e) s4, Fatally)
                              | (s4, None) \<Rightarrow> (s4, Exited)))))"

text \<open>
  What the queue adds: enqueueing and closing write no log lines and keep the tasks that wait, and a worker that
  runs until its signal works on the task that waits.
\<close>

locale asynq_worker = asynq handler_of "al_handleFunc lib" processTask work
  for handler_of :: "'m \<Rightarrow> string \<Rightarrow> 'q queue_world job_handler option"
    and lib :: "('o, 'c, 'v, 'm, 'q) asynq_lib"
    and processTask :: "'m \<Rightarrow> 'q queue_world job_handler"
    and work :: "'m \<Rightarrow> nat \<Rightarrow> task \<Rightarrow> 'q queue_world \<Rightarrow> 'q queue_world \<times> bool" +
  fixes pending :: "'q \<Rightarrow> task list"
  assumes enqueued: "al_enqueue lib c s t opts = (s', Inr i) \<Longrightarrow>
      pending (qw_redis s') = pending (qw_redis s) @ [t] \<and> qw_lines s' = qw_lines s"
    and closing: "al_close lib c s = (s', e) \<Longrightarrow> pending (qw_redis s') = pending (qw_redis s) \<and> qw_lines s' = qw_lines s"
    and running: "pending (qw_redis s) = [t] \<Longrightarrow>
      \<exists>n q. pending q = [] \<and> al_run lib v m s = (fst (work m n t (s\<lparr>qw_redis := q\<rparr>)), None)"

definition demo_queue :: "(unit, unit, unit, task list queue_world demo_mux, task list) asynq_lib" where
  "demo_queue = \<lparr>al_parse = (\<lambda>u. if u = ''redis://localhost:6379'' then Inr () else Inl ''invalid scheme''),
     al_newClient = (\<lambda>_. ()), al_enqueue = (\<lambda>_ s t _. (s\<lparr>qw_redis := qw_redis s @ [t]\<rparr>, Inr (''t1'', ''default''))),
     al_close = (\<lambda>_ s. (s, None)), al_newServer = (\<lambda>_ _. ()), al_newMux = [], al_handleFunc = demo_handleFunc,
     al_run = (\<lambda>_ m s. case qw_redis s of
         [t] \<Rightarrow> (fst (tries (\<lambda>s. demo_processTask m s t) 25 (s\<lparr>qw_redis := []\<rparr>)), None)
       | _ \<Rightarrow> (s, None))\<rparr>"

interpretation dqueue: asynq_worker gm_get demo_queue demo_processTask
    "\<lambda>m n t s. tries (\<lambda>s. demo_processTask m s t) n s" "\<lambda>q. q"
proof -
  have "al_handleFunc demo_queue = demo_handleFunc" by (simp add: demo_queue_def)
  then have a: "asynq gm_get (al_handleFunc demo_queue) demo_processTask (\<lambda>m n t s. tries (\<lambda>s. demo_processTask m s t) n s)"
    using dasynq.asynq_axioms by simp
  show "asynq_worker gm_get demo_queue demo_processTask (\<lambda>m n t s. tries (\<lambda>s. demo_processTask m s t) n s) (\<lambda>q. q)"
    by (intro asynq_worker.intro a, unfold_locales) (auto simp: demo_queue_def)
qed

context asynq_worker
begin

lemma welcome_done:
  assumes "jobs_Handle json (al_handleFunc lib) taskWelcomeEmail welcome_handler m = Some m'"
    and "jc_Unmarshal json b = Inr p"
  shows "work m' n \<lparr>tk_Type = taskWelcomeEmail, tk_Payload = b\<rparr> s = (fst (welcome_handler s p), True)"
  using handled [OF assms(1), of "\<lparr>tk_Type = taskWelcomeEmail, tk_Payload = b\<rparr>" n s] assms(2)
  by (simp add: tries.simps typed_handler_def welcome_handler_def)

end

lemma itoa_1: "itoa 1 = ''1''"
  by code_simp

text \<open>
  The sample job is done once: when the URL parses, the payload survives its encoding and the queue takes the
  task, a worker that finds no other task logs the welcome mail of the payload exactly once, after the
  lines of the producer, and the program ends normally.
\<close>

theorem example_queue_output:
  assumes "asynq_worker handler_of lib processTask work pending" "pending (qw_redis s) = []"
    and "al_parse lib ''redis://localhost:6379'' = Inr opt" "al_handleFunc lib (al_newMux lib) taskWelcomeEmail = (\<lambda>h. Some (mk h))"
    and "jc_Marshal json \<lparr>wp_UserID = 1, wp_Email = ''ada@example.com''\<rparr> = Inr b"
    and "jc_Unmarshal json b = Inr \<lparr>wp_UserID = 1, wp_Email = ''ada@example.com''\<rparr>"
    and "al_enqueue lib (al_newClient lib opt) s \<lparr>tk_Type = taskWelcomeEmail, tk_Payload = b\<rparr> [] = (sq, Inr (ident, queue))"
  shows "\<exists>s'. example_queue_main lib json [] s = (s', Exited) \<and>
    qw_lines s' = qw_lines s @ [''enqueued task id='' @ ident @ '' queue='' @ queue,
      ''worker started; press Ctrl+C to stop'', ''sending welcome email to user 1 at ada@example.com'']"
proof -
  let ?t = "\<lparr>tk_Type = taskWelcomeEmail, tk_Payload = b\<rparr>"
  let ?srv = "jobs_NewServer (al_newServer lib) (al_newMux lib) opt \<lparr>wc_Concurrency = 10, wc_Queues = None\<rparr>"
  obtain s2 e2 where cl: "al_close lib (al_newClient lib opt) sq = (s2, e2)" by fastforce
  obtain m where m: "jobs_Handle json (al_handleFunc lib) taskWelcomeEmail welcome_handler (al_newMux lib) = Some m"
    using assms(4) by (simp add: jobs_Handle_def)
  define s3 where "s3 = say ''worker started; press Ctrl+C to stop'' (say (''enqueued task id='' @ ident @ '' queue='' @ queue) s2)"
  have p: "pending (qw_redis s3) = [?t]" and l: "qw_lines s3 = qw_lines s @ [''enqueued task id='' @ ident @ '' queue='' @ queue, ''worker started; press Ctrl+C to stop'']"
    using asynq_worker.enqueued [OF assms(1,7)] asynq_worker.closing [OF assms(1) cl] assms(2) by (auto simp: s3_def say_def)
  obtain n q where run: "al_run lib (js_inner ?srv) m s3 = (fst (work m n ?t (s3\<lparr>qw_redis := q\<rparr>)), None)"
    using asynq_worker.running [OF assms(1) p] by blast
  have "example_queue_main lib json [] s = (fst (work m n ?t (s3\<lparr>qw_redis := q\<rparr>)), Exited)"
    using assms(3,5,7) cl m run
    by (simp add: example_queue_main_def jobs_RedisConnOpt_def jobs_NewClient_def jobs_Enqueue_def client_Close_def
        jobs_NewServer_def worker_Run_def Let_def s3_def)
  then show ?thesis
    using asynq_worker.welcome_done [OF assms(1) m assms(6)] l
    by (simp add: welcome_handler_def say_def itoa_1)
qed

definition demo_coder :: "welcome_payload json_coder" where
  "demo_coder = \<lparr>jc_Marshal = (\<lambda>p. Inr (wp_Email p)), jc_Unmarshal = (\<lambda>b. Inr \<lparr>wp_UserID = 1, wp_Email = b\<rparr>)\<rparr>"

theorem example_queue_output_witness:
  "\<exists>s'. example_queue_main demo_queue demo_coder [] \<lparr>qw_redis = [], qw_lines = []\<rparr> = (s', Exited) \<and>
    qw_lines s' = [''enqueued task id=t1 queue=default'', ''worker started; press Ctrl+C to stop'',
      ''sending welcome email to user 1 at ada@example.com'']"
  using example_queue_output [OF dqueue.asynq_worker_axioms, where s = "\<lparr>qw_redis = [], qw_lines = []\<rparr>" and opt = "()"
      and mk = "\<lambda>h. [(taskWelcomeEmail, h)]" and json = demo_coder and b = "''ada@example.com''"
      and sq = "\<lparr>qw_redis = [\<lparr>tk_Type = taskWelcomeEmail, tk_Payload = ''ada@example.com''\<rparr>], qw_lines = []\<rparr>"
      and ident = "''t1''" and queue = "''default''"]
  by (simp add: demo_queue_def demo_coder_def demo_handleFunc_def gm_put_def fun_eq_iff)

end
