(* ===== verification/Example_Main.thy ===== *)
theory Example_Main
  imports Serving Config Toolkit
begin

text \<open>
  The first sample program, \<open>src/examples/main.go\<close>: configuration from the environment, a database, the
  assembled application with one route, and running it. It is the composition of \<open>Config\<close>,
  \<open>Toolkit\<close>, \<open>Bootstrap\<close> and \<open>Service\<close>; the environment, the drivers and the
  third-party middleware stay parameters.
\<close>

section \<open>The program\<close>

definition main_fields :: "cfg_field list" where
  "main_fields = [\<lparr>cf_tag = ''DATABASE_URL'', cf_default = Some ''file::memory:?cache=shared'', cf_required = [],
     cf_settable = True, cf_kind = KString True, cf_value = VStr []\<rparr>]"

text \<open>The application is given the closing of the database and a check that pings it.\<close>

definition main_options :: "'s ctx_hook \<Rightarrow> string option \<Rightarrow> 's options" where
  "main_options closeDB dbPing =
     \<lparr>o_RequestTimeout = 0, o_ShutdownTimeout = 0, o_DB = Some closeDB, o_EnableCORS = True, o_RateLimit = 100,
      o_SecurityHeaders = False, o_Compression = False, o_Idempotency = False, o_AutoMigrate = False, o_Metrics = False,
      o_Tracing = False, o_Cleanup = [], o_Asynqmon = None, o_HealthChecks = [PingBun_result dbPing], o_ErrorHandler = None,
      o_OpenAPI = None, o_OpenAPISpecURL = [], o_OpenAPIDocsURL = [], o_I18n = None\<rparr>"

definition hello_json :: string where
  "hello_json = CHR 0x22 # ''Hello, World!'' @ [CHR 0x22]"

definition hello_route :: route where
  "hello_route = RouteGet ''/'' (\<lambda>env checks w c. (w, SendSuccess (Some hello_json) ''Welcome'' [] c, Ret None))"

definition main_app :: "(string \<Rightarrow> rat option) \<Rightarrow> thirdparty \<Rightarrow> 's ctx_hook \<Rightarrow> string option \<Rightarrow> 's app" where
  "main_app parseFloat tp closeDB dbPing =
     (let a = bootstrap_New parseFloat tp (main_options closeDB dbPing)
      in a\<lparr>a_routes := a_routes a @ [hello_route]\<rparr>)"

text \<open>Up to running: the calls on the database driver and the application, none after a panic.\<close>

definition example_main ::
  "load_world \<Rightarrow> env_vars \<Rightarrow> (string \<Rightarrow> string option) \<Rightarrow> (duration \<Rightarrow> string option) \<Rightarrow> (string \<Rightarrow> rat option) \<Rightarrow> thirdparty \<Rightarrow>
   's ctx_hook \<Rightarrow> string option \<Rightarrow> db_call list \<times> 's app option" where
  "example_main w vars openSqlite ping parseFloat tp closeDB dbPing =
     (case LoadConfig w vars (OutStruct main_fields) of
        (OutStruct (f # _), Loaded) \<Rightarrow>
          (case cf_value f of
             VStr url \<Rightarrow>
               (case NewBun openSqlite ping url [] of
                  (calls, Inl e) \<Rightarrow> (calls, None)
                | (calls, Inr kind) \<Rightarrow> (calls, Some (main_app parseFloat tp closeDB dbPing)))
           | _ \<Rightarrow> ([], None))
      | _ \<Rightarrow> ([], None))"

text \<open>Running it: the line printed, and whether it ends with a panic.\<close>

definition main_run :: "'s app \<Rightarrow> string option \<Rightarrow> time \<Rightarrow> (time \<Rightarrow> duration \<Rightarrow> 's \<Rightarrow> 's) \<Rightarrow> 's ctx_hook \<Rightarrow> 's \<Rightarrow> 's \<times> string list \<times> bool" where
  "main_run a listenErr now drain shutdown s =
     (case app_Run a listenErr now drain shutdown s of (s', err) \<Rightarrow> (s', [''Server listening on :3000''], err \<noteq> None))"

section \<open>What it does\<close>

text \<open>Third-party middleware that lets the answers of what it wraps through.\<close>

definition passes :: "mw \<Rightarrow> bool" where
  "passes m \<longleftrightarrow> (\<forall>h P c. answers h P c \<longrightarrow> answers (m h) P c)"

lemma passes_id: "passes id"
  by (simp add: passes_def)

lemma main_LoadConfig:
  assumes "lw_getwd w = Inr wd" "lw_dotenv w (filepath_Clean (wd @ ''/.env'')) vars = res" "\<And>e. res \<noteq> EnvError e"
    and "gm_get (case res of EnvLoaded v \<Rightarrow> v | _ \<Rightarrow> vars) ''DATABASE_URL'' = u" "u = None \<or> u = Some []"
  shows "LoadConfig w vars (OutStruct main_fields) =
    (OutStruct [(hd main_fields)\<lparr>cf_value := VStr ''file::memory:?cache=shared''\<rparr>], Loaded)"
proof -
  have up: "ToUpper ''DATABASE_URL'' = ''DATABASE_URL''" by code_simp
  show ?thesis using assms
    by (cases res) (auto simp: LoadConfig_def load_struct_def main_fields_def field_raw_def up load_problems_def Let_def)
qed

lemma main_answers:
  assumes "passes (cors tp)" "passes (fiber_limiter tp 100)"
    and "\<And>c'. f_path c' = f_path c \<Longrightarrow> f_method c' = f_method c \<Longrightarrow> gm ''/'' c' \<and> \<not> gm ''/livez'' c' \<and> \<not> gm ''/readyz'' c'"
  shows "answers (dispatch pm gm env checks (a_routes (main_app parseFloat tp closeDB dbPing)))
    (\<lambda>c'. f_status c' = 200 \<and> f_body c' = Some (Envelope \<lparr>r_Code = 200, r_Message = ''Welcome'', r_Error = [],
       r_Data = Some hello_json, r_Status = ''success''\<rparr>)) c" (is "answers _ ?P c")
proof -
  have h: "answers (dispatch pm gm env checks [hello_route]) ?P c"
    using assms(3) unfolding answers_def hello_route_def by (simp add: SendSuccess_def send_def)
  have p: "passes m \<Longrightarrow> answers (dispatch pm gm env checks rs) ?P c \<Longrightarrow>
      answers (dispatch pm gm env checks (RouteUse (\<lambda>env. m) # rs)) ?P c" for m rs
    by (rule answers_Use) (simp add: passes_def)
  have "answers (dispatch pm gm env checks (RouteUse (\<lambda>env. cors tp) # RouteUse (\<lambda>env. fiber_limiter tp 100) # [hello_route])) ?P c"
    by (intro p assms h)
  then have b: "answers (dispatch pm gm env checks (bootstrap_back tp (main_options closeDB dbPing) @ [hello_route])) ?P c"
    by (simp add: bootstrap_back_def main_options_def del: dispatch.simps)
  have "answers (dispatch pm gm env checks (health_RegisterProvider @ rs)) ?P c"
    if "answers (dispatch pm gm env checks rs) ?P c" for rs
    using that assms(3) unfolding answers_def health_RegisterProvider_def health_RegisterProviderAt_def by simp
  from answers_front [OF this [OF b], of "main_options closeDB dbPing"] show ?thesis
    by (simp add: main_app_def bootstrap_New_def main_options_def Let_def)
qed


definition main_world :: load_world where
  "main_world = \<lparr>lw_getwd = Inr ''/srv'', lw_dotenv = (\<lambda>p vars. EnvMissing), lw_quote = id, lw_float = (\<lambda>b s. Inl s)\<rparr>"


end
