(* ===== verification/Spec2Isabelle.thy ===== *)
theory Spec2Isabelle
  imports Cache Http_Client Retry Lock Auth Rate_Limit Ws_Hub Outbox Feature_Flag Pagination Webhook Bootstrap Generator_Props Open_Api_Props Config Sse Uploader Redis_Client Toolkit Fibr_Test Command Delivery Session Event_Bus Jobs Redis_Counter Serving Password Example_Api Example_Auth Example_Jobs Example_Main
begin

text \<open>
  \<^bold>\<open>Verification of fibr\<close>

  fibr is a Go toolkit of small packages for web services on the Fiber framework, an application
  that puts them together (\<open>src/bootstrap\<close>), a generator of projects that use them
  (\<open>src/cmd/fibr\<close>) and five sample programs (\<open>src/examples\<close>). This library models the packages as functions and step relations translated
  from the Go source and proves what makes each of them correct.

  \<^bold>\<open>How the parts interact.\<close> A request enters the Fiber application built by \<open>bootstrap_New\<close>: a
  list of routes and middleware in the order of registration. Recovery, request context, locale,
  logging and metrics wrap everything after them; errors a handler returns become the JSON envelope
  of \<open>apierror_Handler\<close>. Routes are guarded by bearer tokens (\<open>Auth\<close>), API keys, rate limits and
  webhook signatures. Several packages share a Redis server: the lock, the token store, the
  limiter, the flag provider, the cache-aside helper and the storage adapter. The outbox relay
  publishes rows of a table to a broker under the distributed lock; the inbox makes consumers
  idempotent; the hub passes frames to sockets on every replica through a backplane. Outgoing calls
  go through the HTTP client with its retries and its breaker. List endpoints use the query
  modifiers of the parser and the pages built from their rows.

  \<^bold>\<open>Shape of the models.\<close>
  \<^item> A Go struct is a \<open>record\<close>, a tagged set of cases a \<open>datatype\<close>, a Go map an association list
    with distinct keys (\<open>gomap\<close>), whose order is that of an iteration; a string is a list of bytes.
  \<^item> A function that changes state takes it and returns it. A critical section of a mutex is one
    step; interleavings are sequences of such steps, as inductive relations (\<open>cache_step\<close>,
    \<open>lock_step\<close>, \<open>ws_step\<close>, \<open>ob_step\<close>, \<open>dl_step\<close>, \<open>se_step\<close>, \<open>ab_step\<close>) or as explicit schedules.
  \<^item> An error is a value: \<open>Inl\<close> of an error type, an option, or \<open>Panic\<close>. Every early return of the
    source is a branch.
  \<^item> The clock is an argument, read once where the code reads it once. Times and durations count
    nanoseconds, in milliseconds inside the limiter's script.
  \<^item> Integers are \<open>int\<close>, with the wrap-around of 64 bits written out (\<open>wrap64\<close>) where a value can
    get there, and 32-bit words for the FNV hash and the replica counter. Floating-point numbers are exact
    rationals, except a number decoded from a cursor, which is rounded to 53 bits.
  \<^item> What is outside the repository (Redis, the database, brokers, the JWT and JSON libraries,
    fasthttp, Fiber's routing, the SMTP and template libraries, the operating system's failures) is an
    argument. What the code relies on is stated by locales or by named hypotheses and shown to be
    satisfiable by an interpretation or a witness. The parts of Go's standard library that are used are
    written out: \<open>strings\<close>, \<open>strconv\<close>, hexadecimal, Base64, paths and the file tree, query escaping.

  \<^bold>\<open>Theories.\<close>
  \<^item> \<open>Fibr_Prelude\<close>: Go maps, joined errors, functional options, integer division; \<open>Go_Strings\<close> and
    \<open>Filepath\<close>: the standard library. Collections \<open>go_defs\<close> and \<open>inv_intros\<close>.
  \<^item> \<open>Cache\<close> (\<open>src/cache/cache.go\<close>): the cache with its heap of entries, its recency list and its
    key map. The invariant ties the three together; the pointer structure refines a list of key,
    value and expiry in order of use; loading runs once per flight.
  \<^item> \<open>Breaker\<close>, \<open>Http_Client\<close> (\<open>src/http\<close>), \<open>Retry\<close> (\<open>src/retry\<close>): when the breaker opens and admits one
    probe; which attempts are sent and what is returned.
  \<^item> \<open>Redis_Iface\<close>: the commands of Redis and the locale \<open>redis_server\<close>, interpreted on a key space;
    \<open>Redis_Client\<close> (\<open>src/redis\<close>) extends it with commands on several keys and shows that the storage
    adapter is a key-value store of its own; \<open>Redis_Counter\<close> with counters and lifetimes: clients that
    count get the running totals of their counter.
  \<^item> \<open>Lock\<close> (\<open>src/lock\<close>): the protocol of clients, server and clock; mutual exclusion until the deadline
    of a handle, release and extension by the owner only.
  \<^item> \<open>Token_Store\<close>, \<open>Auth\<close> (\<open>src/auth\<close>, \<open>src/jwt\<close>): the store interface as a locale with both
    implementations; rotation with reuse detection, logout, and the gate of the guards. \<open>Session\<close> cuts a
    refresh where other requests can come in between, as the steps of an interleaved system: a revoked family
    stays dead, unless a refresh had passed its check. \<open>Password\<close>: hashing over the laws of bcrypt.
  \<^item> \<open>Rate_Limit\<close> (\<open>src/ratelimit\<close>): the Lua script; what a window admits, and that waiting as told
    suffices.
  \<^item> \<open>Ws_Hub\<close> (\<open>src/ws\<close>): connections at addresses, rooms, send queues and replicas; frames in order,
    queues within their capacity, delivery once to each member.
  \<^item> \<open>Outbox\<close> (\<open>src/outbox\<close>, \<open>src/inbox\<close>): no event is lost, one batch in detail, exactly-once
    consumption; locales for the table and the broker. \<open>Delivery\<close>: producers, relays that crash and overlap,
    and a consumer, statement by statement: each event takes effect exactly once, and from every state all of
    them still can; the calls of \<open>Outbox\<close> are runs of these steps.
  \<^item> \<open>Feature_Flag\<close> (\<open>src/featureflag\<close>), \<open>Webhook\<close> (\<open>src/webhook\<close>), \<open>I18n\<close> (\<open>src/i18n\<close>).
  \<^item> \<open>Parser\<close>, \<open>Pagination\<close> (\<open>src/parser\<close>, \<open>src/pagination\<close>): the seek predicate is the order of the
    columns, so walking the cursors enumerates a table; the locale \<open>keyset_table\<close> holds what the
    documentation asks of it. \<open>Json_Values\<close>: integer and text keys in their order, and their JSON coder.
  \<^item> \<open>Api_Layer\<close> (\<open>src/apierror\<close>, \<open>src/response\<close>, \<open>src/middleware\<close>, \<open>src/context\<close>, \<open>src/metrics\<close>,
    \<open>src/bind\<close>, \<open>src/apikey\<close>), \<open>Service\<close> (\<open>src/health\<close>, \<open>src/server\<close>, \<open>src/dbresolver\<close>,
    \<open>src/events\<close>, \<open>src/slug\<close>), \<open>Bootstrap\<close> (\<open>src/bootstrap\<close>): every request is answered by the envelope
    of its outcome, mounting stops at the first failure, shutdown runs in order. \<open>Serving\<close>: the health endpoints and
    running until a signal. \<open>Event_Bus\<close>: the goroutines of the asynchronous bus, each handler run once for each event.
  \<^item> \<open>Telemetry\<close> (\<open>src/logger\<close>, \<open>src/tracing\<close>): what is logged at which level, and that a failed set-up of tracing
    leaves the globals alone; locales for zerolog and the OpenTelemetry SDK.
  \<^item> \<open>Generator\<close>, \<open>Generator_Props\<close>, \<open>Command\<close> (\<open>src/cmd/fibr\<close>): generating either completes or leaves
    nothing behind, adding a module touches only its new files, and the commands with their flags.
  \<^item> \<open>Open_Api\<close>, \<open>Open_Api_Props\<close> (\<open>src/openapi\<close>): reflection of types into schemas; it returns on
    recursive types, and every reference of the document resolves.
  \<^item> \<open>Config\<close> (\<open>src/config\<close>): loaded fields hold values of their kind and width. \<open>Sse\<close> (\<open>src/sse\<close>): a reader
    of the format gets back the events. \<open>Uploader\<close> (\<open>src/uploader\<close>): an upload changes one plainly
    named file.
  \<^item> \<open>Toolkit\<close> (\<open>src/audit\<close>, \<open>src/jobs\<close>, \<open>src/mailer\<close>, \<open>src/validator\<close>, \<open>src/migrate\<close>,
    \<open>src/database\<close>), \<open>Fibr_Test\<close> (\<open>src/fibrtest\<close>): trails listed newest first, jobs delivered as
    enqueued, migrations under the lock, no leaked pool, and what a test client sends. \<open>Jobs\<close>: client, worker and
    scheduler with their options, over a locale for the queue's routing and retries.
  \<^item> \<open>Example_Api\<close>, \<open>Example_Auth\<close>, \<open>Example_Jobs\<close>, \<open>Example_Main\<close> (\<open>src/examples\<close>): the sample programs, composed
    from the models above: what a run of the service answers, caches, logs and audits, and what the programs print.

  \<^bold>\<open>Bounds and fuel.\<close> Loops with a counter recurse on it (attempts, keys, rows). Walking a table takes
  as many pages as it has rows at most, so \<open>length table + 1\<close> is enough fuel, which
  \<open>keyset_walk_complete\<close> proves. Reflecting a type takes fuel, since types are recursive;
  \<open>openapi_registration_returns\<close> proves that some amount suffices for every sequence of registrations
  whose types recur through named structs only, and \<open>openapi_recursive_slice_diverges\<close> that no amount does for a slice
  type that contains itself. Every other recursion has a termination proof.

  \<^bold>\<open>Deviations.\<close> Where modelling showed that the code does not do what it means to, or not what it
  says, a theorem states what it does: for instance \<open>keyset_large_ids_never_end\<close> (cursors round
  integers to 53 bits), \<open>openapi_same_name_shares_component\<close>, \<open>sse_name_injects_field\<close>,
  \<open>failed_upload_removes_previous\<close>, \<open>config_named_string_slice_panics\<close>,
  \<open>storage_reset_pattern_unescaped\<close>, \<open>ratelimit_zero_refill_resets\<close>,
  \<open>http_cancelled_request_trips_breaker\<close>, \<open>logout_undone_by_refresh\<close> (a refresh past its check revives a
  family that logout revoked), \<open>outbox_published_without_subscriber\<close>, \<open>refresh_blocks_no_access_token\<close>,
  \<open>password_hashing\<close> (a password beyond 72 bytes is refused, not cut).

  \<^bold>\<open>Not modelled.\<close> The templates of the generator and the Swagger page, which are data; how signals reach the
  process, what zerolog, the OpenTelemetry SDK, the queue, the drivers and the mail client do beyond the laws
  stated of them; parsing of the command line; the start-up of the sample service (its routes are modelled);
  accessors that only forward to the websocket library. Rounding of floating-point numbers in back-off and
  buckets, two clock readings that fall apart within one operation, and cursors over time and nullable columns,
  whose order is the database's, are not modelled either.
\<close>

end
